(* ===== verification/Prelude.thy ===== *)
theory Prelude
  imports Main "HOL-Library.Word"
begin

unbundle bit_operations_syntax

text \<open>
  Shared ground of the development: the machine types of the kernel (i386, so \<open>char\<close> is a
  signed byte, \<open>int\<close> and pointers are 32 bits), byte-addressed memory behind an address
  translation, and the generic facts on lists and words that several components use.

  Memory is a total function from physical addresses to bytes. The CPU reaches it through the
  page tables; a routine that dereferences pointers therefore takes the translation
  \<open>tr\<close> from virtual to physical addresses as an argument. A page fault stops this
  kernel for good (\<open>page_fault_handler\<close> spins), so a model function describes the runs
  in which every address it touches is mapped.
\<close>

section \<open>Types\<close>

type_synonym byte = "8 word"
type_synonym u16 = "16 word"
type_synonym u32 = "32 word"
type_synonym addr = "32 word"
type_synonym mem = "addr \<Rightarrow> byte"
type_synonym xlat = "addr \<Rightarrow> addr"

text \<open>A C string argument that is only read: the bytes at each offset from the pointer.\<close>

type_synonym reader = "u32 \<Rightarrow> byte"

named_theorems mem_simps \<open>loads and stores\<close>

section \<open>Words\<close>

lemma unat_lt32: "unat (n :: u32) < 2 ^ 32"
  using unsigned_less[of n] by simp

lemma unat_Suc_less:
  fixes i n :: u32
  assumes "i < n"
  shows "unat (i + 1) = Suc (unat i)"
proof -
  have "unat i < unat n" using assms by (simp add: word_less_nat_alt)
  then have "Suc (unat i) < 2 ^ 32" using unat_lt32[of n] by simp
  then show ?thesis by (simp add: unat_word_ariths)
qed

lemma word_count_up:
  fixes i n :: u32
  assumes "i < n"
  shows "unat n - unat (i + 1) < unat n - unat i"
  using assms by (simp add: unat_Suc_less word_less_nat_alt)

lemma word_dec_less:
  fixes n :: "'a::len word"
  assumes "n \<noteq> 0"
  shows "unat (n - 1) < unat n"
proof -
  have "0 < unat n" using assms by (simp add: unat_gt_0)
  then show ?thesis using assms by (simp add: unat_minus_one)
qed

lemma unat_minus_one_Suc:
  fixes n :: "'a::len word"
  assumes "n \<noteq> 0"
  shows "unat n = Suc (unat (n - 1))"
proof -
  have "0 < unat n" using assms by (simp add: unat_gt_0)
  then show ?thesis using assms by (simp add: unat_minus_one)
qed

lemma unat_of_nat32: "k < 2 ^ 32 \<Longrightarrow> unat (of_nat k :: u32) = k"
  by (simp add: unat_of_nat take_bit_nat_eq_self)

lemma of_nat_unat32: "of_nat (unat (w :: u32)) = w"
  by simp

section \<open>Memory\<close>

definition load8 :: "xlat \<Rightarrow> mem \<Rightarrow> addr \<Rightarrow> byte" where
  "load8 tr m a = m (tr a)"

definition store8 :: "xlat \<Rightarrow> addr \<Rightarrow> byte \<Rightarrow> mem \<Rightarrow> mem" where
  "store8 tr a b m = m(tr a := b)"

text \<open>Little-endian accesses of two and four bytes.\<close>

definition load32 :: "xlat \<Rightarrow> mem \<Rightarrow> addr \<Rightarrow> u32" where
  "load32 tr m a =
     (ucast (load8 tr m a) OR push_bit 8 (ucast (load8 tr m (a + 1))) OR
      push_bit 16 (ucast (load8 tr m (a + 2))) OR push_bit 24 (ucast (load8 tr m (a + 3))))"

definition store16 :: "xlat \<Rightarrow> addr \<Rightarrow> u16 \<Rightarrow> mem \<Rightarrow> mem" where
  "store16 tr a w m = store8 tr (a + 1) (ucast (drop_bit 8 w)) (store8 tr a (ucast w) m)"

definition store32 :: "xlat \<Rightarrow> addr \<Rightarrow> u32 \<Rightarrow> mem \<Rightarrow> mem" where
  "store32 tr a w m =
     store8 tr (a + 3) (ucast (drop_bit 24 w)) (store8 tr (a + 2) (ucast (drop_bit 16 w))
      (store8 tr (a + 1) (ucast (drop_bit 8 w)) (store8 tr a (ucast w) m)))"

text \<open>The \<open>n\<close> bytes from \<open>a\<close> on, and the sequential writing of a byte list.\<close>

definition bytes_at :: "xlat \<Rightarrow> mem \<Rightarrow> addr \<Rightarrow> nat \<Rightarrow> byte list" where
  "bytes_at tr m a n = map (\<lambda>i. load8 tr m (a + of_nat i)) [0..<n]"

fun write_bytes :: "xlat \<Rightarrow> addr \<Rightarrow> byte list \<Rightarrow> mem \<Rightarrow> mem" where
  "write_bytes tr a [] m = m"
| "write_bytes tr a (b # bs) m = write_bytes tr (a + 1) bs (store8 tr a b m)"

text \<open>The virtual addresses of an \<open>n\<close>-byte object at \<open>a\<close>.\<close>

definition region :: "addr \<Rightarrow> nat \<Rightarrow> addr set" where
  "region a n = (\<lambda>i. a + of_nat i) ` {..<n}"

lemma load8_store8: "load8 tr (store8 tr a b m) c = (if tr c = tr a then b else load8 tr m c)"
  by (simp add: load8_def store8_def)

lemma load8_store8_same [mem_simps]: "load8 tr (store8 tr a b m) a = b"
  by (simp add: load8_store8)

lemma load8_store8_other [mem_simps]:
  "tr c \<noteq> tr a \<Longrightarrow> load8 tr (store8 tr a b m) c = load8 tr m c"
  by (simp add: load8_store8)

lemma length_bytes_at [simp]: "length (bytes_at tr m a n) = n"
  by (simp add: bytes_at_def)

lemma nth_bytes_at [simp]: "i < n \<Longrightarrow> bytes_at tr m a n ! i = load8 tr m (a + of_nat i)"
  by (simp add: bytes_at_def)

lemma bytes_at_0 [simp]: "bytes_at tr m a 0 = []"
  by (simp add: bytes_at_def)

lemma bytes_at_Suc: "bytes_at tr m a (Suc n) = load8 tr m a # bytes_at tr m (a + 1) n"
  by (simp add: bytes_at_def upt_conv_Cons map_Suc_upt[symmetric] del: upt_Suc)
     (simp add: o_def add.assoc)

lemma bytes_at_add: "bytes_at tr m a (n + k) = bytes_at tr m a n @ bytes_at tr m (a + of_nat n) k"
  by (induction n arbitrary: a) (simp_all add: bytes_at_Suc add.assoc)

lemma take_bytes_at: "take k (bytes_at tr m a n) = bytes_at tr m a (min k n)"
  by (rule nth_equalityI) auto

lemma drop_bytes_at: "drop k (bytes_at tr m a n) = bytes_at tr m (a + of_nat k) (n - k)"
  by (rule nth_equalityI) (auto simp: add.assoc)

lemma bytes_at_cong:
  "(\<And>i. i < n \<Longrightarrow> load8 tr m (a + of_nat i) = load8 tr m' (a + of_nat i)) \<Longrightarrow>
   bytes_at tr m a n = bytes_at tr m' a n"
  by (simp add: bytes_at_def)

lemma region_0 [simp]: "region a 0 = {}"
  by (simp add: region_def)

lemma region_Suc: "region a (Suc n) = insert a (region (a + 1) n)"
  unfolding region_def by (auto simp: lessThan_Suc_eq_insert_0 image_image add.assoc)

lemma in_region: "i < n \<Longrightarrow> a + of_nat i \<in> region a n"
  by (auto simp: region_def)

lemma region_mono: "n \<le> k \<Longrightarrow> region a n \<subseteq> region a k"
  by (auto simp: region_def)

lemma region_shift: "k + n \<le> l \<Longrightarrow> region (a + of_nat k) n \<subseteq> region a l"
proof
  fix x assume "k + n \<le> l" and "x \<in> region (a + of_nat k) n"
  then obtain i where "i < n" and x: "x = a + of_nat k + of_nat i" by (auto simp: region_def)
  then have "k + i < l" and "x = a + of_nat (k + i)" using \<open>k + n \<le> l\<close> by (auto simp: add.assoc)
  then show "x \<in> region a l" using in_region by blast
qed

lemma write_bytes_append:
  "write_bytes tr a (xs @ ys) m = write_bytes tr (a + of_nat (length xs)) ys (write_bytes tr a xs m)"
  by (induction xs arbitrary: a m) (simp_all add: add.assoc)

lemma write_bytes_other:
  "p \<notin> tr ` region a (length bs) \<Longrightarrow> write_bytes tr a bs m p = m p"
  by (induction bs arbitrary: a m) (auto simp: region_Suc store8_def)

lemma load8_write_bytes_other:
  "tr c \<notin> tr ` region a (length bs) \<Longrightarrow> load8 tr (write_bytes tr a bs m) c = load8 tr m c"
  by (simp add: load8_def write_bytes_other)

lemma bytes_at_write_bytes_other:
  assumes "tr ` region c n \<inter> tr ` region a (length bs) = {}"
  shows "bytes_at tr (write_bytes tr a bs m) c n = bytes_at tr m c n"
proof (rule bytes_at_cong)
  fix i assume "i < n"
  then have "tr (c + of_nat i) \<in> tr ` region c n" by (auto intro: in_region)
  with assms show "load8 tr (write_bytes tr a bs m) (c + of_nat i) = load8 tr m (c + of_nat i)"
    by (intro load8_write_bytes_other) auto
qed

text \<open>Where the translation is injective on the object, what was written is read back.\<close>

lemma region_self_notin:
  assumes "n < 2 ^ 32"
  shows "a \<notin> region (a + 1) n"
proof
  assume "a \<in> region (a + 1) n"
  then obtain i where i: "i < n" "a = a + 1 + of_nat i" by (auto simp: region_def)
  then have "(of_nat (Suc i) :: u32) = 0" by (simp add: add.assoc)
  moreover have "Suc i < 2 ^ 32" using i assms by simp
  ultimately show False using unat_of_nat32[of "Suc i"] by simp
qed

lemma bytes_at_write_bytes:
  assumes "inj_on tr (region a (length bs))" and "length bs \<le> 2 ^ 32"
  shows "bytes_at tr (write_bytes tr a bs m) a (length bs) = bs"
  using assms
proof (induction bs arbitrary: a m)
  case Nil
  then show ?case by simp
next
  case (Cons b bs)
  have inj: "inj_on tr (region (a + 1) (length bs))"
    using Cons.prems(1) by (simp add: region_Suc inj_on_insert)
  have "a \<notin> region (a + 1) (length bs)"
    using Cons.prems(2) by (intro region_self_notin) simp
  then have "tr a \<notin> tr ` region (a + 1) (length bs)"
    using Cons.prems(1) by (auto simp: region_Suc inj_on_def)
  then have "load8 tr (write_bytes tr (a + 1) bs (store8 tr a b m)) a = b"
    by (simp add: load8_write_bytes_other load8_store8_same)
  moreover have "bytes_at tr (write_bytes tr (a + 1) bs (store8 tr a b m)) (a + 1) (length bs) = bs"
    using Cons.IH[OF inj] Cons.prems(2) by simp
  ultimately show ?case by (simp add: bytes_at_Suc)
qed

end
