(* ===== verification/C_Library.thy ===== *)
theory C_Library
  imports Prelude
begin

text \<open>
  The string and memory routines of \<open>student-distrib/lib.c\<close>. A routine that only reads
  through a pointer takes the bytes behind the pointer (a \<open>reader\<close>); a routine that
  writes takes the memory and returns it. A loop with no bound in the source
  (\<open>strlen\<close>, \<open>strcpy\<close>, the digit loop of \<open>itoa\<close>) is a partial function into
  \<open>option\<close>: \<open>None\<close> says that the routine does not return. The inline assembly of
  \<open>memset\<close>, \<open>memcpy\<close> and \<open>memmove\<close> is followed block by block, \<open>rep\<close>
  prefixes and the direction flag included.
\<close>

section \<open>Strings that are read\<close>

definition ptr :: "xlat \<Rightarrow> mem \<Rightarrow> addr \<Rightarrow> reader" where
  "ptr tr m a = (\<lambda>i. load8 tr m (a + i))"

partial_function (option) strlen_loop :: "reader \<Rightarrow> u32 \<Rightarrow> u32 option" where
  "strlen_loop s len = (if s len = 0 then Some len else strlen_loop s (len + 1))"

definition strlen :: "reader \<Rightarrow> u32 option" where
  "strlen s = strlen_loop s 0"

text \<open>\<open>char\<close> is signed on this target: the difference is taken after sign extension.\<close>

function strncmp_loop :: "reader \<Rightarrow> reader \<Rightarrow> u32 \<Rightarrow> u32 \<Rightarrow> u32" where
  "strncmp_loop s1 s2 n i =
     (if i < n then
        if s1 i \<noteq> s2 i \<or> s1 i = 0 then scast (s1 i) - scast (s2 i)
        else strncmp_loop s1 s2 n (i + 1)
      else 0)"
  by pat_completeness auto
termination
  by (relation "measure (\<lambda>(s1, s2, n, i). unat n - unat i)")
     (auto simp: word_less_nat_alt unat_Suc_less)

declare strncmp_loop.simps [simp del]

definition strncmp :: "reader \<Rightarrow> reader \<Rightarrow> u32 \<Rightarrow> u32" where
  "strncmp s1 s2 n = strncmp_loop s1 s2 n 0"

section \<open>Strings that are written\<close>

partial_function (option) strcpy_loop :: "xlat \<Rightarrow> mem \<Rightarrow> addr \<Rightarrow> addr \<Rightarrow> u32 \<Rightarrow> mem option" where
  "strcpy_loop tr m dest src i =
     (if load8 tr m (src + i) \<noteq> 0
      then strcpy_loop tr (store8 tr (dest + i) (load8 tr m (src + i)) m) dest src (i + 1)
      else Some (store8 tr (dest + i) 0 m))"

definition strcpy :: "xlat \<Rightarrow> mem \<Rightarrow> addr \<Rightarrow> addr \<Rightarrow> mem option" where
  "strcpy tr m dest src = strcpy_loop tr m dest src 0"

function strncpy_copy :: "xlat \<Rightarrow> mem \<Rightarrow> addr \<Rightarrow> addr \<Rightarrow> u32 \<Rightarrow> u32 \<Rightarrow> mem \<times> u32" where
  "strncpy_copy tr m dest src n i =
     (if load8 tr m (src + i) \<noteq> 0 \<and> i < n
      then strncpy_copy tr (store8 tr (dest + i) (load8 tr m (src + i)) m) dest src n (i + 1)
      else (m, i))"
  by pat_completeness auto
termination
  by (relation "measure (\<lambda>(tr, m, dest, src, n, i). unat n - unat i)")
     (auto simp: word_less_nat_alt unat_Suc_less)

function strncpy_fill :: "xlat \<Rightarrow> mem \<Rightarrow> addr \<Rightarrow> u32 \<Rightarrow> u32 \<Rightarrow> mem" where
  "strncpy_fill tr m dest n i =
     (if i < n then strncpy_fill tr (store8 tr (dest + i) 0 m) dest n (i + 1) else m)"
  by pat_completeness auto
termination
  by (relation "measure (\<lambda>(tr, m, dest, n, i). unat n - unat i)")
     (auto simp: word_less_nat_alt unat_Suc_less)

declare strncpy_copy.simps [simp del] strncpy_fill.simps [simp del]

definition strncpy :: "xlat \<Rightarrow> mem \<Rightarrow> addr \<Rightarrow> addr \<Rightarrow> u32 \<Rightarrow> mem" where
  "strncpy tr m dest src n =
     (let (m1, i) = strncpy_copy tr m dest src n 0 in strncpy_fill tr m1 dest n i)"

text \<open>
  The same routine where the destination is an array of a kernel structure, disjoint from the
  source: the \<open>n\<close> bytes it stores (\<open>strncpy_write_bytes\<close> below relates the two).
\<close>

fun strncpy_out :: "reader \<Rightarrow> nat \<Rightarrow> byte list" where
  "strncpy_out src 0 = []"
| "strncpy_out src (Suc n) =
     (if src 0 \<noteq> 0 then src 0 # strncpy_out (\<lambda>i. src (i + 1)) n else replicate (Suc n) 0)"

text \<open>\<open>beg\<close> and \<open>end\<close> are C \<open>int\<close>s.\<close>

function strrev_loop :: "xlat \<Rightarrow> mem \<Rightarrow> addr \<Rightarrow> int \<Rightarrow> int \<Rightarrow> mem" where
  "strrev_loop tr m s beg ed =
     (if beg < ed then
        let tmp = load8 tr m (s + word_of_int ed);
            m1 = store8 tr (s + word_of_int ed) (load8 tr m (s + word_of_int beg)) m;
            m2 = store8 tr (s + word_of_int beg) tmp m1
        in strrev_loop tr m2 s (beg + 1) (ed - 1)
      else m)"
  by pat_completeness auto
termination
  by (relation "measure (\<lambda>(tr, m, s, beg, ed). nat (ed - beg))") auto

declare strrev_loop.simps [simp del]

definition strrev :: "xlat \<Rightarrow> mem \<Rightarrow> addr \<Rightarrow> mem option" where
  "strrev tr m s =
     (case strlen (ptr tr m s) of None \<Rightarrow> None
      | Some len \<Rightarrow> Some (strrev_loop tr m s 0 (sint (len - 1))))"

text \<open>
  The digit table. The callers use radix 10 and 16; an index past the table is not a digit
  (the code would read beyond the array).
\<close>

definition itoa_lookup :: "byte list" where
  "itoa_lookup = map of_char ''0123456789ABCDEFGHIJKLMNOPQRSTUVWXYZ''"

partial_function (option) itoa_loop :: "xlat \<Rightarrow> mem \<Rightarrow> u32 \<Rightarrow> addr \<Rightarrow> u32 \<Rightarrow> mem option" where
  "itoa_loop tr m newval newbuf radix =
     (if newval > 0
      then itoa_loop tr (store8 tr newbuf (itoa_lookup ! unat (newval mod radix)) m)
             (newval div radix) (newbuf + 1) radix
      else Some (store8 tr newbuf 0 m))"

text \<open>Radix 0 raises the divide error, whose handler never returns.\<close>

definition itoa :: "xlat \<Rightarrow> mem \<Rightarrow> u32 \<Rightarrow> addr \<Rightarrow> u32 \<Rightarrow> mem option" where
  "itoa tr m val buf radix =
     (if val = 0 then Some (store8 tr (buf + 1) 0 (store8 tr buf 48 m))
      else if radix = 0 then None
      else case itoa_loop tr m val buf radix of None \<Rightarrow> None
           | Some m1 \<Rightarrow> strrev tr m1 buf)"

section \<open>Memory blocks\<close>

text \<open>
  The \<open>.memset_top\<close> loop stores bytes until the count is used up or \<open>edi\<close> is
  aligned; \<open>rep stosl\<close> stores the double words, the \<open>.memset_bottom\<close> loop the rest.
  The register \<open>ecx\<close> only counts down to 0 and is a \<open>nat\<close> here.
\<close>

fun memset_top :: "xlat \<Rightarrow> mem \<Rightarrow> addr \<Rightarrow> nat \<Rightarrow> byte \<Rightarrow> mem \<times> addr \<times> nat" where
  "memset_top tr m edi 0 al = (m, edi, 0)"
| "memset_top tr m edi (Suc ecx) al =
     (if edi AND 3 = 0 then (m, edi, Suc ecx)
      else memset_top tr (store8 tr edi al m) (edi + 1) ecx al)"

fun memset_bottom :: "xlat \<Rightarrow> mem \<Rightarrow> addr \<Rightarrow> nat \<Rightarrow> byte \<Rightarrow> mem" where
  "memset_bottom tr m edi 0 al = m"
| "memset_bottom tr m edi (Suc edx) al = memset_bottom tr (store8 tr edi al m) (edi + 1) edx al"

fun rep_stosl :: "xlat \<Rightarrow> mem \<Rightarrow> addr \<Rightarrow> nat \<Rightarrow> u32 \<Rightarrow> mem \<times> addr" where
  "rep_stosl tr m edi 0 eax = (m, edi)"
| "rep_stosl tr m edi (Suc ecx) eax = rep_stosl tr (store32 tr edi eax m) (edi + 4) ecx eax"

fun rep_stosw :: "xlat \<Rightarrow> mem \<Rightarrow> addr \<Rightarrow> nat \<Rightarrow> u16 \<Rightarrow> mem" where
  "rep_stosw tr m edi 0 ax = m"
| "rep_stosw tr m edi (Suc ecx) ax = rep_stosw tr (store16 tr edi ax m) (edi + 2) ecx ax"

definition memset :: "xlat \<Rightarrow> mem \<Rightarrow> addr \<Rightarrow> u32 \<Rightarrow> u32 \<Rightarrow> mem" where
  "memset tr m s c n =
     (let c = c AND 0xFF;
          eax = push_bit 24 c OR push_bit 16 c OR push_bit 8 c OR c;
          al = ucast eax;
          (m1, edi, ecx) = memset_top tr m s (unat n) al
      in if ecx = 0 then m1
         else let (m2, edi2) = rep_stosl tr m1 edi (ecx div 4) eax
              in memset_bottom tr m2 edi2 (ecx mod 4) al)"

definition memset_word :: "xlat \<Rightarrow> mem \<Rightarrow> addr \<Rightarrow> u32 \<Rightarrow> u32 \<Rightarrow> mem" where
  "memset_word tr m s c n = rep_stosw tr m s (unat n) (ucast c)"

definition memset_dword :: "xlat \<Rightarrow> mem \<Rightarrow> addr \<Rightarrow> u32 \<Rightarrow> u32 \<Rightarrow> mem" where
  "memset_dword tr m s c n = fst (rep_stosl tr m s (unat n) c)"

fun memcpy_top :: "xlat \<Rightarrow> mem \<Rightarrow> addr \<Rightarrow> addr \<Rightarrow> nat \<Rightarrow> mem \<times> addr \<times> addr \<times> nat" where
  "memcpy_top tr m edi esi 0 = (m, edi, esi, 0)"
| "memcpy_top tr m edi esi (Suc ecx) =
     (if edi AND 3 = 0 then (m, edi, esi, Suc ecx)
      else memcpy_top tr (store8 tr edi (load8 tr m esi) m) (edi + 1) (esi + 1) ecx)"

fun rep_movsl :: "xlat \<Rightarrow> mem \<Rightarrow> addr \<Rightarrow> addr \<Rightarrow> nat \<Rightarrow> mem \<times> addr \<times> addr" where
  "rep_movsl tr m edi esi 0 = (m, edi, esi)"
| "rep_movsl tr m edi esi (Suc ecx) =
     rep_movsl tr (store32 tr edi (load32 tr m esi) m) (edi + 4) (esi + 4) ecx"

text \<open>Byte moves upwards (\<open>rep movsb\<close> after \<open>cld\<close>, and \<open>.memcpy_bottom\<close>) and downwards
  (\<open>rep movsb\<close> after \<open>std\<close>).\<close>

fun movsb_up :: "xlat \<Rightarrow> mem \<Rightarrow> addr \<Rightarrow> addr \<Rightarrow> nat \<Rightarrow> mem" where
  "movsb_up tr m edi esi 0 = m"
| "movsb_up tr m edi esi (Suc ecx) =
     movsb_up tr (store8 tr edi (load8 tr m esi) m) (edi + 1) (esi + 1) ecx"

fun movsb_down :: "xlat \<Rightarrow> mem \<Rightarrow> addr \<Rightarrow> addr \<Rightarrow> nat \<Rightarrow> mem" where
  "movsb_down tr m edi esi 0 = m"
| "movsb_down tr m edi esi (Suc ecx) =
     movsb_down tr (store8 tr edi (load8 tr m esi) m) (edi - 1) (esi - 1) ecx"

definition memcpy :: "xlat \<Rightarrow> mem \<Rightarrow> addr \<Rightarrow> addr \<Rightarrow> u32 \<Rightarrow> mem" where
  "memcpy tr m dest src n =
     (let (m1, edi, esi, ecx) = memcpy_top tr m dest src (unat n)
      in if ecx = 0 then m1
         else let (m2, edi2, esi2) = rep_movsl tr m1 edi esi (ecx div 4)
              in movsb_up tr m2 edi2 esi2 (ecx mod 4))"

text \<open>\<open>memmove\<close> also returns the direction flag it leaves behind: there is no \<open>cld\<close> after
  the copy.\<close>

definition memmove :: "xlat \<Rightarrow> mem \<Rightarrow> addr \<Rightarrow> addr \<Rightarrow> u32 \<Rightarrow> mem \<times> bool" where
  "memmove tr m dest src n =
     (if src \<ge> dest then (movsb_up tr m dest src (unat n), False)
      else (movsb_down tr m (dest + n - 1) (src + n - 1) (unat n), True))"

section \<open>Bytes of words\<close>

definition word_bytes :: "u32 \<Rightarrow> byte list" where
  "word_bytes w = [ucast w, ucast (drop_bit 8 w), ucast (drop_bit 16 w), ucast (drop_bit 24 w)]"

lemma length_word_bytes [simp]: "length (word_bytes w) = 4"
  by (simp add: word_bytes_def)

lemma store32_bytes: "store32 tr a w m = write_bytes tr a (word_bytes w) m"
  by (simp add: store32_def word_bytes_def add.assoc)

lemma store16_bytes:
  "store16 tr a w m = write_bytes tr a [ucast w, ucast (drop_bit 8 w)] m"
  by (simp add: store16_def)

lemma word_bytes_load32: "word_bytes (load32 tr m a) = bytes_at tr m a 4"
proof -
  have four: "(4::nat) = Suc (Suc (Suc (Suc 0)))" by simp
  have "ucast (load32 tr m a) = load8 tr m a"
    by (rule bit_word_eqI) (auto simp: load32_def bit_simps)
  moreover have "ucast (drop_bit 8 (load32 tr m a)) = load8 tr m (a + 1)"
    by (rule bit_word_eqI) (auto simp: load32_def bit_simps dest: bit_imp_le_length)
  moreover have "ucast (drop_bit 16 (load32 tr m a)) = load8 tr m (a + 2)"
    by (rule bit_word_eqI) (auto simp: load32_def bit_simps dest: bit_imp_le_length)
  moreover have "ucast (drop_bit 24 (load32 tr m a)) = load8 tr m (a + 3)"
    by (rule bit_word_eqI) (auto simp: load32_def bit_simps dest: bit_imp_le_length)
  ultimately show ?thesis
    by (simp add: word_bytes_def four bytes_at_Suc add.assoc)
qed

lemma word_bytes_inject: "word_bytes v = word_bytes w \<Longrightarrow> v = w"
proof -
  assume eq: "word_bytes v = word_bytes w"
  show "v = w"
  proof (rule bit_word_eqI)
    fix n assume "n < LENGTH(32)"
    then have n: "n < 32" by simp
    have b: "bit (ucast (drop_bit k v) :: byte) i = bit (ucast (drop_bit k w) :: byte) i"
      if "k \<in> {0, 8, 16, 24}" for k i
      using eq that by (auto simp: word_bytes_def)
    have "8 * (n div 8) \<in> {0, 8, 16, 24}" using n by auto
    then have "bit v (8 * (n div 8) + n mod 8) = bit w (8 * (n div 8) + n mod 8)"
      using b[of "8 * (n div 8)" "n mod 8"] n by (auto simp: bit_simps)
    then show "bit v n = bit w n" by simp
  qed
qed

lemma load32_cong: "bytes_at tr m a 4 = bytes_at tr' m' a' 4 \<Longrightarrow> load32 tr m a = load32 tr' m' a'"
  by (rule word_bytes_inject) (simp add: word_bytes_load32)

lemma load32_store32_same:
  assumes "inj_on tr (region a 4)"
  shows "load32 tr (store32 tr a w m) a = w"
proof (rule word_bytes_inject)
  show "word_bytes (load32 tr (store32 tr a w m) a) = word_bytes w"
    using bytes_at_write_bytes[of tr a "word_bytes w" m] assms
    by (simp add: word_bytes_load32 store32_bytes)
qed

section \<open>Strings\<close>

text \<open>The first \<open>n\<close> bytes behind a pointer, and the string among them: up to the first NUL.\<close>

definition read_bytes :: "reader \<Rightarrow> nat \<Rightarrow> byte list" where
  "read_bytes s n = map (\<lambda>i. s (of_nat i)) [0..<n]"

definition cstr :: "reader \<Rightarrow> nat \<Rightarrow> byte list" where
  "cstr s n = takeWhile (\<lambda>b. b \<noteq> 0) (read_bytes s n)"

definition is_cstr :: "reader \<Rightarrow> byte list \<Rightarrow> bool" where
  "is_cstr s xs \<longleftrightarrow>
     length xs < 2 ^ 32 \<and> (\<forall>i < length xs. s (of_nat i) = xs ! i \<and> xs ! i \<noteq> 0) \<and> s (of_nat (length xs)) = 0"

lemma length_read_bytes [simp]: "length (read_bytes s n) = n"
  by (simp add: read_bytes_def)

lemma nth_read_bytes [simp]: "i < n \<Longrightarrow> read_bytes s n ! i = s (of_nat i)"
  by (simp add: read_bytes_def)

lemma read_bytes_Suc: "read_bytes s (Suc n) = s 0 # read_bytes (\<lambda>i. s (i + 1)) n"
  by (simp add: read_bytes_def upt_conv_Cons map_Suc_upt[symmetric] o_def add.commute del: upt_Suc)

lemma read_bytes_ptr: "read_bytes (ptr tr m a) n = bytes_at tr m a n"
  by (simp add: read_bytes_def bytes_at_def ptr_def)

lemma cstr_0 [simp]: "cstr s 0 = []"
  by (simp add: cstr_def read_bytes_def)

lemma cstr_Suc: "cstr s (Suc n) = (if s 0 = 0 then [] else s 0 # cstr (\<lambda>i. s (i + 1)) n)"
  by (simp add: cstr_def read_bytes_Suc)

lemma length_cstr_le: "length (cstr s n) \<le> n"
  using length_takeWhile_le[of _ "read_bytes s n"] by (simp add: cstr_def)

lemma cstr_nonzero: "x \<in> set (cstr s n) \<Longrightarrow> x \<noteq> 0"
  by (auto simp: cstr_def dest: set_takeWhileD)

lemma nth_cstr: "i < length (cstr s n) \<Longrightarrow> cstr s n ! i = s (of_nat i)"
  using length_cstr_le[of s n] by (simp add: cstr_def takeWhile_nth)

lemma cstr_end: "length (cstr s n) < n \<Longrightarrow> s (of_nat (length (cstr s n))) = 0"
  using nth_length_takeWhile[of "\<lambda>b. b \<noteq> 0" "read_bytes s n"] by (simp add: cstr_def)

lemma is_cstr_Cons_tail:
  assumes "is_cstr s (x # xs)"
  shows "is_cstr (\<lambda>i. s (i + 1)) xs"
  unfolding is_cstr_def
proof (intro conjI allI impI)
  show "length xs < 2 ^ 32" using assms by (simp add: is_cstr_def)
  fix i assume "i < length xs"
  then show "s (of_nat i + 1) = xs ! i" and "xs ! i \<noteq> 0"
    using assms by (auto simp: is_cstr_def dest!: spec[of _ "Suc i"] simp: add.commute)
next
  show "s (of_nat (length xs) + 1) = 0" using assms by (simp add: is_cstr_def add.commute)
qed

lemma is_cstr_cstr:
  assumes "is_cstr s xs"
  shows "cstr s n = take n xs"
  using assms
proof (induction n arbitrary: s xs)
  case 0
  then show ?case by simp
next
  case (Suc n)
  show ?case
  proof (cases xs)
    case Nil
    with Suc.prems show ?thesis by (simp add: cstr_Suc is_cstr_def)
  next
    case (Cons x ys)
    have "is_cstr (\<lambda>i. s (i + 1)) ys" using is_cstr_Cons_tail Suc.prems Cons by simp
    moreover have "s 0 = x" "x \<noteq> 0"
      using Suc.prems Cons by (auto simp: is_cstr_def dest!: spec[of _ 0])
    ultimately show ?thesis using Suc.IH Cons by (simp add: cstr_Suc)
  qed
qed

subsection \<open>strlen\<close>

lemma strlen_loop_Some:
  assumes "s (len + of_nat k) = 0" and "\<And>j. j < k \<Longrightarrow> s (len + of_nat j) \<noteq> 0"
  shows "strlen_loop s len = Some (len + of_nat k)"
  using assms
proof (induction k arbitrary: len)
  case 0
  then show ?case by (simp add: strlen_loop.simps[of s len])
next
  case (Suc k)
  have "strlen_loop s (len + 1) = Some ((len + 1) + of_nat k)"
  proof (rule Suc.IH)
    show "s (len + 1 + of_nat k) = 0" using Suc.prems(1) by (simp add: add.assoc)
    fix j assume "j < k"
    then show "s (len + 1 + of_nat j) \<noteq> 0" using Suc.prems(2)[of "Suc j"] by (simp add: add.assoc)
  qed
  moreover have "s len \<noteq> 0" using Suc.prems(2)[of 0] by simp
  ultimately show ?case by (simp add: strlen_loop.simps[of s len] add.assoc)
qed

lemma strlen_loop_no_nul:
  assumes ret: "strlen_loop s len = Some n"
  shows "s n = 0"
  by (rule strlen_loop.raw_induct[where P = "\<lambda>s len n. s n = 0", OF _ ret])
     (auto split: if_splits)

lemma first_nul:
  fixes s :: reader
  assumes "s z = 0"
  obtains k where "k \<le> unat z" and "s (of_nat k) = 0" and "\<And>j. j < k \<Longrightarrow> s (of_nat j) \<noteq> 0"
proof -
  let ?k = "LEAST k. s (of_nat k) = 0"
  have z: "s (of_nat (unat z)) = 0" using assms by simp
  show thesis
  proof (rule that[of ?k])
    show "?k \<le> unat z" using z by (rule Least_le)
    show "s (of_nat ?k) = 0" using z by (rule LeastI)
    show "s (of_nat j) \<noteq> 0" if "j < ?k" for j using not_less_Least[OF that] .
  qed
qed

text \<open>\<open>strlen\<close> returns exactly when there is a NUL, and then the length of the string.\<close>

lemma strlen_total_iff: "(\<exists>n. strlen s = Some n) \<longleftrightarrow> (\<exists>z. s z = 0)"
proof
  assume "\<exists>n. strlen s = Some n"
  then show "\<exists>z. s z = 0" by (auto simp: strlen_def dest: strlen_loop_no_nul)
next
  assume "\<exists>z. s z = 0"
  then obtain z where "s z = 0" ..
  then obtain k where "s (of_nat k) = 0" "\<And>j. j < k \<Longrightarrow> s (of_nat j) \<noteq> 0"
    using first_nul by blast
  then have "strlen_loop s 0 = Some (0 + of_nat k)" by (intro strlen_loop_Some) simp_all
  then show "\<exists>n. strlen s = Some n" by (simp add: strlen_def)
qed

lemma strlen_is_cstr: "is_cstr s xs \<Longrightarrow> strlen s = Some (of_nat (length xs))"
  using strlen_loop_Some[of s 0 "length xs"] by (simp add: strlen_def is_cstr_def)

lemma strlen_SomeE:
  assumes "strlen s = Some n"
  obtains xs where "is_cstr s xs" and "n = of_nat (length xs)" and "length xs = unat n"
proof -
  have "s n = 0" using assms by (auto simp: strlen_def dest: strlen_loop_no_nul)
  then obtain k where k: "k \<le> unat n" "s (of_nat k) = 0" "\<And>j. j < k \<Longrightarrow> s (of_nat j) \<noteq> 0"
    using first_nul by blast
  then have less: "k < 2 ^ 32" using unat_lt32[of n] by simp
  have cs: "is_cstr s (read_bytes s k)" using k less by (simp add: is_cstr_def)
  then have "n = of_nat k" using assms strlen_is_cstr by fastforce
  then show thesis using that[OF cs] less by (simp add: unat_of_nat32)
qed

subsection \<open>strncmp\<close>

lemma scast_byte_eq [simp]: "(scast (a :: byte) :: u32) = scast b \<longleftrightarrow> a = b"
proof
  assume eq: "(scast a :: u32) = scast b"
  show "a = b"
  proof (rule bit_word_eqI)
    fix n assume "n < LENGTH(8)"
    then show "bit a n = bit b n"
      using arg_cong[OF eq, of "\<lambda>w. bit w n"] by (simp add: bit_simps)
  qed
qed simp

lemma scast_byte_0 [simp]: "(scast (a :: byte) :: u32) = 0 \<longleftrightarrow> a = 0"
  using scast_byte_eq[of a 0] by simp

lemma scast_byte_0' [simp]: "(0 :: u32) = scast (a :: byte) \<longleftrightarrow> a = 0"
  using scast_byte_eq[of 0 a] by simp

text \<open>The result is 0 exactly when the strings agree on their first \<open>n\<close> bytes.\<close>

lemma strncmp_loop_0:
  "strncmp_loop s1 s2 n i = 0 \<longleftrightarrow>
   cstr (\<lambda>j. s1 (i + j)) (unat n - unat i) = cstr (\<lambda>j. s2 (i + j)) (unat n - unat i)"
proof (induction s1 s2 n i rule: strncmp_loop.induct)
  case (1 s1 s2 n i)
  show ?case
  proof (cases "i < n")
    case False
    then show ?thesis by (simp add: strncmp_loop.simps[of s1 s2 n i] word_less_nat_alt)
  next
    case True
    then have eq: "unat n - unat i = Suc (unat n - unat (i + 1))"
      by (simp add: unat_Suc_less word_less_nat_alt Suc_diff_Suc)
    show ?thesis
    proof (cases "s1 i \<noteq> s2 i \<or> s1 i = 0")
      case c: True
      then show ?thesis using True
        by (auto simp: strncmp_loop.simps[of s1 s2 n i] eq cstr_Suc)
    next
      case False
      then show ?thesis using True 1
        by (simp add: strncmp_loop.simps[of s1 s2 n i] eq cstr_Suc add.commute add.left_commute)
    qed
  qed
qed

lemma strncmp_0: "strncmp s1 s2 n = 0 \<longleftrightarrow> cstr s1 (unat n) = cstr s2 (unat n)"
  using strncmp_loop_0[of s1 s2 n 0] by (simp add: strncmp_def)


subsection \<open>strncpy\<close>

text \<open>Two objects that share no physical byte.\<close>

definition apart :: "xlat \<Rightarrow> addr \<Rightarrow> nat \<Rightarrow> addr \<Rightarrow> nat \<Rightarrow> bool" where
  "apart tr d n s k \<longleftrightarrow> tr ` region d n \<inter> tr ` region s k = {}"

lemma apartD: "apart tr d n s k \<Longrightarrow> i < n \<Longrightarrow> j < k \<Longrightarrow> tr (d + of_nat i) \<noteq> tr (s + of_nat j)"
  by (force simp: apart_def intro: in_region)

lemma apart_mono: "apart tr d n s k \<Longrightarrow> n' \<le> n \<Longrightarrow> k' \<le> k \<Longrightarrow> apart tr d n' s k'"
  using region_mono[of n' n d] region_mono[of k' k s] by (fastforce simp: apart_def)

lemma apart_shift:
  assumes "apart tr d n s k" "i + n' \<le> n" "j + k' \<le> k"
  shows "apart tr (d + of_nat i) n' (s + of_nat j) k'"
  using assms(1) region_shift[OF assms(2), of d] region_shift[OF assms(3), of s]
  by (fastforce simp: apart_def)

lemma apart_step: "apart tr d (Suc n) s (Suc k) \<Longrightarrow> apart tr (d + 1) n (s + 1) k"
  using apart_shift[of tr d "Suc n" s "Suc k" 1 n 1 k] by simp

lemma apart_sym: "apart tr d n s k \<Longrightarrow> apart tr s k d n"
  by (auto simp: apart_def)

lemma bytes_at_apart:
  assumes "apart tr d (length bs) s n"
  shows "bytes_at tr (write_bytes tr d bs m) s n = bytes_at tr m s n"
  using assms by (intro bytes_at_write_bytes_other) (auto simp: apart_def)

lemma length_strncpy_out [simp]: "length (strncpy_out src n) = n"
  by (induction src n rule: strncpy_out.induct) auto

lemma strncpy_out_cstr:
  "strncpy_out src n = cstr src n @ replicate (n - length (cstr src n)) 0"
  by (induction src n rule: strncpy_out.induct) (auto simp: cstr_Suc)

lemma strncpy_fill_bytes:
  "i \<le> n \<Longrightarrow> strncpy_fill tr m dest n i =
     write_bytes tr (dest + i) (replicate (unat n - unat i) 0) m"
proof (induction tr m dest n i rule: strncpy_fill.induct)
  case (1 tr m dest n i)
  show ?case
  proof (cases "i < n")
    case True
    then have "unat n - unat i = Suc (unat n - unat (i + 1))" and "i + 1 \<le> n"
      by (simp_all add: unat_Suc_less word_less_nat_alt word_le_nat_alt)
    then show ?thesis using 1 True
      by (simp add: strncpy_fill.simps[of tr m dest n i] add.assoc)
  next
    case False
    with "1.prems" have "i = n" by simp
    then show ?thesis by (simp, subst strncpy_fill.simps, simp)
  qed
qed

lemma strncpy_copy_bytes:
  assumes "i \<le> n" and "apart tr (dest + i) (unat n - unat i) (src + i) (Suc (unat n - unat i))"
  shows "(case strncpy_copy tr m dest src n i of (m1, j) \<Rightarrow> strncpy_fill tr m1 dest n j) =
         write_bytes tr (dest + i) (strncpy_out (ptr tr m (src + i)) (unat n - unat i)) m"
  using assms
proof (induction tr m dest src n i rule: strncpy_copy.induct)
  case (1 tr m dest src n i)
  let ?k = "unat n - unat (i + 1)"
  show ?case
  proof (cases "load8 tr m (src + i) \<noteq> 0 \<and> i < n")
    case True
    then have less: "i < n" by simp
    then have u: "unat (i + 1) = Suc (unat i)" and "unat i < unat n"
      by (simp_all add: unat_Suc_less word_less_nat_alt)
    then have len: "unat n - unat i = Suc ?k" and le: "i + 1 \<le> n"
      by (simp_all add: word_le_nat_alt)
    let ?m = "store8 tr (dest + i) (load8 tr m (src + i)) m"
    have ap: "apart tr (dest + i + 1) ?k (src + i + 1) (Suc ?k)"
      using "1.prems"(2) unfolding len by (rule apart_step)
    have "strncpy_out (ptr tr ?m (src + i + 1)) ?k = strncpy_out (ptr tr m (src + i + 1)) ?k"
    proof -
      have "read_bytes (ptr tr ?m (src + i + 1)) ?k = read_bytes (ptr tr m (src + i + 1)) ?k"
        unfolding read_bytes_ptr
      proof (rule bytes_at_cong)
        fix j assume "j < ?k"
        then have "tr (dest + i + of_nat 0) \<noteq> tr (src + i + of_nat (Suc j))"
          using "1.prems"(2) len by (intro apartD) auto
        then show "load8 tr ?m (src + i + 1 + of_nat j) = load8 tr m (src + i + 1 + of_nat j)"
          by (simp add: load8_store8 add.assoc)
      qed
      then show ?thesis by (simp add: strncpy_out_cstr cstr_def)
    qed
    moreover have "ptr tr m (src + i + 1) = (\<lambda>j. ptr tr m (src + i) (j + 1))"
      by (simp add: ptr_def fun_eq_iff ac_simps)
    moreover have "ptr tr m (src + i) 0 = load8 tr m (src + i)" by (simp add: ptr_def)
    ultimately show ?thesis using True "1.IH"[OF True le] ap len
      by (simp add: strncpy_copy.simps[of tr m dest src n i] add.assoc[symmetric])
  next
    case False
    then consider "i = n" | "i < n" "load8 tr m (src + i) = 0" using "1.prems"(1) by fastforce
    then show ?thesis
    proof cases
      case 1
      then show ?thesis
        by (simp, subst strncpy_copy.simps, simp, subst strncpy_fill.simps, simp)
    next
      case 2
      then obtain k where k: "unat n - unat i = Suc k"
        by (metis Suc_diff_Suc word_less_nat_alt)
      show ?thesis using 2 k
        by (simp add: strncpy_copy.simps[of tr m dest src n i] strncpy_fill_bytes ptr_def)
    qed
  qed
qed

lemma strncpy_write_bytes:
  assumes "apart tr dest (unat n) src (Suc (unat n))"
  shows "strncpy tr m dest src n = write_bytes tr dest (strncpy_out (ptr tr m src) (unat n)) m"
  using strncpy_copy_bytes[of 0 n tr dest src m] assms by (simp add: strncpy_def)

subsection \<open>memset\<close>

lemma memset_bottom_bytes: "memset_bottom tr m edi n al = write_bytes tr edi (replicate n al) m"
  by (induction tr m edi n al rule: memset_bottom.induct) simp_all

lemma memset_top_bytes:
  "memset_top tr m edi n al = (m', edi', n') \<Longrightarrow>
   write_bytes tr edi' (replicate n' al) m' = write_bytes tr edi (replicate n al) m"
  by (induction tr m edi n al rule: memset_top.induct) (auto split: if_splits)

lemma rep_stosl_bytes:
  "rep_stosl tr m edi n eax = (write_bytes tr edi (concat (replicate n (word_bytes eax))) m,
                               edi + of_nat (4 * n))"
  by (induction tr m edi n eax rule: rep_stosl.induct)
     (simp_all add: store32_bytes write_bytes_append algebra_simps)

lemma rep_stosw_bytes:
  "rep_stosw tr m edi n ax =
     write_bytes tr edi (concat (replicate n [ucast ax, ucast (drop_bit 8 ax)])) m"
  by (induction tr m edi n ax rule: rep_stosw.induct) (simp_all add: store16_bytes add.commute)

lemma word_bytes_fill:
  fixes c :: u32
  defines "d \<equiv> c AND 0xFF"
  shows "word_bytes (push_bit 24 d OR push_bit 16 d OR push_bit 8 d OR d) =
         replicate 4 (ucast c)"
proof -
  have four: "(4::nat) = Suc (Suc (Suc (Suc 0)))" by simp
  have d: "bit d n \<longleftrightarrow> bit c n \<and> n < 8" for n
  proof -
    have "d = take_bit 8 c" by (simp add: d_def take_bit_eq_mask mask_eq_decr_exp)
    then show ?thesis by (auto simp: bit_take_bit_iff)
  qed
  show ?thesis
    unfolding word_bytes_def four replicate.simps
    by (simp, intro conjI; rule bit_word_eqI) (auto simp: bit_simps d)
qed

lemma concat_replicate_replicate: "concat (replicate n (replicate k x)) = replicate (n * k) x"
  by (induction n) (simp_all add: replicate_add)

text \<open>\<open>memset\<close> writes \<open>n\<close> copies of the low byte of \<open>c\<close>, whatever the alignment.\<close>

lemma memset_bytes: "memset tr m s c n = write_bytes tr s (replicate (unat n) (ucast c)) m"
proof -
  define eax :: u32 where
    "eax = (let d = c AND 0xFF in push_bit 24 d OR push_bit 16 d OR push_bit 8 d OR d)"
  have fill: "word_bytes eax = replicate 4 (ucast c)"
    unfolding eax_def Let_def by (rule word_bytes_fill)
  then have al: "(ucast eax :: byte) = ucast c" by (simp add: word_bytes_def numeral_eq_Suc)
  obtain m1 edi ecx where top: "memset_top tr m s (unat n) (ucast c) = (m1, edi, ecx)"
    by (metis prod_cases3)
  have mdef: "memset tr m s c n =
      (if ecx = 0 then m1
       else let (m2, edi2) = rep_stosl tr m1 edi (ecx div 4) eax
            in memset_bottom tr m2 edi2 (ecx mod 4) (ucast c))"
    unfolding memset_def Let_def eax_def[unfolded Let_def, symmetric] al top by simp
  note t = memset_top_bytes[OF top]
  have split: "replicate ecx (ucast c :: byte) =
     replicate (ecx div 4 * 4) (ucast c) @ replicate (ecx mod 4) (ucast c)"
    by (simp add: replicate_add[symmetric])
  show ?thesis
  proof (cases "ecx = 0")
    case True
    with t show ?thesis by (simp add: mdef)
  next
    case False
    have "memset tr m s c n = write_bytes tr edi (replicate ecx (ucast c)) m1"
      unfolding split write_bytes_append
      using False by (simp add: mdef rep_stosl_bytes fill memset_bottom_bytes
          concat_replicate_replicate mult.commute)
    then show ?thesis using t by simp
  qed
qed


subsection \<open>memcpy\<close>

lemma bytes_at_store8_next:
  assumes "apart tr d (Suc n) s (Suc n)"
  shows "bytes_at tr (store8 tr d b m) (s + 1) n = bytes_at tr m (s + 1) n"
  using bytes_at_apart[of tr d "[b]" "s + 1" n m] apart_shift[OF assms, of 0 1 1 n] by simp

lemma movsb_up_bytes:
  "apart tr edi n esi n \<Longrightarrow> movsb_up tr m edi esi n = write_bytes tr edi (bytes_at tr m esi n) m"
proof (induction tr m edi esi n rule: movsb_up.induct)
  case (2 tr m edi esi n)
  then show ?case by (simp add: bytes_at_Suc apart_step bytes_at_store8_next)
qed simp

lemma memcpy_top_bytes:
  assumes "memcpy_top tr m edi esi n = (m', edi', esi', n')" and "apart tr edi n esi n"
  shows "apart tr edi' n' esi' n' \<and>
         write_bytes tr edi' (bytes_at tr m' esi' n') m' = write_bytes tr edi (bytes_at tr m esi n) m"
  using assms
proof (induction tr m edi esi n rule: memcpy_top.induct)
  case (2 tr m edi esi n)
  show ?case
  proof (cases "edi AND 3 = 0")
    case True
    with 2 show ?thesis by simp
  next
    case False
    with 2 show ?thesis by (simp add: bytes_at_Suc apart_step bytes_at_store8_next)
  qed
qed simp

lemma rep_movsl_bytes:
  "apart tr edi (4 * n) esi (4 * n) \<Longrightarrow>
   rep_movsl tr m edi esi n =
     (write_bytes tr edi (bytes_at tr m esi (4 * n)) m, edi + of_nat (4 * n), esi + of_nat (4 * n))"
proof (induction tr m edi esi n rule: rep_movsl.induct)
  case (2 tr m edi esi n)
  let ?m = "write_bytes tr edi (bytes_at tr m esi 4) m"
  have "apart tr (edi + 4) (4 * n) (esi + 4) (4 * n)"
    using apart_shift[OF "2.prems", of 4 "4 * n" 4 "4 * n"] by simp
  moreover have "bytes_at tr ?m (esi + 4) (4 * n) = bytes_at tr m (esi + 4) (4 * n)"
    using apart_shift[OF "2.prems", of 0 4 4 "4 * n"] by (intro bytes_at_apart) simp
  moreover have "bytes_at tr m esi (4 * Suc n) =
      bytes_at tr m esi 4 @ bytes_at tr m (esi + 4) (4 * n)"
    using bytes_at_add[of tr m esi 4 "4 * n"] by simp
  ultimately show ?case using 2
    by (simp add: store32_bytes word_bytes_load32 write_bytes_append algebra_simps)
qed simp

text \<open>The optimised copy is the bytewise copy for objects that do not overlap.\<close>

lemma memcpy_bytes:
  assumes "apart tr dest (unat n) src (unat n)"
  shows "memcpy tr m dest src n = write_bytes tr dest (bytes_at tr m src (unat n)) m"
proof -
  obtain m1 edi esi ecx where top: "memcpy_top tr m dest src (unat n) = (m1, edi, esi, ecx)"
    by (metis prod_cases4)
  note t = memcpy_top_bytes[OF top assms]
  show ?thesis
  proof (cases "ecx = 0")
    case True
    with t show ?thesis by (simp add: memcpy_def top)
  next
    case False
    let ?q = "4 * (ecx div 4)"
    let ?m2 = "write_bytes tr edi (bytes_at tr m1 esi ?q) m1"
    have ap: "apart tr edi ecx esi ecx" using t ..
    have a1: "apart tr edi ?q esi ?q" using apart_mono[OF ap] by simp
    have a2: "apart tr (edi + of_nat ?q) (ecx mod 4) (esi + of_nat ?q) (ecx mod 4)"
      using apart_shift[OF ap, of ?q "ecx mod 4" ?q "ecx mod 4"] by simp
    have a3: "apart tr edi ?q (esi + of_nat ?q) (ecx mod 4)"
      using apart_shift[OF ap, of 0 ?q ?q "ecx mod 4"] by simp
    have b: "bytes_at tr m1 esi ecx = bytes_at tr m1 esi ?q @ bytes_at tr m1 (esi + of_nat ?q) (ecx mod 4)"
      using bytes_at_add[of tr m1 esi ?q "ecx mod 4"] by simp
    have "memcpy tr m dest src n = movsb_up tr ?m2 (edi + of_nat ?q) (esi + of_nat ?q) (ecx mod 4)"
      using False by (simp add: memcpy_def top rep_movsl_bytes[OF a1])
    also have "\<dots> = write_bytes tr edi (bytes_at tr m1 esi ecx) m1"
      unfolding b write_bytes_append movsb_up_bytes[OF a2]
      using a3 by (simp add: bytes_at_apart)
    finally show ?thesis using t by simp
  qed
qed


subsection \<open>memmove\<close>

text \<open>Copying upwards is safe when no store hits a source byte that is still to be read.\<close>

lemma movsb_up_ordered:
  assumes "\<And>i j. i < j \<Longrightarrow> j < n \<Longrightarrow> tr (edi + of_nat i) \<noteq> tr (esi + of_nat j)"
  shows "movsb_up tr m edi esi n = write_bytes tr edi (bytes_at tr m esi n) m"
  using assms
proof (induction tr m edi esi n rule: movsb_up.induct)
  case (2 tr m edi esi n)
  let ?m = "store8 tr edi (load8 tr m esi) m"
  have "bytes_at tr ?m (esi + 1) n = bytes_at tr m (esi + 1) n"
  proof (rule bytes_at_cong)
    fix i assume "i < n"
    then show "load8 tr ?m (esi + 1 + of_nat i) = load8 tr m (esi + 1 + of_nat i)"
      using "2.prems"[of 0 "Suc i"] by (simp add: load8_store8 add.assoc)
  qed
  moreover have "movsb_up tr ?m (edi + 1) (esi + 1) n =
      write_bytes tr (edi + 1) (bytes_at tr ?m (esi + 1) n) ?m"
  proof (rule "2.IH")
    fix i j assume "i < j" "j < n"
    then show "tr (edi + 1 + of_nat i) \<noteq> tr (esi + 1 + of_nat j)"
      using "2.prems"[of "Suc i" "Suc j"] by (simp add: add.assoc)
  qed
  ultimately show ?case by (simp add: bytes_at_Suc)
qed simp

lemma write_bytes_store8_commute:
  "tr c \<notin> tr ` region a (length bs) \<Longrightarrow>
   write_bytes tr a bs (store8 tr c b m) = store8 tr c b (write_bytes tr a bs m)"
proof (induction bs arbitrary: a m)
  case (Cons x xs)
  then have "tr c \<noteq> tr a" "tr c \<notin> tr ` region (a + 1) (length xs)" by (auto simp: region_Suc)
  moreover from this have "store8 tr a x (store8 tr c b m) = store8 tr c b (store8 tr a x m)"
    by (simp add: store8_def fun_upd_twist)
  ultimately show ?case using Cons.IH by simp
qed simp

lemma movsb_down_ordered:
  assumes "\<And>i j. j < i \<Longrightarrow> i < n \<Longrightarrow> tr (d + of_nat i) \<noteq> tr (s + of_nat j)"
    and "\<And>i j. j < i \<Longrightarrow> i < n \<Longrightarrow> tr (d + of_nat i) \<noteq> tr (d + of_nat j)"
  shows "movsb_down tr m (d + of_nat n - 1) (s + of_nat n - 1) n =
         write_bytes tr d (bytes_at tr m s n) m"
  using assms
proof (induction n arbitrary: m)
  case (Suc n)
  let ?m = "store8 tr (d + of_nat n) (load8 tr m (s + of_nat n)) m"
  have "bytes_at tr ?m s n = bytes_at tr m s n"
  proof (rule bytes_at_cong)
    fix i assume "i < n"
    then show "load8 tr ?m (s + of_nat i) = load8 tr m (s + of_nat i)"
      using Suc.prems(1)[of i n] by (simp add: load8_store8)
  qed
  moreover have "tr (d + of_nat n) \<notin> tr ` region d n"
    using Suc.prems(2)[of _ n] by (auto simp: region_def)
  then have "write_bytes tr d (bytes_at tr m s n) ?m =
      store8 tr (d + of_nat n) (load8 tr m (s + of_nat n)) (write_bytes tr d (bytes_at tr m s n) m)"
    by (intro write_bytes_store8_commute) simp
  moreover have "bytes_at tr m s (Suc n) = bytes_at tr m s n @ [load8 tr m (s + of_nat n)]"
    by (simp add: bytes_at_def)
  moreover have "movsb_down tr m (d + of_nat (Suc n) - 1) (s + of_nat (Suc n) - 1) (Suc n) =
      movsb_down tr ?m (d + of_nat n - 1) (s + of_nat n - 1) n"
    by simp
  moreover have "movsb_down tr ?m (d + of_nat n - 1) (s + of_nat n - 1) n =
      write_bytes tr d (bytes_at tr ?m s n) ?m"
    using Suc.prems by (intro Suc.IH) auto
  ultimately show ?case
    by (simp only: write_bytes_append length_bytes_at write_bytes.simps)
qed simp

lemma unat_add_of_nat32:
  "unat (a :: u32) + k < 2 ^ 32 \<Longrightarrow> unat (a + of_nat k) = unat a + k"
  by (simp add: unat_word_ariths unat_of_nat32)

text \<open>
  \<open>memmove\<close> is right also for overlapping objects: what arrives is the old contents of
  the source.
\<close>

lemma memmove_bytes:
  assumes inj: "inj_on tr (region d (unat n) \<union> region s (unat n))"
    and "unat d + unat n \<le> 2 ^ 32" "unat s + unat n \<le> 2 ^ 32"
  shows "fst (memmove tr m d s n) = write_bytes tr d (bytes_at tr m s (unat n)) m"
proof -
  have tr_eq: "tr a = tr b \<longleftrightarrow> a = b"
    if "a \<in> region d (unat n) \<union> region s (unat n)" "b \<in> region d (unat n) \<union> region s (unat n)" for a b
    using that inj by (auto dest: inj_onD)
  have u: "unat (d + of_nat i) = unat d + i" "unat (s + of_nat i) = unat s + i" if "i < unat n" for i
    using that assms(2,3) by (auto intro!: unat_add_of_nat32)
  show ?thesis
  proof (cases "s \<ge> d")
    case True
    have "movsb_up tr m d s (unat n) = write_bytes tr d (bytes_at tr m s (unat n)) m"
    proof (rule movsb_up_ordered)
      fix i j assume ij: "i < j" "j < unat n"
      then have "unat (d + of_nat i) \<noteq> unat (s + of_nat j)"
        using u True by (simp add: word_le_nat_alt)
      then show "tr (d + of_nat i) \<noteq> tr (s + of_nat j)"
        using ij by (subst tr_eq) (auto intro: in_region)
    qed
    then show ?thesis using True by (simp add: memmove_def)
  next
    case False
    have "movsb_down tr m (d + of_nat (unat n) - 1) (s + of_nat (unat n) - 1) (unat n) =
        write_bytes tr d (bytes_at tr m s (unat n)) m"
    proof (rule movsb_down_ordered)
      fix i j assume ij: "j < i" "i < unat n"
      then have "unat (d + of_nat i) \<noteq> unat (s + of_nat j)" "unat (d + of_nat i) \<noteq> unat (d + of_nat j)"
        using u False by (simp_all add: word_le_nat_alt)
      then show "tr (d + of_nat i) \<noteq> tr (s + of_nat j)" "tr (d + of_nat i) \<noteq> tr (d + of_nat j)"
        using ij by (subst tr_eq; auto intro: in_region)+
    qed
    then show ?thesis using False by (simp add: memmove_def)
  qed
qed

lemma memset_word_bytes:
  "memset_word tr m s c n =
     write_bytes tr s (concat (replicate (unat n) [ucast c, ucast (drop_bit 8 c)])) m"
proof -
  have "(ucast (ucast c :: u16) :: byte) = ucast c"
    by (rule bit_word_eqI) (auto simp: bit_simps)
  moreover have "(ucast (drop_bit 8 (ucast c :: u16)) :: byte) = ucast (drop_bit 8 c)"
    by (rule bit_word_eqI) (auto simp: bit_simps)
  ultimately show ?thesis by (simp add: memset_word_def rep_stosw_bytes)
qed

lemma memset_dword_bytes:
  "memset_dword tr m s c n = write_bytes tr s (concat (replicate (unat n) (word_bytes c))) m"
  by (simp add: memset_dword_def rep_stosl_bytes)


subsection \<open>strrev and itoa\<close>

lemma write_bytes_overwrite:
  "(\<And>p. p \<notin> tr ` region a (length xs) \<Longrightarrow> m p = m' p) \<Longrightarrow>
   write_bytes tr a xs m = write_bytes tr a xs m'"
proof (induction xs arbitrary: a m m')
  case (Cons x xs)
  have "write_bytes tr (a + 1) xs (store8 tr a x m) = write_bytes tr (a + 1) xs (store8 tr a x m')"
    using Cons.prems by (intro Cons.IH) (auto simp: store8_def region_Suc)
  then show ?case by simp
qed auto

lemma inj_on_region:
  assumes "inj_on tr (region s n)" "i < n" "j < n" "n \<le> 2 ^ 32"
  shows "tr (s + of_nat i) = tr (s + of_nat j) \<longleftrightarrow> i = j"
proof
  assume "tr (s + of_nat i) = tr (s + of_nat j)"
  then have "s + of_nat i = s + of_nat j"
    using assms by (auto dest: inj_onD intro: in_region)
  then have "unat (of_nat i :: u32) = unat (of_nat j :: u32)" by simp
  then show "i = j" using assms by (simp add: unat_of_nat32)
qed simp

lemma inj_on_region_int:
  assumes "inj_on tr (region s n)" "0 \<le> i" "i < int n" "0 \<le> j" "j < int n" "n \<le> 2 ^ 32"
  shows "tr (s + word_of_int i) = tr (s + word_of_int j) \<longleftrightarrow> i = j"
proof -
  obtain x y where xy: "i = int x" "j = int y" using assms(2,4) by (metis nonneg_int_cases)
  then have "x < n" "y < n" using assms(3,5) by simp_all
  then show ?thesis using inj_on_region[OF assms(1) _ _ assms(6), of x y] xy by simp
qed

text \<open>The effect of the swapping loop, byte by byte.\<close>

lemma strrev_loop_bytes:
  assumes "inj_on tr (region s n)" "n < 2 ^ 31" "0 \<le> beg" "ed < int n"
  shows "k < n \<Longrightarrow> load8 tr (strrev_loop tr m s beg ed) (s + of_nat k) =
           load8 tr m (s + word_of_int (if beg \<le> int k \<and> int k \<le> ed then beg + ed - int k else int k))"
    and "p \<notin> tr ` region s n \<Longrightarrow> strrev_loop tr m s beg ed p = m p"
  using assms
proof (induction tr m s beg ed arbitrary: k p rule: strrev_loop.induct)
  case (1 tr m s beg ed)
  let ?m1 = "store8 tr (s + word_of_int ed) (load8 tr m (s + word_of_int beg)) m"
  let ?m2 = "store8 tr (s + word_of_int beg) (load8 tr m (s + word_of_int ed)) ?m1"
  {
    case 1
    have inj: "tr (s + word_of_int i) = tr (s + word_of_int j) \<longleftrightarrow> i = j"
      if "0 \<le> i" "i < int n" "0 \<le> j" "j < int n" for i j
      using inj_on_region_int[OF "1.prems"(2) that] "1.prems"(3) by simp
    show ?case
    proof (cases "beg < ed")
      case True
      have "load8 tr (strrev_loop tr m s beg ed) (s + of_nat k) =
            load8 tr (strrev_loop tr ?m2 s (beg + 1) (ed - 1)) (s + of_nat k)"
        using True by (simp add: strrev_loop.simps[of tr m s beg ed] Let_def)
      also have "\<dots> = load8 tr ?m2 (s + word_of_int
          (if beg + 1 \<le> int k \<and> int k \<le> ed - 1 then beg + 1 + (ed - 1) - int k else int k))"
        using "1.IH"(1)[OF True refl refl refl] "1.prems" True by simp
      also have "\<dots> = load8 tr m (s + word_of_int
          (if beg \<le> int k \<and> int k \<le> ed then beg + ed - int k else int k))"
        using "1.prems" True by (auto simp: load8_store8 inj)
      finally show ?thesis .
    next
      case False
      then have "(if beg \<le> int k \<and> int k \<le> ed then beg + ed - int k else int k) = int k" by simp
      then show ?thesis using False by (simp add: strrev_loop.simps[of tr m s beg ed])
    qed
  next
    case 2
    show ?case
    proof (cases "beg < ed")
      case True
      obtain x y where "beg = int x" "ed = int y" using "2.prems" True by (metis nonneg_int_cases order.strict_trans1 less_le_not_le)
      then have "p \<noteq> tr (s + word_of_int beg)" "p \<noteq> tr (s + word_of_int ed)"
        using "2.prems" True in_region[of x n s] in_region[of y n s] by auto
      moreover have "strrev_loop tr m s beg ed p = strrev_loop tr ?m2 s (beg + 1) (ed - 1) p"
        using True by (simp add: strrev_loop.simps[of tr m s beg ed] Let_def)
      moreover have "\<dots> = ?m2 p"
        using "1.IH"(2)[OF True refl refl refl] "2.prems" True by simp
      ultimately show ?thesis by (simp add: store8_def)
    next
      case False
      then show ?thesis by (simp add: strrev_loop.simps[of tr m s beg ed])
    qed
  }
qed

lemma bytes_at_eq_write_bytes:
  assumes "inj_on tr (region a (length bs))" "length bs \<le> 2 ^ 32"
    and "bytes_at tr m' a (length bs) = bs"
    and "\<And>p. p \<notin> tr ` region a (length bs) \<Longrightarrow> m' p = m p"
  shows "m' = write_bytes tr a bs m"
proof
  fix p show "m' p = write_bytes tr a bs m p"
  proof (cases "p \<in> tr ` region a (length bs)")
    case True
    then obtain i where i: "i < length bs" "p = tr (a + of_nat i)" by (auto simp: region_def)
    have "m' p = bs ! i" using i assms(3) nth_bytes_at[of i "length bs" tr m' a]
      by (simp add: load8_def)
    moreover have "write_bytes tr a bs m p = bs ! i"
      using i bytes_at_write_bytes[OF assms(1,2), of m]
        nth_bytes_at[of i "length bs" tr "write_bytes tr a bs m" a] by (simp add: load8_def)
    ultimately show ?thesis by simp
  next
    case False
    then show ?thesis by (simp add: assms(4) write_bytes_other)
  qed
qed

lemma sint_of_nat32: "k < 2 ^ 31 \<Longrightarrow> sint (of_nat k :: u32) = int k"
  by (simp add: signed_of_nat signed_take_bit_int_eq_self)

lemma strrev_bytes:
  assumes "is_cstr (ptr tr m s) xs" "inj_on tr (region s (length xs))" "length xs < 2 ^ 31"
  shows "strrev tr m s = Some (write_bytes tr s (rev xs) m)"
proof -
  let ?n = "length xs"
  have ed: "sint ((of_nat ?n :: u32) - 1) = int ?n - 1"
  proof (cases "?n = 0")
    case False
    then obtain k where k: "?n = Suc k" by (cases ?n) auto
    have "sint (of_nat k :: u32) = int k" using assms(3) k by (intro sint_of_nat32) simp
    then show ?thesis using k by simp
  qed simp
  let ?m = "strrev_loop tr m s 0 (int ?n - 1)"
  note b = strrev_loop_bytes[OF assms(2,3), of 0 "int ?n - 1"]
  have "?m = write_bytes tr s (rev xs) m"
  proof (rule bytes_at_eq_write_bytes)
    show "bytes_at tr ?m s (length (rev xs)) = rev xs"
    proof (rule nth_equalityI)
      fix i assume "i < length (bytes_at tr ?m s (length (rev xs)))"
      then have i: "i < ?n" by simp
      then have "bytes_at tr ?m s (length (rev xs)) ! i = load8 tr m (s + of_nat (?n - Suc i))"
        using b(1)[of i m] by (simp add: of_nat_diff diff_diff_eq)
      also have "\<dots> = ptr tr m s (of_nat (?n - Suc i))" by (simp only: ptr_def)
      also have "\<dots> = xs ! (?n - Suc i)"
        using assms(1) i by (simp only: is_cstr_def)
      finally show "bytes_at tr ?m s (length (rev xs)) ! i = rev xs ! i"
        using i by (simp add: rev_nth)
    qed simp
  qed (use assms b(2) in simp_all)
  then show ?thesis using strlen_is_cstr[OF assms(1)] ed by (simp add: strrev_def)
qed


text \<open>The digits of a number, least significant first, and its decoding.\<close>

fun digits_lsb :: "nat \<Rightarrow> nat \<Rightarrow> nat list" where
  "digits_lsb r v = (if v = 0 \<or> r < 2 then [] else v mod r # digits_lsb r (v div r))"

declare digits_lsb.simps [simp del]

definition itoa_str :: "u32 \<Rightarrow> u32 \<Rightarrow> byte list" where
  "itoa_str val radix =
     (if val = 0 then [48]
      else rev (map (\<lambda>d. itoa_lookup ! d) (digits_lsb (unat radix) (unat val))))"

definition atoi_str :: "nat \<Rightarrow> byte list \<Rightarrow> nat" where
  "atoi_str r = foldl (\<lambda>acc c. acc * r + length (takeWhile (\<lambda>x. x \<noteq> c) itoa_lookup)) 0"

lemma length_itoa_lookup: "length itoa_lookup = 36"
  by (simp add: itoa_lookup_def)

lemma itoa_lookup_nonzero: "d < 36 \<Longrightarrow> itoa_lookup ! d \<noteq> 0"
proof -
  have "\<forall>x \<in> set itoa_lookup. x \<noteq> 0" by (simp add: itoa_lookup_def)
  then show "d < 36 \<Longrightarrow> itoa_lookup ! d \<noteq> 0"
    using nth_mem[of d itoa_lookup] by (auto simp: length_itoa_lookup)
qed

lemma itoa_lookup_index:
  assumes "d < 36"
  shows "length (takeWhile (\<lambda>x. x \<noteq> itoa_lookup ! d) itoa_lookup) = d"
proof -
  have dist: "distinct itoa_lookup" by (simp add: itoa_lookup_def)
  show ?thesis
  proof (rule antisym)
    show "length (takeWhile (\<lambda>x. x \<noteq> itoa_lookup ! d) itoa_lookup) \<le> d"
    proof (rule ccontr)
      assume less: "\<not> length (takeWhile (\<lambda>x. x \<noteq> itoa_lookup ! d) itoa_lookup) \<le> d"
      then have "takeWhile (\<lambda>x. x \<noteq> itoa_lookup ! d) itoa_lookup ! d = itoa_lookup ! d"
        by (intro takeWhile_nth) simp
      then show False using less nth_mem[of d "takeWhile (\<lambda>x. x \<noteq> itoa_lookup ! d) itoa_lookup"]
        by (auto dest: set_takeWhileD)
    qed
    show "d \<le> length (takeWhile (\<lambda>x. x \<noteq> itoa_lookup ! d) itoa_lookup)"
      using assms dist
      by (intro length_takeWhile_less_P_nth) (auto simp: length_itoa_lookup nth_eq_iff_index_eq)
  qed
qed

lemma digits_lsb_bound: "2 \<le> r \<Longrightarrow> d \<in> set (digits_lsb r v) \<Longrightarrow> d < r"
proof (induction r v rule: digits_lsb.induct)
  case (1 r v)
  then show ?case by (subst (asm) digits_lsb.simps) (auto split: if_splits)
qed

lemma digits_lsb_value:
  "2 \<le> r \<Longrightarrow> foldr (\<lambda>d acc. acc * r + d) (digits_lsb r v) 0 = v"
proof (induction r v rule: digits_lsb.induct)
  case (1 r v)
  then show ?case by (subst digits_lsb.simps) auto
qed

lemma length_digits_lsb: "2 \<le> r \<Longrightarrow> v < 2 ^ k \<Longrightarrow> length (digits_lsb r v) \<le> k"
proof (induction r v arbitrary: k rule: digits_lsb.induct)
  case (1 r v)
  show ?case
  proof (cases "v = 0")
    case True
    then show ?thesis by (subst digits_lsb.simps) simp
  next
    case False
    with 1 obtain j where k: "k = Suc j" by (cases k) auto
    have "v div r \<le> v div 2" using 1 by (intro div_le_mono2) simp_all
    also have "\<dots> < 2 ^ j" using 1 k by simp
    finally have "length (digits_lsb r (v div r)) \<le> j" using 1 False by simp
    then show ?thesis using 1 False k by (subst digits_lsb.simps) simp
  qed
qed

lemma itoa_loop_bytes:
  assumes "2 \<le> unat radix"
  shows "itoa_loop tr m val p radix =
    Some (write_bytes tr p (map (\<lambda>d. itoa_lookup ! d) (digits_lsb (unat radix) (unat val)) @ [0]) m)"
proof (induction "unat val" arbitrary: val p m rule: less_induct)
  case less
  show ?case
  proof (cases "val = 0")
    case True
    then show ?thesis
      by (subst itoa_loop.simps) (simp add: digits_lsb.simps[of "unat radix" 0])
  next
    case False
    then have pos: "val > 0" "0 < unat val" by (simp_all add: word_gt_0 unat_gt_0)
    then have "unat (val div radix) < unat val"
      using assms by (simp add: unat_div)
    from less[OF this]
    have "itoa_loop tr (store8 tr p (itoa_lookup ! unat (val mod radix)) m) (val div radix) (p + 1) radix =
       Some (write_bytes tr (p + 1)
         (map (\<lambda>d. itoa_lookup ! d) (digits_lsb (unat radix) (unat (val div radix))) @ [0])
         (store8 tr p (itoa_lookup ! unat (val mod radix)) m))" .
    then show ?thesis using pos assms
      by (simp add: itoa_loop.simps[of tr m val] digits_lsb.simps[of "unat radix" "unat val"]
          unat_div unat_mod)
  qed
qed

lemma is_cstr_write_bytes:
  assumes "inj_on tr (region a (Suc (length xs)))" "Suc (length xs) \<le> 2 ^ 32" "0 \<notin> set xs"
  shows "is_cstr (ptr tr (write_bytes tr a (xs @ [0]) m) a) xs"
proof -
  have b: "bytes_at tr (write_bytes tr a (xs @ [0]) m) a (Suc (length xs)) = xs @ [0]"
    using bytes_at_write_bytes[of tr a "xs @ [0]" m] assms by simp
  have "load8 tr (write_bytes tr a (xs @ [0]) m) (a + of_nat i) = (xs @ [0]) ! i"
    if "i < Suc (length xs)" for i
    using that arg_cong[OF b, of "\<lambda>l. l ! i"] by simp
  moreover have "xs ! i \<noteq> 0" if "i < length xs" for i
    using assms(3) nth_mem[OF that] by metis
  ultimately show ?thesis using assms(2) by (auto simp: is_cstr_def ptr_def nth_append)
qed

lemma length_itoa_str: "2 \<le> unat radix \<Longrightarrow> length (itoa_str val radix) \<le> 32"
  using length_digits_lsb[of "unat radix" "unat val" 32] unat_lt32[of val]
  by (simp add: itoa_str_def)

lemma itoa_str_nonzero:
  assumes "2 \<le> unat radix" "unat radix \<le> 36"
  shows "0 \<notin> set (itoa_str val radix)"
proof -
  have "itoa_lookup ! d \<noteq> 0" if "d \<in> set (digits_lsb (unat radix) (unat val))" for d
    using digits_lsb_bound[OF assms(1) that] assms(2) by (intro itoa_lookup_nonzero) simp
  then show ?thesis by (auto simp: itoa_str_def)
qed

text \<open>\<open>itoa\<close> returns, and leaves the representation of the number with its NUL in the buffer.\<close>

lemma itoa_bytes:
  assumes radix: "2 \<le> unat radix" "unat radix \<le> 36" and inj: "inj_on tr (region buf 33)"
  shows "itoa tr m val buf radix = Some (write_bytes tr buf (itoa_str val radix @ [0]) m)"
proof (cases "val = 0")
  case True
  then show ?thesis by (simp add: itoa_def itoa_str_def)
next
  case False
  let ?ds = "rev (itoa_str val radix)"
  let ?n = "length ?ds"
  let ?m1 = "write_bytes tr buf (?ds @ [0]) m"
  have n: "?n \<le> 32" using length_itoa_str[OF radix(1)] by simp
  have inj': "inj_on tr (region buf (Suc ?n))"
    using inj_on_subset[OF inj region_mono] n by simp
  have inj'': "inj_on tr (region buf ?n)"
    using inj_on_subset[OF inj' region_mono] by simp
  have loop: "itoa_loop tr m val buf radix = Some ?m1"
    using False by (simp add: itoa_loop_bytes[OF radix(1)] itoa_str_def)
  have cs: "is_cstr (ptr tr ?m1 buf) ?ds"
    using itoa_str_nonzero[OF radix] n inj' by (intro is_cstr_write_bytes) auto
  have "tr (buf + of_nat ?n) \<notin> tr ` region buf ?n"
  proof
    assume "tr (buf + of_nat ?n) \<in> tr ` region buf ?n"
    then obtain i where "i < ?n" "tr (buf + of_nat ?n) = tr (buf + of_nat i)" by (auto simp: region_def)
    then show False using inj_on_region[OF inj', of "?n" i] n by simp
  qed
  then have "write_bytes tr buf (rev ?ds) ?m1 =
      store8 tr (buf + of_nat ?n) 0 (write_bytes tr buf (rev ?ds) (write_bytes tr buf ?ds m))"
    by (simp add: write_bytes_append write_bytes_store8_commute)
  also have "write_bytes tr buf (rev ?ds) (write_bytes tr buf ?ds m) = write_bytes tr buf (rev ?ds) m"
    by (intro write_bytes_overwrite) (simp add: write_bytes_other)
  finally have "write_bytes tr buf (rev ?ds) ?m1 = write_bytes tr buf (rev ?ds @ [0]) m"
    by (simp add: write_bytes_append)
  moreover have "strrev tr ?m1 buf = Some (write_bytes tr buf (rev ?ds) ?m1)"
    using n by (intro strrev_bytes[OF cs inj'']) simp
  moreover have "radix \<noteq> 0" using radix by auto
  ultimately show ?thesis using False by (simp add: itoa_def loop)
qed

lemma atoi_itoa_str:
  assumes "2 \<le> unat radix" "unat radix \<le> 36"
  shows "atoi_str (unat radix) (itoa_str val radix) = unat val"
proof (cases "val = 0")
  case True
  then show ?thesis by (simp add: itoa_str_def atoi_str_def itoa_lookup_def)
next
  case False
  let ?r = "unat radix"
  have "atoi_str ?r (itoa_str val radix) =
      foldr (\<lambda>d acc. acc * ?r + length (takeWhile (\<lambda>x. x \<noteq> itoa_lookup ! d) itoa_lookup))
        (digits_lsb ?r (unat val)) 0"
    using False by (simp add: atoi_str_def itoa_str_def foldl_conv_foldr rev_map foldr_map o_def)
  also have "\<dots> = foldr (\<lambda>d acc. acc * ?r + d) (digits_lsb ?r (unat val)) 0"
  proof (intro foldr_cong refl)
    fix d acc assume "d \<in> set (digits_lsb ?r (unat val))"
    then have "d < 36" using digits_lsb_bound[OF assms(1)] assms(2) by fastforce
    then show "acc * ?r + length (takeWhile (\<lambda>x. x \<noteq> itoa_lookup ! d) itoa_lookup) = acc * ?r + d"
      by (simp add: itoa_lookup_index)
  qed
  finally show ?thesis using digits_lsb_value[OF assms(1)] by simp
qed

subsection \<open>strcpy\<close>

lemma strcpy_loop_bytes:
  assumes "is_cstr (ptr tr m (s + i)) xs" "apart tr (d + i) (Suc (length xs)) (s + i) (Suc (length xs))"
  shows "strcpy_loop tr m d s i = Some (write_bytes tr (d + i) (xs @ [0]) m)"
  using assms
proof (induction xs arbitrary: m i)
  case Nil
  then show ?case by (simp add: strcpy_loop.simps[of tr m d s i] is_cstr_def ptr_def)
next
  case (Cons x xs)
  let ?m = "store8 tr (d + i) x m"
  have x: "load8 tr m (s + i) = x" "x \<noteq> 0"
    using Cons.prems(1) by (auto simp: is_cstr_def ptr_def dest!: spec[of _ 0])
  have ap: "apart tr (d + (i + 1)) (Suc (length xs)) (s + (i + 1)) (Suc (length xs))"
    using apart_step[of tr "d + i" "Suc (length xs)" "s + i" "Suc (length xs)"] Cons.prems(2)
    by (simp add: add.assoc)
  have next_byte: "load8 tr ?m (s + i + 1 + of_nat j) = load8 tr m (s + i + 1 + of_nat j)"
    if "j < Suc (length xs)" for j
    using apartD[OF Cons.prems(2), of 0 "Suc j"] that by (simp add: load8_store8 add.assoc)
  have "is_cstr (ptr tr ?m (s + (i + 1))) xs"
  proof -
    have "ptr tr ?m (s + (i + 1)) (of_nat j) = (xs @ [0]) ! j" if "j < Suc (length xs)" for j
    proof -
      have "ptr tr m (s + i) (of_nat (Suc j)) = (xs @ [0]) ! j"
        using Cons.prems(1) that
        by (cases "j < length xs") (auto simp: is_cstr_def nth_append dest!: spec[of _ "Suc j"]
            simp del: of_nat_Suc dest: less_antisym)
      then show ?thesis using next_byte[OF that] by (simp add: ptr_def add.assoc add.left_commute)
    qed
    moreover have "\<forall>j < length xs. xs ! j \<noteq> 0"
      using Cons.prems(1) by (auto simp: is_cstr_def dest!: spec[of _ "Suc _"])
    ultimately show ?thesis using Cons.prems(1)
      by (auto simp: is_cstr_def nth_append)
  qed
  from Cons.IH[OF this ap] show ?case using x
    by (simp add: strcpy_loop.simps[of tr m d s i] add.assoc)
qed

lemma strcpy_bytes:
  assumes "is_cstr (ptr tr m s) xs" "apart tr d (Suc (length xs)) s (Suc (length xs))"
  shows "strcpy tr m d s = Some (write_bytes tr d (xs @ [0]) m)"
  using strcpy_loop_bytes[of tr m s 0 xs d] assms by (simp add: strcpy_def)

section \<open>Reading back part of an object\<close>

lemma load8_write_region:
  assumes inj: "inj_on tr (region base N)" and N: "N < 2 ^ 32"
    and fit: "off + length bs \<le> N" and k: "k < N"
  shows "load8 tr (write_bytes tr (base + of_nat off) bs m) (base + of_nat k) =
    (if off \<le> k \<and> k < off + length bs then bs ! (k - off) else load8 tr m (base + of_nat k))"
proof (cases "off \<le> k \<and> k < off + length bs")
  case True
  have inj': "inj_on tr (region (base + of_nat off) (length bs))"
    using inj_on_subset[OF inj region_shift[OF fit]] .
  have eq: "base + of_nat k = (base + of_nat off) + of_nat (k - off)" using True by (simp add: of_nat_diff)
  have "bytes_at tr (write_bytes tr (base + of_nat off) bs m) (base + of_nat off) (length bs) ! (k - off) =
      bs ! (k - off)"
    using bytes_at_write_bytes[OF inj'] fit N by simp
  moreover have "k - off < length bs" using True by linarith
  ultimately show ?thesis unfolding eq using True by (simp only: nth_bytes_at) simp
next
  case False
  have out: "tr (base + of_nat k) \<notin> tr ` region (base + of_nat off) (length bs)"
  proof
    assume "tr (base + of_nat k) \<in> tr ` region (base + of_nat off) (length bs)"
    then obtain j where j: "j < length bs" "tr (base + of_nat k) = tr (base + of_nat (off + j))"
      by (auto simp: region_def add.assoc)
    then have "k = off + j" using inj_on_region[OF inj, of k "off + j"] N fit k by simp
    then show False using False j by simp
  qed
  show ?thesis unfolding load8_write_bytes_other[OF out] using False by auto
qed

text \<open>A number in a base has no more digits than needed.\<close>

lemma length_digits_lsb_power: "2 \<le> r \<Longrightarrow> v < r ^ k \<Longrightarrow> length (digits_lsb r v) \<le> k"
proof (induction r v arbitrary: k rule: digits_lsb.induct)
  case (1 r v)
  show ?case
  proof (cases "v = 0")
    case True
    then show ?thesis by (simp add: digits_lsb.simps)
  next
    case False
    then obtain j where j: "k = Suc j" using 1(3) by (cases k) auto
    then have "v div r < r ^ j" using 1(2,3) by (simp add: less_mult_imp_div_less mult.commute)
    then have "length (digits_lsb r (v div r)) \<le> j" using 1(1)[of j] False 1(2) by simp
    then show ?thesis using False 1(2) j by (subst digits_lsb.simps) simp
  qed
qed

lemma length_itoa_hex: "length (itoa_str v 16) \<le> 8"
proof -
  have "length (digits_lsb 16 (unat v)) \<le> 8"
    by (rule length_digits_lsb_power) (use unat_lt32[of v] in simp_all)
  then show ?thesis by (simp add: itoa_str_def)
qed

section \<open>Properties\<close>

text \<open>C34: \<open>memmove\<close> copies the source as it was before the call, overlapping or
  not, and writes nothing else, wherever the two ranges do not wrap around and are
  mapped injectively.\<close>
theorem memmove_copies_overlapping:
  assumes "inj_on tr (region d (unat n) \<union> region s (unat n))"
    and "unat d + unat n \<le> 2 ^ 32" "unat s + unat n \<le> 2 ^ 32"
  shows "bytes_at tr (fst (memmove tr m d s n)) d (unat n) = bytes_at tr m s (unat n) \<and>
         (\<forall>p. p \<notin> tr ` region d (unat n) \<longrightarrow> fst (memmove tr m d s n) p = m p)"
proof -
  have "inj_on tr (region d (unat n))" "unat n \<le> 2 ^ 32"
    using assms(1) unat_lt32[of n] by (auto intro: inj_on_subset)
  then show ?thesis
    using bytes_at_write_bytes[of tr d "bytes_at tr m s (unat n)" m]
    by (simp add: memmove_bytes[OF assms] write_bytes_other)
qed

lemma memmove_copies_overlapping_witness:
  "bytes_at (\<lambda>a. a) (fst (memmove (\<lambda>a. a) (\<lambda>a. ucast a) 2 0 5)) 2 5 = [0, 1, 2, 3, 4]"
  using memmove_copies_overlapping[where tr = "\<lambda>a. a" and d = 2 and n = 5 and s = 0 and m = "\<lambda>a. ucast a"]
  by (simp add: bytes_at_def load8_def upt_rec)

text \<open>\<open>memcpy\<close> with its alignment prologue, word copies and byte tail copies
  exactly \<open>n\<close> bytes and writes nothing else, when source and destination are apart.\<close>
theorem memcpy_copies:
  assumes "apart tr d (unat n) s (unat n)" "inj_on tr (region d (unat n))"
  shows "bytes_at tr (memcpy tr m d s n) d (unat n) = bytes_at tr m s (unat n) \<and>
         (\<forall>p. p \<notin> tr ` region d (unat n) \<longrightarrow> memcpy tr m d s n p = m p)"
  using bytes_at_write_bytes[of tr d "bytes_at tr m s (unat n)" m] assms(2) unat_lt32[of n]
  by (simp add: memcpy_bytes[OF assms(1)] write_bytes_other)

lemma memcpy_copies_witness:
  "bytes_at (\<lambda>a. a) (memcpy (\<lambda>a. a) (\<lambda>a. ucast a) 33 3 7) 33 7 = [3, 4, 5, 6, 7, 8, 9]"
  using memcpy_copies[of "\<lambda>a. a" 33 7 3 "\<lambda>a. ucast a"]
  by (simp add: bytes_at_def load8_def upt_rec apart_def region_def lessThan_nat_numeral lessThan_Suc)

text \<open>\<open>memset\<close>, with its word fill in the middle, sets exactly the \<open>n\<close> bytes of the
  region to the low byte of \<open>c\<close>.\<close>
theorem memset_fills:
  assumes "inj_on tr (region s (unat n))"
  shows "bytes_at tr (memset tr m s c n) s (unat n) = replicate (unat n) (ucast c) \<and>
         (\<forall>p. p \<notin> tr ` region s (unat n) \<longrightarrow> memset tr m s c n p = m p)"
  using bytes_at_write_bytes[of tr s "replicate (unat n) (ucast c)" m] assms unat_lt32[of n]
  by (simp add: memset_bytes write_bytes_other)

lemma memset_fills_witness:
  "bytes_at (\<lambda>a. a) (memset (\<lambda>a. a) (\<lambda>a. 0) 3 0x141 6) 3 6 = replicate 6 0x41"
  using memset_fills[where tr = "\<lambda>a. a" and s = 3 and n = 6 and m = "\<lambda>a. 0" and c = "0x141"] by simp

text \<open>C35: \<open>itoa\<close> always returns for a radix from 2 to 36, the buffer then holds a
  terminated string of at most 32 characters, and reading those digits back in the same
  radix gives the number that was printed.\<close>
theorem itoa_round_trip:
  assumes "2 \<le> unat radix" "unat radix \<le> 36" "inj_on tr (region buf 33)"
  shows "\<exists>m' xs. itoa tr m val buf radix = Some m' \<and> is_cstr (ptr tr m' buf) xs \<and>
           length xs \<le> 32 \<and> atoi_str (unat radix) xs = unat val"
proof -
  have len: "length (itoa_str val radix) \<le> 32" using assms(1) by (rule length_itoa_str)
  have "inj_on tr (region buf (Suc (length (itoa_str val radix))))"
    using assms(3) len by (rule_tac inj_on_subset[OF _ region_mono]) auto
  then have "is_cstr (ptr tr (write_bytes tr buf (itoa_str val radix @ [0]) m) buf) (itoa_str val radix)"
    using len assms by (intro is_cstr_write_bytes itoa_str_nonzero) auto
  then show ?thesis using len assms by (auto simp: itoa_bytes intro: atoi_itoa_str)
qed

lemma itoa_round_trip_witness:
  "\<exists>m' xs. itoa (\<lambda>a. a) (\<lambda>a. 0) 255 64 16 = Some m' \<and> is_cstr (ptr (\<lambda>a. a) m' 64) xs \<and>
     length xs \<le> 32 \<and> atoi_str 16 xs = 255"
  using itoa_round_trip[of 16 "\<lambda>a. a" 64 "\<lambda>a. 0" 255] by simp

text \<open>\<open>strncmp\<close> answers 0 exactly when the two strings, each cut at its
  terminator or at \<open>n\<close> characters, are equal, and swapping its arguments negates the
  answer.\<close>
theorem strncmp_equal_antisymmetric:
  "(strncmp s1 s2 n = 0 \<longleftrightarrow> cstr s1 (unat n) = cstr s2 (unat n)) \<and>
   strncmp s2 s1 n = - strncmp s1 s2 n"
proof -
  have "strncmp_loop s2 s1 n i = - strncmp_loop s1 s2 n i" for i
    by (induction s1 s2 n i rule: strncmp_loop.induct)
      (subst (1 2) strncmp_loop.simps, auto)
  then show ?thesis by (simp add: strncmp_def strncmp_0[unfolded strncmp_def])
qed

text \<open>\<open>strlen\<close> returns exactly when some byte of the address space from the
  pointer on is zero, and then it returns the offset of the first one.\<close>
theorem strlen_returns_first_nul:
  "(\<exists>n. strlen s = Some n) = (\<exists>z. s z = 0) \<and>
   (strlen s = Some n \<longrightarrow> s n = 0 \<and> (\<forall>j < n. s j \<noteq> 0))"
proof (intro conjI impI)
  show "(\<exists>n. strlen s = Some n) = (\<exists>z. s z = 0)" by (rule strlen_total_iff)
next
  assume n: "strlen s = Some n"
  then obtain xs where xs: "is_cstr s xs" "n = of_nat (length xs)" "length xs = unat n" by (rule strlen_SomeE)
  show "s n = 0" unfolding xs(2) using xs(1) by (simp add: is_cstr_def)
  show "\<forall>j < n. s j \<noteq> 0"
  proof (intro allI impI)
    fix j assume "j < n"
    then have "unat j < length xs" using xs(3) by (simp add: word_less_nat_alt)
    then have "s (of_nat (unat j)) \<noteq> 0" using xs(1) by (auto simp: is_cstr_def)
    then show "s j \<noteq> 0" by simp
  qed
qed

lemma strlen_returns_first_nul_witness:
  "\<exists>n. strlen (\<lambda>i. if i = 3 then 0 else 1) = Some n \<and> n = 3"
proof -
  have "\<exists>n. strlen (\<lambda>i. if i = 3 then 0 else 1) = Some n"
    using strlen_returns_first_nul[THEN conjunct1, of "\<lambda>i. if i = 3 then 0 else 1"]
    by (simp only:) (rule exI[of _ 3], simp)
  then obtain n where n: "strlen (\<lambda>i. if i = 3 then 0 else 1) = Some n" by (rule exE)
  then have "n = 3"
    using strlen_returns_first_nul[THEN conjunct2, THEN mp, OF n] by (simp split: if_splits)
  with n show ?thesis by simp
qed

end
