(* ===== verification/Machine.thy ===== *)
theory Machine
  imports C_Library
begin

text \<open>
  The part of the machine every driver touches: physical memory, the interrupt flag
  (\<open>cli\<close>, \<open>sti\<close> of \<open>lib.h\<close>), the bytes sent to I/O ports in order (\<open>outb\<close>), and the
  fields of 32-bit words that the union and bitfield types of \<open>x86_desc.h\<close> overlay.
\<close>

record machine =
  phys :: mem
  iflag :: bool
  io_log :: "(u16 \<times> byte) list"

definition cli :: "'a machine_scheme \<Rightarrow> 'a machine_scheme" where
  "cli s = s\<lparr>iflag := False\<rparr>"

definition sti :: "'a machine_scheme \<Rightarrow> 'a machine_scheme" where
  "sti s = s\<lparr>iflag := True\<rparr>"

text \<open>\<open>outb(data, port)\<close>: the newest event is the last one.\<close>

definition outb :: "byte \<Rightarrow> u16 \<Rightarrow> 'a machine_scheme \<Rightarrow> 'a machine_scheme" where
  "outb data port s = s\<lparr>io_log := io_log s @ [(port, data)]\<rparr>"

section \<open>Bit fields\<close>

definition get_field :: "nat \<Rightarrow> nat \<Rightarrow> u32 \<Rightarrow> u32" where
  "get_field lo n w = take_bit n (drop_bit lo w)"

definition set_field :: "nat \<Rightarrow> nat \<Rightarrow> u32 \<Rightarrow> u32 \<Rightarrow> u32" where
  "set_field lo n v w = (w AND NOT (push_bit lo (mask n))) OR push_bit lo (take_bit n v)"

lemma bit_get_field: "bit (get_field lo n w) i \<longleftrightarrow> i < n \<and> bit w (lo + i)"
  by (auto simp: get_field_def bit_simps)

lemma bit_set_field:
  "lo + n \<le> 32 \<Longrightarrow>
   bit (set_field lo n v w) i \<longleftrightarrow> (if lo \<le> i \<and> i < lo + n then bit v (i - lo) else bit w i)"
  by (cases "i < 32") (auto simp: set_field_def bit_simps dest: bit_imp_le_length)

lemma get_field_same: "lo + n \<le> 32 \<Longrightarrow> get_field lo n (set_field lo n v w) = take_bit n v"
  by (rule bit_word_eqI) (auto simp: bit_get_field bit_set_field bit_simps)

lemma get_field_other:
  "lo + n \<le> 32 \<Longrightarrow> lo' + n' \<le> lo \<or> lo + n \<le> lo' \<Longrightarrow>
   get_field lo' n' (set_field lo n v w) = get_field lo' n' w"
  by (rule bit_word_eqI) (auto simp: bit_get_field bit_set_field)

lemma get_field_0 [simp]: "get_field lo n 0 = 0"
  by (simp add: get_field_def)

text \<open>The fields the code uses, at literal positions.\<close>

named_theorems field_simps32 \<open>reading back bit fields\<close>

lemmas field_same_simps [field_simps32] =
  get_field_same[of 0 1, simplified] get_field_same[of 1 1, simplified]
  get_field_same[of 2 1, simplified] get_field_same[of 7 1, simplified]
  get_field_same[of 12 20, simplified] get_field_same[of 22 10, simplified]

lemmas field_other_simps [field_simps32] =
  get_field_other[of 0 1 _ _, simplified] get_field_other[of 1 1 _ _, simplified]
  get_field_other[of 2 1 _ _, simplified] get_field_other[of 7 1 _ _, simplified]
  get_field_other[of 12 20 _ _, simplified] get_field_other[of 22 10 _ _, simplified]

end
