(* ===== verification/Paging.thy ===== *)
theory Paging
  imports Machine
begin

text \<open>
  Paging: the tables of \<open>x86_desc.h\<close>, \<open>paging_init\<close> of \<open>paging.c\<close>, and
  \<open>set_paging_for_process\<close> and \<open>flush_tlb\<close> of \<open>interrupts/syscall_handler.c\<close>.
  A table entry is its 32-bit value; the bitfield assignments of the source set fields of
  that word. \<open>translate\<close> is the processor's walk of the two tables, as the Intel manual
  documents it for 32-bit paging with 4 MB pages enabled.
\<close>

section \<open>State\<close>

text \<open>
  \<open>pt_addr\<close> is the address the linker gives \<open>page_table\<close>. \<open>tlb_stale\<close> records that
  an entry changed since the TLB was last flushed; \<open>paging_on\<close> is the PG bit of CR0.
\<close>

record paging_state = machine +
  page_directory :: "nat \<Rightarrow> u32"
  page_table :: "nat \<Rightarrow> u32"
  pt_addr :: addr
  tlb_stale :: bool
  paging_on :: bool

definition VIDEO_MEM_INDEX :: nat where
  "VIDEO_MEM_INDEX = 0xB8"

section \<open>The bit fields of an entry\<close>

definition set_present :: "u32 \<Rightarrow> u32 \<Rightarrow> u32" where "set_present v w = set_field 0 1 v w"
definition set_read_write :: "u32 \<Rightarrow> u32 \<Rightarrow> u32" where "set_read_write v w = set_field 1 1 v w"
definition set_user_supervisor :: "u32 \<Rightarrow> u32 \<Rightarrow> u32" where "set_user_supervisor v w = set_field 2 1 v w"
definition set_page_size :: "u32 \<Rightarrow> u32 \<Rightarrow> u32" where "set_page_size v w = set_field 7 1 v w"
definition set_address_31_12 :: "u32 \<Rightarrow> u32 \<Rightarrow> u32" where "set_address_31_12 v w = set_field 12 20 v w"
definition set_address_31_22 :: "u32 \<Rightarrow> u32 \<Rightarrow> u32" where "set_address_31_22 v w = set_field 22 10 v w"

lemmas entry_defs = set_present_def set_read_write_def set_user_supervisor_def
  set_page_size_def set_address_31_12_def set_address_31_22_def

section \<open>Operations\<close>

definition flush_tlb :: "'a paging_state_scheme \<Rightarrow> 'a paging_state_scheme" where
  "flush_tlb s = s\<lparr>tlb_stale := False\<rparr>"

definition set_pte :: "nat \<Rightarrow> (u32 \<Rightarrow> u32) \<Rightarrow> 'a paging_state_scheme \<Rightarrow> 'a paging_state_scheme" where
  "set_pte i f s = s\<lparr>page_table := (page_table s)(i := f (page_table s i)), tlb_stale := True\<rparr>"

definition set_pde :: "nat \<Rightarrow> (u32 \<Rightarrow> u32) \<Rightarrow> 'a paging_state_scheme \<Rightarrow> 'a paging_state_scheme" where
  "set_pde i f s = s\<lparr>page_directory := (page_directory s)(i := f (page_directory s i)), tlb_stale := True\<rparr>"

text \<open>The loop over the 1024 entries, then the video pages, then the directory; \<open>address_low\<close>
  of a table entry and \<open>address_31_12\<close> of a directory entry are the same bits.\<close>

definition paging_init_loop :: "'a paging_state_scheme \<Rightarrow> 'a paging_state_scheme" where
  "paging_init_loop s =
     fold (\<lambda>index. set_pte index (\<lambda>_. set_read_write 1 (set_address_31_12 (of_nat index) 0)))
       [0..<1024] s"

definition paging_init_video :: "'a paging_state_scheme \<Rightarrow> 'a paging_state_scheme" where
  "paging_init_video =
     set_pte (VIDEO_MEM_INDEX + 4) (set_present 1 \<circ> set_user_supervisor 0 \<circ> set_address_31_12 (of_nat (VIDEO_MEM_INDEX + 1))) \<circ>
     set_pte (VIDEO_MEM_INDEX + 3) (set_present 1 \<circ> set_user_supervisor 1 \<circ> set_address_31_12 (of_nat (VIDEO_MEM_INDEX + 3))) \<circ>
     set_pte (VIDEO_MEM_INDEX + 2) (set_present 1 \<circ> set_user_supervisor 1 \<circ> set_address_31_12 (of_nat (VIDEO_MEM_INDEX + 2))) \<circ>
     set_pte (VIDEO_MEM_INDEX + 1) (set_present 1 \<circ> set_user_supervisor 1 \<circ> set_address_31_12 (of_nat VIDEO_MEM_INDEX)) \<circ>
     set_pte VIDEO_MEM_INDEX (set_present 1 \<circ> set_user_supervisor 0)"

definition paging_init_directory :: "'a paging_state_scheme \<Rightarrow> 'a paging_state_scheme" where
  "paging_init_directory s =
     (set_pde 32 (set_user_supervisor 1 \<circ> set_read_write 1 \<circ> set_present 1 \<circ> set_page_size 1 \<circ> set_address_31_22 0xFF) \<circ>
      set_pde 1 (\<lambda>_. set_present 1 (set_page_size 1 (set_address_31_22 1 0))) \<circ>
      set_pde 0 (\<lambda>_. set_read_write 1 (set_user_supervisor 1 (set_present 1
        (set_address_31_12 (drop_bit 12 (pt_addr s)) 0))))) s"

text \<open>Loading CR3 flushes the TLB; CR4.PSE and CR0.PG turn paging with 4 MB pages on.\<close>

definition paging_init :: "'a paging_state_scheme \<Rightarrow> 'a paging_state_scheme" where
  "paging_init s =
     (flush_tlb (paging_init_directory (paging_init_video (paging_init_loop s))))\<lparr>paging_on := True\<rparr>"

definition set_paging_for_process :: "int \<Rightarrow> 'a paging_state_scheme \<Rightarrow> 'a paging_state_scheme" where
  "set_paging_for_process pid s = flush_tlb (set_pde 32 (set_address_31_22 (word_of_int (2 + pid))) s)"

section \<open>The processor's address translation\<close>

text \<open>
  A directory entry that is not a 4 MB page points to a table; the kernel has one, at
  \<open>pt_addr\<close>. The result also says whether user mode may access the page: the
  user/supervisor bits of both levels.
\<close>

definition walk :: "'a paging_state_scheme \<Rightarrow> addr \<Rightarrow> (addr \<times> bool) option" where
  "walk s va =
     (let pde = page_directory s (unat (get_field 22 10 va))
      in if get_field 0 1 pde = 0 then None
         else if get_field 7 1 pde = 1
         then Some (push_bit 22 (get_field 22 10 pde) OR get_field 0 22 va, get_field 2 1 pde = 1)
         else if get_field 12 20 pde = drop_bit 12 (pt_addr s)
         then let pte = page_table s (unat (get_field 12 10 va))
              in if get_field 0 1 pte = 0 then None
                 else Some (push_bit 12 (get_field 12 20 pte) OR get_field 0 12 va,
                            get_field 2 1 pde = 1 \<and> get_field 2 1 pte = 1)
         else None)"

definition translate :: "'a paging_state_scheme \<Rightarrow> addr \<Rightarrow> addr option" where
  "translate s va = map_option fst (walk s va)"

definition user_accessible :: "'a paging_state_scheme \<Rightarrow> addr \<Rightarrow> bool" where
  "user_accessible s va \<longleftrightarrow> (case walk s va of None \<Rightarrow> False | Some (_, us) \<Rightarrow> us)"

text \<open>
  The translation the kernel's own accesses go through. An access to an unmapped address
  never completes (the page fault handler spins), so the value there is of no consequence.
\<close>

definition xlate :: "'a paging_state_scheme \<Rightarrow> xlat" where
  "xlate s va = (case translate s va of None \<Rightarrow> va | Some pa \<Rightarrow> pa)"


section \<open>Addresses\<close>

lemma frame_offset: "push_bit n (f :: nat) OR take_bit n v = f * 2 ^ n + v mod 2 ^ n"
proof -
  have "push_bit n f AND take_bit n v = 0"
    by (rule bit_eqI) (auto simp: bit_simps)
  then show ?thesis
    by (simp add: disjunctive_add_eq_or[symmetric] push_bit_eq_mult take_bit_eq_mod)
qed

lemma unat_get_field: "unat (get_field lo n w) = unat w div 2 ^ lo mod 2 ^ n"
proof -
  have "unat (get_field lo n w) = take_bit n (drop_bit lo (unat w))"
    using unat_lt32[of w]
    by (simp only: get_field_def unsigned_take_bit_eq unsigned_drop_bit_eq)
       (simp add: take_bit_nat_eq_self)
  then show ?thesis by (simp add: take_bit_eq_mod drop_bit_eq_div)
qed

lemma unat_frame_offset:
  assumes "k + n = 32"
  shows "unat (push_bit n (take_bit k f) OR get_field 0 n va :: u32) =
         unat f mod 2 ^ k * 2 ^ n + unat va mod 2 ^ n"
proof -
  have "unat (push_bit n (take_bit k f) OR get_field 0 n va) =
      take_bit 32 (push_bit n (take_bit k (unat f))) OR take_bit n (unat va)"
    by (simp add: unsigned_or_eq unsigned_push_bit_eq unsigned_take_bit_eq get_field_def)
  also have "take_bit 32 (push_bit n (take_bit k (unat f))) = push_bit n (take_bit k (unat f))"
    using assms by (intro bit_eqI) (auto simp: bit_simps)
  finally show ?thesis unfolding frame_offset by (simp only: take_bit_eq_mod)
qed


lemma unat_dir_index: "unat (get_field 22 10 va) = unat va div 0x400000"
  using unat_lt32[of va] by (simp add: unat_get_field)

lemma unat_table_index: "unat va < 0x400000 \<Longrightarrow> unat (get_field 12 10 va) = unat va div 0x1000"
  by (simp add: unat_get_field)

lemma take_bit_get_field: "take_bit n (get_field lo n w) = get_field lo n w"
  by (simp add: get_field_def)

section \<open>The shape of the tables\<close>

text \<open>
  What \<open>paging_init\<close> establishes and every later operation keeps: the low 4 MB go through
  \<open>page_table\<close>, of which only the video page, its three user aliases and the kernel alias
  are present; the kernel page is identity mapped and closed to user mode; entry 32 is a 4 MB
  user page. The frames of entry 32 and of the aliases change.
\<close>

definition directory_inv :: "'a paging_state_scheme \<Rightarrow> bool" where
  "directory_inv s \<longleftrightarrow>
     (\<forall>i < 1024. get_field 0 1 (page_directory s i) = (if i \<in> {0, 1, 32} then 1 else 0)) \<and>
     get_field 7 1 (page_directory s 0) = 0 \<and>
     get_field 12 20 (page_directory s 0) = drop_bit 12 (pt_addr s) \<and>
     get_field 2 1 (page_directory s 0) = 1 \<and>
     get_field 7 1 (page_directory s 1) = 1 \<and> get_field 22 10 (page_directory s 1) = 1 \<and>
     get_field 2 1 (page_directory s 1) = 0 \<and>
     get_field 7 1 (page_directory s 32) = 1 \<and> get_field 2 1 (page_directory s 32) = 1"

definition table_inv :: "'a paging_state_scheme \<Rightarrow> bool" where
  "table_inv s \<longleftrightarrow>
     (\<forall>i < 1024. get_field 0 1 (page_table s i) = (if 0xB8 \<le> i \<and> i \<le> 0xBC then 1 else 0)) \<and>
     (\<forall>i. 0xB8 \<le> i \<and> i \<le> 0xBC \<longrightarrow>
        get_field 2 1 (page_table s i) = (if 0xB9 \<le> i \<and> i \<le> 0xBB then 1 else 0)) \<and>
     get_field 12 20 (page_table s 0xB8) = 0xB8"

definition paging_inv :: "'a paging_state_scheme \<Rightarrow> bool" where
  "paging_inv s \<longleftrightarrow> directory_inv s \<and> table_inv s"

text \<open>The aliases while terminal \<open>cur\<close> is on the screen.\<close>

definition video_map :: "nat \<Rightarrow> 'a paging_state_scheme \<Rightarrow> bool" where
  "video_map cur s \<longleftrightarrow>
     (\<forall>t < 3. get_field 12 20 (page_table s (0xB9 + t)) = (if t = cur then 0xB8 else of_nat (0xB9 + t))) \<and>
     get_field 12 20 (page_table s 0xBC) = of_nat (0xB9 + cur)"

text \<open>The physical 4 MB frame behind the user page.\<close>

definition user_frame :: "'a paging_state_scheme \<Rightarrow> nat" where
  "user_frame s = unat (get_field 22 10 (page_directory s 32))"

lemma mod_in_frame:
  fixes a k :: nat
  assumes "k * 0x400000 \<le> a" "a < Suc k * 0x400000"
  shows "a mod 0x400000 = a - k * 0x400000"
proof -
  have "a = k * 0x400000 + (a - k * 0x400000)" "a - k * 0x400000 < 0x400000" using assms by simp_all
  then show ?thesis by (metis mod_less mod_mult_self3)
qed

lemma walk_kernel:
  assumes "paging_inv s" "0x400000 \<le> unat va" "unat va < 0x800000"
  shows "walk s va = Some (va, False)"
proof -
  have idx: "unat (get_field 22 10 va) = 1" using assms(2,3) by (simp add: unat_dir_index)
  have "(push_bit 22 1 OR get_field 0 22 va :: u32) = va"
  proof (rule word_unat_eq_iff[THEN iffD2])
    show "unat (push_bit 22 1 OR get_field 0 22 va :: u32) = unat va"
      using unat_frame_offset[of 10 22 1 va] mod_in_frame[of 1 "unat va"] assms(2,3) by simp
  qed
  then show ?thesis using assms(1)
    by (simp add: walk_def idx paging_inv_def directory_inv_def)
qed

lemma xlate_kernel:
  assumes "paging_inv s" "0x400000 \<le> unat va" "unat va < 0x800000"
  shows "xlate s va = va"
  using walk_kernel[OF assms] by (simp add: xlate_def translate_def)

lemma walk_user:
  assumes "paging_inv s" "0x8000000 \<le> unat va" "unat va < 0x8400000"
  shows "\<exists>pa. walk s va = Some (pa, True) \<and>
              unat pa = user_frame s * 0x400000 + (unat va - 0x8000000)"
proof -
  have idx: "unat (get_field 22 10 va) = 32" using assms(2,3) by (simp add: unat_dir_index)
  let ?f = "get_field 22 10 (page_directory s 32)"
  have "unat va mod 0x400000 = unat va - 0x8000000"
    using mod_in_frame[of 32 "unat va"] assms(2,3) by simp
  moreover have "unat ?f mod 1024 = unat ?f" by (simp add: unat_get_field)
  ultimately have "unat (push_bit 22 ?f OR get_field 0 22 va) = user_frame s * 0x400000 + (unat va - 0x8000000)"
    using unat_frame_offset[of 10 22 ?f va] by (simp add: take_bit_get_field user_frame_def)
  then show ?thesis using assms(1)
    by (simp add: walk_def idx paging_inv_def directory_inv_def)
qed

lemma walk_low:
  assumes "paging_inv s" "unat va < 0x400000"
  shows "walk s va =
     (let i = unat va div 0x1000
      in if 0xB8 \<le> i \<and> i \<le> 0xBC
         then Some (push_bit 12 (get_field 12 20 (page_table s i)) OR get_field 0 12 va,
                    0xB9 \<le> i \<and> i \<le> 0xBB)
         else None)"
proof -
  have "unat (get_field 22 10 va) = 0" using assms(2) by (simp add: unat_dir_index)
  moreover have "unat va div 0x1000 < 1024" using assms(2) by simp
  ultimately show ?thesis using assms
    by (auto simp: walk_def paging_inv_def directory_inv_def table_inv_def unat_table_index Let_def)
qed

lemma walk_elsewhere:
  assumes "paging_inv s" "0x800000 \<le> unat va" "unat va < 0x8000000 \<or> 0x8400000 \<le> unat va"
  shows "walk s va = None"
proof -
  let ?i = "unat va div 0x400000"
  have "2 \<le> ?i" using assms(2) by linarith
  moreover have "?i \<noteq> 32" using assms(3) by linarith
  moreover have "?i < 1024" using unat_lt32[of va] by simp
  ultimately show ?thesis using assms(1)
    by (simp add: walk_def unat_dir_index paging_inv_def directory_inv_def)
qed

text \<open>
  What user mode can reach: its own 4 MB page and the three video aliases, nothing else; in
  particular neither the kernel page nor the frame buffer itself nor page 0.
\<close>

lemma user_accessible_iff:
  assumes "paging_inv s"
  shows "user_accessible s va \<longleftrightarrow>
    (0x8000000 \<le> unat va \<and> unat va < 0x8400000) \<or> (0xB9000 \<le> unat va \<and> unat va < 0xBC000)"
proof -
  consider "unat va < 0x400000" | "0x400000 \<le> unat va" "unat va < 0x800000"
    | "0x8000000 \<le> unat va" "unat va < 0x8400000"
    | "0x800000 \<le> unat va" "unat va < 0x8000000 \<or> 0x8400000 \<le> unat va" by linarith
  then show ?thesis
  proof cases
    case 1
    have "(0xB9 \<le> unat va div 0x1000 \<and> unat va div 0x1000 \<le> 0xBB) \<longleftrightarrow>
        0xB9000 \<le> unat va \<and> unat va < 0xBC000" by linarith
    then show ?thesis using walk_low[OF assms 1] 1
      by (auto simp: user_accessible_def Let_def)
  next
    case 2
    then show ?thesis using walk_kernel[OF assms 2] by (simp add: user_accessible_def)
  next
    case 3
    then show ?thesis using walk_user[OF assms 3] by (auto simp: user_accessible_def)
  next
    case 4
    then show ?thesis using walk_elsewhere[OF assms 4] by (auto simp: user_accessible_def)
  qed
qed


section \<open>Initialisation and process windows\<close>

lemma fold_set_pte:
  "fold (\<lambda>i. set_pte i (\<lambda>_. f i)) [0..<n] s =
     s\<lparr>page_table := (\<lambda>i. if i < n then f i else page_table s i),
       tlb_stale := (0 < n \<or> tlb_stale s)\<rparr>"
proof (induction n)
  case (Suc n)
  have "(\<lambda>i. if i < n then f i else page_table s i)(n := f n) =
      (\<lambda>i. if i < Suc n then f i else page_table s i)" by (auto simp: fun_eq_iff)
  then show ?case using Suc by (simp add: set_pte_def)
qed simp

lemma take_bit_20_small: "k < 2 ^ 20 \<Longrightarrow> take_bit 20 (of_nat k :: u32) = of_nat k"
  by (simp add: take_bit_of_nat take_bit_nat_eq_self)

lemma take_bit_20_frame: "take_bit 20 (drop_bit 12 (a :: u32)) = drop_bit 12 a"
  by (rule bit_word_eqI) (auto simp: bit_simps dest: bit_imp_le_length)

lemma paging_init_table:
  "page_table (paging_init s) i =
     page_table (paging_init_video (s\<lparr>page_table :=
       (\<lambda>i. if i < 1024 then set_read_write 1 (set_address_31_12 (of_nat i) 0) else page_table s i),
       tlb_stale := True\<rparr>)) i"
  by (simp add: paging_init_def paging_init_loop_def fold_set_pte paging_init_directory_def
      flush_tlb_def set_pde_def)

lemma paging_init_table_inv:
  "table_inv (paging_init s) \<and> video_map 0 (paging_init s)"
proof -
  have three: "t < 3 \<longleftrightarrow> t = 0 \<or> t = 1 \<or> t = 2" for t :: nat by auto
  have five: "0xB8 \<le> i \<and> i \<le> 0xBC \<longleftrightarrow> i \<in> {0xB8, 0xB9, 0xBA, 0xBB, 0xBC}" for i :: nat by auto
  show ?thesis
    unfolding table_inv_def video_map_def paging_init_table
    by (simp add: three five paging_init_video_def set_pte_def VIDEO_MEM_INDEX_def entry_defs
        field_simps32 take_bit_20_small all_conj_distrib)
qed

lemma paging_init_directory_inv:
  assumes "\<forall>i. page_directory s i = 0"
  shows "directory_inv (paging_init s)"
  using assms
  by (simp add: directory_inv_def paging_init_def paging_init_loop_def fold_set_pte
      paging_init_video_def paging_init_directory_def flush_tlb_def set_pde_def set_pte_def
      entry_defs field_simps32 take_bit_20_frame)

text \<open>From the zeroed tables of the boot image \<open>paging_init\<close> establishes the shape.\<close>

lemma paging_init_inv:
  assumes "\<forall>i. page_directory s i = 0"
  shows "paging_inv (paging_init s)" "video_map 0 (paging_init s)" "\<not> tlb_stale (paging_init s)"
  using paging_init_table_inv paging_init_directory_inv[OF assms]
  by (auto simp: paging_inv_def) (simp add: paging_init_def flush_tlb_def)

lemma set_paging_inv [simp]:
  "paging_inv (set_paging_for_process pid s) = paging_inv s"
  "video_map cur (set_paging_for_process pid s) = video_map cur s"
  by (auto simp: paging_inv_def directory_inv_def table_inv_def video_map_def
      set_paging_for_process_def flush_tlb_def set_pde_def entry_defs field_simps32)

lemma user_frame_set_paging:
  assumes "0 \<le> pid" "pid < 1022"
  shows "user_frame (set_paging_for_process pid s) = nat (2 + pid)"
proof -
  obtain k where k: "2 + pid = int k" "k < 1024" using assms by (intro that[of "nat (2 + pid)"]) auto
  then have "take_bit 10 (word_of_int (2 + pid) :: u32) = of_nat k"
    by (simp add: take_bit_of_nat take_bit_nat_eq_self)
  then show ?thesis using k unfolding user_frame_def set_paging_for_process_def flush_tlb_def
    set_pde_def entry_defs
    by (simp only: k(1)) (simp add: field_simps32 unat_of_nat32 k(1))
qed

text \<open>The window of process \<open>pid\<close>: 4 MB of physical memory at 8 MB + \<open>pid\<close> * 4 MB.\<close>

lemma translate_window:
  assumes "paging_inv s" "0 \<le> pid" "pid \<le> 5" "0x8000000 \<le> unat va" "unat va < 0x8400000"
  obtains pa where "translate (set_paging_for_process pid s) va = Some pa"
    and "unat pa = nat (2 + pid) * 0x400000 + (unat va - 0x8000000)"
  using walk_user[of "set_paging_for_process pid s" va] assms
  by (auto simp: translate_def user_frame_set_paging)

lemma windows_disjoint:
  assumes "paging_inv s" "0 \<le> pid" "pid \<le> 5" "0 \<le> pid'" "pid' \<le> 5" "pid \<noteq> pid'"
    and va: "0x8000000 \<le> unat va" "unat va < 0x8400000" "0x8000000 \<le> unat va'" "unat va' < 0x8400000"
  shows "translate (set_paging_for_process pid s) va \<noteq> translate (set_paging_for_process pid' s) va'"
proof -
  obtain pa pa' where t: "translate (set_paging_for_process pid s) va = Some pa"
      "translate (set_paging_for_process pid' s) va' = Some pa'"
    and u: "unat pa = nat (2 + pid) * 0x400000 + (unat va - 0x8000000)"
      "unat pa' = nat (2 + pid') * 0x400000 + (unat va' - 0x8000000)"
    using translate_window[OF assms(1,2,3) va(1,2)] translate_window[OF assms(1,4,5) va(3,4)] by metis
  have "unat pa div 0x400000 = nat (2 + pid)" "unat pa' div 0x400000 = nat (2 + pid')"
    unfolding u using va by simp_all
  then have "pa \<noteq> pa'" using assms(2-6) by auto
  then show ?thesis using t by simp
qed

section \<open>Properties\<close>

text \<open>A machine with empty tables, as the loader leaves the kernel's data.\<close>

definition empty_tables :: paging_state where
  "empty_tables = \<lparr>phys = (\<lambda>_. 0), iflag = False, io_log = [], page_directory = (\<lambda>_. 0),
     page_table = (\<lambda>_. 0), pt_addr = 0x409000, tlb_stale = False, paging_on = False\<rparr>"

text \<open>C26: after the initialisation and any sequence of process switches, user mode reaches
  exactly the 4 MB window at 128 MB and the three terminal pages from 0xB9000 to 0xBC000: the
  kernel at 4 MB, the video page at 0xB8000 and everything else are out of its reach.\<close>
theorem user_mode_reach:
  assumes "\<forall>i. page_directory s i = 0"
  shows "user_accessible (fold set_paging_for_process pids (paging_init s)) va \<longleftrightarrow>
    (0x8000000 \<le> unat va \<and> unat va < 0x8400000) \<or> (0xB9000 \<le> unat va \<and> unat va < 0xBC000)"
proof -
  have "paging_inv (fold set_paging_for_process pids t) = paging_inv t" for t :: "'a paging_state_scheme"
    by (induction pids arbitrary: t) auto
  then show ?thesis using paging_init_inv(1)[OF assms] by (simp add: user_accessible_iff)
qed

lemma user_mode_reach_witness:
  "user_accessible (fold set_paging_for_process [0, 3] (paging_init empty_tables)) 0xB9000 \<and>
   \<not> user_accessible (fold set_paging_for_process [0, 3] (paging_init empty_tables)) 0xB8000 \<and>
   \<not> user_accessible (fold set_paging_for_process [0, 3] (paging_init empty_tables)) 0x400000"
  by (subst (1 2 3) user_mode_reach) (simp_all add: empty_tables_def)

text \<open>C25: the user window of process \<open>pid\<close> is the 4 MB of physical memory at 8 MB + 4 MB *
  \<open>pid\<close>, byte for byte, so no address of one process is an address of another.\<close>
theorem process_windows:
  assumes "paging_inv s" "0 \<le> pid" "pid \<le> 5" "0x8000000 \<le> unat va" "unat va < 0x8400000"
  shows "(\<exists>pa. translate (set_paging_for_process pid s) va = Some pa \<and>
            unat pa = nat (2 + pid) * 0x400000 + (unat va - 0x8000000)) \<and>
         (\<forall>pid' va'. 0 \<le> pid' \<and> pid' \<le> 5 \<and> pid' \<noteq> pid \<and> 0x8000000 \<le> unat va' \<and> unat va' < 0x8400000 \<longrightarrow>
            translate (set_paging_for_process pid' s) va' \<noteq> translate (set_paging_for_process pid s) va)"
proof (intro conjI allI impI)
  show "\<exists>pa. translate (set_paging_for_process pid s) va = Some pa \<and>
            unat pa = nat (2 + pid) * 0x400000 + (unat va - 0x8000000)"
    using translate_window[OF assms] by blast
next
  fix pid' and va' :: addr
  assume "0 \<le> pid' \<and> pid' \<le> 5 \<and> pid' \<noteq> pid \<and> 0x8000000 \<le> unat va' \<and> unat va' < 0x8400000"
  then show "translate (set_paging_for_process pid' s) va' \<noteq> translate (set_paging_for_process pid s) va"
    using windows_disjoint[of s pid' pid va' va] assms by simp
qed

lemma process_windows_witness:
  "\<exists>pa. translate (set_paging_for_process 2 (paging_init empty_tables)) 0x8048000 = Some pa \<and>
        unat pa = 0x1048000"
proof -
  have "paging_inv (paging_init empty_tables)" by (rule paging_init_inv) (simp add: empty_tables_def)
  then show ?thesis using process_windows[of "paging_init empty_tables" 2 "0x8048000"] by simp
qed

end
