(* ===== verification/I8259.thy ===== *)
theory I8259
  imports Paging
begin

text \<open>
  The driver of the two cascaded interrupt controllers, \<open>i8259.c\<close>: the mask variables and
  the bytes sent to the controllers.
\<close>

record pic_state = paging_state +
  master_mask :: byte
  slave_mask :: byte

definition MASTER_8259_PORT :: u16 where "MASTER_8259_PORT = 0x20"
definition MASTER_8259_DPORT :: u16 where "MASTER_8259_DPORT = 0x21"
definition SLAVE_8259_PORT :: u16 where "SLAVE_8259_PORT = 0xA0"
definition SLAVE_8259_DPORT :: u16 where "SLAVE_8259_DPORT = 0xA1"
definition SLAVE_CASCADE_IRQ :: u32 where "SLAVE_CASCADE_IRQ = 2"
definition EOI :: u32 where "EOI = 0x60"

lemmas port_defs = MASTER_8259_PORT_def MASTER_8259_DPORT_def SLAVE_8259_PORT_def SLAVE_8259_DPORT_def

definition i8259_init :: "'a pic_state_scheme \<Rightarrow> 'a pic_state_scheme" where
  "i8259_init s =
     (let s1 = outb 0x01 MASTER_8259_DPORT (outb 0x04 MASTER_8259_DPORT
                (outb 0x20 MASTER_8259_DPORT (outb 0x11 MASTER_8259_PORT s)));
          s2 = outb 0x01 SLAVE_8259_DPORT (outb 0x02 SLAVE_8259_DPORT
                (outb 0x28 SLAVE_8259_DPORT (outb 0x11 SLAVE_8259_PORT s1)));
          s3 = s2\<lparr>master_mask := 0xFB, slave_mask := 0xFF\<rparr>
      in outb (slave_mask s3) SLAVE_8259_DPORT (outb (master_mask s3) MASTER_8259_DPORT s3))"

text \<open>\<open>1 << irq_num\<close> is an \<open>int\<close>; the assignment to the byte-wide mask truncates.\<close>

definition enable_irq :: "u32 \<Rightarrow> 'a pic_state_scheme \<Rightarrow> 'a pic_state_scheme" where
  "enable_irq irq_num s =
     (if irq_num < 8 then
        let s1 = s\<lparr>master_mask := master_mask s AND ucast (NOT (push_bit (unat irq_num) (1 :: u32)))\<rparr>
        in outb (master_mask s1) MASTER_8259_DPORT s1
      else if irq_num < 16 then
        let s1 = s\<lparr>slave_mask := slave_mask s AND ucast (NOT (push_bit (unat (irq_num - 8)) (1 :: u32)))\<rparr>
        in outb (slave_mask s1) SLAVE_8259_DPORT s1
      else s)"

definition disable_irq :: "u32 \<Rightarrow> 'a pic_state_scheme \<Rightarrow> 'a pic_state_scheme" where
  "disable_irq irq_num s =
     (if irq_num < 8 then
        let s1 = s\<lparr>master_mask := master_mask s OR ucast (push_bit (unat irq_num) (1 :: u32))\<rparr>
        in outb (master_mask s1) MASTER_8259_DPORT s1
      else if irq_num < 16 then
        let s1 = s\<lparr>slave_mask := slave_mask s OR ucast (push_bit (unat (irq_num - 8)) (1 :: u32))\<rparr>
        in outb (slave_mask s1) SLAVE_8259_DPORT s1
      else s)"

definition send_eoi :: "u32 \<Rightarrow> 'a pic_state_scheme \<Rightarrow> 'a pic_state_scheme" where
  "send_eoi irq_num s =
     (if irq_num < 8 then outb (ucast (EOI OR irq_num)) MASTER_8259_PORT s
      else if irq_num < 16 then
        outb (ucast (EOI OR SLAVE_CASCADE_IRQ)) MASTER_8259_PORT
          (outb (ucast (EOI OR (irq_num - 8))) SLAVE_8259_PORT s)
      else s)"

section \<open>What the masks mean\<close>

text \<open>Interrupt line \<open>n\<close> is masked; the 16 lines are the bits of the two masks.\<close>

definition masked :: "'a pic_state_scheme \<Rightarrow> nat \<Rightarrow> bool" where
  "masked s n = (if n < 8 then bit (master_mask s) n else bit (slave_mask s) (n - 8))"

text \<open>The last byte written to a port: what the controller's mask register holds.\<close>

definition last_out :: "u16 \<Rightarrow> 'a machine_scheme \<Rightarrow> byte option" where
  "last_out port s =
     (case filter (\<lambda>(p, _). p = port) (rev (io_log s)) of [] \<Rightarrow> None | (_, b) # _ \<Rightarrow> Some b)"

definition pic_synced :: "'a pic_state_scheme \<Rightarrow> bool" where
  "pic_synced s \<longleftrightarrow>
     last_out MASTER_8259_DPORT s = Some (master_mask s) \<and>
     last_out SLAVE_8259_DPORT s = Some (slave_mask s)"

lemma last_out_outb:
  "last_out p (outb b q s) = (if p = q then Some b else last_out p s)"
  by (simp add: last_out_def outb_def)

lemma last_out_mask_update [simp]:
  "last_out p (s\<lparr>master_mask := v\<rparr>) = last_out p s"
  "last_out p (s\<lparr>slave_mask := v\<rparr>) = last_out p s"
  by (simp_all add: last_out_def)

lemma outb_masks [simp]:
  "master_mask (outb b q s) = master_mask s" "slave_mask (outb b q s) = slave_mask s"
  by (simp_all add: outb_def)

lemma pic_synced_init: "pic_synced (i8259_init s)"
  by (simp add: pic_synced_def i8259_init_def Let_def last_out_outb port_defs)

lemma pic_synced_enable: "pic_synced s \<Longrightarrow> pic_synced (enable_irq n s)"
  by (simp add: pic_synced_def enable_irq_def Let_def last_out_outb port_defs)

lemma pic_synced_disable: "pic_synced s \<Longrightarrow> pic_synced (disable_irq n s)"
  by (simp add: pic_synced_def disable_irq_def Let_def last_out_outb port_defs)

lemma pic_synced_eoi: "pic_synced s \<Longrightarrow> pic_synced (send_eoi n s)"
  by (simp add: pic_synced_def send_eoi_def last_out_outb port_defs)

lemma bit_one_shift: "k < 8 \<Longrightarrow> bit (ucast (2 ^ k :: u32) :: byte) n \<longleftrightarrow> n = k"
  by (auto simp: bit_simps bit_exp_iff)

lemma bit_not_one_shift:
  "k < 8 \<Longrightarrow> n < 8 \<Longrightarrow> bit (ucast (NOT (2 ^ k :: u32)) :: byte) n \<longleftrightarrow> n \<noteq> k"
  by (auto simp: bit_simps bit_exp_iff)

lemma irq_cases:
  fixes irq :: u32
  obtains (master) "irq < 8" "unat irq < 8" | (slave) "\<not> irq < 8" "irq < 16" "unat (irq - 8) < 8" "unat irq = unat (irq - 8) + 8"
    | (invalid) "\<not> irq < 8" "\<not> irq < 16" "16 \<le> unat irq"
proof -
  consider "unat irq < 8" | "8 \<le> unat irq" "unat irq < 16" | "16 \<le> unat irq" by linarith
  then show thesis
  proof cases
    case 1
    then show thesis by (intro master) (simp_all add: word_less_nat_alt)
  next
    case 2
    then have "unat (irq - 8) = unat irq - 8" by (simp add: unat_sub word_le_nat_alt)
    with 2 show thesis by (intro slave) (simp_all add: word_less_nat_alt)
  next
    case 3
    then show thesis by (intro invalid) (simp_all add: word_less_nat_alt)
  qed
qed

lemma masked_enable:
  assumes "n < 16"
  shows "masked (enable_irq irq s) n \<longleftrightarrow> masked s n \<and> n \<noteq> unat irq"
  by (cases irq rule: irq_cases)
     (use assms in \<open>auto simp: masked_def enable_irq_def Let_def bit_and_iff bit_not_one_shift\<close>)

lemma masked_disable:
  assumes "n < 16"
  shows "masked (disable_irq irq s) n \<longleftrightarrow> masked s n \<or> n = unat irq"
  by (cases irq rule: irq_cases)
     (use assms in \<open>auto simp: masked_def disable_irq_def Let_def bit_or_iff bit_one_shift\<close>)

lemma masked_init:
  assumes "n < 16"
  shows "masked (i8259_init s) n \<longleftrightarrow> n \<noteq> 2"
proof -
  have "\<forall>k \<in> set [0..<16]. masked (i8259_init s) k \<longleftrightarrow> k \<noteq> 2"
    by (simp add: masked_def i8259_init_def Let_def upt_rec)
  then show ?thesis using assms by simp
qed

section \<open>Properties\<close>

text \<open>C36: enabling an IRQ unmasks that line and no other, disabling masks that line and no
  other, and after the initialisation every line but the cascade is masked. An IRQ number above
  15 changes nothing.\<close>
theorem irq_mask_semantics:
  assumes "n < 16"
  shows "(masked (enable_irq irq s) n \<longleftrightarrow> masked s n \<and> n \<noteq> unat irq) \<and>
         (masked (disable_irq irq s) n \<longleftrightarrow> masked s n \<or> n = unat irq) \<and>
         (masked (i8259_init s) n \<longleftrightarrow> n \<noteq> 2)"
  using assms by (simp add: masked_enable masked_disable masked_init)

definition empty_pic :: pic_state where
  "empty_pic = paging_state.extend empty_tables \<lparr>master_mask = 0, slave_mask = 0\<rparr>"

lemma irq_mask_semantics_witness:
  "\<not> masked (enable_irq 8 (i8259_init empty_pic)) 8 \<and> masked (enable_irq 8 (i8259_init empty_pic)) 1"
  using irq_mask_semantics[of 8 8 "i8259_init empty_pic"] irq_mask_semantics[of 8 0 empty_pic]
    irq_mask_semantics[of 1 8 "i8259_init empty_pic"] irq_mask_semantics[of 1 0 empty_pic] by simp

text \<open>The operations the kernel performs on the controllers once they are initialised.\<close>

definition pic_ops :: "('a pic_state_scheme \<Rightarrow> 'a pic_state_scheme) set" where
  "pic_ops = range enable_irq \<union> range disable_irq \<union> range send_eoi"

text \<open>C37: after the initialisation and any sequence of enable, disable and end-of-interrupt
  operations, the last byte each controller received on its data port is the mask the kernel
  keeps for it, so the cached masks are the masks in force.\<close>
theorem masks_in_force:
  assumes "set fs \<subseteq> pic_ops"
  shows "last_out MASTER_8259_DPORT (fold (\<lambda>f. f) fs (i8259_init s)) =
           Some (master_mask (fold (\<lambda>f. f) fs (i8259_init s))) \<and>
         last_out SLAVE_8259_DPORT (fold (\<lambda>f. f) fs (i8259_init s)) =
           Some (slave_mask (fold (\<lambda>f. f) fs (i8259_init s)))"
proof -
  have "pic_synced t \<Longrightarrow> pic_synced (fold (\<lambda>f. f) fs t)" for t :: "'a pic_state_scheme"
    using assms
    by (induction fs arbitrary: t)
      (auto simp: pic_ops_def pic_synced_enable pic_synced_disable pic_synced_eoi)
  from this[OF pic_synced_init] show ?thesis by (simp add: pic_synced_def)
qed

lemma masks_in_force_witness:
  "last_out SLAVE_8259_DPORT (fold (\<lambda>f. f) [enable_irq 8, send_eoi 8] (i8259_init empty_pic)) = Some 0xFE"
  using masks_in_force[of "[enable_irq 8, send_eoi 8]" empty_pic]
  by (simp add: pic_ops_def i8259_init_def enable_irq_def send_eoi_def Let_def)

end
