(* ===== verification/Console.thy ===== *)
theory Console
  imports I8259
begin

text \<open>
  The text console of \<open>student-distrib/lib.c\<close>: the cursor of the screen and the saved
  cursor of each terminal, \<open>putc\<close>/\<open>puts\<close> on the frame buffer at virtual page
  \<open>0xB8\<close>, \<open>tputc\<close>/\<open>tputs\<close> on a terminal's own virtual page \<open>0xB9 + terminal\<close>,
  scrolling, backspace, clearing and the hardware cursor. Every store goes through the page
  tables, so what a terminal's page is (the frame buffer or its backing page) is decided by
  \<open>page_table\<close>.
\<close>

record console_state = pic_state +
  term_x :: "nat \<Rightarrow> int"
  term_y :: "nat \<Rightarrow> int"
  screen_x :: int
  screen_y :: int
  current_terminal :: nat

definition NUM_COLS :: int where "NUM_COLS = 80"
definition NUM_ROWS :: int where "NUM_ROWS = 25"
definition ATTRIB :: byte where "ATTRIB = 0x07"
definition video_mem :: addr where "video_mem = 0xB8000"

lemmas console_consts = NUM_COLS_def NUM_ROWS_def ATTRIB_def video_mem_def

text \<open>A byte store of the kernel, and the address of a character cell of the page at \<open>base\<close>.\<close>

definition kstore8 :: "addr \<Rightarrow> byte \<Rightarrow> 'a paging_state_scheme \<Rightarrow> 'a paging_state_scheme" where
  "kstore8 a b s = s\<lparr>phys := store8 (xlate s) a b (phys s)\<rparr>"

definition cell_addr :: "addr \<Rightarrow> int \<Rightarrow> addr" where
  "cell_addr base i = base + word_of_int (i * 2)"

definition term_base :: "nat \<Rightarrow> addr" where
  "term_base terminal = video_mem + 4096 * (of_nat terminal + 1)"

section \<open>Operations\<close>

definition save_pos :: "'a console_state_scheme \<Rightarrow> 'a console_state_scheme" where
  "save_pos s = s\<lparr>term_x := (term_x s)(current_terminal s := screen_x s),
                  term_y := (term_y s)(current_terminal s := screen_y s)\<rparr>"

definition update_cursor :: "'a console_state_scheme \<Rightarrow> 'a console_state_scheme" where
  "update_cursor s =
     (let pos = (word_of_int (screen_y s * NUM_COLS + screen_x s) :: u16);
          pos = (if uint pos \<ge> NUM_COLS * NUM_ROWS then word_of_int (NUM_COLS * (NUM_ROWS - 1)) else pos)
      in outb (ucast (drop_bit 8 pos AND 0xFF)) 0x3D5 (outb 0x0E 0x3D4
           (outb (ucast (pos AND 0xFF)) 0x3D5 (outb 0x0F 0x3D4 s))))"

definition restore_pos :: "'a console_state_scheme \<Rightarrow> 'a console_state_scheme" where
  "restore_pos s =
     update_cursor (s\<lparr>screen_x := term_x s (current_terminal s), screen_y := term_y s (current_terminal s)\<rparr>)"

definition terminal_backspace :: "'a console_state_scheme \<Rightarrow> 'a console_state_scheme" where
  "terminal_backspace s =
     (if screen_x s = 0 \<and> screen_y s = 0 then s
      else if screen_x s = 0 then
        save_pos ((kstore8 (cell_addr video_mem (screen_y s * NUM_COLS - 1)) 32 s)
          \<lparr>screen_y := screen_y s - 1, screen_x := NUM_COLS - 1\<rparr>)
      else
        save_pos ((kstore8 (cell_addr video_mem (screen_y s * NUM_COLS + screen_x s - 1)) 32 s)
          \<lparr>screen_x := screen_x s - 1\<rparr>))"

text \<open>The character, then the attribute byte after it.\<close>

definition put_cell :: "addr \<Rightarrow> int \<Rightarrow> byte \<Rightarrow> 'a paging_state_scheme \<Rightarrow> 'a paging_state_scheme" where
  "put_cell base i c s = kstore8 (cell_addr base i + 1) ATTRIB (kstore8 (cell_addr base i) c s)"

definition clear :: "'a console_state_scheme \<Rightarrow> 'a console_state_scheme" where
  "clear s =
     save_pos ((fold (\<lambda>i. put_cell video_mem (int i) 32) [0..<2000] s)\<lparr>screen_x := 0, screen_y := 0\<rparr>)"

text \<open>
  Moving the rows up by one and blanking the last one. The move goes downwards in memory, so
  \<open>memmove\<close> copies upwards and leaves the direction flag clear.
\<close>

definition scroll_page :: "addr \<Rightarrow> 'a paging_state_scheme \<Rightarrow> 'a paging_state_scheme" where
  "scroll_page base s =
     (let m1 = fst (memmove (xlate s) (phys s) base (base + 160) 3840);
          m2 = memset_word (xlate s) m1 (base + 3840) 32 80
      in s\<lparr>phys := m2\<rparr>)"

definition scroll :: "'a console_state_scheme \<Rightarrow> 'a console_state_scheme" where
  "scroll s = scroll_page video_mem s"

definition tscroll :: "nat \<Rightarrow> 'a console_state_scheme \<Rightarrow> 'a console_state_scheme" where
  "tscroll terminal s = scroll_page (term_base terminal) s"

definition putc :: "byte \<Rightarrow> 'a console_state_scheme \<Rightarrow> 'a console_state_scheme" where
  "putc c s =
     (let s1 = (if screen_y s \<ge> NUM_ROWS then scroll (s\<lparr>screen_y := NUM_ROWS - 1\<rparr>) else s);
          s2 = (if c = 10 \<or> c = 13 then s1\<lparr>screen_y := screen_y s1 + 1, screen_x := 0\<rparr>
                else let t = (put_cell video_mem (NUM_COLS * screen_y s1 + screen_x s1) c s1)
                             \<lparr>screen_x := screen_x s1 + 1\<rparr>
                     in if screen_x t \<ge> NUM_COLS then t\<lparr>screen_y := screen_y t + 1, screen_x := 0\<rparr> else t)
      in save_pos s2)"

text \<open>\<open>puts\<close> runs to the NUL; it returns the number of characters.\<close>

partial_function (option) puts_loop ::
  "reader \<Rightarrow> u32 \<Rightarrow> 'a console_state_scheme \<Rightarrow> (u32 \<times> 'a console_state_scheme) option" where
  "puts_loop str index s =
     (if str index \<noteq> 0 then puts_loop str (index + 1) (putc (str index) s) else Some (index, s))"

definition puts :: "reader \<Rightarrow> 'a console_state_scheme \<Rightarrow> (u32 \<times> 'a console_state_scheme) option" where
  "puts str s = puts_loop str 0 s"

text \<open>The blanking loop of the newline case of \<open>tputc\<close>: columns up to 80, the bound included.\<close>

function tputc_blank :: "nat \<Rightarrow> 'a console_state_scheme \<Rightarrow> 'a console_state_scheme" where
  "tputc_blank terminal s =
     (if term_x s terminal \<le> 80 then
        tputc_blank terminal
          ((put_cell (term_base terminal) (NUM_COLS * term_y s terminal + term_x s terminal) 32 s)
            \<lparr>term_x := (term_x s)(terminal := term_x s terminal + 1)\<rparr>)
      else s)"
  by pat_completeness auto
termination
  by (relation "measure (\<lambda>(terminal, s). nat (81 - term_x s terminal))") auto

declare tputc_blank.simps [simp del]

definition tputc :: "byte \<Rightarrow> nat \<Rightarrow> 'a console_state_scheme \<Rightarrow> 'a console_state_scheme" where
  "tputc c terminal s =
     (let s1 = (if term_y s terminal \<ge> NUM_ROWS
                then tscroll terminal (s\<lparr>term_y := (term_y s)(terminal := NUM_ROWS - 1)\<rparr>) else s);
          s2 = (if c = 10 \<or> c = 13 then
                  let t = tputc_blank terminal s1
                  in t\<lparr>term_y := (term_y t)(terminal := term_y t terminal + 1),
                       term_x := (term_x t)(terminal := 0)\<rparr>
                else
                  let t = (put_cell (term_base terminal)
                             (NUM_COLS * term_y s1 terminal + term_x s1 terminal) c s1)
                          \<lparr>term_x := (term_x s1)(terminal := term_x s1 terminal + 1)\<rparr>
                  in if term_x t terminal \<ge> NUM_COLS
                     then t\<lparr>term_y := (term_y t)(terminal := term_y t terminal + 1),
                            term_x := (term_x t)(terminal := 0)\<rparr>
                     else t)
      in if terminal = current_terminal s2
         then s2\<lparr>screen_x := term_x s2 terminal, screen_y := term_y s2 terminal\<rparr> else s2)"

partial_function (option) tputs_loop ::
  "reader \<Rightarrow> nat \<Rightarrow> u32 \<Rightarrow> 'a console_state_scheme \<Rightarrow> (u32 \<times> 'a console_state_scheme) option" where
  "tputs_loop str terminal index s =
     (if str index \<noteq> 0 then tputs_loop str terminal (index + 1) (tputc (str index) terminal s)
      else Some (index, s))"

definition tputs :: "reader \<Rightarrow> nat \<Rightarrow> 'a console_state_scheme \<Rightarrow> (u32 \<times> 'a console_state_scheme) option" where
  "tputs str terminal s = tputs_loop str terminal 0 s"


section \<open>Pages that are mapped linearly\<close>

text \<open>The virtual page at \<open>base\<close> is mapped to the physical frame \<open>f\<close>.\<close>

definition linear_page :: "'a paging_state_scheme \<Rightarrow> addr \<Rightarrow> nat \<Rightarrow> bool" where
  "linear_page s base f \<longleftrightarrow>
     f < 2 ^ 20 \<and> unat base + 4096 \<le> 2 ^ 32 \<and> (\<forall>k < 4096. xlate s (base + of_nat k) = of_nat (f * 4096 + k))"

text \<open>The frame a terminal's page is mapped to while terminal \<open>cur\<close> is displayed.\<close>

definition term_frame :: "nat \<Rightarrow> nat \<Rightarrow> nat" where
  "term_frame cur t = (if t = cur then 0xB8 else 0xB9 + t)"

lemma walk_page:
  assumes "paging_inv s" "0xB8 \<le> i" "i \<le> 0xBC" "k < 4096"
  shows "translate s (of_nat (i * 4096 + k)) =
         Some (of_nat (unat (get_field 12 20 (page_table s i)) * 4096 + k))"
proof -
  let ?va = "of_nat (i * 4096 + k) :: u32"
  have u: "unat ?va = i * 4096 + k" by (rule unat_of_nat32) (use assms in simp)
  have d: "unat ?va div 4096 = i" "unat ?va mod 4096 = k" unfolding u using assms(4) by simp_all
  have lt: "unat ?va < 0x400000" using u assms by simp
  let ?f = "get_field 12 20 (page_table s i)"
  have "unat (push_bit 12 ?f OR get_field 0 12 ?va) = unat ?f * 4096 + k"
    using unat_frame_offset[of 20 12 ?f ?va] d
    by (simp add: take_bit_get_field) (simp add: unat_get_field)
  then have "push_bit 12 ?f OR get_field 0 12 ?va = of_nat (unat ?f * 4096 + k)"
    by (metis of_nat_unat32)
  then show ?thesis using walk_low[OF assms(1) lt] d assms(2,3)
    by (simp add: translate_def)
qed

lemma linear_page_table:
  assumes "paging_inv s" "0xB8 \<le> i" "i \<le> 0xBC"
  shows "linear_page s (of_nat (i * 4096)) (unat (get_field 12 20 (page_table s i)))"
proof -
  have "unat (get_field 12 20 (page_table s i)) < 2 ^ 20" by (simp add: unat_get_field)
  moreover have "unat (of_nat (i * 4096) :: u32) = i * 4096"
    by (rule unat_of_nat32) (use assms in simp)
  ultimately show ?thesis using walk_page[OF assms] assms(3)
    by (simp add: linear_page_def xlate_def)
qed

lemma linear_video:
  assumes "paging_inv s"
  shows "linear_page s video_mem 0xB8"
  using linear_page_table[OF assms, of "0xB8"] assms
  by (simp add: video_mem_def paging_inv_def table_inv_def)

lemma term_base_eq: "t < 3 \<Longrightarrow> term_base t = of_nat ((0xB9 + t) * 4096)"
  by (simp add: term_base_def video_mem_def algebra_simps)

lemma linear_term:
  assumes "paging_inv s" "video_map cur s" "t < 3"
  shows "linear_page s (term_base t) (term_frame cur t)"
proof -
  have "unat (get_field 12 20 (page_table s (0xB9 + t))) = term_frame cur t"
    using assms(2,3) by (auto simp: video_map_def term_frame_def unat_of_nat32 dest!: spec[of _ t])
      (simp add: unat_word_ariths unat_of_nat32)
  then show ?thesis using linear_page_table[OF assms(1), of "0xB9 + t"] assms(3)
    by (simp add: term_base_eq)
qed

lemma linear_kernel_alias:
  assumes "paging_inv s" "video_map cur s" "cur < 3"
  shows "linear_page s 0xBC000 (0xB9 + cur)"
proof -
  have "unat (get_field 12 20 (page_table s 0xBC)) = 0xB9 + cur"
    using assms(2,3) by (simp add: video_map_def unat_of_nat32 unat_word_ariths)
  then show ?thesis using linear_page_table[OF assms(1), of "0xBC"] by simp
qed

lemma linear_page_inj:
  assumes "linear_page s base f"
  shows "inj_on (xlate s) (region base 4096)"
proof (rule inj_onI)
  fix x y assume "x \<in> region base 4096" "y \<in> region base 4096" and eq: "xlate s x = xlate s y"
  then obtain i j where ij: "i < 4096" "x = base + of_nat i" "j < 4096" "y = base + of_nat j"
    by (auto simp: region_def)
  then have "(of_nat (f * 4096 + i) :: u32) = of_nat (f * 4096 + j)"
    using assms eq by (simp add: linear_page_def)
  then have "unat (of_nat (f * 4096 + i) :: u32) = unat (of_nat (f * 4096 + j) :: u32)" by simp
  then have "i = j" using assms ij by (simp add: linear_page_def unat_of_nat32 del: of_nat_add of_nat_mult)
  then show "x = y" using ij by simp
qed

lemma load8_page:
  "linear_page s base f \<Longrightarrow> k < 4096 \<Longrightarrow> load8 (xlate s) m (base + of_nat k) = m (of_nat (f * 4096 + k))"
  by (simp add: load8_def linear_page_def)

text \<open>Reading back after a block was written into the page.\<close>

lemma load8_write_page:
  assumes "linear_page s base f" "off + length bs \<le> 4096" "k < 4096"
  shows "load8 (xlate s) (write_bytes (xlate s) (base + of_nat off) bs m) (base + of_nat k) =
    (if off \<le> k \<and> k < off + length bs then bs ! (k - off) else load8 (xlate s) m (base + of_nat k))"
  by (rule load8_write_region[OF linear_page_inj[OF assms(1)] _ assms(2,3)]) simp

text \<open>Writing into a page leaves every other frame alone.\<close>

lemma write_page_frame:
  assumes "linear_page s base f" "off + length bs \<le> 4096" "unat p div 4096 \<noteq> f"
  shows "write_bytes (xlate s) (base + of_nat off) bs m p = m p"
proof (rule write_bytes_other)
  show "p \<notin> xlate s ` region (base + of_nat off) (length bs)"
  proof
    assume "p \<in> xlate s ` region (base + of_nat off) (length bs)"
    then obtain j where j: "j < length bs" "p = xlate s (base + of_nat (off + j))"
      by (auto simp: region_def add.assoc)
    then have "p = of_nat (f * 4096 + (off + j))" using assms(1,2) by (simp add: linear_page_def del: of_nat_add)
    then have "unat p = f * 4096 + (off + j)"
      using assms(1,2) j(1) by (simp only: linear_page_def) (simp add: unat_of_nat32 del: of_nat_add of_nat_mult)
    then have "unat p div 4096 = f" using assms(2) j(1) by simp
    then show False using assms(3) by simp
  qed
qed


section \<open>Character cells\<close>

text \<open>Character and attribute of cell \<open>i\<close> (row * 80 + column) of the physical frame \<open>f\<close>.\<close>

definition cell :: "nat \<Rightarrow> nat \<Rightarrow> 'a machine_scheme \<Rightarrow> byte \<times> byte" where
  "cell f i s = (phys s (of_nat (f * 4096 + 2 * i)), phys s (of_nat (f * 4096 + (2 * i + 1))))"

lemma xlate_upd [simp]:
  "xlate (s\<lparr>phys := m\<rparr>) = xlate s"
  "xlate (s\<lparr>iflag := b\<rparr>) = xlate s"
  "xlate (s\<lparr>io_log := l\<rparr>) = xlate s"
  by (simp_all add: fun_eq_iff xlate_def translate_def walk_def Let_def)

lemma xlate_console_upd [simp]:
  "xlate (c\<lparr>term_x := f\<rparr>) = xlate c"
  "xlate (c\<lparr>term_y := f\<rparr>) = xlate c"
  "xlate (c\<lparr>screen_x := x\<rparr>) = xlate c"
  "xlate (c\<lparr>screen_y := x\<rparr>) = xlate c"
  "xlate (c\<lparr>current_terminal := t\<rparr>) = xlate c"
  by (simp_all add: fun_eq_iff xlate_def translate_def walk_def Let_def)

lemma xlate_put [simp]:
  "xlate (kstore8 a b s) = xlate s" "xlate (put_cell base i c s) = xlate s"
  "xlate (scroll_page base s) = xlate s"
  by (simp_all add: kstore8_def put_cell_def scroll_page_def Let_def)

lemma linear_page_cong: "xlate s = xlate s' \<Longrightarrow> linear_page s base f = linear_page s' base f"
  by (simp add: linear_page_def)

lemma cell_phys: "phys s = phys s' \<Longrightarrow> cell f i s = cell f i s'"
  by (simp add: cell_def)

lemma phys_put_cell:
  "phys (put_cell base (int i) c s) = write_bytes (xlate s) (base + of_nat (2 * i)) [c, ATTRIB] (phys s)"
  by (simp add: put_cell_def kstore8_def cell_addr_def mult.commute)

lemma cell_load:
  assumes "linear_page s base f" "j < 2048"
  shows "cell f j s = (load8 (xlate s) (phys s) (base + of_nat (2 * j)),
                       load8 (xlate s) (phys s) (base + of_nat (2 * j + 1)))"
  using load8_page[OF assms(1), of "2 * j"] load8_page[OF assms(1), of "2 * j + 1"] assms(2)
  by (simp only: cell_def)

lemma cell_write_page:
  assumes "linear_page s base f" "off + length bs \<le> 4096" "j < 2048"
    and "phys s' = write_bytes (xlate s) (base + of_nat off) bs (phys s)" "xlate s' = xlate s"
  shows "cell f j s' =
    (if off \<le> 2 * j \<and> 2 * j < off + length bs then bs ! (2 * j - off) else fst (cell f j s),
     if off \<le> 2 * j + 1 \<and> 2 * j + 1 < off + length bs then bs ! (2 * j + 1 - off) else snd (cell f j s))"
proof -
  have lin': "linear_page s' base f" using assms(1,5) linear_page_cong by metis
  show ?thesis
    unfolding cell_load[OF lin' assms(3)] cell_load[OF assms(1,3)] assms(4,5)
    using load8_write_page[OF assms(1,2), of "2 * j"] load8_write_page[OF assms(1,2), of "2 * j + 1"]
      assms(3) by simp
qed

lemma cell_put_cell:
  assumes "linear_page s base f" "i < 2048" "j < 2048"
  shows "cell f j (put_cell base (int i) c s) = (if j = i then (c, ATTRIB) else cell f j s)"
proof -
  have "2 * i + length [c, ATTRIB] \<le> 4096" using assms(2) by simp
  from cell_write_page[OF assms(1) this assms(3) phys_put_cell] show ?thesis
    by (cases "j < i"; cases "j = i") (auto simp: nth_Cons')
qed

lemma put_cell_other_frame:
  assumes "linear_page s base f" "i < 2048" "unat p div 4096 \<noteq> f"
  shows "phys (put_cell base (int i) c s) p = phys s p"
  unfolding phys_put_cell by (rule write_page_frame[OF assms(1) _ assms(3)]) (use assms(2) in simp)

lemma scroll_page_phys:
  assumes "linear_page s base f"
  shows "phys (scroll_page base s) =
    write_bytes (xlate s) (base + of_nat 0)
      (bytes_at (xlate s) (phys s) (base + 160) 3840 @ concat (replicate 80 [32, 0])) (phys s)"
proof -
  have "inj_on (xlate s) (region base 3840 \<union> region (base + 160) 3840)"
    using linear_page_inj[OF assms] region_mono[of 3840 4096 base] region_shift[of 160 3840 4096 base]
    by (auto intro: inj_on_subset)
  moreover have "unat (base + 160) = unat base + 160"
    using assms unat_add_of_nat32[of base 160] by (simp add: linear_page_def)
  ultimately have "fst (memmove (xlate s) (phys s) base (base + 160) 3840) =
      write_bytes (xlate s) base (bytes_at (xlate s) (phys s) (base + 160) (unat (3840 :: u32))) (phys s)"
    using assms by (intro memmove_bytes) (simp_all add: linear_page_def)
  then show ?thesis
    by (simp add: scroll_page_def Let_def memset_word_bytes write_bytes_append)
qed

lemma length_concat_replicate2: "length (concat (replicate n [a, b])) = 2 * n"
  by (induction n) simp_all

lemma nth_concat_replicate2:
  "k < n \<Longrightarrow> concat (replicate n [a, b]) ! (2 * k) = a \<and> concat (replicate n [a, b]) ! Suc (2 * k) = b"
proof (induction n arbitrary: k)
  case (Suc n)
  then show ?case by (cases k) simp_all
qed simp

text \<open>Scrolling: row by row up, the last row blank (with attribute 0).\<close>

lemma cell_scroll_page:
  assumes "linear_page s base f" "j < 2048"
  shows "cell f j (scroll_page base s) =
    (if j < 1920 then cell f (j + 80) s else if j < 2000 then (32, 0) else cell f j s)"
proof -
  define old where "old = bytes_at (xlate s) (phys s) (base + 160) 3840"
  define new where "new = concat (replicate 80 [32 :: byte, 0])"
  have len: "length old = 3840" "length new = 160"
    by (simp_all add: old_def new_def length_concat_replicate2)
  have old: "old ! k = load8 (xlate s) (phys s) (base + of_nat (160 + k))" if "k < 3840" for k
    using that by (simp add: old_def add.assoc)
  have new: "new ! (2 * k) = 32 \<and> new ! Suc (2 * k) = 0" if "k < 80" for k
    using nth_concat_replicate2[OF that] by (simp only: new_def)
  have phys: "phys (scroll_page base s) = write_bytes (xlate s) (base + of_nat 0) (old @ new) (phys s)"
    unfolding old_def new_def by (rule scroll_page_phys[OF assms(1)])
  have c: "cell f j (scroll_page base s) =
    (if 2 * j < 4000 then (old @ new) ! (2 * j) else fst (cell f j s),
     if 2 * j + 1 < 4000 then (old @ new) ! (2 * j + 1) else snd (cell f j s))"
    using cell_write_page[OF assms(1) _ assms(2) phys xlate_put(3)] by (simp add: len)
  consider "j < 1920" | "1920 \<le> j" "j < 2000" | "2000 \<le> j" by linarith
  then show ?thesis
  proof cases
    case 1
    have "(old @ new) ! (2 * j) = load8 (xlate s) (phys s) (base + of_nat (2 * (j + 80)))"
      "(old @ new) ! (2 * j + 1) = load8 (xlate s) (phys s) (base + of_nat (2 * (j + 80) + 1))"
      using 1 old[of "2 * j"] old[of "2 * j + 1"] by (simp_all add: nth_append len algebra_simps)
    then show ?thesis using 1 c cell_load[OF assms(1), of "j + 80"] by simp
  next
    case 2
    then obtain k where k: "j = 1920 + k" "k < 80" using that[of "j - 1920"] by simp
    then show ?thesis using c new[of k] by (simp add: nth_append len)
  next
    case 3
    then show ?thesis using c by (simp add: prod_eq_iff)
  qed
qed

lemma scroll_page_other_frame:
  assumes "linear_page s base f" "unat p div 4096 \<noteq> f"
  shows "phys (scroll_page base s) p = phys s p"
  unfolding scroll_page_phys[OF assms(1)]
  by (rule write_page_frame[OF assms(1) _ assms(2)]) (simp add: length_concat_replicate2)


section \<open>The screen a terminal shows\<close>

text \<open>
  What a page of text is to its user: 25 rows of 80 cells and a cursor. A row number of 25 means
  that the page scrolls before the next character.
\<close>

record tty =
  cells :: "nat \<Rightarrow> byte \<times> byte"
  col :: nat
  row :: nat

definition tty_scroll :: "tty \<Rightarrow> tty" where
  "tty_scroll t =
     (if 25 \<le> row t
      then t\<lparr>cells := (\<lambda>i. if i < 1920 then cells t (i + 80) else if i < 2000 then (32, 0) else (0, 0)),
             row := 24\<rparr>
      else t)"

definition tty_glyph :: "byte \<Rightarrow> tty \<Rightarrow> tty" where
  "tty_glyph c t =
     (let t1 = t\<lparr>cells := (cells t)(80 * row t + col t := (c, 7))\<rparr>
      in if col t + 1 \<ge> 80 then t1\<lparr>col := 0, row := row t + 1\<rparr> else t1\<lparr>col := col t + 1\<rparr>)"

text \<open>A newline blanks the rest of the row and, where there is one, the first cell of the next row.\<close>

definition tty_newline :: "tty \<Rightarrow> tty" where
  "tty_newline t =
     t\<lparr>cells := (\<lambda>i. if i < 2000 \<and> 80 * row t + col t \<le> i \<and> i \<le> 80 * row t + 80 then (32, 7) else cells t i),
       col := 0, row := row t + 1\<rparr>"

definition tty_put :: "byte \<Rightarrow> tty \<Rightarrow> tty" where
  "tty_put c t =
     (let t1 = tty_scroll t in if c = 10 \<or> c = 13 then tty_newline t1 else tty_glyph c t1)"

definition tty_of :: "nat \<Rightarrow> nat \<Rightarrow> 'a console_state_scheme \<Rightarrow> tty" where
  "tty_of f t s = \<lparr>cells = (\<lambda>i. if i < 2000 then cell f i s else (0, 0)),
                   col = nat (term_x s t), row = nat (term_y s t)\<rparr>"

definition cursor_ok :: "nat \<Rightarrow> 'a console_state_scheme \<Rightarrow> bool" where
  "cursor_ok t s \<longleftrightarrow> 0 \<le> term_x s t \<and> term_x s t < 80 \<and> 0 \<le> term_y s t \<and> term_y s t \<le> 25 \<and>
     (term_y s t = 25 \<longrightarrow> term_x s t = 0)"

text \<open>The part of the state console output leaves alone.\<close>

lemma cell_phys_upd [simp]:
  "cell f i (c\<lparr>term_x := x\<rparr>) = cell f i c"
  "cell f i (c\<lparr>term_y := x\<rparr>) = cell f i c"
  "cell f i (c\<lparr>screen_x := y\<rparr>) = cell f i c"
  "cell f i (c\<lparr>screen_y := y\<rparr>) = cell f i c"
  by (simp_all add: cell_def)

lemma put_cell_console [simp]:
  "term_x (put_cell b i c s) = term_x s" "term_y (put_cell b i c s) = term_y s"
  "screen_x (put_cell b i c s) = screen_x s" "screen_y (put_cell b i c s) = screen_y s"
  "current_terminal (put_cell b i c s) = current_terminal s"
  by (simp_all add: put_cell_def kstore8_def)

lemma scroll_page_console [simp]:
  "term_x (scroll_page b s) = term_x s" "term_y (scroll_page b s) = term_y s"
  "screen_x (scroll_page b s) = screen_x s" "screen_y (scroll_page b s) = screen_y s"
  "current_terminal (scroll_page b s) = current_terminal s"
  by (simp_all add: scroll_page_def Let_def)

lemma tputc_blank_unfold:
  "tputc_blank t s =
     (if term_x s t \<le> 80
      then tputc_blank t ((put_cell (term_base t) (80 * term_y s t + term_x s t) 32 s)
             \<lparr>term_x := (term_x s)(t := term_x s t + 1)\<rparr>)
      else s)"
  by (subst tputc_blank.simps) (simp add: NUM_COLS_def)

lemma linear_page_term_upd [simp]:
  "linear_page (s\<lparr>term_x := x\<rparr>) b f = linear_page s b f"
  "linear_page (s\<lparr>term_y := x\<rparr>) b f = linear_page s b f"
  "linear_page (put_cell b' i c s) b f = linear_page s b f"
  "linear_page (scroll_page b' s) b f = linear_page s b f"
  for s :: "'a console_state_scheme"
  by (simp_all add: linear_page_def)

text \<open>The effect of the blanking loop.\<close>

lemma tputc_blank_effect:
  fixes s :: "'a console_state_scheme"
  assumes "linear_page s (term_base t) f" "0 \<le> term_x s t" "term_x s t \<le> 81"
    "0 \<le> term_y s t" "term_y s t < 25"
  shows "(\<forall>j < 2048. cell f j (tputc_blank t s) =
           (if 80 * nat (term_y s t) + nat (term_x s t) \<le> j \<and> j \<le> 80 * nat (term_y s t) + 80
            then (32, 7) else cell f j s)) \<and>
         (\<forall>p. unat p div 4096 \<noteq> f \<longrightarrow> phys (tputc_blank t s) p = phys s p) \<and>
         term_y (tputc_blank t s) = term_y s \<and>
         (\<forall>u. u \<noteq> t \<longrightarrow> term_x (tputc_blank t s) u = term_x s u) \<and>
         xlate (tputc_blank t s) = xlate s \<and> screen_x (tputc_blank t s) = screen_x s \<and>
         screen_y (tputc_blank t s) = screen_y s \<and>
         current_terminal (tputc_blank t s) = current_terminal s"
  using assms
proof (induction "nat (81 - term_x s t)" arbitrary: s)
  case 0
  then have "tputc_blank t s = s" by (subst tputc_blank_unfold) simp
  then show ?case using 0 by (auto simp: nat_le_iff)
next
  case (Suc n)
  define x where "x = nat (term_x s t)"
  define y where "y = nat (term_y s t)"
  have xy: "term_x s t = int x" "term_y s t = int y" using Suc.prems by (simp_all add: x_def y_def)
  have b: "x \<le> 80" "y < 25" using Suc xy by auto
  define r where "r = (put_cell (term_base t) (int (80 * y + x)) 32 s)\<lparr>term_x := (term_x s)(t := int x + 1)\<rparr>"
  have step: "tputc_blank t s = tputc_blank t r"
    using b by (subst tputc_blank_unfold) (simp add: xy r_def)
  have i: "80 * y + x < 2048" using b by simp
  have lin: "linear_page r (term_base t) f" using Suc.prems(1) by (simp add: r_def)
  have tx: "term_x r t = int (Suc x)" "term_y r = term_y s" by (simp_all add: r_def)
  have cell_r: "cell f j r = (if j = 80 * y + x then (32, 7) else cell f j s)" if "j < 2048" for j
    unfolding r_def using cell_put_cell[OF Suc.prems(1) i that] by (simp add: ATTRIB_def)
  have phys_r: "phys r p = phys s p" if "unat p div 4096 \<noteq> f" for p
    using put_cell_other_frame[OF Suc.prems(1) i that] by (simp add: r_def)
  have "n = nat (81 - term_x r t)" using Suc.hyps(2) xy tx by simp
  note IH = Suc.hyps(1)[OF this lin]
  have IH': "0 \<le> term_x r t" "term_x r t \<le> 81" "0 \<le> term_y r t" "term_y r t < 25"
    using b tx xy by simp_all
  note IH = IH[OF IH', unfolded tx xy nat_int]
  have "(if 80 * y + Suc x \<le> j \<and> j \<le> 80 * y + 80 then (32, 7) else cell f j r) =
        (if 80 * y + x \<le> j \<and> j \<le> 80 * y + 80 then (32, 7) else cell f j s)" if "j < 2048" for j
    using cell_r[OF that] b by auto
  moreover have "xlate r = xlate s" "screen_x r = screen_x s" "screen_y r = screen_y s"
    "current_terminal r = current_terminal s" "\<forall>u. u \<noteq> t \<longrightarrow> term_x r u = term_x s u"
    by (simp_all add: r_def)
  ultimately show ?case using IH phys_r unfolding step xy nat_int by simp
qed


lemma cell_scroll_page_all:
  assumes "linear_page s base f"
  shows "(\<lambda>i. if i < 2000 then cell f i (scroll_page base s) else (0, 0)) =
    (\<lambda>i. if i < 1920 then cell f (i + 80) s else if i < 2000 then (32, 0) else (0, 0))"
  using cell_scroll_page[OF assms] by (auto simp: fun_eq_iff)

text \<open>What a character sent to a terminal leaves as it was.\<close>

definition tty_frame :: "nat \<Rightarrow> nat \<Rightarrow> 'a console_state_scheme \<Rightarrow> 'a console_state_scheme \<Rightarrow> bool" where
  "tty_frame f t s s' \<longleftrightarrow>
     (\<forall>p. unat p div 4096 \<noteq> f \<longrightarrow> phys s' p = phys s p) \<and>
     (\<forall>u. u \<noteq> t \<longrightarrow> term_x s' u = term_x s u \<and> term_y s' u = term_y s u) \<and>
     xlate s' = xlate s \<and> current_terminal s' = current_terminal s"

lemma tty_frame_refl: "tty_frame f t s s"
  by (simp add: tty_frame_def)

lemma tty_frame_trans: "tty_frame f t s s' \<Longrightarrow> tty_frame f t s' s'' \<Longrightarrow> tty_frame f t s s''"
  by (simp add: tty_frame_def)

lemma tty_frame_linear:
  "tty_frame f t s s' \<Longrightarrow> linear_page s' b g = linear_page s b g"
  by (simp add: tty_frame_def linear_page_def)

lemma cell_other_frame:
  assumes "tty_frame f t s s'" "g \<noteq> f" "g < 2 ^ 20" "i < 2048"
  shows "cell g i s' = cell g i s"
proof -
  have "unat (of_nat (g * 4096 + (2 * i)) :: u32) = g * 4096 + (2 * i)"
       "unat (of_nat (g * 4096 + (2 * i + 1)) :: u32) = g * 4096 + (2 * i + 1)"
    by (rule unat_of_nat32, use assms in simp)+
  then have "unat (of_nat (g * 4096 + (2 * i)) :: u32) div 4096 = g"
    "unat (of_nat (g * 4096 + (2 * i + 1)) :: u32) div 4096 = g"
    using assms(4) by simp_all
  then show ?thesis using assms(1,2) unfolding cell_def tty_frame_def by metis
qed

text \<open>The first step of \<open>tputc\<close>: scroll when the cursor is below the last row.\<close>

lemma tputc_scroll_step:
  fixes s :: "'a console_state_scheme"
  assumes lin: "linear_page s (term_base t) f" and ok: "cursor_ok t s"
  defines "s1 \<equiv> (if term_y s t \<ge> NUM_ROWS
                  then tscroll t (s\<lparr>term_y := (term_y s)(t := NUM_ROWS - 1)\<rparr>) else s)"
  shows "tty_of f t s1 = tty_scroll (tty_of f t s)" "tty_frame f t s s1"
    "linear_page s1 (term_base t) f" "0 \<le> term_x s1 t" "term_x s1 t < 80" "0 \<le> term_y s1 t" "term_y s1 t < 25"
    "screen_x s1 = screen_x s" "screen_y s1 = screen_y s"
proof -
  let ?s0 = "s\<lparr>term_y := (term_y s)(t := 24)\<rparr>"
  have s1: "s1 = (if term_y s t = 25 then scroll_page (term_base t) ?s0 else s)"
    using ok by (auto simp: s1_def NUM_ROWS_def tscroll_def cursor_ok_def)
  have lin0: "linear_page ?s0 (term_base t) f" using lin by simp
  show "tty_of f t s1 = tty_scroll (tty_of f t s)"
    using ok cell_scroll_page_all[OF lin0]
    by (auto simp: s1 tty_of_def tty_scroll_def cursor_ok_def nat_le_iff fun_eq_iff)
  show "tty_frame f t s s1"
    using scroll_page_other_frame[OF lin0] by (auto simp: s1 tty_frame_def)
  then show "linear_page s1 (term_base t) f" using lin tty_frame_linear by metis
  show "0 \<le> term_x s1 t" "term_x s1 t < 80" "0 \<le> term_y s1 t" "term_y s1 t < 25"
    "screen_x s1 = screen_x s" "screen_y s1 = screen_y s"
    using ok by (auto simp: s1 cursor_ok_def)
qed

lemma tputc_newline_step:
  fixes s :: "'a console_state_scheme"
  assumes lin: "linear_page s (term_base t) f"
    and c: "0 \<le> term_x s t" "term_x s t < 80" "0 \<le> term_y s t" "term_y s t < 25"
  defines "s2 \<equiv> (let u = tputc_blank t s in
      u\<lparr>term_y := (term_y u)(t := term_y u t + 1), term_x := (term_x u)(t := 0)\<rparr>)"
  shows "tty_of f t s2 = tty_newline (tty_of f t s)" "tty_frame f t s s2" "cursor_ok t s2"
    "screen_x s2 = screen_x s" "screen_y s2 = screen_y s"
proof -
  have "term_x s t \<le> 81" using c by simp
  note eff = tputc_blank_effect[OF lin c(1) this c(3,4)]
  show "tty_of f t s2 = tty_newline (tty_of f t s)"
    using eff c(3) by (auto simp: s2_def Let_def tty_of_def tty_newline_def fun_eq_iff nat_add_distrib)
  show "tty_frame f t s s2" using eff by (simp add: s2_def Let_def tty_frame_def)
  show "cursor_ok t s2" using eff c by (simp add: s2_def Let_def cursor_ok_def)
  show "screen_x s2 = screen_x s" "screen_y s2 = screen_y s" using eff by (simp_all add: s2_def Let_def)
qed

lemma tputc_glyph_step:
  fixes s :: "'a console_state_scheme" and ch :: byte
  assumes lin: "linear_page s (term_base t) f"
    and c: "0 \<le> term_x s t" "term_x s t < 80" "0 \<le> term_y s t" "term_y s t < 25"
  defines "s2 \<equiv> (let u = (put_cell (term_base t) (NUM_COLS * term_y s t + term_x s t) ch s)
                          \<lparr>term_x := (term_x s)(t := term_x s t + 1)\<rparr>
      in if term_x u t \<ge> NUM_COLS
         then u\<lparr>term_y := (term_y u)(t := term_y u t + 1), term_x := (term_x u)(t := 0)\<rparr> else u)"
  shows "tty_of f t s2 = tty_glyph ch (tty_of f t s)" "tty_frame f t s s2" "cursor_ok t s2"
    "screen_x s2 = screen_x s" "screen_y s2 = screen_y s"
proof -
  define x where "x = nat (term_x s t)"
  define y where "y = nat (term_y s t)"
  have xy: "term_x s t = int x" "term_y s t = int y" "x < 80" "y < 25"
    using c by (simp_all add: x_def y_def)
  have i: "80 * y + x < 2048" "80 * y + x < 2000" using xy by simp_all
  have idx: "NUM_COLS * term_y s t + term_x s t = int (80 * y + x)" by (simp add: xy NUM_COLS_def)
  have s2: "s2 = (if x = 79
      then put_cell (term_base t) (int (80 * y + x)) ch s\<lparr>term_x := (term_x s)(t := 0), term_y := (term_y s)(t := int y + 1)\<rparr>
      else put_cell (term_base t) (int (80 * y + x)) ch s\<lparr>term_x := (term_x s)(t := int x + 1)\<rparr>)"
    using xy unfolding s2_def Let_def idx by (auto simp: NUM_COLS_def)
  have cell: "cell f j (put_cell (term_base t) (int (80 * y + x)) ch s) =
      (if j = 80 * y + x then (ch, 7) else cell f j s)" if "j < 2000" for j
    using cell_put_cell[OF lin i(1), of j] that by (simp add: ATTRIB_def)
  show "tty_of f t s2 = tty_glyph ch (tty_of f t s)"
    using xy i(2) cell unfolding s2 by (auto simp: tty_of_def tty_glyph_def Let_def fun_eq_iff nat_add_distrib)
  have "phys (put_cell (term_base t) (int (80 * y + x)) ch s) p = phys s p" if "unat p div 4096 \<noteq> f" for p
    using put_cell_other_frame[OF lin i(1) that] .
  then show "tty_frame f t s s2" unfolding s2 tty_frame_def by (auto simp del: of_nat_add of_nat_mult)
  show "cursor_ok t s2" using xy by (simp add: s2 cursor_ok_def)
  show "screen_x s2 = screen_x s" "screen_y s2 = screen_y s" by (simp_all add: s2)
qed

text \<open>
  A character sent to a terminal has the effect of \<open>tty_put\<close> on the page the terminal is
  mapped to, and no other effect on memory or on another terminal's cursor.
\<close>

lemma tputc_effect:
  fixes s :: "'a console_state_scheme"
  assumes lin: "linear_page s (term_base t) f" and ok: "cursor_ok t s"
  shows tputc_tty: "tty_of f t (tputc c t s) = tty_put c (tty_of f t s)"
    and tputc_frame: "tty_frame f t s (tputc c t s)"
    and tputc_cursor_ok: "cursor_ok t (tputc c t s)"
    and tputc_screen: "screen_x (tputc c t s) = (if t = current_terminal s then term_x (tputc c t s) t else screen_x s)"
      "screen_y (tputc c t s) = (if t = current_terminal s then term_y (tputc c t s) t else screen_y s)"
proof -
  define s1 where "s1 = (if term_y s t \<ge> NUM_ROWS
                  then tscroll t (s\<lparr>term_y := (term_y s)(t := NUM_ROWS - 1)\<rparr>) else s)"
  note st1 = tputc_scroll_step[OF lin ok, folded s1_def]
  define s2 where "s2 = (if c = 10 \<or> c = 13
     then (let u = tputc_blank t s1 in u\<lparr>term_y := (term_y u)(t := term_y u t + 1), term_x := (term_x u)(t := 0)\<rparr>)
     else (let u = (put_cell (term_base t) (NUM_COLS * term_y s1 t + term_x s1 t) c s1)
                          \<lparr>term_x := (term_x s1)(t := term_x s1 t + 1)\<rparr>
      in if term_x u t \<ge> NUM_COLS
         then u\<lparr>term_y := (term_y u)(t := term_y u t + 1), term_x := (term_x u)(t := 0)\<rparr> else u))"
  have eff: "tty_of f t s2 = (if c = 10 \<or> c = 13 then tty_newline (tty_of f t s1) else tty_glyph c (tty_of f t s1))"
    "tty_frame f t s1 s2" "cursor_ok t s2" "screen_x s2 = screen_x s1" "screen_y s2 = screen_y s1"
    using tputc_newline_step[OF st1(3-7)] tputc_glyph_step[OF st1(3-7), of c] by (simp_all add: s2_def)
  have put: "tputc c t s = (if t = current_terminal s2
      then s2\<lparr>screen_x := term_x s2 t, screen_y := term_y s2 t\<rparr> else s2)"
    unfolding tputc_def Let_def s1_def[symmetric] by (simp add: s2_def Let_def)
  have same: "tty_of f t (tputc c t s) = tty_of f t s2" "term_x (tputc c t s) = term_x s2"
    "term_y (tputc c t s) = term_y s2" "tty_frame f t s2 (tputc c t s)"
    by (auto simp: put tty_of_def tty_frame_def cell_def)
  show "tty_of f t (tputc c t s) = tty_put c (tty_of f t s)"
    using same(1) eff(1) st1(1) by (simp add: tty_put_def Let_def)
  show "tty_frame f t s (tputc c t s)"
    using tty_frame_trans[OF tty_frame_trans[OF st1(2) eff(2)] same(4)] .
  have cur: "current_terminal s2 = current_terminal s"
    using st1(2) eff(2) by (simp add: tty_frame_def)
  show "cursor_ok t (tputc c t s)" using eff(3) same(2,3) by (simp add: cursor_ok_def)
  show "screen_x (tputc c t s) = (if t = current_terminal s then term_x (tputc c t s) t else screen_x s)"
    "screen_y (tputc c t s) = (if t = current_terminal s then term_y (tputc c t s) t else screen_y s)"
    unfolding same(2,3) using st1(8,9) eff(4,5) cur by (simp_all add: put)
qed


section \<open>Writing several characters\<close>

text \<open>
  What the two character devices of the kernel, \<open>tputc\<close> on a terminal and \<open>putc\<close> on the
  screen, promise their clients: each character has the specified effect on the visible page,
  and whatever the device does not own stays as it was.
\<close>

locale char_output =
  fixes put :: "byte \<Rightarrow> 's \<Rightarrow> 's"
    and view :: "'s \<Rightarrow> tty"
    and spec :: "byte \<Rightarrow> tty \<Rightarrow> tty"
    and ok :: "'s \<Rightarrow> bool"
    and frame :: "'s \<Rightarrow> 's \<Rightarrow> bool"
  assumes put_ok: "ok s \<Longrightarrow> ok (put c s)"
    and put_view: "ok s \<Longrightarrow> view (put c s) = spec c (view s)"
    and put_frame: "ok s \<Longrightarrow> frame s (put c s)"
    and frame_refl: "frame s s"
    and frame_trans: "frame s s' \<Longrightarrow> frame s' s'' \<Longrightarrow> frame s s''"
    and spec_glyph: "row t < 25 \<Longrightarrow> c \<noteq> 10 \<Longrightarrow> c \<noteq> 13 \<Longrightarrow> spec c t = tty_glyph c t"
begin

lemma write_ok: "ok s \<Longrightarrow> ok (fold put cs s)"
  by (induction cs arbitrary: s) (simp_all add: put_ok)

lemma write_view: "ok s \<Longrightarrow> view (fold put cs s) = fold spec cs (view s)"
  by (induction cs arbitrary: s) (simp_all add: put_ok put_view)

lemma write_frame: "ok s \<Longrightarrow> frame s (fold put cs s)"
proof (induction cs arbitrary: s)
  case (Cons c cs)
  then show ?case using frame_trans[OF put_frame[of s c]] put_ok by simp
qed (simp add: frame_refl)

text \<open>A text that fits on the rest of the row appears there, with the standard attribute.\<close>

lemma spec_text:
  assumes "row t < 25" "col t + length cs \<le> 80" "10 \<notin> set cs" "13 \<notin> set cs"
  shows "cells (fold spec cs t) i =
    (if 80 * row t + col t \<le> i \<and> i < 80 * row t + col t + length cs
     then (cs ! (i - (80 * row t + col t)), 7) else cells t i)"
  using assms
proof (induction cs arbitrary: t)
  case (Cons c cs)
  have s: "spec c t = tty_glyph c t" using Cons.prems by (intro spec_glyph) auto
  show ?case
  proof (cases cs)
    case Nil
    then show ?thesis by (auto simp: s tty_glyph_def Let_def)
  next
    case (Cons d ds)
    then have l: "col t + 1 < 80" using Cons.prems by simp
    have f: "row (tty_glyph c t) = row t" "col (tty_glyph c t) = col t + 1"
      "cells (tty_glyph c t) = (cells t)(80 * row t + col t := (c, 7))"
      using l by (simp_all add: tty_glyph_def Let_def)
    have "cells (fold spec cs (tty_glyph c t)) i =
      (if 80 * row t + (col t + 1) \<le> i \<and> i < 80 * row t + (col t + 1) + length cs
       then (cs ! (i - (80 * row t + (col t + 1))), 7) else cells (tty_glyph c t) i)"
      using Cons.IH[of "tty_glyph c t"] Cons.prems f by simp
    then show ?thesis
      by (cases "i \<le> 80 * row t + col t") (auto simp: s f(3) nth_Cons')
  qed
qed auto

lemma text_shown:
  assumes "ok s" "row (view s) < 25" "col (view s) + length cs \<le> 80" "10 \<notin> set cs" "13 \<notin> set cs"
    and "k < length cs"
  shows "cells (view (fold put cs s)) (80 * row (view s) + col (view s) + k) = (cs ! k, 7)"
  using spec_text[OF assms(2-5)] assms(6) by (simp add: write_view[OF assms(1)])

end

lemma tty_scroll_id: "row t < 25 \<Longrightarrow> tty_scroll t = t"
  by (simp add: tty_scroll_def)

interpretation terminal_out: char_output "\<lambda>c. tputc c t" "tty_of f t" tty_put
    "\<lambda>s. linear_page s (term_base t) f \<and> cursor_ok t s" "tty_frame f t"
proof (unfold_locales, goal_cases)
  case (1 s c)
  then show ?case using tputc_frame tputc_cursor_ok tty_frame_linear by blast
next
  case (2 s c)
  then show ?case using tputc_tty by blast
next
  case (3 s c)
  then show ?case using tputc_frame by blast
next
  case (4 s)
  then show ?case by (rule tty_frame_refl)
next
  case (5 s s' s'')
  then show ?case by (rule tty_frame_trans)
next
  case (6 t c)
  then show ?case by (simp add: tty_put_def tty_scroll_id)
qed

text \<open>A string is written character by character, up to the NUL; the count is returned.\<close>

lemma tputs_loop_fold:
  assumes "is_cstr (\<lambda>i. str (index + i)) cs"
  shows "tputs_loop str t index s = Some (index + of_nat (length cs), fold (\<lambda>c. tputc c t) cs s)"
  using assms
proof (induction cs arbitrary: index s)
  case Nil
  then show ?case by (subst tputs_loop.simps) (simp add: is_cstr_def)
next
  case (Cons c cs)
  have "str index = c" "c \<noteq> 0" using Cons.prems by (auto simp: is_cstr_def dest!: spec[of _ 0])
  moreover have "is_cstr (\<lambda>i. str ((index + 1) + i)) cs"
    using is_cstr_Cons_tail[OF Cons.prems] by (simp add: add.assoc add.commute[of 1])
  ultimately show ?case using Cons.IH[of "index + 1" "tputc c t s"]
    by (subst tputs_loop.simps) (simp add: add.assoc)
qed

lemma tputs_fold:
  "is_cstr str cs \<Longrightarrow> tputs str t s = Some (of_nat (length cs), fold (\<lambda>c. tputc c t) cs s)"
  using tputs_loop_fold[of str 0 cs t s] by (simp add: tputs_def)

lemma puts_loop_fold:
  assumes "is_cstr (\<lambda>i. str (index + i)) cs"
  shows "puts_loop str index s = Some (index + of_nat (length cs), fold putc cs s)"
  using assms
proof (induction cs arbitrary: index s)
  case Nil
  then show ?case by (subst puts_loop.simps) (simp add: is_cstr_def)
next
  case (Cons c cs)
  have "str index = c" "c \<noteq> 0" using Cons.prems by (auto simp: is_cstr_def dest!: spec[of _ 0])
  moreover have "is_cstr (\<lambda>i. str ((index + 1) + i)) cs"
    using is_cstr_Cons_tail[OF Cons.prems] by (simp add: add.assoc add.commute[of 1])
  ultimately show ?case using Cons.IH[of "index + 1" "putc c s"]
    by (subst puts_loop.simps) (simp add: add.assoc)
qed

lemma puts_fold: "is_cstr str cs \<Longrightarrow> puts str s = Some (of_nat (length cs), fold putc cs s)"
  using puts_loop_fold[of str 0 cs s] by (simp add: puts_def)


section \<open>The kernel's own output\<close>

text \<open>\<open>putc\<close> writes on the screen, whatever terminal is displayed, and keeps its cursor.\<close>

definition screen_of :: "'a console_state_scheme \<Rightarrow> tty" where
  "screen_of s = \<lparr>cells = (\<lambda>i. if i < 2000 then cell 0xB8 i s else (0, 0)),
                  col = nat (screen_x s), row = nat (screen_y s)\<rparr>"

definition screen_put :: "byte \<Rightarrow> tty \<Rightarrow> tty" where
  "screen_put c t =
     (let t1 = tty_scroll t in if c = 10 \<or> c = 13 then t1\<lparr>col := 0, row := row t1 + 1\<rparr> else tty_glyph c t1)"

definition screen_ok :: "'a console_state_scheme \<Rightarrow> bool" where
  "screen_ok s \<longleftrightarrow> linear_page s video_mem 0xB8 \<and>
     0 \<le> screen_x s \<and> screen_x s < 80 \<and> 0 \<le> screen_y s \<and> screen_y s \<le> 25 \<and>
     (screen_y s = 25 \<longrightarrow> screen_x s = 0)"

definition cursor_synced :: "'a console_state_scheme \<Rightarrow> bool" where
  "cursor_synced s \<longleftrightarrow>
     term_x s (current_terminal s) = screen_x s \<and> term_y s (current_terminal s) = screen_y s"

lemma save_pos_simps [simp]:
  "phys (save_pos s) = phys s" "xlate (save_pos s) = xlate s" "screen_x (save_pos s) = screen_x s"
  "screen_y (save_pos s) = screen_y s" "current_terminal (save_pos s) = current_terminal s"
  "linear_page (save_pos s) b f = linear_page s b f"
  by (simp_all add: save_pos_def linear_page_def)

lemma save_pos_synced: "cursor_synced (save_pos s)"
  by (simp add: save_pos_def cursor_synced_def)

lemma save_pos_frame: "tty_frame f (current_terminal s) s (save_pos s)"
  by (simp add: tty_frame_def) (simp add: save_pos_def)

lemma save_pos_screen: "screen_of (save_pos s) = screen_of s" "screen_ok (save_pos s) = screen_ok s"
  by (auto simp: screen_of_def screen_ok_def cell_def fun_eq_iff)

lemma putc_scroll_step:
  fixes s :: "'a console_state_scheme"
  assumes ok: "screen_ok s"
  defines "s1 \<equiv> (if screen_y s \<ge> NUM_ROWS then scroll (s\<lparr>screen_y := NUM_ROWS - 1\<rparr>) else s)"
  shows "screen_of s1 = tty_scroll (screen_of s)" "screen_ok s1" "screen_y s1 < 25"
    "tty_frame 0xB8 t s s1"
proof -
  let ?s0 = "s\<lparr>screen_y := 24\<rparr>"
  have s1: "s1 = (if screen_y s = 25 then scroll_page video_mem ?s0 else s)"
    using ok by (auto simp: s1_def NUM_ROWS_def scroll_def screen_ok_def)
  have lin0: "linear_page ?s0 video_mem 0xB8" using ok by (simp add: screen_ok_def linear_page_def)
  show "screen_of s1 = tty_scroll (screen_of s)"
    using ok cell_scroll_page_all[OF lin0]
    by (auto simp: s1 screen_of_def tty_scroll_def screen_ok_def nat_le_iff fun_eq_iff)
  show "screen_ok s1" "screen_y s1 < 25" using ok by (auto simp: s1 screen_ok_def linear_page_def)
  show "tty_frame 0xB8 t s s1"
    using scroll_page_other_frame[OF lin0] by (auto simp: s1 tty_frame_def)
qed

lemma putc_glyph_step:
  fixes s :: "'a console_state_scheme" and ch :: byte
  assumes ok: "screen_ok s" "screen_y s < 25"
  defines "s2 \<equiv> (let u = (put_cell video_mem (NUM_COLS * screen_y s + screen_x s) ch s)
                          \<lparr>screen_x := screen_x s + 1\<rparr>
      in if screen_x u \<ge> NUM_COLS then u\<lparr>screen_y := screen_y u + 1, screen_x := 0\<rparr> else u)"
  shows "screen_of s2 = tty_glyph ch (screen_of s)" "screen_ok s2" "tty_frame 0xB8 t s s2"
proof -
  define x where "x = nat (screen_x s)"
  define y where "y = nat (screen_y s)"
  have xy: "screen_x s = int x" "screen_y s = int y" "x < 80" "y < 25"
    using ok by (auto simp: x_def y_def screen_ok_def)
  have lin: "linear_page s video_mem 0xB8" using ok by (simp add: screen_ok_def)
  have i: "80 * y + x < 2048" "80 * y + x < 2000" using xy by simp_all
  have idx: "NUM_COLS * screen_y s + screen_x s = int (80 * y + x)" by (simp add: xy NUM_COLS_def)
  have s2: "s2 = (if x = 79
      then put_cell video_mem (int (80 * y + x)) ch s\<lparr>screen_x := 0, screen_y := int y + 1\<rparr>
      else put_cell video_mem (int (80 * y + x)) ch s\<lparr>screen_x := int x + 1\<rparr>)"
    using xy unfolding s2_def Let_def idx by (auto simp: NUM_COLS_def)
  have cell: "cell 0xB8 j (put_cell video_mem (int (80 * y + x)) ch s) =
      (if j = 80 * y + x then (ch, 7) else cell 0xB8 j s)" if "j < 2000" for j
    using cell_put_cell[OF lin i(1), of j] that by (simp add: ATTRIB_def)
  show "screen_of s2 = tty_glyph ch (screen_of s)"
    using xy i(2) cell unfolding s2
    by (auto simp: screen_of_def tty_glyph_def Let_def fun_eq_iff nat_add_distrib)
  show "screen_ok s2" using xy lin by (simp add: s2 screen_ok_def linear_page_def)
  have "phys (put_cell video_mem (int (80 * y + x)) ch s) p = phys s p" if "unat p div 4096 \<noteq> 0xB8" for p
    using put_cell_other_frame[OF lin i(1) that] .
  then show "tty_frame 0xB8 t s s2" unfolding s2 tty_frame_def by (auto simp del: of_nat_add of_nat_mult)
qed

lemma putc_effect:
  fixes s :: "'a console_state_scheme"
  assumes ok: "screen_ok s"
  shows putc_screen: "screen_of (putc c s) = screen_put c (screen_of s)"
    and putc_ok: "screen_ok (putc c s)"
    and putc_frame: "tty_frame 0xB8 (current_terminal s) s (putc c s)"
    and putc_synced: "cursor_synced (putc c s)"
proof -
  define s1 where "s1 = (if screen_y s \<ge> NUM_ROWS then scroll (s\<lparr>screen_y := NUM_ROWS - 1\<rparr>) else s)"
  note st1 = putc_scroll_step[OF ok, folded s1_def]
  define s2 where "s2 = (if c = 10 \<or> c = 13 then s1\<lparr>screen_y := screen_y s1 + 1, screen_x := 0\<rparr>
     else (let u = (put_cell video_mem (NUM_COLS * screen_y s1 + screen_x s1) c s1)
                          \<lparr>screen_x := screen_x s1 + 1\<rparr>
      in if screen_x u \<ge> NUM_COLS then u\<lparr>screen_y := screen_y u + 1, screen_x := 0\<rparr> else u))"
  have put: "putc c s = save_pos s2"
    unfolding putc_def Let_def s1_def[symmetric] by (simp add: s2_def Let_def)
  have nl: "screen_of (s1\<lparr>screen_y := screen_y s1 + 1, screen_x := 0\<rparr>) =
      (screen_of s1)\<lparr>col := 0, row := row (screen_of s1) + 1\<rparr>"
    "screen_ok (s1\<lparr>screen_y := screen_y s1 + 1, screen_x := 0\<rparr>)"
    "tty_frame 0xB8 t s1 (s1\<lparr>screen_y := screen_y s1 + 1, screen_x := 0\<rparr>)" for t :: nat
    using st1(2,3) by (auto simp: screen_of_def screen_ok_def tty_frame_def linear_page_def
        nat_add_distrib fun_eq_iff)
  have eff: "screen_of s2 = screen_put c (screen_of s)" "screen_ok s2" "tty_frame 0xB8 (current_terminal s) s1 s2"
    using nl(1,2) nl(3)[of "current_terminal s"] putc_glyph_step[OF st1(2,3), where ch = c] st1(1) by (simp_all add: s2_def screen_put_def Let_def)
  show "screen_of (putc c s) = screen_put c (screen_of s)" "screen_ok (putc c s)"
    using eff by (simp_all add: put save_pos_screen)
  have "current_terminal s2 = current_terminal s" using st1(4) eff(3) by (simp add: tty_frame_def)
  then show "tty_frame 0xB8 (current_terminal s) s (putc c s)"
    unfolding put
    using tty_frame_trans[OF tty_frame_trans[OF st1(4) eff(3)], of "save_pos s2"] save_pos_frame[of _ s2] by simp
  show "cursor_synced (putc c s)" unfolding put by (rule save_pos_synced)
qed

interpretation screen_out: char_output putc screen_of screen_put
    "\<lambda>s. screen_ok s \<and> current_terminal s = cur" "tty_frame 0xB8 cur"
proof (unfold_locales, goal_cases)
  case (1 s c)
  then show ?case using putc_ok putc_frame[of s c] by (auto simp: tty_frame_def)
next
  case (2 s c)
  then show ?case using putc_screen by blast
next
  case (3 s c)
  then show ?case using putc_frame by blast
next
  case (4 s)
  then show ?case by (rule tty_frame_refl)
next
  case (5 s s' s'')
  then show ?case by (rule tty_frame_trans)
next
  case (6 t c)
  then show ?case by (simp add: screen_put_def tty_scroll_id)
qed


section \<open>Cursor, backspace and clear\<close>

text \<open>The position a sequence of port writes leaves in registers 14 and 15 of the CRT controller.\<close>

fun crtc_pos :: "(u16 \<times> byte) list \<Rightarrow> byte \<times> nat \<times> nat \<Rightarrow> byte \<times> nat \<times> nat" where
  "crtc_pos [] r = r"
| "crtc_pos ((p, b) # es) (i, lo, hi) =
     crtc_pos es (if p = 0x3D4 then (b, lo, hi)
                  else if p = 0x3D5 \<and> i = 0x0F then (i, unat b, hi)
                  else if p = 0x3D5 \<and> i = 0x0E then (i, lo, unat b)
                  else (i, lo, hi))"

lemma crtc_pos_append: "crtc_pos (es @ fs) r = crtc_pos fs (crtc_pos es r)"
  by (induction es r rule: crtc_pos.induct) auto

lemma crtc_pos_cursor:
  "crtc_pos (l @ [(0x3D4, 0x0F), (0x3D5, a), (0x3D4, 0x0E), (0x3D5, b)]) r = (0x0E, unat a, unat b)"
  by (cases "crtc_pos l r") (simp add: crtc_pos_append)

lemma io_log_outb4:
  "io_log (outb a b (outb c d (outb e f (outb g h s)))) = io_log s @ [(h, g), (f, e), (d, c), (b, a)]"
  by (simp add: outb_def)

definition hw_cursor :: "'a machine_scheme \<Rightarrow> nat" where
  "hw_cursor s = (case crtc_pos (io_log s) (0, 0, 0) of (_, lo, hi) \<Rightarrow> hi * 256 + lo)"

lemma u16_bytes:
  fixes w :: u16
  shows "unat (ucast (w AND 0xFF) :: byte) = unat w mod 256"
    and "unat (ucast (drop_bit 8 w AND 0xFF) :: byte) = unat w div 256"
proof -
  have lt: "unat w < 65536" using unsigned_less[of w] by simp
  have "w AND 0xFF = take_bit 8 w" "drop_bit 8 w AND 0xFF = take_bit 8 (drop_bit 8 w)"
    by (simp_all add: take_bit_eq_mask mask_eq_decr_exp and.commute)
  moreover have "unat (take_bit 8 w) = unat w mod 256"
    by (simp only: unsigned_take_bit_eq) (simp add: take_bit_eq_mod)
  moreover have "unat (take_bit 8 (drop_bit 8 w)) = unat w div 256"
    using lt by (simp only: unsigned_take_bit_eq unsigned_drop_bit_eq) (simp add: take_bit_eq_mod drop_bit_eq_div)
  ultimately show "unat (ucast (w AND 0xFF) :: byte) = unat w mod 256"
    "unat (ucast (drop_bit 8 w AND 0xFF) :: byte) = unat w div 256"
    using lt by (simp_all only: unsigned_ucast_eq) (simp_all add: take_bit_eq_mod)
qed

text \<open>
  The hardware cursor shows the screen cursor; at row 25, where the page is about to scroll,
  it goes to the start of the last row.
\<close>

lemma update_cursor_hw:
  assumes "0 \<le> screen_x s" "screen_x s < 80" "0 \<le> screen_y s" "screen_y s \<le> 25"
  shows "hw_cursor (update_cursor s) =
    (if screen_y s = 25 then 1920 else 80 * nat (screen_y s) + nat (screen_x s))"
proof -
  obtain x y where xy: "screen_x s = int x" "screen_y s = int y" "x < 80" "y \<le> 25"
    using assms by (metis nonneg_int_cases of_nat_less_iff of_nat_le_iff of_nat_numeral)
  define p where "p = (if y = 25 then 1920 else 80 * y + x)"
  have p: "p < 2000" using xy by (simp add: p_def)
  have u16: "unat (of_nat k :: u16) = k" if "k < 65536" for k
    using that by (simp add: unat_of_nat take_bit_nat_eq_self)
  have ui: "uint (of_nat k :: u16) = int k" if "k < 65536" for k
    using u16[OF that] by (metis uint_nat)
  have w: "(word_of_int (screen_y s * NUM_COLS + screen_x s) :: u16) = of_nat (80 * y + x)"
    by (simp add: xy NUM_COLS_def mult.commute)
  have pos: "(if uint (of_nat (80 * y + x) :: u16) \<ge> NUM_COLS * NUM_ROWS
      then word_of_int (NUM_COLS * (NUM_ROWS - 1)) else of_nat (80 * y + x)) = (of_nat p :: u16)"
  proof (cases "y = 25")
    case True
    then have "uint (of_nat (80 * y + x) :: u16) \<ge> 2000" using xy by (subst ui) simp_all
    then show ?thesis by (simp add: p_def True NUM_COLS_def NUM_ROWS_def)
  next
    case False
    then have "80 * y + x < 2000" using xy by linarith
    then have "\<not> uint (of_nat (80 * y + x) :: u16) \<ge> 2000" by (subst ui) simp_all
    then show ?thesis by (simp add: p_def False NUM_COLS_def NUM_ROWS_def del: of_nat_add of_nat_mult)
  qed
  have u: "unat (of_nat p :: u16) = p" using p by (intro u16) simp
  have "hw_cursor (update_cursor s) = unat (ucast (drop_bit 8 (of_nat p :: u16) AND 0xFF) :: byte) * 256
      + unat (ucast ((of_nat p :: u16) AND 0xFF) :: byte)"
    unfolding hw_cursor_def update_cursor_def Let_def w pos
    by (simp only: io_log_outb4 crtc_pos_cursor prod.case)
  also have "\<dots> = p" unfolding u16_bytes(2) unfolding u16_bytes(1) u by (rule div_mult_mod_eq)
  finally show ?thesis by (simp add: p_def xy)
qed

lemma update_cursor_simps [simp]:
  "phys (update_cursor s) = phys s" "xlate (update_cursor s) = xlate s"
  "screen_x (update_cursor s) = screen_x s" "screen_y (update_cursor s) = screen_y s"
  "term_x (update_cursor s) = term_x s" "term_y (update_cursor s) = term_y s"
  "current_terminal (update_cursor s) = current_terminal s"
  by (simp_all add: update_cursor_def Let_def outb_def)

text \<open>Erasing the character before the cursor.\<close>

definition tty_backspace :: "tty \<Rightarrow> tty" where
  "tty_backspace t =
     (if col t = 0 \<and> row t = 0 then t
      else let p = 80 * row t + col t - 1
           in t\<lparr>cells := (cells t)(p := (32, snd (cells t p))), col := p mod 80, row := p div 80\<rparr>)"

lemma kstore8_page:
  assumes "linear_page s base f" "i < 2048" "j < 2048"
  shows "cell f j (kstore8 (cell_addr base (int i)) c s) = (if j = i then (c, snd (cell f i s)) else cell f j s)"
proof -
  have phys: "phys (kstore8 (cell_addr base (int i)) c s) =
      write_bytes (xlate s) (base + of_nat (2 * i)) [c] (phys s)"
    by (simp add: kstore8_def cell_addr_def mult.commute)
  have "2 * i + length [c] \<le> 4096" using assms(2) by simp
  from cell_write_page[OF assms(1) this assms(3) phys xlate_put(1)] show ?thesis
    by (cases "j < i"; cases "j = i") (auto simp: nth_Cons' prod_eq_iff)
qed

lemma kstore8_console [simp]:
  "term_x (kstore8 a c s) = term_x s" "term_y (kstore8 a c s) = term_y s"
  "screen_x (kstore8 a c s) = screen_x s" "screen_y (kstore8 a c s) = screen_y s"
  "current_terminal (kstore8 a c s) = current_terminal s"
  by (simp_all add: kstore8_def)

lemma cell_save_pos [simp]: "cell f i (save_pos s) = cell f i s"
  by (simp add: cell_def)

lemma screen_y_upd_same:
  "screen_y u = y \<Longrightarrow> u\<lparr>screen_y := y, screen_x := z\<rparr> = u\<lparr>screen_x := z\<rparr>"
  by (cases u) simp

lemma terminal_backspace_screen:
  fixes s :: "'a console_state_scheme"
  assumes "screen_ok s"
  shows "screen_of (terminal_backspace s) = tty_backspace (screen_of s)" "screen_ok (terminal_backspace s)"
proof -
  define x where "x = nat (screen_x s)"
  define y where "y = nat (screen_y s)"
  have xy: "screen_x s = int x" "screen_y s = int y" "x < 80" "y \<le> 25" "y = 25 \<Longrightarrow> x = 0"
    using assms by (auto simp: x_def y_def screen_ok_def)
  have lin: "linear_page s video_mem 0xB8" using assms by (simp add: screen_ok_def)
  define p where "p = 80 * y + x - 1"
  show "screen_of (terminal_backspace s) = tty_backspace (screen_of s)"
  proof (cases "x = 0 \<and> y = 0")
    case True
    then show ?thesis using xy by (simp add: terminal_backspace_def tty_backspace_def screen_of_def)
  next
    case False
    have ip: "int p = int y * 80 + int x - 1" using False by (auto simp: p_def)
    have p: "p < 2048" using xy by (cases "y = 25") (simp_all add: p_def)
    have pm: "p mod 80 = (if x = 0 then 79 else x - 1)" "p div 80 = (if x = 0 then y - 1 else y)"
      using False xy(3) unfolding p_def by (cases x; cases y; simp)+
    have bs: "terminal_backspace s = save_pos ((kstore8 (cell_addr video_mem (int p)) 32 s)
        \<lparr>screen_y := int (p div 80), screen_x := int (p mod 80)\<rparr>)"
    proof (cases "x = 0")
      case True
      then have "y \<noteq> 0" using False by simp
      then show ?thesis using True pm xy
        by (simp add: terminal_backspace_def ip NUM_COLS_def of_nat_diff)
    next
      case x: False
      show ?thesis using x pm xy
        by (simp add: terminal_backspace_def ip NUM_COLS_def of_nat_diff screen_y_upd_same)
    qed
    have "cell 0xB8 j (kstore8 (cell_addr video_mem (int p)) 32 s) =
        (if j = p then (32, snd (cell 0xB8 p s)) else cell 0xB8 j s)" if "j < 2000" for j
      using kstore8_page[OF lin p, of j 32] that by simp
    moreover have "p < 2000" using xy by (cases "y = 25") (simp_all add: p_def)
    ultimately have "cells (screen_of (terminal_backspace s)) =
        (cells (screen_of s))(p := (32, snd (cells (screen_of s) p)))"
      by (auto simp: bs save_pos_screen screen_of_def fun_eq_iff)
    moreover have "col (screen_of (terminal_backspace s)) = p mod 80"
      "row (screen_of (terminal_backspace s)) = p div 80"
      by (simp_all add: bs save_pos_screen screen_of_def)
    moreover have "col (screen_of s) = x" "row (screen_of s) = y" using xy by (simp_all add: screen_of_def)
    ultimately show ?thesis using False
      by (auto simp: tty_backspace_def Let_def p_def)
  qed
  show "screen_ok (terminal_backspace s)"
    using assms xy by (auto simp: terminal_backspace_def screen_ok_def save_pos_screen linear_page_def NUM_COLS_def)
qed


section \<open>What console output leaves alone\<close>

text \<open>Everything but memory, the ports, and the cursors.\<close>

definition console_frame :: "'a console_state_scheme \<Rightarrow> 'a console_state_scheme \<Rightarrow> bool" where
  "console_frame s s' \<longleftrightarrow>
     page_directory s' = page_directory s \<and> page_table s' = page_table s \<and> pt_addr s' = pt_addr s \<and>
     tlb_stale s' = tlb_stale s \<and> paging_on s' = paging_on s \<and> iflag s' = iflag s \<and>
     current_terminal s' = current_terminal s \<and> console_state.more s' = console_state.more s"

lemma console_frame_refl [simp]: "console_frame s s"
  by (simp add: console_frame_def)

lemma console_frame_trans: "console_frame s s' \<Longrightarrow> console_frame s' s'' \<Longrightarrow> console_frame s s''"
  by (simp add: console_frame_def)

lemma console_frame_xlate: "console_frame s s' \<Longrightarrow> xlate s' = xlate s"
  by (simp add: console_frame_def xlate_def translate_def walk_def fun_eq_iff Let_def)

lemma console_frame_putc: "console_frame s (putc c s)"
  by (simp add: console_frame_def putc_def Let_def save_pos_def scroll_def scroll_page_def put_cell_def kstore8_def)

lemma console_frame_fold:
  assumes "\<And>c s. console_frame s (f c s)"
  shows "console_frame s (fold f cs s)"
  by (induction cs arbitrary: s) (auto intro: console_frame_trans assms)

lemma console_frame_tputc_blank: "console_frame s (tputc_blank t s)"
proof (induction t s rule: tputc_blank.induct)
  case (1 t s)
  show ?case
  proof (cases "term_x s t \<le> 80")
    case True
    have "console_frame s ((put_cell (term_base t) (NUM_COLS * term_y s t + term_x s t) 32 s)
            \<lparr>term_x := (term_x s)(t := term_x s t + 1)\<rparr>)"
      by (simp add: console_frame_def put_cell_def kstore8_def)
    then show ?thesis using 1 True console_frame_trans by (subst tputc_blank.simps) auto
  qed (subst tputc_blank.simps, simp)
qed

lemma console_frame_tputc: "console_frame s (tputc c t s)"
proof -
  have b: "console_frame u (tputc_blank t u)" for u :: "'a console_state_scheme"
    by (rule console_frame_tputc_blank)
  then show ?thesis
    unfolding tputc_def Let_def tscroll_def scroll_page_def put_cell_def kstore8_def
    by (auto simp: console_frame_def)
qed

lemma console_frame_update_cursor: "console_frame s (update_cursor s)"
  by (simp add: console_frame_def update_cursor_def Let_def outb_def)

lemma console_frame_restore_pos: "console_frame s (restore_pos s)"
  by (simp add: restore_pos_def console_frame_def update_cursor_def Let_def outb_def)

lemma console_frame_save_pos: "console_frame s (save_pos s)"
  by (simp add: console_frame_def save_pos_def)

lemma console_frame_backspace: "console_frame s (terminal_backspace s)"
  by (simp add: console_frame_def terminal_backspace_def save_pos_def kstore8_def)

lemma console_frame_clear: "console_frame s (clear s)"
proof -
  have "console_frame u (fold (\<lambda>i. put_cell video_mem (int i) 32) xs u)" for u :: "'a console_state_scheme" and xs
    by (rule console_frame_fold) (simp add: console_frame_def put_cell_def kstore8_def)
  then show ?thesis by (simp add: clear_def console_frame_def save_pos_def del: upt_rec_numeral)
qed

text \<open>What every character put keeps, a string put keeps.\<close>

lemma puts_induct:
  assumes "puts str s = Some (n, s')" "I s" "\<And>c t. I t \<Longrightarrow> I (putc c t)"
  shows "I s'"
proof -
  have "I s \<longrightarrow> I (snd r)" if "puts_loop str i s = Some r" for i r and s :: "'a console_state_scheme"
    by (rule puts_loop.raw_induct[where P = "\<lambda>str i s r. I s \<longrightarrow> I (snd r)", OF _ that])
      (auto split: if_splits, metis assms(3))
  then show ?thesis using assms(1,2) by (fastforce simp: puts_def)
qed

section \<open>Properties\<close>

text \<open>A console right after paging came up: blank memory, cursors at the origin, terminal 0
  displayed.\<close>

definition fresh_console :: console_state where
  "fresh_console = paging_init (pic_state.extend empty_pic
     \<lparr>term_x = (\<lambda>_. 0), term_y = (\<lambda>_. 0), screen_x = 0, screen_y = 0, current_terminal = 0\<rparr>)"

lemma fresh_console_ok:
  "paging_inv fresh_console" "video_map 0 fresh_console" "current_terminal fresh_console = 0"
  "cursor_ok t fresh_console" "screen_ok fresh_console"
proof -
  let ?s = "pic_state.extend empty_pic
     \<lparr>term_x = (\<lambda>_. 0), term_y = (\<lambda>_. 0), screen_x = 0, screen_y = 0, current_terminal = 0\<rparr>"
  have z: "\<forall>i. page_directory ?s i = 0"
    by (simp add: pic_state.defs paging_state.defs empty_pic_def empty_tables_def)
  have keep: "term_x (paging_init s) = term_x s" "term_y (paging_init s) = term_y s"
    "screen_x (paging_init s) = screen_x s" "screen_y (paging_init s) = screen_y s"
    "current_terminal (paging_init s) = current_terminal s" for s :: console_state
    by (simp_all add: paging_init_def flush_tlb_def paging_init_directory_def paging_init_video_def
        paging_init_loop_def fold_set_pte set_pde_def set_pte_def)
  show p: "paging_inv fresh_console" "video_map 0 fresh_console"
    using paging_init_inv[OF z] by (simp_all add: fresh_console_def)
  show "current_terminal fresh_console = 0" "cursor_ok t fresh_console" "screen_ok fresh_console"
    using linear_video[OF p(1)]
    by (simp_all add: fresh_console_def cursor_ok_def screen_ok_def keep pic_state.defs)
qed

text \<open>C15: \<open>tputs\<close> returns for every string, and the page of the terminal it writes to, with
  that terminal's cursor, is the old one with the characters put one after the other as a
  25 by 80 terminal does: newlines, wrapping at column 80, scrolling at row 25.\<close>
theorem tputs_refines_terminal:
  assumes "paging_inv s" "video_map (current_terminal s) s" "t < 3" "cursor_ok t s" "is_cstr str cs"
  defines "f \<equiv> term_frame (current_terminal s) t"
  shows "\<exists>s'. tputs str t s = Some (of_nat (length cs), s') \<and>
              tty_of f t s' = fold tty_put cs (tty_of f t s) \<and> cursor_ok t s'"
proof -
  have lin: "linear_page s (term_base t) f \<and> cursor_ok t s"
    using linear_term assms(1-4) unfolding f_def by blast
  show ?thesis
    using terminal_out.write_view[of _ _ _ cs, OF lin] terminal_out.write_ok[of _ _ _ cs, OF lin]
    by (simp add: tputs_fold[OF assms(5)])
qed

lemma tputs_refines_terminal_witness:
  "\<exists>s'. tputs (\<lambda>i. if i = 0 then 65 else if i = 1 then 10 else 0) 1 fresh_console = Some (2, s') \<and>
     tty_of 0xBA 1 s' = fold tty_put [65, 10] (tty_of 0xBA 1 fresh_console) \<and> cursor_ok 1 s'"
proof -
  have "is_cstr (\<lambda>i. if i = 0 then 65 else if i = 1 then 10 else 0) [65, 10]"
    by (auto simp: is_cstr_def less_Suc_eq)
  from tputs_refines_terminal[of fresh_console 1, OF _ _ _ _ this] fresh_console_ok
  show ?thesis by (simp add: term_frame_def)
qed

text \<open>Writing to one terminal is invisible to the others: the page and the cursor of
  every other terminal are unchanged, whichever terminal is displayed, and no byte outside the
  written terminal's own page changes.\<close>
theorem terminal_isolation:
  assumes "paging_inv s" "video_map (current_terminal s) s" "t < 3" "u < 3" "u \<noteq> t" "cursor_ok t s"
    and "is_cstr str cs" "tputs str t s = Some (n, s')"
  shows "tty_of (term_frame (current_terminal s) u) u s' = tty_of (term_frame (current_terminal s) u) u s \<and>
         (\<forall>p. unat p div 4096 \<noteq> term_frame (current_terminal s) t \<longrightarrow> phys s' p = phys s p)"
proof -
  let ?f = "term_frame (current_terminal s)"
  have lin: "linear_page s (term_base t) (?f t) \<and> cursor_ok t s"
    using linear_term assms by blast
  have fr: "tty_frame (?f t) t s s'"
    using terminal_out.write_frame[of _ _ _ cs, OF lin] assms(8) by (simp add: tputs_fold[OF assms(7)])
  have "?f u \<noteq> ?f t" "?f u < 2 ^ 20" using assms(3-5) by (auto simp: term_frame_def)
  then have "cell (?f u) i s' = cell (?f u) i s" if "i < 2000" for i
    using cell_other_frame[OF fr, of "?f u" i] that by simp
  then show ?thesis using fr assms(5) by (auto simp: tty_of_def tty_frame_def)
qed

lemma terminal_isolation_witness:
  "\<exists>s'. tputs (\<lambda>i. if i = 0 then 65 else 0) 1 fresh_console = Some (1, s') \<and>
     tty_of 0xB8 0 s' = tty_of 0xB8 0 fresh_console"
proof -
  have str: "is_cstr (\<lambda>i. if i = 0 then 65 else 0) [65]" by (simp add: is_cstr_def)
  then obtain s' where s': "tputs (\<lambda>i. if i = 0 then 65 else 0) 1 fresh_console = Some (1, s')"
    by (auto simp: tputs_fold)
  from terminal_isolation[of fresh_console 1 0, OF _ _ _ _ _ _ str s'] fresh_console_ok
  have "tty_of 0xB8 0 s' = tty_of 0xB8 0 fresh_console" by (simp add: term_frame_def)
  with s' show ?thesis by blast
qed

text \<open>The hardware cursor follows the text cursor: after \<open>update_cursor\<close> the position
  the CRT controller holds is the cell the next character goes to, and the first cell of the
  bottom row when that row is still to be scrolled in.\<close>
theorem hardware_cursor_follows:
  assumes "0 \<le> screen_x s" "screen_x s < 80" "0 \<le> screen_y s" "screen_y s \<le> 25"
  shows "hw_cursor (update_cursor s) =
           (if screen_y s = 25 then 1920 else 80 * nat (screen_y s) + nat (screen_x s)) \<and>
         hw_cursor (update_cursor s) < 2000"
proof -
  have "nat (screen_y s) < 25" if "screen_y s \<noteq> 25" using assms(3,4) that by linarith
  moreover have "nat (screen_x s) < 80" using assms(1,2) by linarith
  ultimately show ?thesis using update_cursor_hw[OF assms] by auto
qed

lemma hardware_cursor_follows_witness:
  "hw_cursor (update_cursor (fresh_console\<lparr>screen_x := 5, screen_y := 2\<rparr>)) = 165"
  using hardware_cursor_follows[of "fresh_console\<lparr>screen_x := 5, screen_y := 2\<rparr>"] by simp

lemma tty_backspace_glyph:
  assumes "col t < 80"
  shows "tty_backspace (tty_glyph c t) = t\<lparr>cells := (cells t)(80 * row t + col t := (32, 7))\<rparr>"
proof (cases t)
  case (fields cs x y)
  have x: "x < 80" using assms fields by simp
  show ?thesis
  proof (cases "x = 79")
    case True
    have "(80 * Suc y - 1) mod 80 = 79" "(80 * Suc y - 1) div 80 = y" "80 * Suc y - 1 = 80 * y + 79"
      by simp_all
    then show ?thesis using True fields by (simp add: tty_backspace_def tty_glyph_def Let_def add.commute)
  next
    case False
    then have "x + 1 < 80" using x by simp
    then show ?thesis using x fields by (simp add: tty_backspace_def tty_glyph_def Let_def)
  qed
qed

text \<open>C38: backspace undoes the last character: typing a printable character above the bottom
  line and erasing it leaves the cursor where it was, also when the character wrapped to the next
  line, and only blanks that one cell.\<close>
theorem putc_backspace_round_trip:
  assumes "screen_ok s" "screen_y s < 25" "c \<noteq> 10" "c \<noteq> 13"
  defines "p \<equiv> 80 * nat (screen_y s) + nat (screen_x s)"
  shows "screen_of (terminal_backspace (putc c s)) =
         (screen_of s)\<lparr>cells := (cells (screen_of s))(p := (32, 7))\<rparr>"
proof -
  have r: "row (screen_of s) < 25" "col (screen_of s) < 80"
    using assms(1,2) by (auto simp: screen_of_def screen_ok_def)
  have "screen_of (putc c s) = tty_glyph c (screen_of s)"
    using putc_screen[OF assms(1)] r(1) assms(3,4) by (simp add: screen_put_def tty_scroll_def)
  then have "screen_of (terminal_backspace (putc c s)) = tty_backspace (tty_glyph c (screen_of s))"
    using terminal_backspace_screen(1)[OF putc_ok[OF assms(1)]] by simp
  also have "\<dots> = (screen_of s)\<lparr>cells := (cells (screen_of s))(p := (32, 7))\<rparr>"
    using tty_backspace_glyph[OF r(2)] by (simp add: p_def) (simp add: screen_of_def)
  finally show ?thesis .
qed

lemma putc_backspace_round_trip_witness:
  "screen_of (terminal_backspace (putc 65 fresh_console)) =
   (screen_of fresh_console)\<lparr>cells := (cells (screen_of fresh_console))
      (80 * nat (screen_y fresh_console) + nat (screen_x fresh_console) := (32, 7))\<rparr>"
  by (rule putc_backspace_round_trip)
    (simp_all add: fresh_console_ok, simp add: fresh_console_def paging_init_def flush_tlb_def
        paging_init_directory_def paging_init_video_def paging_init_loop_def fold_set_pte set_pde_def
        set_pte_def pic_state.defs)

text \<open>A line of text put on the screen is there: characters other than newline and return
  that fit on the cursor's line stand, in the default colour, in the cells from the cursor on, and
  every other cell is as before.\<close>
theorem puts_shows_text:
  assumes "screen_ok s" "is_cstr str cs" "10 \<notin> set cs" "13 \<notin> set cs"
    and "screen_y s < 25" "nat (screen_x s) + length cs \<le> 80"
  defines "p \<equiv> 80 * nat (screen_y s) + nat (screen_x s)"
  shows "\<exists>s'. puts str s = Some (of_nat (length cs), s') \<and>
    (\<forall>i < 2000. cell 0xB8 i s' = (if p \<le> i \<and> i < p + length cs then (cs ! (i - p), 7) else cell 0xB8 i s))"
proof -
  have ok: "screen_ok s \<and> current_terminal s = current_terminal s" using assms(1) by simp
  have v: "screen_of (fold putc cs s) = fold screen_put cs (screen_of s)"
    by (rule screen_out.write_view[OF ok])
  have rc: "row (screen_of s) = nat (screen_y s)" "col (screen_of s) = nat (screen_x s)"
    by (simp_all add: screen_of_def)
  have c: "cells (screen_of (fold putc cs s)) i =
      (if p \<le> i \<and> i < p + length cs then (cs ! (i - p), 7) else cells (screen_of s) i)" for i
    using screen_out.spec_text[of "screen_of s" cs i] assms(1,3-6) unfolding v rc p_def
    by (simp add: screen_ok_def)
  have "cell 0xB8 i (fold putc cs s) =
      (if p \<le> i \<and> i < p + length cs then (cs ! (i - p), 7) else cell 0xB8 i s)" if "i < 2000" for i
    using c[of i] that by (simp add: screen_of_def)
  then show ?thesis by (simp add: puts_fold[OF assms(2)])
qed

lemma puts_shows_text_witness:
  "\<exists>s'. puts (\<lambda>i. if i = 0 then 79 else if i = 1 then 75 else 0) fresh_console = Some (2, s') \<and>
     cell 0xB8 0 s' = (79, 7) \<and> cell 0xB8 1 s' = (75, 7)"
proof -
  have xy: "screen_y fresh_console = 0" "screen_x fresh_console = 0"
    by (simp_all add: fresh_console_def paging_init_def flush_tlb_def
        paging_init_directory_def paging_init_video_def paging_init_loop_def fold_set_pte set_pde_def
        set_pte_def pic_state.defs)
  have str: "is_cstr (\<lambda>i. if i = 0 then 79 else if i = 1 then 75 else 0) [79, 75]"
    by (auto simp: is_cstr_def less_Suc_eq)
  obtain s' where "puts (\<lambda>i. if i = 0 then 79 else if i = 1 then 75 else 0) fresh_console = Some (2, s')"
    and c: "\<forall>i < 2000. cell 0xB8 i s' =
       (if 0 \<le> i \<and> i < 2 then ([79, 75] ! i, 7) else cell 0xB8 i fresh_console)"
    using puts_shows_text[of fresh_console _ "[79, 75]", OF _ str] fresh_console_ok by (auto simp: xy)
  moreover have "cell 0xB8 0 s' = (79, 7)" "cell 0xB8 1 s' = (75, 7)" using c by simp_all
  ultimately show ?thesis by blast
qed

end
