(* ===== verification/Printf.thy ===== *)
theory Printf
  imports Console
begin

text \<open>
  \<open>printf\<close> of \<open>student-distrib/lib.c\<close>. The format is the list of the bytes before its NUL,
  the arguments the words on the stack after it; \<open>cb\<close> is the stack address of the local
  conversion buffer, into which \<open>itoa\<close> writes. The result is \<open>None\<close> where the code reads past
  the end of the format (a format that ends within a conversion), past the given arguments, or
  does not return.
\<close>

section \<open>Conversions\<close>

definition print_number :: "addr \<Rightarrow> u32 \<Rightarrow> u32 \<Rightarrow> 'a console_state_scheme \<Rightarrow> 'a console_state_scheme option" where
  "print_number cb val radix s =
     (case itoa (xlate s) (phys s) val cb radix of None \<Rightarrow> None
      | Some m \<Rightarrow> map_option snd (puts (ptr (xlate s) m cb) (s\<lparr>phys := m\<rparr>)))"

text \<open>The loop that fills the buffer with zeros up to index 8.\<close>

function pad_loop :: "xlat \<Rightarrow> mem \<Rightarrow> addr \<Rightarrow> nat \<Rightarrow> mem" where
  "pad_loop tr m cb i = (if i < 8 then pad_loop tr (store8 tr (cb + of_nat i) 48 m) cb (Suc i) else m)"
  by pat_completeness auto
termination by (relation "measure (\<lambda>(tr, m, cb, i). 8 - i)") auto

declare pad_loop.simps [simp del]

definition print_hex8 :: "addr \<Rightarrow> u32 \<Rightarrow> 'a console_state_scheme \<Rightarrow> 'a console_state_scheme option" where
  "print_hex8 cb val s =
     (case itoa (xlate s) (phys s) val (cb + 8) 16 of None \<Rightarrow> None
      | Some m1 \<Rightarrow>
          (case strlen (ptr (xlate s) m1 (cb + 8)) of None \<Rightarrow> None
           | Some starting_index \<Rightarrow>
               (let m2 = pad_loop (xlate s) m1 cb (unat starting_index)
                in map_option snd (puts (ptr (xlate s) m2 (cb + starting_index)) (s\<lparr>phys := m2\<rparr>)))))"

definition print_signed :: "addr \<Rightarrow> u32 \<Rightarrow> 'a console_state_scheme \<Rightarrow> 'a console_state_scheme option" where
  "print_signed cb value s =
     (if sint value < 0
      then (case itoa (xlate s) (store8 (xlate s) cb 45 (phys s)) (- value) (cb + 1) 10 of None \<Rightarrow> None
            | Some m \<Rightarrow> map_option snd (puts (ptr (xlate s) m cb) (s\<lparr>phys := m\<rparr>)))
      else print_number cb value 10 s)"

definition print_string :: "addr \<Rightarrow> 'a console_state_scheme \<Rightarrow> 'a console_state_scheme option" where
  "print_string a s = map_option snd (puts (ptr (xlate s) (phys s) a) s)"

text \<open>The conversions that take an argument, by their letter.\<close>

definition print_arg ::
  "addr \<Rightarrow> bool \<Rightarrow> byte \<Rightarrow> u32 \<Rightarrow> 'a console_state_scheme \<Rightarrow> 'a console_state_scheme option" where
  "print_arg cb alternate c a s =
     (if c = 120 then (if alternate then print_hex8 cb a s else print_number cb a 16 s)
      else if c = 117 then print_number cb a 10 s
      else if c = 100 then print_signed cb a s
      else if c = 99 then Some (putc (ucast a) s)
      else print_string a s)"

definition takes_arg :: "byte \<Rightarrow> bool" where
  "takes_arg c \<longleftrightarrow> c = 120 \<or> c = 117 \<or> c = 100 \<or> c = 99 \<or> c = 115"

fun printf_loop ::
  "addr \<Rightarrow> byte list \<Rightarrow> u32 list \<Rightarrow> 'a console_state_scheme \<Rightarrow> 'a console_state_scheme option"
and printf_conv ::
  "addr \<Rightarrow> bool \<Rightarrow> byte list \<Rightarrow> u32 list \<Rightarrow> 'a console_state_scheme \<Rightarrow> 'a console_state_scheme option" where
  "printf_loop cb [] as s = Some s"
| "printf_loop cb (c # fmt) as s =
     (if c = 37 then printf_conv cb False fmt as s else printf_loop cb fmt as (putc c s))"
| "printf_conv cb alternate [] as s = None"
| "printf_conv cb alternate (c # fmt) as s =
     (if c = 37 then printf_loop cb fmt as (putc 37 s)
      else if c = 35 then printf_conv cb True fmt as s
      else if takes_arg c then
        (case as of [] \<Rightarrow> None
         | a # as' \<Rightarrow> (case print_arg cb alternate c a s of None \<Rightarrow> None
                       | Some s' \<Rightarrow> printf_loop cb fmt as' s'))
      else printf_loop cb fmt as s)"

definition printf ::
  "addr \<Rightarrow> byte list \<Rightarrow> u32 list \<Rightarrow> 'a console_state_scheme \<Rightarrow> (u32 \<times> 'a console_state_scheme) option" where
  "printf cb format as s =
     (case printf_loop cb format as s of None \<Rightarrow> None
      | Some s' \<Rightarrow> Some (of_nat (length format), update_cursor s'))"

section \<open>The text a format stands for\<close>

definition hex8 :: "u32 \<Rightarrow> byte list" where
  "hex8 v = replicate (8 - length (itoa_str v 16)) 48 @ itoa_str v 16"

definition signed_str :: "u32 \<Rightarrow> byte list" where
  "signed_str v = (if sint v < 0 then 45 # itoa_str (- v) 10 else itoa_str v 10)"

text \<open>\<open>strs\<close> gives the text behind a string argument.\<close>

definition render_arg :: "(u32 \<Rightarrow> byte list) \<Rightarrow> bool \<Rightarrow> byte \<Rightarrow> u32 \<Rightarrow> byte list" where
  "render_arg strs alternate c a =
     (if c = 120 then (if alternate then hex8 a else itoa_str a 16)
      else if c = 117 then itoa_str a 10
      else if c = 100 then signed_str a
      else if c = 99 then [ucast a]
      else strs a)"

fun render :: "(u32 \<Rightarrow> byte list) \<Rightarrow> byte list \<Rightarrow> u32 list \<Rightarrow> byte list option"
and render_conv :: "(u32 \<Rightarrow> byte list) \<Rightarrow> bool \<Rightarrow> byte list \<Rightarrow> u32 list \<Rightarrow> byte list option" where
  "render strs [] as = Some []"
| "render strs (c # fmt) as =
     (if c = 37 then render_conv strs False fmt as else map_option (Cons c) (render strs fmt as))"
| "render_conv strs alternate [] as = None"
| "render_conv strs alternate (c # fmt) as =
     (if c = 37 then map_option (Cons 37) (render strs fmt as)
      else if c = 35 then render_conv strs True fmt as
      else if takes_arg c then
        (case as of [] \<Rightarrow> None
         | a # as' \<Rightarrow> map_option (\<lambda>t. render_arg strs alternate c a @ t) (render strs fmt as'))
      else render strs fmt as)"


section \<open>printf prints the rendered text\<close>

text \<open>A conversion buffer that does not overlap the frame buffer.\<close>

definition conv_ok :: "'a console_state_scheme \<Rightarrow> addr \<Rightarrow> bool" where
  "conv_ok s cb \<longleftrightarrow> inj_on (xlate s) (region cb 64) \<and> (\<forall>a \<in> region cb 64. unat (xlate s a) div 4096 \<noteq> 0xB8)"

text \<open>\<open>t'\<close> is \<open>t\<close> after \<open>xs\<close> was printed, with the buffer as scratch memory.\<close>

definition printed :: "addr \<Rightarrow> byte list \<Rightarrow> 'a console_state_scheme \<Rightarrow> 'a console_state_scheme \<Rightarrow> bool" where
  "printed cb xs t t' \<longleftrightarrow>
     screen_of t' = fold screen_put xs (screen_of t) \<and> screen_ok t' \<and> xlate t' = xlate t \<and>
     current_terminal t' = current_terminal t \<and>
     (\<forall>p. unat p div 4096 \<noteq> 0xB8 \<and> p \<notin> xlate t ` region cb 64 \<longrightarrow> phys t' p = phys t p)"

lemma printed_refl: "screen_ok t \<Longrightarrow> printed cb [] t t"
  by (simp add: printed_def)

lemma printed_trans: "printed cb xs t u \<Longrightarrow> printed cb ys u v \<Longrightarrow> printed cb (xs @ ys) t v"
  by (simp add: printed_def)

lemma printed_fold:
  assumes "screen_ok t"
  shows "printed cb xs t (fold putc xs t)"
proof -
  have "screen_ok t \<and> current_terminal t = current_terminal t" using assms by simp
  note w = screen_out.write_ok[OF this, of xs] screen_out.write_view[OF this, of xs]
    screen_out.write_frame[OF this, of xs]
  then show ?thesis by (simp add: printed_def tty_frame_def)
qed

lemma screen_of_cong:
  assumes "\<And>p. unat p div 4096 = 0xB8 \<Longrightarrow> phys s' p = phys s p"
    and "screen_x s' = screen_x s" "screen_y s' = screen_y s"
  shows "screen_of s' = screen_of s"
proof -
  have "cell 0xB8 i s' = cell 0xB8 i s" if "i < 2000" for i
  proof -
    have "unat (of_nat (0xB8 * 4096 + 2 * i) :: u32) = 0xB8 * 4096 + 2 * i"
      "unat (of_nat (0xB8 * 4096 + (2 * i + 1)) :: u32) = 0xB8 * 4096 + (2 * i + 1)"
      using that by (intro unat_of_nat32; simp)+
    then have "unat (of_nat (0xB8 * 4096 + 2 * i) :: u32) div 4096 = 0xB8"
      "unat (of_nat (0xB8 * 4096 + (2 * i + 1)) :: u32) div 4096 = 0xB8"
      using that by (simp_all del: of_nat_add of_nat_mult)
    then show ?thesis unfolding cell_def using assms(1) by simp
  qed
  then show ?thesis using assms(2,3) by (auto simp: screen_of_def fun_eq_iff)
qed

text \<open>A string in memory that differs from the state's only in the buffer.\<close>

lemma puts_printed:
  assumes ok: "screen_ok t" "conv_ok t cb" and str: "is_cstr str xs"
    and m: "\<And>p. p \<notin> xlate t ` region cb 64 \<Longrightarrow> m p = phys t p"
  shows "\<exists>t'. map_option snd (puts str (t\<lparr>phys := m\<rparr>)) = Some t' \<and> printed cb xs t t'"
proof -
  let ?u = "t\<lparr>phys := m\<rparr>"
  have "m p = phys t p" if "unat p div 4096 = 0xB8" for p
    using ok(2) that by (intro m) (auto simp: conv_ok_def)
  then have scr: "screen_of ?u = screen_of t" by (intro screen_of_cong) simp_all
  have "screen_ok ?u" using ok(1) by (simp add: screen_ok_def linear_page_def)
  from printed_fold[OF this, of cb xs] have "printed cb xs t (fold putc xs ?u)"
    using scr m by (simp add: printed_def)
  then show ?thesis using puts_fold[OF str, of ?u] by simp
qed

lemma conv_inj: "conv_ok t cb \<Longrightarrow> k + n \<le> 64 \<Longrightarrow> inj_on (xlate t) (region (cb + of_nat k) n)"
  unfolding conv_ok_def using inj_on_subset region_shift[of k n 64 cb] by blast

lemma write_conv_other:
  assumes "k + length bs \<le> 64" "p \<notin> tr ` region cb 64"
  shows "write_bytes tr (cb + of_nat k) bs m p = m p"
  using assms region_shift[of k "length bs" 64 cb] by (intro write_bytes_other) blast

lemma print_number_printed:
  assumes ok: "screen_ok t" "conv_ok t cb" and radix: "2 \<le> unat radix" "unat radix \<le> 36"
  shows "\<exists>t'. print_number cb v radix t = Some t' \<and> printed cb (itoa_str v radix) t t'"
proof -
  let ?ds = "itoa_str v radix"
  let ?m = "write_bytes (xlate t) cb (?ds @ [0]) (phys t)"
  have l: "length ?ds \<le> 32" using length_itoa_str[OF radix(1)] .
  have it: "itoa (xlate t) (phys t) v cb radix = Some ?m"
    using conv_inj[OF ok(2), of 0 33] by (intro itoa_bytes radix) simp
  have "is_cstr (ptr (xlate t) ?m cb) ?ds"
    using conv_inj[OF ok(2), of 0 "Suc (length ?ds)"] l itoa_str_nonzero[OF radix]
    by (intro is_cstr_write_bytes) simp_all
  moreover have "?m p = phys t p" if "p \<notin> xlate t ` region cb 64" for p
    using write_conv_other[of 0 "?ds @ [0]" p "xlate t" cb] that l by simp
  ultimately show ?thesis
    unfolding print_number_def it option.case by (intro puts_printed ok)
qed

lemma print_signed_printed:
  assumes ok: "screen_ok t" "conv_ok t cb"
  shows "\<exists>t'. print_signed cb v t = Some t' \<and> printed cb (signed_str v) t t'"
proof (cases "sint v < 0")
  case False
  then show ?thesis using print_number_printed[OF ok, of 10 v] by (simp add: print_signed_def signed_str_def)
next
  case True
  let ?ds = "itoa_str (- v) 10"
  let ?m = "write_bytes (xlate t) cb ((45 # ?ds) @ [0]) (phys t)"
  have l: "length ?ds \<le> 32" by (intro length_itoa_str) simp
  have "itoa (xlate t) (store8 (xlate t) cb 45 (phys t)) (- v) (cb + 1) 10 = Some ?m"
    using conv_inj[OF ok(2), of 1 33] itoa_bytes[of 10 "xlate t" "cb + 1" "store8 (xlate t) cb 45 (phys t)" "- v"]
    by simp
  moreover have "is_cstr (ptr (xlate t) ?m cb) (45 # ?ds)"
    using conv_inj[OF ok(2), of 0 "Suc (length (45 # ?ds))"] l itoa_str_nonzero[of 10 "- v"]
    by (intro is_cstr_write_bytes) simp_all
  moreover have "?m p = phys t p" if "p \<notin> xlate t ` region cb 64" for p
    using write_conv_other[of 0 "(45 # ?ds) @ [0]" p "xlate t" cb] that l by simp
  ultimately show ?thesis using True puts_printed[OF ok, of "ptr (xlate t) ?m cb" "45 # ?ds" ?m]
    by (simp add: print_signed_def signed_str_def)
qed

lemma pad_loop_bytes:
  "i \<le> 8 \<Longrightarrow> pad_loop tr m cb i = write_bytes tr (cb + of_nat i) (replicate (8 - i) 48) m"
proof (induction tr m cb i rule: pad_loop.induct)
  case (1 tr m cb i)
  show ?case
  proof (cases "i < 8")
    case True
    then have "8 - i = Suc (8 - Suc i)" by simp
    then show ?thesis using 1 True by (subst pad_loop.simps) (simp add: algebra_simps)
  next
    case False
    then show ?thesis using 1(2) by (subst pad_loop.simps) simp
  qed
qed

lemma print_hex8_printed:
  assumes ok: "screen_ok t" "conv_ok t cb"
  shows "\<exists>t'. print_hex8 cb v t = Some t' \<and> printed cb (hex8 v) t t'"
proof -
  let ?ds = "itoa_str v 16"
  let ?n = "length ?ds"
  let ?m1 = "write_bytes (xlate t) (cb + of_nat 8) (?ds @ [0]) (phys t)"
  let ?m2 = "write_bytes (xlate t) (cb + of_nat ?n) (replicate (8 - ?n) 48) ?m1"
  have n: "?n \<le> 8" by (rule length_itoa_hex)
  have nz: "0 \<notin> set ?ds" by (rule itoa_str_nonzero) simp_all
  have it: "itoa (xlate t) (phys t) v (cb + 8) 16 = Some ?m1"
    using conv_inj[OF ok(2), of 8 33] itoa_bytes[of 16 "xlate t" "cb + 8" "phys t" v] by simp
  have "is_cstr (ptr (xlate t) ?m1 (cb + of_nat 8)) ?ds"
    using conv_inj[OF ok(2), of 8 "Suc ?n"] n nz by (intro is_cstr_write_bytes) simp_all
  then have len: "strlen (ptr (xlate t) ?m1 (cb + 8)) = Some (of_nat ?n)" by (simp add: strlen_is_cstr)
  have un: "unat (of_nat ?n :: u32) = ?n" by (rule unat_of_nat32) (use n in simp)
  have inj: "inj_on (xlate t) (region cb 64)" using ok(2) by (simp add: conv_ok_def)
  have rd: "load8 (xlate t) ?m2 (cb + of_nat k) = (replicate 8 48 @ ?ds @ [0]) ! k"
    if "?n \<le> k" "k < 9 + ?n" for k
  proof -
    have 2: "load8 (xlate t) ?m2 (cb + of_nat k) = (if k < 8 then 48 else load8 (xlate t) ?m1 (cb + of_nat k))"
      using load8_write_region[OF inj, of ?n "replicate (8 - ?n) 48" k ?m1] that n by auto
    have 1: "load8 (xlate t) ?m1 (cb + of_nat k) = (?ds @ [0]) ! (k - 8)" if "8 \<le> k"
      using load8_write_region[OF inj, of 8 "?ds @ [0]" k "phys t"] that \<open>k < 9 + ?n\<close> n by simp
    show ?thesis using 1 2 by (auto simp: nth_append)
  qed
  have str: "is_cstr (ptr (xlate t) ?m2 (cb + of_nat ?n)) (hex8 v)"
    unfolding is_cstr_def
  proof (intro conjI allI impI)
    have lh: "length (hex8 v) = 8" using n by (simp add: hex8_def)
    show "length (hex8 v) < 2 ^ 32" by (simp add: lh)
    show "ptr (xlate t) ?m2 (cb + of_nat ?n) (of_nat (length (hex8 v))) = 0"
      using rd[of "?n + 8"] n by (simp add: lh ptr_def add.assoc nth_append)
    fix i assume "i < length (hex8 v)"
    then have i: "i < 8" by (simp add: lh)
    have h: "hex8 v ! i = (replicate 8 48 @ ?ds @ [0]) ! (?n + i)"
      using i n by (auto simp: hex8_def nth_append add.commute)
    then show "ptr (xlate t) ?m2 (cb + of_nat ?n) (of_nat i) = hex8 v ! i"
      using rd[of "?n + i"] i n by (simp add: ptr_def add.assoc)
    have "hex8 v ! i \<in> set (hex8 v)" using i lh by simp
    then show "hex8 v ! i \<noteq> 0" using nz by (auto simp: hex8_def)
  qed
  have "?m2 p = phys t p" if "p \<notin> xlate t ` region cb 64" for p
    using write_conv_other[of ?n "replicate (8 - ?n) 48" p "xlate t" cb ?m1]
      write_conv_other[of 8 "?ds @ [0]" p "xlate t" cb "phys t"] that n by simp
  from puts_printed[OF ok str this] show ?thesis
    using it len pad_loop_bytes[OF n, of "xlate t" ?m1 cb] un by (simp add: print_hex8_def Let_def)
qed

text \<open>The string arguments of a format, and that the given texts are behind them.\<close>

fun str_args :: "byte list \<Rightarrow> u32 list \<Rightarrow> u32 list"
and str_args_conv :: "byte list \<Rightarrow> u32 list \<Rightarrow> u32 list" where
  "str_args [] as = []"
| "str_args (c # fmt) as = (if c = 37 then str_args_conv fmt as else str_args fmt as)"
| "str_args_conv [] as = []"
| "str_args_conv (c # fmt) as =
     (if c = 37 then str_args fmt as
      else if c = 35 then str_args_conv fmt as
      else if takes_arg c then
        (case as of [] \<Rightarrow> [] | a # as' \<Rightarrow> (if c = 115 then a # str_args fmt as' else str_args fmt as'))
      else str_args fmt as)"

definition str_behind :: "'a console_state_scheme \<Rightarrow> addr \<Rightarrow> byte list \<Rightarrow> u32 \<Rightarrow> bool" where
  "str_behind s cb xs a \<longleftrightarrow>
     (\<forall>m. (\<forall>p. unat p div 4096 \<noteq> 0xB8 \<and> p \<notin> xlate s ` region cb 64 \<longrightarrow> m p = phys s p) \<longrightarrow>
          is_cstr (ptr (xlate s) m a) xs)"

lemma str_behind_printed:
  "printed cb ys s t \<Longrightarrow> str_behind s cb xs a \<Longrightarrow> str_behind t cb xs a"
  by (simp add: printed_def str_behind_def)

lemma conv_ok_printed: "printed cb ys s t \<Longrightarrow> conv_ok t cb' = conv_ok s cb'"
  by (simp add: printed_def conv_ok_def)

lemma printed_ok: "printed cb ys s t \<Longrightarrow> conv_ok s cb' \<Longrightarrow> screen_ok t \<and> conv_ok t cb'"
  using conv_ok_printed[of cb ys s t cb'] by (simp add: printed_def)

lemma print_arg_printed:
  assumes ok: "screen_ok t" "conv_ok t cb" and c: "takes_arg c"
    and str: "c = 115 \<Longrightarrow> str_behind t cb (strs a) a"
  shows "\<exists>t'. print_arg cb alternate c a t = Some t' \<and> printed cb (render_arg strs alternate c a) t t'"
proof -
  consider "c = 120" | "c = 117" | "c = 100" | "c = 99" | "c = 115" using c by (auto simp: takes_arg_def)
  then show ?thesis
  proof cases
    case 1
    then show ?thesis using print_hex8_printed[OF ok] print_number_printed[OF ok, of 16 a]
      by (simp add: print_arg_def render_arg_def)
  next
    case 2
    then show ?thesis using print_number_printed[OF ok, of 10 a] by (simp add: print_arg_def render_arg_def)
  next
    case 3
    then show ?thesis using print_signed_printed[OF ok] by (simp add: print_arg_def render_arg_def)
  next
    case 4
    then show ?thesis using printed_fold[OF ok(1), of cb "[ucast a]"]
      by (simp add: print_arg_def render_arg_def)
  next
    case 5
    then have "is_cstr (ptr (xlate t) (phys t) a) (strs a)" using str by (simp add: str_behind_def)
    from puts_printed[OF ok this, of "phys t"] show ?thesis
      using 5 by (simp add: print_arg_def print_string_def render_arg_def)
  qed
qed

lemma printf_loop_printed:
  "screen_ok t \<Longrightarrow> conv_ok t cb \<Longrightarrow> (\<forall>a \<in> set (str_args fmt as). str_behind t cb (strs a) a) \<Longrightarrow>
   render strs fmt as = Some xs \<Longrightarrow> \<exists>t'. printf_loop cb fmt as t = Some t' \<and> printed cb xs t t'"
  "screen_ok t \<Longrightarrow> conv_ok t cb \<Longrightarrow> (\<forall>a \<in> set (str_args_conv fmt as). str_behind t cb (strs a) a) \<Longrightarrow>
   render_conv strs alternate fmt as = Some xs \<Longrightarrow>
   \<exists>t'. printf_conv cb alternate fmt as t = Some t' \<and> printed cb xs t t'"
proof (induction cb fmt "as" t and cb alternate fmt "as" t arbitrary: xs and xs
    rule: printf_loop_printf_conv.induct)
  case (1 cb "as" t)
  then show ?case using printed_refl[OF 1(1)] by simp
next
  case (2 cb c fmt "as" t)
  show ?case
  proof (cases "c = 37")
    case True
    then show ?thesis using 2(1,3-) by simp
  next
    case False
    then obtain xs' where t: "render strs fmt as = Some xs'" "xs = c # xs'" using 2(6) by auto
    have p: "printed cb [c] t (putc c t)" using printed_fold[OF 2(3), of cb "[c]"] by simp
    then have "screen_ok (putc c t)" "conv_ok (putc c t) cb"
      using printed_ok[OF p 2(4)] by simp_all
    then obtain t' where "printf_loop cb fmt as (putc c t) = Some t'" "printed cb xs' (putc c t) t'"
      using 2(2)[OF False] t(1) 2(5) False str_behind_printed[OF p] by auto
    then show ?thesis using False t(2) printed_trans[OF p] by fastforce
  qed
next
  case (3 cb alternate "as" t)
  then show ?case by simp
next
  case (4 cb alternate c fmt "as" t)
  consider "c = 37" | "c = 35" | "takes_arg c" "c \<noteq> 37" "c \<noteq> 35" | "\<not> takes_arg c" "c \<noteq> 37" "c \<noteq> 35" by blast
  then show ?case
  proof cases
    case 1
    then obtain xs' where t: "render strs fmt as = Some xs'" "xs = 37 # xs'" using 4(8) by auto
    have p: "printed cb [37] t (putc 37 t)" using printed_fold[OF 4(5), of cb "[37]"] by simp
    then have "screen_ok (putc 37 t)" "conv_ok (putc 37 t) cb"
      using printed_ok[OF p 4(6)] by simp_all
    then obtain t' where "printf_loop cb fmt as (putc 37 t) = Some t'" "printed cb xs' (putc 37 t) t'"
      using 4(1)[OF 1] t(1) 4(7) 1 str_behind_printed[OF p] by auto
    then show ?thesis using 1 t(2) printed_trans[OF p] by fastforce
  next
    case 2
    then show ?thesis using 4(2) 4(5-) by simp
  next
    case 3
    then obtain a as' where a: "as = a # as'" using 4(8) by (cases "as") auto
    then obtain xs' where t: "render strs fmt as' = Some xs'"
        "xs = render_arg strs alternate c a @ xs'" using 4(8) 3 by auto
    have str: "c = 115 \<Longrightarrow> str_behind t cb (strs a) a" using 4(7) 3 a by simp
    obtain u where u: "print_arg cb alternate c a t = Some u" "printed cb (render_arg strs alternate c a) t u"
      using print_arg_printed[OF 4(5,6) 3(1), where strs = strs and a = a] str by blast
    have "screen_ok u" "conv_ok u cb" using printed_ok[OF u(2) 4(6)] by simp_all
    moreover have "\<forall>b \<in> set (str_args fmt as'). str_behind u cb (strs b) b"
      using 4(7) 3 a str_behind_printed[OF u(2)] by (auto split: if_splits)
    ultimately obtain t' where "printf_loop cb fmt as' u = Some t'" "printed cb xs' u t'"
      using 4(3)[OF 3(2,3,1) a u(1)] t(1) by blast
    then show ?thesis using 3 a u t(2) printed_trans[OF u(2)] by fastforce
  next
    case 4
    then show ?thesis using \<open>\<not> takes_arg c\<close> "4.IH"(4) "4.prems" by simp
  qed
qed

text \<open>
  \<open>printf\<close> prints the text its format and arguments stand for, on the screen and nowhere else,
  and returns the length of the format.
\<close>

lemma printf_printed:
  assumes "screen_ok s" "conv_ok s cb" "\<forall>a \<in> set (str_args fmt as). str_behind s cb (strs a) a"
    and "render strs fmt as = Some xs"
  shows "\<exists>s'. printf cb fmt as s = Some (of_nat (length fmt), s') \<and> printed cb xs s s'"
proof -
  obtain t where t: "printf_loop cb fmt as s = Some t" "printed cb xs s t"
    using printf_loop_printed(1)[OF assms] by blast
  have "screen_of (update_cursor t) = screen_of t" by (rule screen_of_cong) simp_all
  moreover have "screen_ok (update_cursor t) = screen_ok t" by (simp add: screen_ok_def linear_page_def)
  ultimately have "printed cb xs s (update_cursor t)" using t(2) by (simp add: printed_def)
  then show ?thesis using t(1) by (simp add: printf_def)
qed


section \<open>What printf leaves alone\<close>

lemma console_frame_phys [simp]: "console_frame (s\<lparr>phys := m\<rparr>) s' = console_frame s s'"
  by (simp add: console_frame_def)

text \<open>A predicate that putting a character keeps and that does not look at memory or ports is kept
  by \<open>printf\<close> whenever it returns.\<close>

locale output_invariant =
  fixes I :: "'a console_state_scheme \<Rightarrow> bool"
  assumes keep_putc: "I s \<Longrightarrow> I (putc c s)"
    and keep_phys: "I (s\<lparr>phys := m\<rparr>) = I s"
    and keep_cursor: "I s \<Longrightarrow> I (update_cursor s)"
begin

lemma keep_puts: "puts str s = Some (n, s') \<Longrightarrow> I s \<Longrightarrow> I s'"
  by (rule puts_induct[of str s n s' I]) (auto intro: keep_putc)

lemma keep_print_arg: "print_arg cb alternate c a s = Some s' \<Longrightarrow> I s \<Longrightarrow> I s'"
  by (auto simp: print_arg_def print_hex8_def print_number_def print_signed_def print_string_def Let_def keep_phys
      split: if_splits option.splits dest!: keep_puts intro: keep_putc)

lemma keep_printf_loop:
  "printf_loop cb fmt as s = Some s' \<Longrightarrow> I s \<Longrightarrow> I s'"
  "printf_conv cb alternate fmt as s = Some s' \<Longrightarrow> I s \<Longrightarrow> I s'"
proof (induction cb fmt "as" s and cb alternate fmt "as" s rule: printf_loop_printf_conv.induct)
  case (2 cb c fmt "as" s)
  then show ?case using keep_putc by (auto split: if_splits)
next
  case (4 cb alternate c fmt "as" s)
  consider "c = 37" | "c = 35" | "\<not> takes_arg c" "c \<noteq> 37" "c \<noteq> 35"
    | a as' u where "c \<noteq> 37" "c \<noteq> 35" "takes_arg c" "as = a # as'" "print_arg cb alternate c a s = Some u"
      "printf_loop cb fmt as' u = Some s'"
    using 4(5) by (auto split: if_splits list.splits option.splits)
  then show ?case
  proof cases
    case 1
    then show ?thesis using 4(1,5,6) keep_putc by auto
  next
    case (4 a as' u)
    then show ?thesis using "4.IH"(3)[OF 4(1-5) 4(6)] keep_print_arg[OF 4(5)] \<open>I s\<close> by blast
  qed (use 4 in simp_all)
qed simp_all

lemma keep_printf: "printf cb fmt as s = Some (n, s') \<Longrightarrow> I s \<Longrightarrow> I s'"
  by (auto simp: printf_def split: option.splits intro: keep_cursor keep_printf_loop(1))

end

interpretation output_frame: output_invariant "console_frame s"
proof unfold_locales
  show "console_frame s (t\<lparr>phys := m\<rparr>) = console_frame s t" for t m
    by (simp add: console_frame_def)
qed (blast intro: console_frame_trans console_frame_putc console_frame_update_cursor)+

lemma printf_frame: "printf cb fmt as s = Some (n, s') \<Longrightarrow> console_frame s s'"
  by (rule output_frame.keep_printf[of cb fmt "as" s n s' s]) simp_all

section \<open>Properties\<close>

lemma conv_ok_kernel:
  assumes "paging_inv s" "0x400000 \<le> unat cb" "unat cb + 64 \<le> 0x800000"
  shows "conv_ok s cb"
proof -
  have "xlate s a = a \<and> unat a div 4096 \<noteq> 0xB8" if "a \<in> region cb 64" for a
  proof -
    note mem = that
    obtain i where i: "i < 64" "a = cb + of_nat i" using mem unfolding region_def by blast
    then have "unat a = unat cb + i" using assms(3) by (simp add: unat_add_of_nat32)
    then show ?thesis using xlate_kernel[OF assms(1), of a] assms(2,3) i(1) by auto
  qed
  then show ?thesis by (auto simp: conv_ok_def inj_on_def)
qed

text \<open>C32: \<open>printf\<close> always returns on a complete format, prints exactly the text the format
  and its arguments stand for (unsigned, signed, hexadecimal, characters, strings and the literal
  percent sign), answers the length of the format, and touches no memory but the displayed page
  and its conversion buffer.\<close>
theorem printf_prints_rendering:
  assumes "screen_ok s" "conv_ok s cb" "\<forall>a \<in> set (str_args fmt vals). str_behind s cb (strs a) a"
    and "render strs fmt vals = Some xs"
  shows "\<exists>s'. printf cb fmt vals s = Some (of_nat (length fmt), s') \<and>
    screen_of s' = fold screen_put xs (screen_of s) \<and>
    (\<forall>p. unat p div 4096 \<noteq> 0xB8 \<and> p \<notin> xlate s ` region cb 64 \<longrightarrow> phys s' p = phys s p)"
  using printf_printed[OF assms] unfolding printed_def by blast

lemma printf_prints_rendering_witness:
  "\<exists>s'. printf 0x7F0000 [118, 61, 37, 100] [- 5] fresh_console = Some (4, s') \<and>
     screen_of s' = fold screen_put [118, 61, 45, 53] (screen_of fresh_console)"
proof -
  have "render (\<lambda>_. []) [118, 61, 37, 100] [- 5] = Some [118, 61, 45, 53]"
    by (simp add: takes_arg_def render_arg_def signed_str_def itoa_str_def digits_lsb.simps[of 10 5]
        digits_lsb.simps[of 10 0] itoa_lookup_def)
  from printf_prints_rendering[OF _ _ _ this, of fresh_console "0x7F0000"]
    conv_ok_kernel[of fresh_console "0x7F0000"] fresh_console_ok
  show ?thesis by (auto simp: takes_arg_def)
qed

lemma itoa_lookup_zero: "takeWhile (\<lambda>x. x \<noteq> 48) itoa_lookup = []"
  by (simp add: itoa_lookup_def)

lemma atoi_leading_zeros: "atoi_str r (replicate n 48 @ xs) = atoi_str r xs"
  by (induction n) (simp_all add: atoi_str_def itoa_lookup_zero)

text \<open>The alternate hexadecimal conversion always prints eight digits, which read in base
  16 are the number, leading zeros included.\<close>
theorem hex_prints_eight_digits:
  assumes "screen_ok s" "conv_ok s cb"
  shows "\<exists>s' xs. print_hex8 cb v s = Some s' \<and> length xs = 8 \<and> atoi_str 16 xs = unat v \<and>
           screen_of s' = fold screen_put xs (screen_of s)"
proof -
  have "length (hex8 v) = 8" using length_itoa_hex[of v] by (simp add: hex8_def)
  moreover have "atoi_str 16 (hex8 v) = unat v"
    using atoi_itoa_str[of 16 v] by (simp add: hex8_def atoi_leading_zeros)
  ultimately show ?thesis
    using print_hex8_printed[OF assms, of v] unfolding printed_def by blast
qed

lemma hex_prints_eight_digits_witness:
  "\<exists>s' xs. print_hex8 0x7F0000 0xE fresh_console = Some s' \<and> length xs = 8 \<and> atoi_str 16 xs = 14 \<and>
     screen_of s' = fold screen_put xs (screen_of fresh_console)"
  using hex_prints_eight_digits[of fresh_console "0x7F0000" "0xE"]
    conv_ok_kernel[of fresh_console "0x7F0000"] fresh_console_ok by simp

end
