(* ===== verification/File_System.thy ===== *)
theory File_System
  imports C_Library
begin

text \<open>
  The read-only file system of \<open>student-distrib/fs.c\<close>. The image lies in memory at
  \<open>fs_img_start\<close>: a boot block with the counts and 63 directory entries, one block of
  4096 bytes per inode, then the data blocks. The structures are packed, so the fields are read
  at their byte offsets. Block and file positions are unsigned 32-bit words and wrap as in C;
  the loop counter and the block count of \<open>read_data\<close> are below \<open>2^20\<close>, where signed and
  unsigned comparison agree.
\<close>

section \<open>The image\<close>

definition n_inodes :: "xlat \<Rightarrow> mem \<Rightarrow> addr \<Rightarrow> u32" where
  "n_inodes tr m fs = load32 tr m (fs + 4)"

definition dentry_addr :: "addr \<Rightarrow> nat \<Rightarrow> addr" where
  "dentry_addr fs i = fs + 64 + 64 * of_nat i"

definition inode_addr :: "addr \<Rightarrow> u32 \<Rightarrow> addr" where
  "inode_addr fs inode = fs + 4096 * (inode + 1)"

definition data_block_addr :: "xlat \<Rightarrow> mem \<Rightarrow> addr \<Rightarrow> u32 \<Rightarrow> u32 \<Rightarrow> addr" where
  "data_block_addr tr m fs inode i =
     fs + 4096 * (n_inodes tr m fs + 1 + load32 tr m (inode_addr fs inode + 4 + 4 * i))"

text \<open>A \<open>dentry_t\<close> variable of the kernel: the 32 bytes of the name, the type, the inode.\<close>

record dentry =
  file_name :: "byte list"
  file_type :: u32
  inode_num :: u32

section \<open>Directory entries\<close>

text \<open>The loop over the 32 name bytes, up to the first NUL.\<close>

function file_name_len_loop :: "reader \<Rightarrow> nat \<Rightarrow> nat" where
  "file_name_len_loop name j = (if j < 32 \<and> name (of_nat j) \<noteq> 0 then Suc (file_name_len_loop name (Suc j)) else 0)"
  by pat_completeness auto
termination by (relation "measure (\<lambda>(name, j). 32 - j)") auto

declare file_name_len_loop.simps [simp del]

definition copy_name :: "reader \<Rightarrow> nat \<Rightarrow> dentry \<Rightarrow> byte list" where
  "copy_name src n d = strncpy_out src n @ drop n (file_name d)"

fun find_dentry :: "xlat \<Rightarrow> mem \<Rightarrow> addr \<Rightarrow> reader \<Rightarrow> u32 \<Rightarrow> nat list \<Rightarrow> dentry \<Rightarrow> u32 \<times> dentry" where
  "find_dentry tr m fs fname ss_len [] d = (- 1, d)"
| "find_dentry tr m fs fname ss_len (i # is) d =
     (let a = dentry_addr fs i; name = ptr tr m a
      in if strncmp fname name ss_len = 0 \<and> of_nat (file_name_len_loop name 0) = ss_len
         then (0, \<lparr>file_name = copy_name name (unat ss_len) d,
                   file_type = load32 tr m (a + 32), inode_num = load32 tr m (a + 36)\<rparr>)
         else find_dentry tr m fs fname ss_len is d)"

text \<open>
  The file name is \<open>None\<close> for a NULL pointer; the destination is never NULL in this kernel.
  The length is a signed \<open>int\<close>. No result means that \<open>strlen\<close> finds no NUL.
\<close>

definition read_dentry_by_name ::
  "xlat \<Rightarrow> mem \<Rightarrow> addr \<Rightarrow> reader option \<Rightarrow> dentry \<Rightarrow> (u32 \<times> dentry) option" where
  "read_dentry_by_name tr m fs fname d =
     (case fname of None \<Rightarrow> Some (- 1, d)
      | Some str \<Rightarrow>
          (case strlen str of None \<Rightarrow> None
           | Some len \<Rightarrow> Some (find_dentry tr m fs str (if sint len > 32 then 32 else len) [0..<63] d)))"

definition read_dentry_by_index :: "xlat \<Rightarrow> mem \<Rightarrow> addr \<Rightarrow> u32 \<Rightarrow> dentry \<Rightarrow> u32 \<times> dentry" where
  "read_dentry_by_index tr m fs index d =
     (if index \<ge> 63 then (- 1, d)
      else let a = dentry_addr fs (unat index)
           in (0, \<lparr>file_name = copy_name (ptr tr m a) 32 d,
                   file_type = load32 tr m (a + 32), inode_num = load32 tr m (a + 36)\<rparr>))"

section \<open>Reading file data\<close>

function read_data_loop ::
  "xlat \<Rightarrow> addr \<Rightarrow> u32 \<Rightarrow> u32 \<Rightarrow> u32 \<Rightarrow> u32 \<Rightarrow> u32 \<Rightarrow> u32 \<Rightarrow> addr \<Rightarrow> u32 \<Rightarrow> mem \<Rightarrow> u32 \<times> mem" where
  "read_data_loop tr fs inode n_inodes0 n_blocks i start bytes_read buf nbytes m =
     (if i < n_blocks \<and> nbytes \<noteq> 0 then
        let cur_inode = inode_addr fs inode;
            cur_data_block = load32 tr m (cur_inode + 4 + 4 * i);
            data_block_ptr = fs + 4096 * (n_inodes0 + 1 + cur_data_block) + start;
            flen = load32 tr m cur_inode;
            len1 = 4096 - start;
            len2 = (if len1 > nbytes then nbytes else len1);
            len = (if i * 4096 + len2 + start > flen then flen - (i * 4096 + start) else len2)
        in read_data_loop tr fs inode n_inodes0 n_blocks (i + 1) 0 (bytes_read + len) (buf + len)
             (nbytes - len) (memcpy tr m buf data_block_ptr len)
      else (bytes_read, m))"
  by pat_completeness auto
termination
  by (relation "measure (\<lambda>(tr, fs, inode, n, n_blocks, i, _). unat n_blocks - unat i)")
     (auto intro: word_count_up)

declare read_data_loop.simps [simp del]

definition read_data :: "xlat \<Rightarrow> mem \<Rightarrow> addr \<Rightarrow> u32 \<Rightarrow> u32 \<Rightarrow> addr \<Rightarrow> u32 \<Rightarrow> u32 \<times> mem" where
  "read_data tr m fs inode offset buf nbytes =
     (let flen = load32 tr m (inode_addr fs inode)
      in if offset \<ge> flen then (0, m)
         else read_data_loop tr fs inode (n_inodes tr m fs) ((flen + 4095) div 4096)
                (offset div 4096) (offset mod 4096) 0 buf nbytes m)"

section \<open>Files as byte lists\<close>

text \<open>The size of a file, the address of a byte of it, and its content.\<close>

definition file_size :: "xlat \<Rightarrow> mem \<Rightarrow> addr \<Rightarrow> u32 \<Rightarrow> nat" where
  "file_size tr m fs inode = unat (load32 tr m (inode_addr fs inode))"

definition byte_addr :: "xlat \<Rightarrow> mem \<Rightarrow> addr \<Rightarrow> u32 \<Rightarrow> nat \<Rightarrow> addr" where
  "byte_addr tr m fs inode p = data_block_addr tr m fs inode (of_nat (p div 4096)) + of_nat (p mod 4096)"

definition file_content :: "xlat \<Rightarrow> mem \<Rightarrow> addr \<Rightarrow> u32 \<Rightarrow> byte list" where
  "file_content tr m fs inode =
     map (\<lambda>p. load8 tr m (byte_addr tr m fs inode p)) [0..<file_size tr m fs inode]"

text \<open>The physical bytes a file read depends on: the count of inodes, the inode, the data.\<close>

definition file_footprint :: "xlat \<Rightarrow> mem \<Rightarrow> addr \<Rightarrow> u32 \<Rightarrow> addr set" where
  "file_footprint tr m fs inode =
     tr ` region (fs + 4) 4 \<union> tr ` region (inode_addr fs inode) 4 \<union>
     (\<Union>p < file_size tr m fs inode. insert (tr (byte_addr tr m fs inode p))
        (tr ` region (inode_addr fs inode + 4 + 4 * of_nat (p div 4096)) 4))"

text \<open>Sizes for which the block count does not wrap.\<close>

definition size_ok :: "xlat \<Rightarrow> mem \<Rightarrow> addr \<Rightarrow> u32 \<Rightarrow> bool" where
  "size_ok tr m fs inode \<longleftrightarrow> file_size tr m fs inode + 4095 < 2 ^ 32"


section \<open>Looking a name up\<close>

lemma file_name_len_loop_eq:
  "j \<le> 32 \<Longrightarrow> file_name_len_loop name j = length (cstr (\<lambda>i. name (of_nat j + i)) (32 - j))"
proof (induction name j rule: file_name_len_loop.induct)
  case (1 name j)
  show ?case
  proof (cases "j < 32")
    case True
    then obtain k where k: "32 - j = Suc k" "32 - Suc j = k" by (metis Suc_diff_Suc)
    then show ?thesis using 1 True
      by (subst file_name_len_loop.simps) (simp add: cstr_Suc algebra_simps)
  qed (subst file_name_len_loop.simps, simp)
qed

lemma file_name_len: "file_name_len_loop name 0 = length (cstr name 32)"
  using file_name_len_loop_eq[of 0 name] by simp

text \<open>The name of entry \<open>i\<close>, and the entry that is returned for it.\<close>

definition entry_name :: "xlat \<Rightarrow> mem \<Rightarrow> addr \<Rightarrow> nat \<Rightarrow> byte list" where
  "entry_name tr m fs i = cstr (ptr tr m (dentry_addr fs i)) 32"

definition entry_type :: "xlat \<Rightarrow> mem \<Rightarrow> addr \<Rightarrow> nat \<Rightarrow> u32" where
  "entry_type tr m fs i = load32 tr m (dentry_addr fs i + 32)"

definition entry_inode :: "xlat \<Rightarrow> mem \<Rightarrow> addr \<Rightarrow> nat \<Rightarrow> u32" where
  "entry_inode tr m fs i = load32 tr m (dentry_addr fs i + 36)"

lemma take_cstr: "k \<le> n \<Longrightarrow> take k (cstr s n) = cstr s k"
proof (induction k arbitrary: s n)
  case (Suc k)
  then obtain n' where "n = Suc n'" by (cases n) auto
  then show ?case using Suc by (simp add: cstr_Suc)
qed simp

text \<open>Whether an entry matches: both tests together compare the whole names.\<close>

lemma entry_match:
  assumes str: "is_cstr str xs" and n: "n = min 32 (length xs)"
  shows "(strncmp str (ptr tr m (dentry_addr fs i)) (of_nat n) = 0 \<and>
          of_nat (file_name_len_loop (ptr tr m (dentry_addr fs i)) 0) = (of_nat n :: u32)) \<longleftrightarrow>
         entry_name tr m fs i = take 32 xs"
proof -
  let ?p = "ptr tr m (dentry_addr fs i)"
  have u: "unat (of_nat n :: u32) = n" by (rule unat_of_nat32) (use n in simp)
  have cmp: "strncmp str ?p (of_nat n) = 0 \<longleftrightarrow> take n xs = cstr ?p n"
    unfolding strncmp_0 u is_cstr_cstr[OF str] ..
  have len: "of_nat (length (cstr ?p 32)) = (of_nat n :: u32) \<longleftrightarrow> length (cstr ?p 32) = n"
  proof
    assume "of_nat (length (cstr ?p 32)) = (of_nat n :: u32)"
    then have "unat (of_nat (length (cstr ?p 32)) :: u32) = n" using u by simp
    moreover have "length (cstr ?p 32) < 2 ^ 32" using length_cstr_le[of ?p 32] by simp
    ultimately show "length (cstr ?p 32) = n" using unat_of_nat32 by metis
  qed simp
  have "take n xs = take 32 xs" by (simp add: n min_def)
  moreover have "cstr ?p 32 = take 32 xs \<longleftrightarrow> take 32 xs = cstr ?p n \<and> length (cstr ?p 32) = n"
    using take_cstr[of n 32 ?p] n by (auto simp: min_def) 
  ultimately show ?thesis unfolding cmp file_name_len len entry_name_def by simp
qed

definition found_dentry :: "xlat \<Rightarrow> mem \<Rightarrow> addr \<Rightarrow> nat \<Rightarrow> dentry \<Rightarrow> dentry" where
  "found_dentry tr m fs i d =
     \<lparr>file_name = entry_name tr m fs i @ drop (length (entry_name tr m fs i)) (file_name d),
      file_type = entry_type tr m fs i, inode_num = entry_inode tr m fs i\<rparr>"

lemma find_dentry_find:
  assumes str: "is_cstr str xs" and n: "n = min 32 (length xs)"
  shows "find_dentry tr m fs str (of_nat n) is d =
     (case find (\<lambda>i. entry_name tr m fs i = take 32 xs) is of
        None \<Rightarrow> (- 1, d) | Some i \<Rightarrow> (0, found_dentry tr m fs i d))"
proof (induction "is")
  case (Cons i "is")
  let ?p = "ptr tr m (dentry_addr fs i)"
  have u: "unat (of_nat n :: u32) = n" by (rule unat_of_nat32) (use n in simp)
  have "copy_name ?p n d = entry_name tr m fs i @ drop (length (entry_name tr m fs i)) (file_name d)"
    if "entry_name tr m fs i = take 32 xs"
  proof -
    have "length (entry_name tr m fs i) = n" using that n by simp
    moreover have "strncpy_out ?p n = entry_name tr m fs i"
      using take_cstr[of n 32 ?p] n calculation
      by (simp add: strncpy_out_cstr entry_name_def min_def split: if_splits)
    ultimately show ?thesis by (simp add: copy_name_def)
  qed
  then show ?case using Cons.IH entry_match[OF str n, of tr m fs i] u
    by (simp add: Let_def found_dentry_def entry_type_def entry_inode_def)
qed simp

lemma read_dentry_by_name_find:
  assumes "is_cstr str xs" "length xs < 2 ^ 31"
  shows "read_dentry_by_name tr m fs (Some str) d =
     Some (case find (\<lambda>i. entry_name tr m fs i = take 32 xs) [0..<63] of
        None \<Rightarrow> (- 1, d) | Some i \<Rightarrow> (0, found_dentry tr m fs i d))"
proof -
  have "(if sint (of_nat (length xs) :: u32) > 32 then 32 else of_nat (length xs)) =
      (of_nat (min 32 (length xs)) :: u32)"
    using sint_of_nat32[OF assms(2)] by (simp add: min_def)
  then show ?thesis using find_dentry_find[OF assms(1) refl]
    by (simp add: read_dentry_by_name_def strlen_is_cstr[OF assms(1)] del: upt_rec_numeral)
qed


section \<open>What read_data returns\<close>

lemma footprint_stable:
  assumes "tr ` region a (length bs) \<inter> file_footprint tr m fs inode = {}"
  defines "m' \<equiv> write_bytes tr a bs m"
  shows "n_inodes tr m' fs = n_inodes tr m fs" "file_size tr m' fs inode = file_size tr m fs inode"
    "load32 tr m' (inode_addr fs inode) = load32 tr m (inode_addr fs inode)"
    "\<And>p. p < file_size tr m fs inode \<Longrightarrow>
       data_block_addr tr m' fs inode (of_nat (p div 4096)) = data_block_addr tr m fs inode (of_nat (p div 4096))"
    "\<And>p. p < file_size tr m fs inode \<Longrightarrow> byte_addr tr m' fs inode p = byte_addr tr m fs inode p"
    "file_content tr m' fs inode = file_content tr m fs inode"
    "file_footprint tr m' fs inode = file_footprint tr m fs inode"
proof -
  have same: "load32 tr m' c = load32 tr m c" if "tr ` region c 4 \<subseteq> file_footprint tr m fs inode" for c
    unfolding m'_def by (rule load32_cong, rule bytes_at_write_bytes_other) (use assms that in blast)
  show n: "n_inodes tr m' fs = n_inodes tr m fs"
    unfolding n_inodes_def by (rule same) (auto simp: file_footprint_def)
  show l: "load32 tr m' (inode_addr fs inode) = load32 tr m (inode_addr fs inode)"
    by (rule same) (auto simp: file_footprint_def)
  then show sz: "file_size tr m' fs inode = file_size tr m fs inode" by (simp add: file_size_def)
  have b: "load32 tr m' (inode_addr fs inode + 4 + 4 * of_nat (p div 4096)) =
      load32 tr m (inode_addr fs inode + 4 + 4 * of_nat (p div 4096))" if "p < file_size tr m fs inode" for p
    by (rule same) (use that in \<open>auto simp: file_footprint_def\<close>)
  show blk: "data_block_addr tr m' fs inode (of_nat (p div 4096)) = data_block_addr tr m fs inode (of_nat (p div 4096))"
    if "p < file_size tr m fs inode" for p
    using b[OF that] n by (simp add: data_block_addr_def)
  show ba: "byte_addr tr m' fs inode p = byte_addr tr m fs inode p" if "p < file_size tr m fs inode" for p
    using blk[OF that] by (simp add: byte_addr_def)
  have "load8 tr m' (byte_addr tr m fs inode p) = load8 tr m (byte_addr tr m fs inode p)"
    if "p < file_size tr m fs inode" for p
    unfolding m'_def by (rule load8_write_bytes_other) (use assms that in \<open>auto simp: file_footprint_def\<close>)
  then show "file_content tr m' fs inode = file_content tr m fs inode"
    using ba by (simp add: file_content_def sz)
  show "file_footprint tr m' fs inode = file_footprint tr m fs inode"
    using ba by (simp add: file_footprint_def sz)
qed

lemma length_file_content [simp]: "length (file_content tr m fs inode) = file_size tr m fs inode"
  by (simp add: file_content_def)

lemma block_split:
  fixes i r k :: nat
  assumes "r + k < 4096"
  shows "(i * 4096 + r + k) div 4096 = i" "(i * 4096 + r + k) mod 4096 = r + k"
proof -
  have "i * 4096 + r + k = (r + k) + i * 4096" by simp
  then show "(i * 4096 + r + k) div 4096 = i" "(i * 4096 + r + k) mod 4096 = r + k"
    using assms by (metis div_mult_self3 div_less add_0_right zero_neq_numeral add.commute, metis mod_mult_self1 mod_less)
qed

text \<open>A run of bytes within one block.\<close>

lemma block_bytes:
  assumes "start < 4096" "start + len \<le> 4096" "i * 4096 + start + len \<le> file_size tr m fs inode"
  shows "bytes_at tr m (data_block_addr tr m fs inode (of_nat i) + of_nat start) len =
         take len (drop (i * 4096 + start) (file_content tr m fs inode))"
proof (rule nth_equalityI)
  show "length (bytes_at tr m (data_block_addr tr m fs inode (of_nat i) + of_nat start) len) =
        length (take len (drop (i * 4096 + start) (file_content tr m fs inode)))"
    using assms(3) by simp
  fix k assume "k < length (bytes_at tr m (data_block_addr tr m fs inode (of_nat i) + of_nat start) len)"
  then have k: "k < len" by simp
  have "(i * 4096 + start + k) div 4096 = i" "(i * 4096 + start + k) mod 4096 = start + k"
    using block_split[of start k i] assms k by simp_all
  then show "bytes_at tr m (data_block_addr tr m fs inode (of_nat i) + of_nat start) len ! k =
      take len (drop (i * 4096 + start) (file_content tr m fs inode)) ! k"
    using k assms(3) by (simp add: file_content_def byte_addr_def add.assoc)
qed

lemma block_in_footprint:
  assumes "start < 4096" "start + len \<le> 4096" "i * 4096 + start + len \<le> file_size tr m fs inode"
  shows "tr ` region (data_block_addr tr m fs inode (of_nat i) + of_nat start) len \<subseteq> file_footprint tr m fs inode"
proof
  fix x assume "x \<in> tr ` region (data_block_addr tr m fs inode (of_nat i) + of_nat start) len"
  then obtain k where k: "k < len" "x = tr (data_block_addr tr m fs inode (of_nat i) + of_nat start + of_nat k)"
    by (auto simp: region_def)
  let ?p = "i * 4096 + start + k"
  have "?p div 4096 = i" "?p mod 4096 = start + k" "?p < file_size tr m fs inode"
    using block_split[of start k i] assms k by simp_all
  moreover from this have "x = tr (byte_addr tr m fs inode ?p)"
    using k by (simp only: byte_addr_def) (simp add: add.assoc)
  ultimately show "x \<in> file_footprint tr m fs inode" by (auto simp: file_footprint_def)
qed

lemma take_split_at: "take (k + n) xs = take k xs @ take n (drop k xs)"
  by (simp add: take_add)

text \<open>The length of the copy of one round: to the end of the block, the request or the file.\<close>

lemma read_data_len:
  fixes i start nbytes fl len2 :: u32
  assumes start: "unat start < 4096" and pos: "unat i * 4096 + unat start < unat fl"
    and fl: "unat fl + 4095 < 2 ^ 32"
    and len2: "len2 = (if 4096 - start > nbytes then nbytes else 4096 - start)"
  shows "(if i * 4096 + len2 + start > fl then fl - (i * 4096 + start) else len2) =
     of_nat (min (min (4096 - unat start) (unat nbytes)) (unat fl - (unat i * 4096 + unat start)))"
proof -
  let ?pos = "unat i * 4096 + unat start"
  have "unat (4096 - start) = 4096 - unat start"
    using start by (subst unat_sub) (simp_all add: word_le_nat_alt)
  then have u2: "unat len2 = min (4096 - unat start) (unat nbytes)"
    by (auto simp: word_less_nat_alt len2)
  have "i * 4096 + start = of_nat ?pos" by (simp add: of_nat_unat32)
  then have up: "unat (i * 4096 + start) = ?pos" using pos fl by (simp only: unat_of_nat32)
  have "i * 4096 + len2 + start = of_nat (?pos + unat len2)" by (simp add: of_nat_unat32)
  moreover have "?pos + unat len2 < 2 ^ 32" using u2 start pos fl by simp
  ultimately have us: "unat (i * 4096 + len2 + start) = ?pos + unat len2"
    using unat_of_nat32 by metis
  have ud: "unat (fl - (i * 4096 + start)) = unat fl - ?pos"
    using up pos by (subst unat_sub) (simp_all add: word_le_nat_alt)
  have gt: "i * 4096 + len2 + start > fl \<longleftrightarrow> unat fl - ?pos < unat len2"
    using us pos by (auto simp: word_less_nat_alt)
  define x where "x = (if i * 4096 + len2 + start > fl then fl - (i * 4096 + start) else len2)"
  have "unat x = min (unat len2) (unat fl - ?pos)"
  proof (cases "i * 4096 + len2 + start > fl")
    case True
    then have "x = fl - (i * 4096 + start)" by (simp only: x_def if_True)
    then have "unat x = unat fl - ?pos" by (simp only: ud)
    then show ?thesis using True gt by simp
  next
    case False
    then have "x = len2" by (simp only: x_def if_False)
    then show ?thesis using False gt by simp
  qed
  then have "x = of_nat (min (min (4096 - unat start) (unat nbytes)) (unat fl - ?pos))"
    unfolding u2 using of_nat_unat32[of x] by (simp only:)
  then show ?thesis by (simp only: x_def)
qed

text \<open>One round of the loop.\<close>

lemma read_data_round:
  fixes i start nbytes n_blocks n_inodes0 bytes_read :: u32
  assumes pos: "pos = unat i * 4096 + unat start" "unat start < 4096" "pos < file_size tr m fs inode"
    and ok: "size_ok tr m fs inode" "n_inodes0 = n_inodes tr m fs" and go: "i < n_blocks" "nbytes \<noteq> 0"
    and k: "k = min (min (4096 - unat start) (unat nbytes)) (file_size tr m fs inode - pos)"
    and disj: "tr ` region buf k \<inter> file_footprint tr m fs inode = {}"
  shows "read_data_loop tr fs inode n_inodes0 n_blocks i start bytes_read buf nbytes m =
         read_data_loop tr fs inode n_inodes0 n_blocks (i + 1) 0 (bytes_read + of_nat k) (buf + of_nat k)
           (nbytes - of_nat k) (write_bytes tr buf (take k (drop pos (file_content tr m fs inode))) m)"
proof -
  let ?src = "data_block_addr tr m fs inode (of_nat (unat i)) + of_nat (unat start)"
  let ?fl = "load32 tr m (inode_addr fs inode)"
  have len: "(if i * 4096 + (if 4096 - start > nbytes then nbytes else 4096 - start) + start > ?fl
      then ?fl - (i * 4096 + start) else (if 4096 - start > nbytes then nbytes else 4096 - start)) = of_nat k"
    using read_data_len[OF pos(2) _ _ refl, of i ?fl nbytes] pos ok(1) k
    by (simp only: file_size_def size_ok_def)
  have kb: "unat start + k \<le> 4096" "unat i * 4096 + unat start + k \<le> file_size tr m fs inode"
    using k pos by simp_all
  have uk: "unat (of_nat k :: u32) = k" by (rule unat_of_nat32) (use kb in simp)
  have "apart tr buf k ?src k"
    using disj block_in_footprint[OF pos(2) kb] by (auto simp: apart_def)
  then have cp: "memcpy tr m buf ?src (of_nat k) =
      write_bytes tr buf (take k (drop pos (file_content tr m fs inode))) m"
    using memcpy_bytes[of tr buf "of_nat k" ?src m] block_bytes[OF pos(2) kb] pos(1) by (simp only: uk)
  have src: "fs + 4096 * (n_inodes0 + 1 + load32 tr m (inode_addr fs inode + 4 + 4 * i)) + start = ?src"
    using ok(2) by (simp add: data_block_addr_def of_nat_unat32)
  show ?thesis using go
    by (subst read_data_loop.simps) (simp only: Let_def len src cp if_True simp_thms)
qed

lemma read_data_loop_content:
  fixes i start bytes_read buf nbytes :: u32
  assumes pos: "pos = unat i * 4096 + unat start" "unat start < 4096"
    and flen: "flen = file_size tr m fs inode" "size_ok tr m fs inode"
    and blocks: "unat n_blocks = (flen + 4095) div 4096"
    and inside: "i < n_blocks \<Longrightarrow> pos < flen"
    and n: "n_inodes0 = n_inodes tr m fs"
    and disj: "tr ` region buf (min (unat nbytes) (flen - pos)) \<inter> file_footprint tr m fs inode = {}"
  shows "read_data_loop tr fs inode n_inodes0 n_blocks i start bytes_read buf nbytes m =
     (bytes_read + of_nat (min (unat nbytes) (flen - pos)),
      write_bytes tr buf (take (unat nbytes) (drop pos (file_content tr m fs inode))) m)"
  using assms
proof (induction "unat n_blocks - unat i" arbitrary: i start bytes_read buf nbytes m pos rule: less_induct)
  case less
  show ?case
  proof (cases "i < n_blocks \<and> nbytes \<noteq> 0")
    case False
    have "min (unat nbytes) (flen - pos) = 0"
    proof (cases "nbytes = 0")
      case False2: False
      then have "unat n_blocks \<le> unat i" using False by (simp add: word_le_nat_alt not_less)
      then have "flen \<le> pos" using less.prems(1,5) by linarith
      then show ?thesis by simp
    qed simp
    moreover have "take (unat nbytes) (drop pos (file_content tr m fs inode)) = []"
      using calculation less.prems(3) by (auto simp: min_def split: if_splits)
    ultimately show ?thesis using False by (subst read_data_loop.simps) auto
  next
    case True
    then have inb: "unat i < unat n_blocks" and pos_lt: "pos < flen"
      using less.prems(6) by (auto simp: word_less_nat_alt)
    have fl: "flen < 2 ^ 32" using less.prems(3,4) by (simp add: size_ok_def)
    define k where "k = min (min (4096 - unat start) (unat nbytes)) (flen - pos)"
    have k: "k \<le> 4096" "unat start + k \<le> 4096" "k \<le> unat nbytes" "pos + k \<le> flen" "0 < k"
      using less.prems(1,2) pos_lt True by (auto simp: k_def unat_gt_0)
    let ?content = "file_content tr m fs inode"
    have sub: "region buf k \<subseteq> region buf (min (unat nbytes) (flen - pos))"
      using k by (intro region_mono) simp
    have dk: "tr ` region buf k \<inter> file_footprint tr m fs inode = {}" using sub less.prems(8) by blast
    have uk: "unat (of_nat k :: u32) = k" by (rule unat_of_nat32) (use k in simp)
    let ?bs = "take k (drop pos ?content)"
    let ?m' = "write_bytes tr buf ?bs m"
    have lbs: "length ?bs = k" using k(4) less.prems(3) by simp
    note stable = footprint_stable[of tr buf ?bs m fs inode, unfolded lbs, OF dk]
    let ?i' = "i + 1" and ?buf' = "buf + of_nat k" and ?n' = "nbytes - of_nat k" and ?pos' = "pos + k"
    have ui': "unat ?i' = Suc (unat i)" using True by (intro unat_Suc_less[of i n_blocks]) simp
    have un': "unat ?n' = unat nbytes - k"
      using k(3) uk by (subst unat_sub) (simp_all add: word_le_nat_alt)
    have rest: "read_data_loop tr fs inode n_inodes0 n_blocks ?i' 0 (bytes_read + of_nat k) ?buf' ?n' ?m' =
       (bytes_read + of_nat k + of_nat (min (unat ?n') (flen - ?pos')),
        write_bytes tr ?buf' (take (unat ?n') (drop ?pos' (file_content tr ?m' fs inode))) ?m')"
    proof (cases "k = 4096 - unat start")
      case full: True
      show ?thesis
      proof (rule less.hyps)
        show "unat n_blocks - unat ?i' < unat n_blocks - unat i" using inb ui' by simp
        show "?pos' = unat ?i' * 4096 + unat (0 :: u32)" using ui' full less.prems(1,2) by simp
        show "flen = file_size tr ?m' fs inode" "size_ok tr ?m' fs inode" "n_inodes0 = n_inodes tr ?m' fs"
          using stable less.prems by (simp_all add: size_ok_def)
        show "?pos' < flen" if "?i' < n_blocks"
          using that ui' full less.prems(1,2,5) by (simp add: word_less_nat_alt)
        have "region ?buf' (min (unat ?n') (flen - ?pos')) \<subseteq> region buf (min (unat nbytes) (flen - pos))"
          using k by (intro region_shift) (auto simp: un' min_def)
        then show "tr ` region ?buf' (min (unat ?n') (flen - ?pos')) \<inter> file_footprint tr ?m' fs inode = {}"
          using less.prems(8) stable(7) by blast
      qed (use less.prems in simp_all)
    next
      case part: False
      then have "k = unat nbytes \<or> ?pos' = flen" using k(4) by (auto simp: k_def min_def split: if_splits)
      then have "min (unat ?n') (flen - ?pos') = 0 \<and> \<not> (?i' < n_blocks \<and> ?n' \<noteq> 0)"
      proof
        assume "k = unat nbytes"
        then show ?thesis using un' by (simp add: unat_eq_zero)
      next
        assume "?pos' = flen"
        moreover have "unat start + k < 4096" using part k(2) by simp
        ultimately have "unat n_blocks \<le> Suc (unat i)" using less.prems(1,5) by linarith
        then show ?thesis using \<open>?pos' = flen\<close> ui' by (simp add: word_less_nat_alt)
      qed
      moreover from this have "take (unat ?n') (drop ?pos' (file_content tr ?m' fs inode)) = []"
        using stable(2) less.prems(3) by (auto simp: min_def split: if_splits)
      ultimately show ?thesis by (subst read_data_loop.simps) auto
    qed
    have step: "read_data_loop tr fs inode n_inodes0 n_blocks i start bytes_read buf nbytes m =
        read_data_loop tr fs inode n_inodes0 n_blocks ?i' 0 (bytes_read + of_nat k) ?buf' ?n' ?m'"
      using True less.prems pos_lt dk by (intro read_data_round) (simp_all add: k_def)
    have split: "take (unat nbytes) (drop pos ?content) = ?bs @ take (unat nbytes - k) (drop ?pos' ?content)"
      using take_split_at[of k "unat nbytes - k" "drop pos ?content"] k(3) by (simp add: add.commute)
    have "min (unat nbytes) (flen - pos) = k + min (unat nbytes - k) (flen - ?pos')"
      using k(3,4) by (auto simp: min_def)
    then show ?thesis unfolding step rest split stable(6)
      using lbs by (simp add: write_bytes_append un' add.assoc)
  qed
qed

text \<open>
  \<open>read_data\<close> copies the bytes of the file from the offset on, as many as are asked for and
  there, and returns their number.
\<close>

lemma read_data_content:
  assumes ok: "size_ok tr m fs inode"
    and disj: "tr ` region buf (min (unat nbytes) (file_size tr m fs inode - unat offset)) \<inter>
               file_footprint tr m fs inode = {}"
  shows "read_data tr m fs inode offset buf nbytes =
     (of_nat (min (unat nbytes) (file_size tr m fs inode - unat offset)),
      write_bytes tr buf (take (unat nbytes) (drop (unat offset) (file_content tr m fs inode))) m)"
proof (cases "unat offset < file_size tr m fs inode")
  case False
  then have "offset \<ge> load32 tr m (inode_addr fs inode)" by (simp add: file_size_def word_le_nat_alt)
  then show ?thesis using False by (simp add: read_data_def)
next
  case True
  let ?fl = "load32 tr m (inode_addr fs inode)"
  have "unat (?fl + 4095) = unat ?fl + 4095"
    using ok by (subst unat_add_lem[THEN iffD1]) (simp_all add: size_ok_def file_size_def)
  then have blocks: "unat ((?fl + 4095) div 4096) = (file_size tr m fs inode + 4095) div 4096"
    by (simp add: file_size_def unat_div)
  have pos: "unat offset = unat (offset div 4096) * 4096 + unat (offset mod 4096)"
    "unat (offset mod 4096) < 4096"
    by (simp_all add: unat_div unat_mod)
  have "\<not> offset \<ge> ?fl" using True by (simp add: file_size_def word_le_nat_alt)
  then show ?thesis
    using read_data_loop_content[OF pos refl ok blocks True refl disj, of 0]
    by (simp add: read_data_def)
qed

section \<open>Properties\<close>

text \<open>A small image at address 0: one file named \<open>a\<close>, inode 0, the four bytes
  that open an executable.\<close>

definition tiny_image :: mem where
  "tiny_image a =
     (if a = 4 then 1 else if a = 64 then 97 else if a = 96 then 2 else if a = 4096 then 4
      else if a = 8192 then 127 else if a = 8193 then 69 else if a = 8194 then 76
      else if a = 8195 then 70 else 0)"

lemmas tiny_eval = tiny_image_def load32_def load8_def ptr_def inode_addr_def dentry_addr_def
  n_inodes_def file_size_def

text \<open>C19: \<open>read_data\<close> copies the bytes of the file from the offset on, at most the length
  asked for and never past the end of the file, into the buffer, whatever blocks they lie in; it
  answers how many it copied, writes nothing else and leaves the file as it was.\<close>
theorem read_data_reads_file:
  fixes offset n :: u32
  assumes "size_ok tr m fs inode" "inj_on tr (region buf (unat n))"
    and "tr ` region buf (unat n) \<inter> file_footprint tr m fs inode = {}"
  shows "case read_data tr m fs inode offset buf n of (r, m') \<Rightarrow>
    unat r = min (unat n) (file_size tr m fs inode - unat offset) \<and>
    bytes_at tr m' buf (unat r) = take (unat n) (drop (unat offset) (file_content tr m fs inode)) \<and>
    (\<forall>p. p \<notin> tr ` region buf (unat r) \<longrightarrow> m' p = m p) \<and>
    file_content tr m' fs inode = file_content tr m fs inode"
proof -
  let ?bs = "take (unat n) (drop (unat offset) (file_content tr m fs inode))"
  let ?k = "min (unat n) (file_size tr m fs inode - unat offset)"
  have len: "length ?bs = ?k" by simp
  have sub: "region buf ?k \<subseteq> region buf (unat n)" by (rule region_mono) simp
  have disj: "tr ` region buf ?k \<inter> file_footprint tr m fs inode = {}"
    using assms(3) sub by blast
  have small: "?k < 2 ^ 32" using unat_lt32[of n] by linarith
  have inj: "inj_on tr (region buf (length ?bs))"
    unfolding len by (rule inj_on_subset[OF assms(2) sub])
  have "bytes_at tr (write_bytes tr buf ?bs m) buf (length ?bs) = ?bs"
    by (rule bytes_at_write_bytes[OF inj]) (use small len in simp)
  then have "bytes_at tr (write_bytes tr buf ?bs m) buf ?k = ?bs" unfolding len .
  moreover have "file_content tr (write_bytes tr buf ?bs m) fs inode = file_content tr m fs inode"
    by (rule footprint_stable(6)) (simp only: len disj)
  moreover have "write_bytes tr buf ?bs m p = m p" if "p \<notin> tr ` region buf ?k" for p
    using write_bytes_other[of p tr buf ?bs m] that unfolding len by simp
  ultimately show ?thesis
    by (simp add: read_data_content[OF assms(1) disj] unat_of_nat32[OF small])
qed

lemma region_upt: "region a n = set (map (\<lambda>i. a + of_nat i) [0..<n])"
  by (auto simp: region_def)

lemma tiny_content: "file_content (\<lambda>a. a) tiny_image 0 0 = [127, 69, 76, 70]"
  by (simp add: file_content_def byte_addr_def data_block_addr_def tiny_eval upt_rec)

lemma tiny_footprint:
  "file_footprint (\<lambda>a. a) tiny_image 0 0 = {4, 5, 6, 7, 4096, 4097, 4098, 4099, 4100, 4101, 4102, 4103, 8192, 8193, 8194, 8195}"
proof -
  have r4: "region a 4 = {a, a + 1, a + 2, a + 3}" for a
    by (simp add: region_upt upt_rec)
  have sz: "file_size (\<lambda>a. a) tiny_image 0 0 = 4" by (simp add: tiny_eval)
  have ps: "{..<4 :: nat} = {0, 1, 2, 3}" by auto
  show ?thesis unfolding file_footprint_def sz ps
    by (simp add: r4 byte_addr_def data_block_addr_def tiny_eval) auto
qed

lemma read_data_reads_file_witness:
  "case read_data (\<lambda>a. a) tiny_image 0 0 1 0x5000 9 of (r, m') \<Rightarrow>
     unat r = 3 \<and> bytes_at (\<lambda>a. a) m' 0x5000 (unat r) = [69, 76, 70]"
proof -
  have "(\<lambda>a. a) ` region 0x5000 9 \<inter> file_footprint (\<lambda>a. a) tiny_image 0 0 = {}"
    by (simp add: tiny_footprint region_upt upt_rec)
  moreover have "size_ok (\<lambda>a. a) tiny_image 0 0" by (simp add: size_ok_def tiny_eval)
  moreover have "file_size (\<lambda>a. a) tiny_image 0 0 = 4" by (simp add: tiny_eval)
  moreover obtain r m' where "read_data (\<lambda>a. a) tiny_image 0 0 1 0x5000 9 = (r, m')" by fastforce
  ultimately show ?thesis
    using read_data_reads_file[of "\<lambda>a. a" tiny_image 0 0 "0x5000" 9 1] by (auto simp: tiny_content)
qed

text \<open>C20: looking a name up finds the first of the 63 entries whose name, cut at 32
  characters, is the name asked for, and returns that entry's type and inode; when there is none
  it answers -1 and leaves the caller's entry alone.\<close>
theorem lookup_finds_first:
  assumes "is_cstr str xs" "length xs < 2 ^ 31"
  shows "\<exists>r d'. read_dentry_by_name tr m fs (Some str) d = Some (r, d') \<and>
    ((r = 0 \<and> (\<exists>i < 63. entry_name tr m fs i = take 32 xs \<and> (\<forall>j < i. entry_name tr m fs j \<noteq> take 32 xs) \<and>
        file_type d' = entry_type tr m fs i \<and> inode_num d' = entry_inode tr m fs i \<and>
        take (length (take 32 xs)) (file_name d') = take 32 xs)) \<or>
     (r = - 1 \<and> d' = d \<and> (\<forall>i < 63. entry_name tr m fs i \<noteq> take 32 xs)))"
proof (cases "find (\<lambda>i. entry_name tr m fs i = take 32 xs) [0..<63]")
  case None
  then have none: "\<forall>i < 63. entry_name tr m fs i \<noteq> take 32 xs" by (auto simp: find_None_iff)
  show ?thesis unfolding read_dentry_by_name_find[OF assms] None using none by simp
next
  case (Some i)
  then have i: "i < 63" "entry_name tr m fs i = take 32 xs" "\<forall>j < i. entry_name tr m fs j \<noteq> take 32 xs"
    by (auto simp: find_Some_iff)
  have r: "read_dentry_by_name tr m fs (Some str) d = Some (0, found_dentry tr m fs i d)"
    by (simp add: read_dentry_by_name_find[OF assms] Some)
  have n: "take (length (take 32 xs)) (file_name (found_dentry tr m fs i d)) = take 32 xs"
    by (simp add: found_dentry_def i(2) min_def)
  have f: "file_type (found_dentry tr m fs i d) = entry_type tr m fs i"
    "inode_num (found_dentry tr m fs i d) = entry_inode tr m fs i"
    by (simp_all add: found_dentry_def)
  show ?thesis using r i n f by blast
qed

lemma lookup_finds_first_witness:
  "\<exists>r d'. read_dentry_by_name (\<lambda>a. a) tiny_image 0 (Some (\<lambda>i. if i = 0 then 97 else 0))
      \<lparr>file_name = [], file_type = 0, inode_num = 9\<rparr> = Some (r, d') \<and>
     r = 0 \<and> file_type d' = 2 \<and> inode_num d' = 0"
proof -
  have str: "is_cstr (\<lambda>i. if i = 0 then 97 else 0 :: byte) [97]" by (simp add: is_cstr_def)
  have e: "entry_name (\<lambda>a. a) tiny_image 0 0 = [97]"
    by (simp add: entry_name_def cstr_def read_bytes_def upt_rec tiny_eval)
  then have "\<not> (\<forall>i < 63. entry_name (\<lambda>a. a) tiny_image 0 i \<noteq> [97])"
    by (auto intro!: exI[of _ 0])
  moreover have "entry_name (\<lambda>a. a) tiny_image 0 i = [97] \<Longrightarrow> (\<forall>j < i. entry_name (\<lambda>a. a) tiny_image 0 j \<noteq> [97]) \<Longrightarrow> i = 0" for i
    using e by (cases i) auto
  moreover have "entry_type (\<lambda>a. a) tiny_image 0 0 = 2" "entry_inode (\<lambda>a. a) tiny_image 0 0 = 0"
    by (simp_all add: entry_type_def entry_inode_def tiny_eval)
  ultimately show ?thesis
    using lookup_finds_first[OF str, of "\<lambda>a. a" tiny_image 0 "\<lparr>file_name = [], file_type = 0, inode_num = 9\<rparr>"]
    by simp metis
qed

end
