(* ===== verification/Kernel_State.thy ===== *)
theory Kernel_State
  imports Console File_System
begin

text \<open>
  The state the system calls and interrupt handlers share: process control blocks, the file
  descriptor tables inside them, the process table of \<open>interrupts/syscall_handler.h\<close>, the
  stack the processor loads on entry to the kernel, and the location of the file system.

  A PCB is an object in a typed store, found by its address; \<open>file_descriptors\<close> is a pointer
  to the descriptor array of a PCB, which is its first field, so it has the PCB's address.
  The byte memory \<open>phys\<close> does not overlap that store: the kernel's byte copies are
  modelled for buffers outside the PCBs.
\<close>

section \<open>File descriptors and process control blocks\<close>

text \<open>The four jump tables; a \<open>file_table_ptr\<close> is the address of one of them or NULL.\<close>

datatype fd_ops = directory_jumptable | file_jumptable | terminal_jumptable | rtc_jumptable

record fd =
  file_table_ptr :: "fd_ops option"
  inode :: u32
  file_pos :: u32
  flags :: u32

text \<open>
  \<open>args\<close> is the byte at each offset from the start of the array: the 128 bytes of the array,
  then what lies above the PCB.
\<close>

record pcb =
  pcb_fds :: "nat \<Rightarrow> fd"
  kernel_esp :: u32
  kernel_ebp :: u32
  pcb_pid :: int
  parent_pcb :: addr
  terminal_id :: nat
  args :: reader

record kernel_state = console_state +
  fs_img_start :: addr
  pcbs :: "addr \<Rightarrow> pcb"
  file_descriptors :: addr
  active_pids :: "nat \<Rightarrow> int"
  current_pid :: int
  terminal_pids :: "nat \<Rightarrow> int"
  tss_esp0 :: u32

definition get_pcb_pointer :: "int \<Rightarrow> addr" where
  "get_pcb_pointer pid = 0x800000 - (0x2000 * (1 + word_of_int pid))"

definition get_kernel_start_esp :: "int \<Rightarrow> u32" where
  "get_kernel_start_esp pid = 0x800000 - 0x2000 * word_of_int pid - 4"

definition fs_init :: "u32 \<Rightarrow> 'a kernel_state_scheme \<Rightarrow> 'a kernel_state_scheme" where
  "fs_init boot_dev s = s\<lparr>fs_img_start := boot_dev\<rparr>"

definition processes_init :: "'a kernel_state_scheme \<Rightarrow> 'a kernel_state_scheme" where
  "processes_init s =
     s\<lparr>active_pids := (\<lambda>i. if i < 6 then - 1 else active_pids s i),
       terminal_pids := (\<lambda>i. if i < 3 then - 1 else terminal_pids s i),
       current_pid := - 1\<rparr>"

text \<open>A loop \<open>for (i = a; i < b; i++) if (P(i)) return i; return -1\<close>.\<close>

definition first_index :: "(nat \<Rightarrow> bool) \<Rightarrow> nat \<Rightarrow> nat \<Rightarrow> int" where
  "first_index P a b = (case find P [a..<b] of None \<Rightarrow> - 1 | Some i \<Rightarrow> int i)"

definition get_free_pid :: "'a kernel_state_scheme \<Rightarrow> int" where
  "get_free_pid s = first_index (\<lambda>i. active_pids s i = - 1) 0 6"

section \<open>The descriptor table of the running process\<close>

definition cur_fd :: "'a kernel_state_scheme \<Rightarrow> nat \<Rightarrow> fd" where
  "cur_fd s i = pcb_fds (pcbs s (file_descriptors s)) i"

definition upd_pcb :: "addr \<Rightarrow> (pcb \<Rightarrow> pcb) \<Rightarrow> 'a kernel_state_scheme \<Rightarrow> 'a kernel_state_scheme" where
  "upd_pcb a f s = s\<lparr>pcbs := (pcbs s)(a := f (pcbs s a))\<rparr>"

definition upd_fd :: "nat \<Rightarrow> (fd \<Rightarrow> fd) \<Rightarrow> 'a kernel_state_scheme \<Rightarrow> 'a kernel_state_scheme" where
  "upd_fd i f = (\<lambda>s. upd_pcb (file_descriptors s)
     (\<lambda>p. p\<lparr>pcb_fds := (pcb_fds p)(i := f (pcb_fds p i))\<rparr>) s)"

text \<open>\<open>check_valid_fd\<close> returns 0 or -1; an index in range is a \<open>nat\<close>.\<close>

definition check_valid_fd :: "u32 \<Rightarrow> 'a kernel_state_scheme \<Rightarrow> u32" where
  "check_valid_fd fd s =
     (if sint fd < 0 \<or> sint fd \<ge> 8 then - 1
      else if inode (cur_fd s (nat (sint fd))) = - 1 then - 1 else 0)"

definition get_free_fd :: "'a kernel_state_scheme \<Rightarrow> int" where
  "get_free_fd s = first_index (\<lambda>i. inode (cur_fd s i) = - 1) 2 8"

section \<open>Laws\<close>

lemma first_index_Some:
  "first_index P a b = int i \<longleftrightarrow> a \<le> i \<and> i < b \<and> P i \<and> (\<forall>j. a \<le> j \<and> j < i \<longrightarrow> \<not> P j)"
proof -
  have "find P [a..<b] = Some i \<longleftrightarrow> a \<le> i \<and> i < b \<and> P i \<and> (\<forall>j. a \<le> j \<and> j < i \<longrightarrow> \<not> P j)"
  proof
    assume "find P [a..<b] = Some i"
    then obtain k where k: "k < length [a..<b]" "P ([a..<b] ! k)" "i = [a..<b] ! k"
        "\<forall>j<k. \<not> P ([a..<b] ! j)" by (auto simp: find_Some_iff)
    then have "\<not> P j" if "a \<le> j" "j < i" for j using that by (auto dest!: spec[of _ "j - a"])
    then show "a \<le> i \<and> i < b \<and> P i \<and> (\<forall>j. a \<le> j \<and> j < i \<longrightarrow> \<not> P j)" using k by auto
  next
    assume i: "a \<le> i \<and> i < b \<and> P i \<and> (\<forall>j. a \<le> j \<and> j < i \<longrightarrow> \<not> P j)"
    then show "find P [a..<b] = Some i"
      by (auto simp: find_Some_iff intro!: exI[of _ "i - a"])
  qed
  then show ?thesis by (auto simp: first_index_def split: option.splits)
qed

lemma first_index_None: "first_index P a b = - 1 \<longleftrightarrow> (\<forall>i. a \<le> i \<and> i < b \<longrightarrow> \<not> P i)"
proof (cases "find P [a..<b]")
  case None
  then have "first_index P a b = - 1" by (simp add: first_index_def)
  then show ?thesis using None by (auto simp: find_None_iff)
next
  case (Some i)
  then have "first_index P a b = int i" by (simp add: first_index_def)
  then show ?thesis using first_index_Some[of P a b i] by auto
qed

lemma first_index_cases:
  obtains "first_index P a b = - 1" "\<forall>i. a \<le> i \<and> i < b \<longrightarrow> \<not> P i"
  | i where "first_index P a b = int i" "a \<le> i" "i < b" "P i" "\<forall>j. a \<le> j \<and> j < i \<longrightarrow> \<not> P j"
proof (cases "find P [a..<b]")
  case None
  then show thesis using that(1) first_index_None[of P a b] by (simp add: first_index_def)
next
  case (Some i)
  then show thesis using that(2) first_index_Some[of P a b i] by (simp add: first_index_def)
qed

end
