(* ===== verification/Devices.thy ===== *)
theory Devices
  imports Kernel_State
begin

text \<open>
  The operations behind the jump tables of \<open>fs.c\<close>: directories, regular files, the RTC
  (\<open>rtc_open\<close>, \<open>rtc_read\<close>, \<open>rtc_write\<close>, \<open>rtc_close\<close> of \<open>interrupts/rtc.c\<close>) and the
  trivial \<open>terminal_open\<close>, \<open>terminal_close\<close> of \<open>interrupts/keyboard.c\<close>. A local
  \<open>dentry_t\<close> starts with arbitrary stack bytes, the argument \<open>d\<close>. A function whose result
  is an option returns \<open>None\<close> where the C code does not return.
\<close>

section \<open>Operations\<close>

definition open_fd :: "fd_ops \<Rightarrow> u32 \<Rightarrow> u32 \<Rightarrow> u32 \<Rightarrow> 'a kernel_state_scheme \<Rightarrow> u32 \<times> 'a kernel_state_scheme" where
  "open_fd ops ino pos flgs s =
     (let fd = get_free_fd s
      in if fd = - 1 then (- 1, s)
         else (word_of_int fd, upd_fd (nat fd)
                 (\<lambda>_. \<lparr>file_table_ptr = Some ops, inode = ino, file_pos = pos, flags = flgs\<rparr>) s))"

definition directory_open ::
  "reader option \<Rightarrow> dentry \<Rightarrow> 'a kernel_state_scheme \<Rightarrow> (u32 \<times> 'a kernel_state_scheme) option" where
  "directory_open filename d s =
     (case read_dentry_by_name (xlate s) (phys s) (fs_img_start s) filename d of
        None \<Rightarrow> None
      | Some (r, dentry) \<Rightarrow> Some
         (if r = - 1 then (- 1, s)
          else if file_type dentry \<noteq> 1 then (- 1, s)
          else open_fd directory_jumptable (inode_num dentry) 0 0 s))"

definition directory_close :: "u32 \<Rightarrow> 'a kernel_state_scheme \<Rightarrow> u32 \<times> 'a kernel_state_scheme" where
  "directory_close fd s =
     (if check_valid_fd fd s = - 1 then (- 1, s)
      else (0, upd_fd (nat (sint fd)) (\<lambda>f. f\<lparr>inode := - 1\<rparr>) s))"

definition directory_write :: "u32 \<Rightarrow> addr \<Rightarrow> u32 \<Rightarrow> 'a kernel_state_scheme \<Rightarrow> u32 \<times> 'a kernel_state_scheme" where
  "directory_write fd buf nbytes s = (- 1, s)"

text \<open>The bytes of a local \<open>dentry_t\<close>: name, type, inode, then what the stack holds.\<close>

definition dentry_reader :: "dentry \<Rightarrow> reader \<Rightarrow> reader" where
  "dentry_reader d stk i =
     (let bs = file_name d @ word_bytes (file_type d) @ word_bytes (inode_num d)
      in if unat i < length bs then bs ! unat i else stk i)"

text \<open>The number of bytes to copy: \<open>nbytes\<close>, cut to 32 and to the length of the name.\<close>

definition directory_ss_len :: "u32 \<Rightarrow> u32 \<Rightarrow> u32" where
  "directory_ss_len nbytes str_len =
     (let ss_len = (if sint nbytes > 32 then 32 else nbytes)
      in if sint ss_len > sint str_len then str_len else ss_len)"

definition directory_read ::
  "u32 \<Rightarrow> addr \<Rightarrow> u32 \<Rightarrow> dentry \<Rightarrow> reader \<Rightarrow> 'a kernel_state_scheme \<Rightarrow> (u32 \<times> 'a kernel_state_scheme) option" where
  "directory_read fd buf nbytes d stk s =
     (if check_valid_fd fd s = - 1 then Some (- 1, s)
      else let k = nat (sint fd);
               (r, dentry) = read_dentry_by_index (xlate s) (phys s) (fs_img_start s) (file_pos (cur_fd s k)) d
           in if r = - 1 then Some (- 1, s)
              else if buf = 0 \<and> nbytes \<noteq> 0 then Some (- 1, s)
              else if sint nbytes < 0 then Some (- 1, s)
              else case strlen (dentry_reader dentry stk) of
                 None \<Rightarrow> None
               | Some str_len \<Rightarrow>
                   (let ss_len = directory_ss_len nbytes str_len;
                        m = (if ss_len \<noteq> 0
                             then write_bytes (xlate s) buf (take (unat ss_len) (file_name dentry)) (phys s)
                             else phys s)
                    in Some (ss_len, upd_fd k (\<lambda>f. f\<lparr>file_pos := file_pos f + 1\<rparr>) (s\<lparr>phys := m\<rparr>))))"

definition file_open ::
  "reader option \<Rightarrow> dentry \<Rightarrow> 'a kernel_state_scheme \<Rightarrow> (u32 \<times> 'a kernel_state_scheme) option" where
  "file_open filename d s =
     (case read_dentry_by_name (xlate s) (phys s) (fs_img_start s) filename d of
        None \<Rightarrow> None
      | Some (r, dentry) \<Rightarrow> Some
         (if r = - 1 then (- 1, s)
          else if file_type dentry \<noteq> 2 then (- 1, s)
          else open_fd file_jumptable (inode_num dentry) 0 0 s))"

definition file_close :: "u32 \<Rightarrow> 'a kernel_state_scheme \<Rightarrow> u32 \<times> 'a kernel_state_scheme" where
  "file_close fd s =
     (if check_valid_fd fd s = - 1 then (- 1, s)
      else (0, upd_fd (nat (sint fd)) (\<lambda>f. f\<lparr>inode := - 1\<rparr>) s))"

definition file_read :: "u32 \<Rightarrow> addr \<Rightarrow> u32 \<Rightarrow> 'a kernel_state_scheme \<Rightarrow> u32 \<times> 'a kernel_state_scheme" where
  "file_read fd buf nbytes s =
     (if check_valid_fd fd s = - 1 then (- 1, s)
      else if buf = 0 then (- 1, s)
      else if sint nbytes \<le> 0 then (- 1, s)
      else let k = nat (sint fd);
               (bytes_read, m) = read_data (xlate s) (phys s) (fs_img_start s)
                  (inode (cur_fd s k)) (file_pos (cur_fd s k)) buf nbytes
           in (bytes_read, upd_fd k (\<lambda>f. f\<lparr>file_pos := file_pos f + bytes_read\<rparr>) (s\<lparr>phys := m\<rparr>)))"

definition file_write :: "u32 \<Rightarrow> addr \<Rightarrow> u32 \<Rightarrow> 'a kernel_state_scheme \<Rightarrow> u32 \<times> 'a kernel_state_scheme" where
  "file_write fd buf nbytes s = (- 1, s)"

definition rtc_open :: "'a kernel_state_scheme \<Rightarrow> u32 \<times> 'a kernel_state_scheme" where
  "rtc_open s = open_fd rtc_jumptable 0 512 512 s"

definition rtc_close :: "u32 \<Rightarrow> 'a kernel_state_scheme \<Rightarrow> u32 \<times> 'a kernel_state_scheme" where
  "rtc_close fd s =
     (if check_valid_fd fd s = - 1 then (- 1, s)
      else (0, upd_fd (nat (sint fd)) (\<lambda>f. \<lparr>file_table_ptr = None, inode = - 1, file_pos = 0, flags = 0\<rparr>) s))"

definition rtc_write :: "u32 \<Rightarrow> addr \<Rightarrow> u32 \<Rightarrow> 'a kernel_state_scheme \<Rightarrow> u32 \<times> 'a kernel_state_scheme" where
  "rtc_write fd buf nbytes s =
     (if nbytes \<noteq> 4 \<or> buf = 0 then (- 1, s)
      else let freq = load32 (xlate s) (phys s) buf
           in if freq AND (freq - 1) \<noteq> 0 \<or> freq < 2 \<or> freq > 1024 then (- 1, s)
              else (nbytes, upd_fd (nat (sint fd))
                      (\<lambda>f. f\<lparr>file_pos := 1024 div freq, flags := 1024 div freq\<rparr>) s))"

text \<open>
  Busy waiting: between two evaluations of the condition the rest of the system acts, one
  element of the list per round. \<open>None\<close>: still spinning when the list is used up.
\<close>

fun spin_while :: "('s \<Rightarrow> bool) \<Rightarrow> ('s \<Rightarrow> 's) list \<Rightarrow> 's \<Rightarrow> ('s \<times> ('s \<Rightarrow> 's) list) option" where
  "spin_while P envs s =
     (if P s then (case envs of [] \<Rightarrow> None | e # es \<Rightarrow> spin_while P es (e s)) else Some (s, envs))"

declare spin_while.simps [simp del]

definition rtc_read ::
  "u32 \<Rightarrow> ('a kernel_state_scheme \<Rightarrow> 'a kernel_state_scheme) list \<Rightarrow> 'a kernel_state_scheme
   \<Rightarrow> (u32 \<times> 'a kernel_state_scheme) option" where
  "rtc_read fd envs s =
     (let k = nat (sint fd)
      in case spin_while (\<lambda>t. file_pos (cur_fd t k) \<noteq> 0) envs (upd_fd k (\<lambda>f. f\<lparr>file_pos := flags f\<rparr>) s) of
           None \<Rightarrow> None | Some (t, _) \<Rightarrow> Some (0, t))"

definition terminal_open :: "'a kernel_state_scheme \<Rightarrow> u32 \<times> 'a kernel_state_scheme" where
  "terminal_open s = (- 1, s)"

definition terminal_close :: "u32 \<Rightarrow> 'a kernel_state_scheme \<Rightarrow> u32 \<times> 'a kernel_state_scheme" where
  "terminal_close fd s = (- 1, s)"

text \<open>The \<open>close\<close> column of the jump tables.\<close>

fun close_op :: "fd_ops \<Rightarrow> u32 \<Rightarrow> 'a kernel_state_scheme \<Rightarrow> u32 \<times> 'a kernel_state_scheme" where
  "close_op directory_jumptable fd s = directory_close fd s"
| "close_op file_jumptable fd s = file_close fd s"
| "close_op terminal_jumptable fd s = terminal_close fd s"
| "close_op rtc_jumptable fd s = rtc_close fd s"

section \<open>The descriptor table under updates\<close>

lemma xlate_kernel_upd [simp]:
  "xlate (s\<lparr>fs_img_start := v1\<rparr>) = xlate s" "xlate (s\<lparr>pcbs := v2\<rparr>) = xlate s"
  "xlate (s\<lparr>file_descriptors := v3\<rparr>) = xlate s" "xlate (s\<lparr>active_pids := v4\<rparr>) = xlate s"
  "xlate (s\<lparr>current_pid := v5\<rparr>) = xlate s" "xlate (s\<lparr>terminal_pids := v6\<rparr>) = xlate s"
  "xlate (s\<lparr>tss_esp0 := v7\<rparr>) = xlate s"
  by (simp_all add: fun_eq_iff xlate_def translate_def walk_def Let_def)

lemma upd_fd_simps [simp]:
  "phys (upd_fd i f s) = phys s" "xlate (upd_fd i f s) = xlate s"
  "fs_img_start (upd_fd i f s) = fs_img_start s" "file_descriptors (upd_fd i f s) = file_descriptors s"
  "active_pids (upd_fd i f s) = active_pids s" "current_pid (upd_fd i f s) = current_pid s"
  "terminal_pids (upd_fd i f s) = terminal_pids s" "tss_esp0 (upd_fd i f s) = tss_esp0 s"
  by (simp_all add: upd_fd_def upd_pcb_def)

lemma cur_fd_upd [simp]: "cur_fd (upd_fd i f s) j = (if j = i then f (cur_fd s i) else cur_fd s j)"
  by (simp add: cur_fd_def upd_fd_def upd_pcb_def)

lemma cur_fd_phys [simp]: "cur_fd (s\<lparr>phys := m\<rparr>) = cur_fd s"
  by (simp add: cur_fd_def fun_eq_iff)

text \<open>The descriptors in use.\<close>

definition in_use :: "'a kernel_state_scheme \<Rightarrow> nat set" where
  "in_use s = {i. i < 8 \<and> inode (cur_fd s i) \<noteq> - 1}"

lemma sint_small: "i < 8 \<Longrightarrow> sint (of_nat i :: u32) = int i"
  by (rule sint_of_nat32) simp

lemma check_valid_fd_in_use:
  "check_valid_fd fd s = (if \<exists>i \<in> in_use s. fd = of_nat i then 0 else - 1)"
proof (cases "0 \<le> sint fd \<and> sint fd < 8")
  case True
  define i where "i = nat (sint fd)"
  have i: "i < 8" "sint fd = int i" using True by (simp_all add: i_def nat_less_iff)
  have "fd = of_int (sint fd)" by simp
  then have fd: "fd = of_nat i" by (simp only: i(2) of_int_of_nat_eq)
  have "(\<exists>j \<in> in_use s. fd = of_nat j) \<longleftrightarrow> i \<in> in_use s"
  proof
    assume "\<exists>j \<in> in_use s. fd = of_nat j"
    then obtain j where j: "j \<in> in_use s" "fd = of_nat j" ..
    then have "j < 8" by (simp add: in_use_def)
    then have "sint fd = int j" unfolding j(2) by (rule sint_small)
    then show "i \<in> in_use s" using j i by simp
  qed (use fd in blast)
  then show ?thesis using i by (simp add: check_valid_fd_def in_use_def)
next
  case False
  have "\<not> (\<exists>j \<in> in_use s. fd = of_nat j)"
  proof
    assume "\<exists>j \<in> in_use s. fd = of_nat j"
    then obtain j where "j < 8" "fd = of_nat j" by (auto simp: in_use_def)
    then show False using False sint_small[of j] by simp
  qed
  then show ?thesis using False by (auto simp: check_valid_fd_def)
qed

lemma check_valid_fd_iff: "check_valid_fd fd s = - 1 \<longleftrightarrow> \<not> (\<exists>i \<in> in_use s. fd = of_nat i)"
  by (simp add: check_valid_fd_in_use)

lemma check_valid_fd_cong: "in_use s = in_use t \<Longrightarrow> check_valid_fd fd s = check_valid_fd fd t"
  by (simp add: check_valid_fd_in_use)


section \<open>The driver contract\<close>

text \<open>
  What every driver behind a jump table promises the system call layer about the descriptor
  table: an open that succeeds takes the lowest free descriptor and no other, one that fails
  changes nothing, and a close frees exactly the descriptor it is given.
\<close>

locale fd_driver =
  fixes open_op :: "'s \<Rightarrow> (u32 \<times> 's) option"
    and close_fn :: "u32 \<Rightarrow> 's \<Rightarrow> u32 \<times> 's"
    and used :: "'s \<Rightarrow> nat set"
    and ok :: "'s \<Rightarrow> bool"
  assumes open_result: "ok s \<Longrightarrow> open_op s = Some (r, s') \<Longrightarrow>
      r = - 1 \<and> s' = s \<or>
      (\<exists>i. 2 \<le> i \<and> i < 8 \<and> i \<notin> used s \<and> (\<forall>j. 2 \<le> j \<and> j < i \<longrightarrow> j \<in> used s) \<and>
           r = of_nat i \<and> used s' = insert i (used s))"
    and open_ok: "ok s \<Longrightarrow> open_op s = Some (r, s') \<Longrightarrow> ok s'"
    and close_used: "ok s \<Longrightarrow> i \<in> used s \<Longrightarrow>
      \<exists>s'. close_fn (of_nat i) s = (0, s') \<and> used s' = used s - {i} \<and> ok s'"
    and close_unused: "\<not> (\<exists>i \<in> used s. fd = of_nat i) \<Longrightarrow> close_fn fd s = (- 1, s)"
    and used_bound: "i \<in> used s \<Longrightarrow> i < 8"
begin

lemma minus_one_no_fd: "i < 8 \<Longrightarrow> (of_nat i :: u32) \<noteq> - 1"
proof
  assume "i < 8" "(of_nat i :: u32) = - 1"
  then have "sint (of_nat i :: u32) = - 1" by simp
  moreover have "sint (of_nat i :: u32) = int i" using \<open>i < 8\<close> by (intro sint_of_nat32) simp
  ultimately show False by simp
qed

text \<open>Opening and closing again gives the table back.\<close>

lemma open_close:
  assumes "ok s" "open_op s = Some (r, s')" "r \<noteq> - 1"
  shows "\<exists>s''. close_fn r s' = (0, s'') \<and> used s'' = used s \<and> ok s''"
proof -
  obtain i where i: "i \<notin> used s" "r = of_nat i" "used s' = insert i (used s)"
    using open_result[OF assms(1,2)] assms(3) by blast
  then obtain s'' where "close_fn (of_nat i) s' = (0, s'')" "used s'' = used s' - {i}" "ok s''"
    using close_used[OF open_ok[OF assms(1,2)], of i] by blast
  then show ?thesis using i by auto
qed

text \<open>The descriptor just closed is the one the next successful open returns.\<close>

lemma reopen_same:
  assumes "ok s" "open_op s = Some (r, s')" "r \<noteq> - 1" "close_fn r s' = (0, s'')"
    and "open_op s'' = Some (r', t)" "r' \<noteq> - 1"
  shows "r' = r"
proof -
  have cl: "used s'' = used s" "ok s''" using open_close[OF assms(1-3)] assms(4) by auto
  obtain i where i: "2 \<le> i" "i \<notin> used s" "\<forall>j. 2 \<le> j \<and> j < i \<longrightarrow> j \<in> used s" "r = of_nat i"
    using open_result[OF assms(1,2)] assms(3) by blast
  obtain j where j: "2 \<le> j" "j \<notin> used s''" "\<forall>k. 2 \<le> k \<and> k < j \<longrightarrow> k \<in> used s''" "r' = of_nat j"
    using open_result[OF cl(2) assms(5)] assms(6) by blast
  have "i = j" using i(1-3) j(1-3) cl(1) by (metis linorder_neqE_nat)
  then show ?thesis using i(4) j(4) by simp
qed

text \<open>No more than six descriptors: each open that succeeds uses up one of 2 to 7.\<close>

fun open_many :: "nat \<Rightarrow> 's \<Rightarrow> (u32 list \<times> 's) option" where
  "open_many 0 s = Some ([], s)"
| "open_many (Suc n) s =
     (case open_op s of None \<Rightarrow> None
      | Some (r, s') \<Rightarrow> (case open_many n s' of None \<Rightarrow> None | Some (rs, t) \<Rightarrow> Some (r # rs, t)))"

lemma open_many_card:
  assumes "ok s" "open_many n s = Some (rs, t)"
  shows "length (filter (\<lambda>r. r \<noteq> - 1) rs) + card (used s \<inter> {2..<8}) = card (used t \<inter> {2..<8})"
  using assms
proof (induction n arbitrary: s rs)
  case (Suc n)
  then obtain r s' rs' where o: "open_op s = Some (r, s')" "open_many n s' = Some (rs', t)" "rs = r # rs'"
    by (auto split: option.splits)
  note IH = Suc.IH[OF open_ok[OF Suc.prems(1) o(1)] o(2)]
  from open_result[OF Suc.prems(1) o(1)] show ?case
  proof
    assume "r = - 1 \<and> s' = s"
    then show ?case using IH o(3) by simp
  next
    assume "\<exists>i. 2 \<le> i \<and> i < 8 \<and> i \<notin> used s \<and> (\<forall>j. 2 \<le> j \<and> j < i \<longrightarrow> j \<in> used s) \<and>
           r = of_nat i \<and> used s' = insert i (used s)"
    then obtain i where i: "2 \<le> i" "i < 8" "i \<notin> used s" "r = of_nat i" "used s' = insert i (used s)"
      by blast
    then have "used s' \<inter> {2..<8} = insert i (used s \<inter> {2..<8})" by auto
    then have "card (used s' \<inter> {2..<8}) = Suc (card (used s \<inter> {2..<8}))" using i(3) by simp
    moreover have "r \<noteq> - 1" using minus_one_no_fd[OF i(2)] i(4) by simp
    ultimately show ?case using IH o(3) by simp
  qed
qed simp

lemma open_many_at_most_six:
  assumes "ok s" "open_many n s = Some (rs, t)"
  shows "length (filter (\<lambda>r. r \<noteq> - 1) rs) \<le> 6"
proof -
  have "card (used t \<inter> {2..<8}) \<le> card {2..<8 :: nat}" by (intro card_mono) auto
  then show ?thesis using open_many_card[OF assms] by simp
qed

end

lemma open_fd_used:
  assumes "ino \<noteq> - 1" "open_fd ops ino pos flgs s = (r, s')"
  shows "r = - 1 \<and> s' = s \<or>
      (\<exists>i. 2 \<le> i \<and> i < 8 \<and> i \<notin> in_use s \<and> (\<forall>j. 2 \<le> j \<and> j < i \<longrightarrow> j \<in> in_use s) \<and>
           r = of_nat i \<and> in_use s' = insert i (in_use s))"
proof (cases rule: first_index_cases[of "\<lambda>i. inode (cur_fd s i) = - 1" 2 8])
  case 1
  then show ?thesis using assms by (simp add: open_fd_def get_free_fd_def)
next
  case (2 i)
  then have f: "get_free_fd s = int i" by (simp add: get_free_fd_def)
  have s': "r = of_nat i" "in_use s' = insert i (in_use s)"
    using assms 2 f by (auto simp: open_fd_def Let_def in_use_def split: if_splits)
  then show ?thesis using 2 by (intro disjI2 exI[of _ i]) (auto simp: in_use_def)
qed

lemma open_fd_img:
  "open_fd ops ino pos flgs s = (r, s') \<Longrightarrow>
   xlate s' = xlate s \<and> phys s' = phys s \<and> fs_img_start s' = fs_img_start s"
  by (auto simp: open_fd_def Let_def split: if_splits)

text \<open>No entry of the image has the reserved inode number.\<close>

definition image_ok :: "'a kernel_state_scheme \<Rightarrow> bool" where
  "image_ok s \<longleftrightarrow> (\<forall>i < 63. entry_inode (xlate s) (phys s) (fs_img_start s) i \<noteq> - 1)"

lemma image_ok_cong:
  "xlate s' = xlate s \<and> phys s' = phys s \<and> fs_img_start s' = fs_img_start s \<Longrightarrow> image_ok s' = image_ok s"
  by (simp add: image_ok_def)

lemma directory_open_img:
  "directory_open f d s = Some (r, s') \<Longrightarrow>
   xlate s' = xlate s \<and> phys s' = phys s \<and> fs_img_start s' = fs_img_start s"
  unfolding directory_open_def by (drule sym) (auto split: option.splits prod.splits if_splits dest!: open_fd_img[OF sym])

lemma file_open_img:
  "file_open f d s = Some (r, s') \<Longrightarrow>
   xlate s' = xlate s \<and> phys s' = phys s \<and> fs_img_start s' = fs_img_start s"
  unfolding file_open_def by (drule sym) (auto split: option.splits prod.splits if_splits dest!: open_fd_img[OF sym])

lemma find_dentry_inode:
  assumes "find_dentry tr m fs fname n is d = (r, d')" "r \<noteq> - 1"
  shows "\<exists>i \<in> set is. inode_num d' = entry_inode tr m fs i"
  using assms
  by (induction tr m fs fname n "is" d rule: find_dentry.induct)
     (auto simp: Let_def entry_inode_def split: if_splits)

lemma read_dentry_inode:
  assumes "image_ok s" "read_dentry_by_name (xlate s) (phys s) (fs_img_start s) f d = Some (r, d')" "r \<noteq> - 1"
  shows "inode_num d' \<noteq> - 1"
proof -
  obtain i where "i \<in> set [0..<63]" "inode_num d' = entry_inode (xlate s) (phys s) (fs_img_start s) i"
    using assms(2,3) find_dentry_inode
    by (fastforce simp: read_dentry_by_name_def simp del: upt_rec_numeral set_upt split: option.splits)
  then show ?thesis using assms(1) by (auto simp: image_ok_def)
qed

lemma close_inode_used:
  assumes "i \<in> in_use s" "\<And>f. inode (g f) = - 1"
  shows "in_use (upd_fd (nat (sint (of_nat i :: u32))) g s) = in_use s - {i}"
  using assms sint_small[of i] by (auto simp: in_use_def)

interpretation directory_fd: fd_driver "directory_open filename d" directory_close in_use image_ok
proof (unfold_locales, goal_cases)
  case (1 s r s')
  then obtain q dd where d: "read_dentry_by_name (xlate s) (phys s) (fs_img_start s) filename d = Some (q, dd)"
    by (auto simp: directory_open_def split: option.splits)
  consider (no) "r = - 1" "s' = s" | (fd) "q \<noteq> - 1" "open_fd directory_jumptable (inode_num dd) 0 0 s = (r, s')"
  proof (cases "q \<noteq> - 1 \<and> file_type dd = 1")
    case True
    have "open_fd directory_jumptable (inode_num dd) 0 0 s = (r, s')"
      using 1(2) True unfolding directory_open_def d by simp
    then show thesis using fd True by blast
  next
    case False
    have "r = - 1 \<and> s' = s" using 1(2) False unfolding directory_open_def d by (simp split: if_splits)
    then show thesis using no by blast
  qed
  then show ?case
  proof cases
    case fd
    show ?thesis by (rule open_fd_used[OF read_dentry_inode[OF 1(1) d fd(1)] fd(2)])
  qed simp
next
  case (2 s r s')
  then show ?case using image_ok_cong[OF directory_open_img] by blast
next
  case (3 s i)
  then have "check_valid_fd (of_nat i) s \<noteq> - 1" by (auto simp: check_valid_fd_iff)
  then show ?case using 3 close_inode_used[OF 3(2), of "\<lambda>f. f\<lparr>inode := - 1\<rparr>"]
    by (simp add: directory_close_def image_ok_def)
next
  case (4 s fd)
  then show ?case by (simp add: directory_close_def check_valid_fd_iff)
next
  case (5 i s)
  then show ?case by (simp add: in_use_def)
qed

interpretation file_fd: fd_driver "file_open filename d" file_close in_use image_ok
proof (unfold_locales, goal_cases)
  case (1 s r s')
  then obtain q dd where d: "read_dentry_by_name (xlate s) (phys s) (fs_img_start s) filename d = Some (q, dd)"
    by (auto simp: file_open_def split: option.splits)
  consider (no) "r = - 1" "s' = s" | (fd) "q \<noteq> - 1" "open_fd file_jumptable (inode_num dd) 0 0 s = (r, s')"
  proof (cases "q \<noteq> - 1 \<and> file_type dd = 2")
    case True
    have "open_fd file_jumptable (inode_num dd) 0 0 s = (r, s')"
      using 1(2) True unfolding file_open_def d by simp
    then show thesis using fd True by blast
  next
    case False
    have "r = - 1 \<and> s' = s" using 1(2) False unfolding file_open_def d by (simp split: if_splits)
    then show thesis using no by blast
  qed
  then show ?case
  proof cases
    case fd
    show ?thesis by (rule open_fd_used[OF read_dentry_inode[OF 1(1) d fd(1)] fd(2)])
  qed simp
next
  case (2 s r s')
  then show ?case using image_ok_cong[OF file_open_img] by blast
next
  case (3 s i)
  then have "check_valid_fd (of_nat i) s \<noteq> - 1" by (auto simp: check_valid_fd_iff)
  then show ?case using 3 close_inode_used[OF 3(2), of "\<lambda>f. f\<lparr>inode := - 1\<rparr>"]
    by (simp add: file_close_def image_ok_def)
next
  case (4 s fd)
  then show ?case by (simp add: file_close_def check_valid_fd_iff)
next
  case (5 i s)
  then show ?case by (simp add: in_use_def)
qed

interpretation rtc_fd: fd_driver "\<lambda>s. Some (rtc_open s)" rtc_close in_use "\<lambda>s. True"
proof (unfold_locales, goal_cases)
  case (1 s r s')
  then show ?case using open_fd_used[of 0 rtc_jumptable 512 512 s] by (simp add: rtc_open_def)
next
  case (3 s i)
  then have "check_valid_fd (of_nat i) s \<noteq> - 1" by (auto simp: check_valid_fd_iff)
  then show ?case
    using 3 close_inode_used[OF 3(2), of "\<lambda>f. \<lparr>file_table_ptr = None, inode = - 1, file_pos = 0, flags = 0\<rparr>"]
    by (simp add: rtc_close_def)
next
  case (4 s fd)
  then show ?case by (simp add: rtc_close_def check_valid_fd_iff)
next
  case (5 i s)
  then show ?case by (simp add: in_use_def)
qed simp


section \<open>Reading a file piece by piece\<close>

abbreviation cur_file :: "'a kernel_state_scheme \<Rightarrow> nat \<Rightarrow> byte list" where
  "cur_file s k \<equiv> file_content (xlate s) (phys s) (fs_img_start s) (inode (cur_fd s k))"

abbreviation cur_footprint :: "'a kernel_state_scheme \<Rightarrow> nat \<Rightarrow> addr set" where
  "cur_footprint s k \<equiv> file_footprint (xlate s) (phys s) (fs_img_start s) (inode (cur_fd s k))"

text \<open>A descriptor open for reading into a buffer outside the file.\<close>

definition readable :: "'a kernel_state_scheme \<Rightarrow> nat \<Rightarrow> addr \<Rightarrow> nat \<Rightarrow> bool" where
  "readable s k buf n \<longleftrightarrow>
     k \<in> in_use s \<and> buf \<noteq> 0 \<and> inj_on (xlate s) (region buf n) \<and> n < 2 ^ 31 \<and>
     size_ok (xlate s) (phys s) (fs_img_start s) (inode (cur_fd s k)) \<and>
     xlate s ` region buf n \<inter> cur_footprint s k = {}"

lemma file_read_result:
  assumes r: "readable s k buf N" and n: "0 < n" "n \<le> N"
  defines "bs \<equiv> take n (drop (unat (file_pos (cur_fd s k))) (cur_file s k))"
  shows "file_read (of_nat k) buf (of_nat n) s =
     (of_nat (length bs), upd_fd k (\<lambda>f. f\<lparr>file_pos := file_pos f + of_nat (length bs)\<rparr>)
        (s\<lparr>phys := write_bytes (xlate s) buf bs (phys s)\<rparr>))"
proof -
  let ?f = "cur_fd s k"
  have k: "k \<in> in_use s" "k < 8" using r by (auto simp: readable_def in_use_def)
  have valid: "check_valid_fd (of_nat k) s = 0" using k by (auto simp: check_valid_fd_in_use)
  have N: "N < 2 ^ 31" using r by (simp add: readable_def)
  have un: "unat (of_nat n :: u32) = n" by (rule unat_of_nat32) (use n N in simp)
  have sn: "sint (of_nat n :: u32) = int n" by (rule sint_of_nat32) (use n N in simp)
  have "region buf (min n (length (cur_file s k) - unat (file_pos ?f))) \<subseteq> region buf N"
    using n by (intro region_mono) simp
  then have disj: "xlate s ` region buf (min (unat (of_nat n :: u32))
      (file_size (xlate s) (phys s) (fs_img_start s) (inode ?f) - unat (file_pos ?f))) \<inter> cur_footprint s k = {}"
    using r unfolding un readable_def length_file_content by blast
  have ok: "size_ok (xlate s) (phys s) (fs_img_start s) (inode ?f)" using r by (simp add: readable_def)
  have len: "length bs = min n (file_size (xlate s) (phys s) (fs_img_start s) (inode ?f) - unat (file_pos ?f))"
    by (simp add: bs_def min.commute)
  have rd: "read_data (xlate s) (phys s) (fs_img_start s) (inode ?f) (file_pos ?f) buf (of_nat n) =
      (of_nat (length bs), write_bytes (xlate s) buf bs (phys s))"
    using read_data_content[OF ok disj] unfolding un len[symmetric] bs_def .
  have b: "buf \<noteq> 0" using r by (simp add: readable_def)
  show ?thesis
    using valid sn n(1) b rd sint_small[OF k(2)] unfolding file_read_def Let_def
    by (simp add: file_read_def)
qed

text \<open>A process that reads with one call after the other, and what its buffer held each time.\<close>

fun read_pieces :: "nat \<Rightarrow> addr \<Rightarrow> nat list \<Rightarrow> 'a kernel_state_scheme \<Rightarrow> byte list \<times> 'a kernel_state_scheme" where
  "read_pieces k buf [] s = ([], s)"
| "read_pieces k buf (n # ns) s =
     (let (r, s1) = file_read (of_nat k) buf (of_nat n) s;
          (out, s2) = read_pieces k buf ns s1
      in (bytes_at (xlate s1) (phys s1) buf (unat r) @ out, s2))"

lemma readable_step:
  fixes s :: "'a kernel_state_scheme" and p :: u32
  assumes r: "readable s k buf N" and bs: "length bs \<le> N"
  defines "s' \<equiv> upd_fd k (\<lambda>f. f\<lparr>file_pos := p\<rparr>) (s\<lparr>phys := write_bytes (xlate s) buf bs (phys s)\<rparr>)"
  shows "readable s' k buf N" "cur_file s' k = cur_file s k"
    "bytes_at (xlate s') (phys s') buf (length bs) = bs"
proof -
  have "region buf (length bs) \<subseteq> region buf N" by (rule region_mono[OF bs])
  then have disj: "xlate s ` region buf (length bs) \<inter> cur_footprint s k = {}"
    and inj: "inj_on (xlate s) (region buf (length bs))"
    using r inj_on_subset unfolding readable_def by blast+
  note st = footprint_stable[OF disj]
  have u: "in_use s' = in_use s" by (auto simp: s'_def in_use_def)
  show "cur_file s' k = cur_file s k" using st(6) by (simp add: s'_def)
  show "readable s' k buf N" using r st u by (simp add: readable_def s'_def size_ok_def)
  show "bytes_at (xlate s') (phys s') buf (length bs) = bs"
    using bytes_at_write_bytes[OF inj] r bs by (simp add: s'_def readable_def)
qed

lemma take_add_drop: "take n (drop p xs) @ take m (drop (p + length (take n (drop p xs))) xs) =
    take (n + m) (drop p xs)"
proof (cases "n \<le> length xs - p")
  case True
  then have l: "length (take n (drop p xs)) = n" by simp
  show ?thesis unfolding l take_add drop_drop by (simp only: add.commute)
next
  case False
  then have "take n (drop p xs) = drop p xs" "take (n + m) (drop p xs) = drop p xs" by simp_all
  then show ?thesis by (simp add: drop_all) 
qed

lemma read_pieces_content:
  assumes "readable s k buf N" "\<forall>n \<in> set ns. 0 < n \<and> n \<le> N"
    and "unat (file_pos (cur_fd s k)) \<le> length (cur_file s k)"
  shows "fst (read_pieces k buf ns s) =
     take (sum_list ns) (drop (unat (file_pos (cur_fd s k))) (cur_file s k))"
  using assms
proof (induction ns arbitrary: s)
  case (Cons n ns)
  let ?p = "unat (file_pos (cur_fd s k))"
  let ?bs = "take n (drop ?p (cur_file s k))"
  have n: "0 < n" "n \<le> N" using Cons.prems(2) by simp_all
  note fr = file_read_result[OF Cons.prems(1) n]
  define s' where "s' = upd_fd k (\<lambda>f. f\<lparr>file_pos := file_pos f + of_nat (length ?bs)\<rparr>)
        (s\<lparr>phys := write_bytes (xlate s) buf ?bs (phys s)\<rparr>)"
  have s'_alt: "s' = upd_fd k (\<lambda>f. f\<lparr>file_pos := file_pos (cur_fd s k) + of_nat (length ?bs)\<rparr>)
        (s\<lparr>phys := write_bytes (xlate s) buf ?bs (phys s)\<rparr>)"
    by (simp add: s'_def upd_fd_def upd_pcb_def cur_fd_def)
  have len: "length ?bs \<le> N" using n by simp
  note st = readable_step[OF Cons.prems(1) len, where p = "file_pos (cur_fd s k) + of_nat (length ?bs)", folded s'_alt]
  have sz: "length (cur_file s k) < 2 ^ 32"
    using Cons.prems(1) by (simp add: readable_def size_ok_def)
  have "unat (of_nat (length ?bs) :: u32) = length ?bs" by (rule unat_of_nat32) (use sz in simp)
  moreover have "?p + length ?bs \<le> length (cur_file s k)" using Cons.prems(3) by simp
  ultimately have pos: "unat (file_pos (cur_fd s' k)) = ?p + length ?bs"
    using sz unat_of_nat32[of "?p + length ?bs"] by (simp add: s'_alt unat_word_ariths)
  have "fst (read_pieces k buf ns s') = take (sum_list ns) (drop (?p + length ?bs) (cur_file s k))"
    using Cons.IH[OF st(1)] Cons.prems(2,3) pos st(2) by simp
  moreover have u: "unat (of_nat (length ?bs) :: u32) = length ?bs" by (rule unat_of_nat32) (use sz in simp)
  moreover have "file_read (of_nat k) buf (of_nat n) s = (of_nat (length ?bs), s')"
    unfolding s'_def by (rule fr)
  moreover obtain out t where "read_pieces k buf ns s' = (out, t)" by (metis surj_pair)
  ultimately have "fst (read_pieces k buf (n # ns) s) =
      bytes_at (xlate s') (phys s') buf (length ?bs) @
      take (sum_list ns) (drop (?p + length ?bs) (cur_file s k))"
    by (simp only: read_pieces.simps Let_def prod.case fst_conv)
  then have "fst (read_pieces k buf (n # ns) s) =
      ?bs @ take (sum_list ns) (drop (?p + length ?bs) (cur_file s k))" unfolding st(3) .
  then show ?case using take_add_drop[of n ?p "cur_file s k" "sum_list ns"] by simp
qed simp


section \<open>Reading a directory\<close>

lemma strlen_first_nul:
  assumes "str (of_nat k) = 0" "\<And>j. j < k \<Longrightarrow> str (of_nat j) \<noteq> 0"
  shows "strlen str = Some (of_nat k)"
  using strlen_loop_Some[of str 0 k] assms by (simp add: strlen_def)

lemma word_bytes_top_zero: "w < 2 ^ 24 \<Longrightarrow> word_bytes w ! 3 = 0"
proof -
  assume "w < 2 ^ 24"
  then have "unat w < 2 ^ 24" by (simp add: word_less_nat_alt)
  then have "unat (drop_bit 24 w) = 0"
    by (simp only: unsigned_drop_bit_eq) (simp add: drop_bit_eq_div take_bit_nat_eq_self)
  then have "drop_bit 24 w = 0" by (simp only: unat_eq_zero)
  then show ?thesis by (simp add: word_bytes_def)
qed

text \<open>The name length \<open>directory_read\<close> computes, cut off at 32.\<close>

lemma strlen_dentry:
  assumes "length nm = 32 - length xs" "\<forall>x \<in> set nm. x = 0" "length xs \<le> 32" "\<forall>x \<in> set xs. x \<noteq> 0"
    and "file_name d = xs @ nm" "file_type d < 2 ^ 24"
  shows "\<exists>k. strlen (dentry_reader d stk) = Some (of_nat k) \<and> k < 64 \<and> min k 32 = length xs"
proof -
  let ?bs = "xs @ nm @ word_bytes (file_type d) @ word_bytes (inode_num d)"
  have len: "length ?bs = 40" using assms(1,3) by simp
  have rd: "dentry_reader d stk (of_nat j) = ?bs ! j" if "j < 40" for j
    using that len assms(5) unat_of_nat32[of j] by (simp add: dentry_reader_def Let_def)
  have "\<exists>k. k < 40 \<and> ?bs ! k = 0 \<and> (\<forall>j < k. ?bs ! j \<noteq> 0)"
  proof -
    have "\<not> 35 - length xs < 32 - length xs" using assms(3) by linarith
    then have "?bs ! 35 = word_bytes (file_type d) ! 3" using assms(1,3) by (simp add: nth_append)
    then have "?bs ! 35 = 0" using word_bytes_top_zero[OF assms(6)] by simp
    define k where "k = (LEAST k. ?bs ! k = 0)"
    have "?bs ! k = 0" unfolding k_def by (rule LeastI[where P = "\<lambda>k. ?bs ! k = 0"]) fact
    moreover have "?bs ! j \<noteq> 0" if "j < k" for j
      using that unfolding k_def by (rule not_less_Least)
    moreover have "k \<le> 35" unfolding k_def by (rule Least_le) fact
    ultimately show ?thesis by (intro exI[of _ k]) simp
  qed
  then obtain k where k: "k < 40" "?bs ! k = 0" "\<forall>j < k. ?bs ! j \<noteq> 0" by blast
  have ge: "length xs \<le> k"
  proof (rule ccontr)
    assume "\<not> length xs \<le> k"
    then have "?bs ! k = xs ! k" "xs ! k \<in> set xs" by (simp_all add: nth_append)
    then show False using k(2) assms(4) by auto
  qed
  have "min k 32 = length xs"
  proof (cases "length xs = 32")
    case False
    then have l: "length xs < 32" using assms(3) by simp
    then have "?bs ! length xs = nm ! 0" "nm ! 0 \<in> set nm" using assms(1) by (simp_all add: nth_append)
    then have "?bs ! length xs = 0" using assms(2) by auto
    then have "k = length xs" using k(3) ge by (metis le_neq_implies_less)
    then show ?thesis using l by simp
  qed (use ge in simp)
  moreover have "strlen (dentry_reader d stk) = Some (of_nat k)"
    using k rd by (intro strlen_first_nul) simp_all
  ultimately show ?thesis using k(1) by auto
qed

text \<open>
  One call returns the name at the current position, cut to the buffer size, and advances; the
  position is the index of the next entry.
\<close>

lemma directory_read_entry:
  fixes s :: "'a kernel_state_scheme"
  assumes k: "k \<in> in_use s" and p: "p < 63" "file_pos (cur_fd s k) = of_nat p"
    and n: "n < 2 ^ 31" and buf: "buf \<noteq> 0" and d: "length (file_name d) = 32"
    and t: "entry_type (xlate s) (phys s) (fs_img_start s) p < 2 ^ 24"
  defines "nm \<equiv> entry_name (xlate s) (phys s) (fs_img_start s) p"
  shows "directory_read (of_nat k) buf (of_nat n) d stk s =
     Some (of_nat (min n (length nm)), upd_fd k (\<lambda>f. f\<lparr>file_pos := file_pos f + 1\<rparr>)
       (s\<lparr>phys := write_bytes (xlate s) buf (take n nm) (phys s)\<rparr>))"
proof -
  have k8: "k < 8" using k by (simp add: in_use_def)
  have valid: "check_valid_fd (of_nat k) s = 0" using k by (auto simp: check_valid_fd_in_use)
  have up: "unat (of_nat p :: u32) = p" using p by (intro unat_of_nat32) simp
  define dd where "dd = \<lparr>file_name = copy_name (ptr (xlate s) (phys s) (dentry_addr (fs_img_start s) p)) 32 d,
    file_type = entry_type (xlate s) (phys s) (fs_img_start s) p,
    inode_num = entry_inode (xlate s) (phys s) (fs_img_start s) p\<rparr>"
  have rd: "read_dentry_by_index (xlate s) (phys s) (fs_img_start s) (of_nat p) d = (0, dd)"
    using p up by (simp add: read_dentry_by_index_def Let_def word_le_nat_alt dd_def entry_type_def entry_inode_def)
  have fname: "file_name dd = nm @ replicate (32 - length nm) 0"
    using d by (simp add: dd_def copy_name_def strncpy_out_cstr nm_def entry_name_def)
  have l32: "length nm \<le> 32" using length_cstr_le by (simp add: nm_def entry_name_def)
  obtain l where l: "strlen (dentry_reader dd stk) = Some (of_nat l)" "l < 64" "min l 32 = length nm"
  proof -
    have "file_type dd < 2 ^ 24" using t by (simp add: dd_def)
    moreover have "\<forall>x \<in> set nm. x \<noteq> 0" using cstr_nonzero by (auto simp: nm_def entry_name_def)
    ultimately show thesis
      using strlen_dentry[OF _ _ l32 _ fname, of stk] that by auto
  qed
  have si: "sint (of_nat j :: u32) = int j" if "j < 2 ^ 31" for j using that by (rule sint_of_nat32)
  have ss: "directory_ss_len (of_nat n) (of_nat l) = of_nat (min n (length nm))"
  proof -
    define m1 :: nat where "m1 = (if n > 32 then 32 else n)"
    have m1: "(if sint (of_nat n :: u32) > 32 then 32 else of_nat n) = (of_nat m1 :: u32)"
      using si[OF n] by (simp add: m1_def)
    have "sint (of_nat m1 :: u32) = int m1" "sint (of_nat l :: u32) = int l"
      using si[of m1] si[of l] l(2) by (simp_all add: m1_def)
    moreover have "(if l < m1 then l else m1) = min n (length nm)"
      using l(3) by (auto simp: m1_def min_def split: if_splits)
    ultimately show ?thesis unfolding directory_ss_len_def Let_def m1 by (metis of_nat_less_iff)
  qed
  let ?w = "of_nat (min n (length nm)) :: u32"
  have uw: "unat ?w = min n (length nm)" using l32 by (intro unat_of_nat32) simp
  have tk: "take (unat ?w) (file_name dd) = take n nm"
    unfolding fname uw by (auto simp: min_def)
  have wz: "write_bytes (xlate s) buf (take n nm) (phys s) = phys s" if "?w = 0"
  proof -
    have "take n nm = []" using tk that by simp
    then show ?thesis by (simp only: write_bytes.simps)
  qed
  show ?thesis
    using valid buf si[OF n] sint_small[OF k8] n p(2) rd l(1)
    unfolding directory_read_def Let_def
    by (cases "?w = 0") (simp_all add: ss tk wz del: of_nat_min)
qed

lemma directory_read_end:
  assumes "k \<in> in_use s" "63 \<le> file_pos (cur_fd s k)"
  shows "directory_read (of_nat k) buf nbytes d stk s = Some (- 1, s)"
proof -
  have "check_valid_fd (of_nat k) s = 0" "k < 8" using assms(1) by (auto simp: check_valid_fd_in_use in_use_def)
  then show ?thesis using assms(2) sint_small[of k]
    by (simp add: directory_read_def read_dentry_by_index_def)
qed

section \<open>RTC frequencies\<close>

lemma and_pred_pow2_nat: "0 < n \<Longrightarrow> n AND (n - 1) = 0 \<longleftrightarrow> (\<exists>k. n = 2 ^ k)" for n :: nat
proof (induction n rule: less_induct)
  case (less n)
  show ?case
  proof (cases "even n")
    case True
    then obtain m where m: "n = 2 * m" "0 < m" "m < n" using less.prems by auto
    have "n AND (n - 1) = 2 * (m AND (m - 1))"
    proof -
      have "(n - 1) div 2 = m - 1" "odd (n - 1)" using m by auto
      then show ?thesis using m by (subst and_rec) simp
    qed
    then have "n AND (n - 1) = 0 \<longleftrightarrow> (\<exists>k. m = 2 ^ k)" using less.IH[OF m(3,2)] by simp
    also have "\<dots> \<longleftrightarrow> (\<exists>k. n = 2 ^ k)"
    proof
      assume "\<exists>k. n = 2 ^ k"
      then obtain k where k: "n = 2 ^ k" ..
      then obtain j where "k = Suc j" using True less.prems by (cases k) auto
      then show "\<exists>k. m = 2 ^ k" using k m by auto
    qed (use m in \<open>auto intro: exI[of _ "Suc _"]\<close>)
    finally show ?thesis .
  next
    case False
    then obtain m where m: "n = 2 * m + 1" by (elim oddE)
    have "n AND (n - 1) = 2 * m" using m by (subst and_rec) simp
    moreover have "(\<exists>k. n = 2 ^ k) \<longleftrightarrow> m = 0"
    proof
      assume "\<exists>k. n = 2 ^ k"
      then obtain k where k: "n = 2 ^ k" ..
      then have "k = 0" using False by (cases k) auto
      then show "m = 0" using k m by simp
    qed (use m in \<open>auto intro: exI[of _ 0]\<close>)
    ultimately show ?thesis by simp
  qed
qed

lemma valid_frequency_iff:
  fixes f :: u32
  shows "\<not> (f AND (f - 1) \<noteq> 0 \<or> f < 2 \<or> f > 1024) \<longleftrightarrow> (\<exists>k. 1 \<le> k \<and> k \<le> 10 \<and> f = 2 ^ k)"
proof -
  have pow: "unat (2 ^ k :: u32) = 2 ^ k" if "k < 32" for k
  proof -
    have "(2 :: nat) ^ k < 2 ^ 32" by (rule power_strict_increasing) (use that in simp_all)
    then show ?thesis using unat_of_nat32[of "2 ^ k"] by simp
  qed
  have nat: "f AND (f - 1) = 0 \<longleftrightarrow> (\<exists>k. unat f = 2 ^ k)" if "f \<noteq> 0"
  proof -
    have "0 < unat f" using that by (simp add: unat_gt_0)
    moreover have "unat (f AND (f - 1)) = unat f AND (unat f - 1)"
      using that by (simp add: unsigned_and_eq unat_minus_one)
    ultimately show ?thesis using and_pred_pow2_nat[of "unat f"] by (metis unat_eq_zero)
  qed
  show ?thesis
  proof
    assume v: "\<not> (f AND (f - 1) \<noteq> 0 \<or> f < 2 \<or> f > 1024)"
    then have b: "2 \<le> unat f" "unat f \<le> 2 ^ 10" by (simp_all add: word_less_nat_alt)
    then have "f \<noteq> 0" by auto
    then obtain k where k: "unat f = 2 ^ k" using nat v by auto
    have "k \<le> 10" using b(2) unfolding k by (simp only: power_increasing_iff one_less_numeral_iff semiring_norm)
    moreover have "1 \<le> k" using b(1) k by (cases k) auto
    moreover have "f = 2 ^ k" using k pow[of k] calculation(1) by (intro word_unat_eq_iff[THEN iffD2]) simp
    ultimately show "\<exists>k. 1 \<le> k \<and> k \<le> 10 \<and> f = 2 ^ k" by blast
  next
    assume "\<exists>k. 1 \<le> k \<and> k \<le> 10 \<and> f = 2 ^ k"
    then obtain k where k: "1 \<le> k" "k \<le> 10" "f = 2 ^ k" by blast
    then have u: "unat f = 2 ^ k" using pow by simp
    have "(2 :: nat) ^ 1 \<le> 2 ^ k" "(2 :: nat) ^ k \<le> 2 ^ 10" using k by (intro power_increasing; simp)+
    then have "2 \<le> unat f" "unat f \<le> 1024" using u by simp_all
    moreover from this have "f \<noteq> 0" by auto
    ultimately show "\<not> (f AND (f - 1) \<noteq> 0 \<or> f < 2 \<or> f > 1024)"
      using nat u by (auto simp: word_less_nat_alt)
  qed
qed

section \<open>Properties\<close>

lemma set_paging_simps [simp]:
  "phys (set_paging_for_process pid s) = phys s" "iflag (set_paging_for_process pid s) = iflag s"
  "page_table (set_paging_for_process pid s) = page_table s" "pt_addr (set_paging_for_process pid s) = pt_addr s"
  "pcbs (set_paging_for_process pid (t :: 'a kernel_state_scheme)) = pcbs t"
  "file_descriptors (set_paging_for_process pid t) = file_descriptors t"
  "active_pids (set_paging_for_process pid t) = active_pids t"
  "current_pid (set_paging_for_process pid t) = current_pid t"
  "terminal_pids (set_paging_for_process pid t) = terminal_pids t"
  "tss_esp0 (set_paging_for_process pid t) = tss_esp0 t"
  "fs_img_start (set_paging_for_process pid t) = fs_img_start t"
  by (simp_all add: set_paging_for_process_def flush_tlb_def set_pde_def)

text \<open>A kernel with the small image of \<open>File_System\<close> loaded at 5 MB, one process with
  descriptor 2 open on the file.\<close>

definition free_fd :: fd where
  "free_fd = \<lparr>file_table_ptr = None, inode = - 1, file_pos = 0, flags = 0\<rparr>"

definition fresh_pcb :: pcb where
  "fresh_pcb = \<lparr>pcb_fds = (\<lambda>_. free_fd)(2 := \<lparr>file_table_ptr = Some file_jumptable, inode = 0, file_pos = 0, flags = 0\<rparr>),
     kernel_esp = 0, kernel_ebp = 0, pcb_pid = 0, parent_pcb = 0, terminal_id = 0, args = (\<lambda>_. 0)\<rparr>"

definition fresh_kernel :: kernel_state where
  "fresh_kernel = set_paging_for_process 0 (paging_init (console_state.extend
     (pic_state.extend (empty_pic\<lparr>phys := (\<lambda>a. tiny_image (a - 0x500000))\<rparr>)
        \<lparr>term_x = (\<lambda>_. 0), term_y = (\<lambda>_. 0), screen_x = 0, screen_y = 0, current_terminal = 0\<rparr>)
     \<lparr>fs_img_start = 0x500000, pcbs = (\<lambda>_. fresh_pcb), file_descriptors = get_pcb_pointer 0,
      active_pids = (\<lambda>i. if i = 0 then 1 else - 1), current_pid = 0,
      terminal_pids = (\<lambda>i. if i = 0 then 0 else - 1), tss_esp0 = get_kernel_start_esp 0\<rparr>))"

lemmas console_extend_defs = console_state.defs pic_state.defs

lemma paging_init_kernel [simp]:
  fixes s :: "'a kernel_state_scheme"
  shows "phys (paging_init s) = phys s" "fs_img_start (paging_init s) = fs_img_start s"
    "pcbs (paging_init s) = pcbs s" "file_descriptors (paging_init s) = file_descriptors s"
    "active_pids (paging_init s) = active_pids s" "current_pid (paging_init s) = current_pid s"
    "terminal_pids (paging_init s) = terminal_pids s" "tss_esp0 (paging_init s) = tss_esp0 s"
    "term_x (paging_init s) = term_x s" "term_y (paging_init s) = term_y s"
    "screen_x (paging_init s) = screen_x s" "screen_y (paging_init s) = screen_y s"
    "current_terminal (paging_init s) = current_terminal s" "iflag (paging_init s) = iflag s"
    "io_log (paging_init s) = io_log s"
  by (simp_all add: paging_init_def flush_tlb_def paging_init_directory_def paging_init_video_def
      paging_init_loop_def fold_set_pte set_pde_def set_pte_def)

lemma fresh_kernel_simps [simp]:
  "phys fresh_kernel = (\<lambda>a. tiny_image (a - 0x500000))" "fs_img_start fresh_kernel = 0x500000"
  "pcbs fresh_kernel = (\<lambda>_. fresh_pcb)" "file_descriptors fresh_kernel = get_pcb_pointer 0"
  "active_pids fresh_kernel = (\<lambda>i. if i = 0 then 1 else - 1)" "current_pid fresh_kernel = 0"
  "terminal_pids fresh_kernel = (\<lambda>i. if i = 0 then 0 else - 1)"
  "tss_esp0 fresh_kernel = get_kernel_start_esp 0"
  by (simp_all add: fresh_kernel_def console_extend_defs)

lemma fresh_kernel_paging: "paging_inv fresh_kernel" "video_map 0 fresh_kernel"
  by (simp_all add: fresh_kernel_def paging_init_inv console_extend_defs empty_pic_def empty_tables_def
      paging_state.defs)

lemma fresh_xlate: "0x400000 \<le> unat a \<Longrightarrow> unat a < 0x800000 \<Longrightarrow> xlate fresh_kernel a = a"
  by (rule xlate_kernel[OF fresh_kernel_paging(1)])

lemma fresh_xlate_offset [simp]: "k < 0x100000 \<Longrightarrow> xlate fresh_kernel (0x500000 + of_nat k) = 0x500000 + of_nat k"
  by (rule fresh_xlate) (simp_all add: unat_add_of_nat32)

lemma fresh_fds [simp]: "cur_fd fresh_kernel i = pcb_fds fresh_pcb i"
  by (simp add: cur_fd_def)

lemma fresh_in_use: "in_use fresh_kernel = {2}"
  by (auto simp: in_use_def fresh_pcb_def free_fd_def)

lemma of_nat_word_eq: "n < 2 ^ 32 \<Longrightarrow> (of_nat n = (w :: u32)) \<longleftrightarrow> n = unat w"
  using unat_of_nat32[of n] by auto

text \<open>The small image at 5 MB of any memory that holds it, seen through any translation that maps
  the kernel's 4 MB to themselves.\<close>

definition kernel_image :: "xlat \<Rightarrow> mem \<Rightarrow> bool" where
  "kernel_image tr m \<longleftrightarrow>
     (\<forall>a. 0x400000 \<le> unat a \<and> unat a < 0x800000 \<longrightarrow> tr a = a) \<and>
     (\<forall>a. 0x500000 \<le> unat a \<and> unat a < 0x600000 \<longrightarrow> m a = tiny_image (a - 0x500000))"

lemma fresh_kernel_image: "kernel_image (xlate fresh_kernel) (\<lambda>a. tiny_image (a - 0x500000))"
  by (simp add: kernel_image_def fresh_xlate)

lemma region_kernel:
  assumes "kernel_image tr m" "0x400000 \<le> unat a" "unat a + n \<le> 0x800000" "b \<in> region a n"
  shows "unat a \<le> unat b" "unat b < unat a + n" "tr b = b"
proof -
  obtain i where i: "i < n" "b = a + of_nat i" using assms(4) unfolding region_def by blast
  then have "unat b = unat a + i" using assms(3) by (simp add: unat_add_of_nat32)
  then show "unat a \<le> unat b" "unat b < unat a + n" "tr b = b"
    using i assms(1-3) by (auto simp: kernel_image_def)
qed

lemma image_load8:
  "kernel_image tr m \<Longrightarrow> 0x500000 \<le> unat b \<Longrightarrow> unat b < 0x600000 \<Longrightarrow> load8 tr m b = tiny_image (b - 0x500000)"
  by (simp add: load8_def kernel_image_def)

lemma image_byte:
  assumes "kernel_image tr m" "n < 4096"
  shows "load8 tr m (0x500000 + of_nat n) = (if n = 4 then 1 else if n = 64 then 97 else if n = 96 then 2 else 0)"
proof -
  have "unat (0x500000 + of_nat n :: u32) = 0x500000 + n" using assms(2) by (simp add: unat_add_of_nat32)
  then have "load8 tr m (0x500000 + of_nat n) = tiny_image (of_nat n)"
    using image_load8[OF assms(1), of "0x500000 + of_nat n"] assms(2) by simp
  also have "\<dots> = (if n = 4 then 1 else if n = 64 then 97 else if n = 96 then 2 else 0)"
    using assms(2) by (simp add: tiny_image_def of_nat_word_eq)
  finally show ?thesis .
qed

lemma image_load32:
  assumes "kernel_image tr m"
  shows "load32 tr m 0x500004 = 1" "load32 tr m 0x501000 = 4" "load32 tr m 0x501004 = 0"
  by (simp_all add: load32_def image_load8[OF assms]) (simp_all add: tiny_image_def)

lemma image_file_size: "kernel_image tr m \<Longrightarrow> file_size tr m 0x500000 0 = 4"
  by (simp add: file_size_def inode_addr_def image_load32)

lemma image_byte_addr: "kernel_image tr m \<Longrightarrow> p < 4 \<Longrightarrow> byte_addr tr m 0x500000 0 p = 0x502000 + of_nat p"
  by (simp add: byte_addr_def data_block_addr_def n_inodes_def inode_addr_def image_load32)

lemma image_file:
  assumes "kernel_image tr m"
  shows "file_content tr m 0x500000 0 = [127, 69, 76, 70]"
proof -
  have "file_content tr m 0x500000 0 = map (\<lambda>p. load8 tr m (0x502000 + of_nat p)) [0..<4]"
    by (simp add: file_content_def image_file_size[OF assms] image_byte_addr[OF assms])
  also have "\<dots> = [127, 69, 76, 70]"
    by (simp add: upt_rec image_load8[OF assms]) (simp add: tiny_image_def)
  finally show ?thesis .
qed

lemma image_footprint:
  assumes i: "kernel_image tr m" and p: "p \<in> file_footprint tr m 0x500000 0"
  shows "unat p < 0x600000"
proof -
  have r: "unat q < 0x600000" if "q \<in> tr ` region a 4" "0x500000 \<le> unat a" "unat a < 0x5F0000" for a q
    using that region_kernel[OF i, of a 4] by fastforce
  have b: "unat (tr (0x502000 + of_nat k)) < 0x600000" if "k < 4" for k
    using that region_kernel[OF i, of "0x502000" 4 "0x502000 + of_nat k"] in_region[of k 4 "0x502000"] by simp
  have d: "k div 4096 = 0" if "k < 4" for k :: nat using that by simp
  show ?thesis
    using p r[of p "0x500004"] r[of p "0x501000"] r[of p "0x501004"] b
    unfolding file_footprint_def image_file_size[OF i]
    by (auto simp: image_byte_addr[OF i] inode_addr_def d)
qed

lemma image_names:
  assumes im: "kernel_image tr m" and i: "i < 63"
  shows "entry_name tr m 0x500000 i = (if i = 0 then [97] else [])"
proof -
  have b: "ptr tr m (dentry_addr 0x500000 i) (of_nat k) = (if i = 0 \<and> k = 0 then 97 else 0)" if "k < 32" for k
  proof -
    have a: "dentry_addr 0x500000 i + of_nat k = 0x500000 + of_nat (64 * i + 64 + k)"
      by (simp add: dentry_addr_def)
    show ?thesis unfolding ptr_def a
      using image_byte[OF im, of "64 * i + 64 + k"] i that by (cases i) auto
  qed
  show ?thesis using b[of 0] b[of 1] cstr_Suc[of _ 31] cstr_Suc[of _ 30]
    by (cases "i = 0") (simp_all add: entry_name_def)
qed

lemma image_fields:
  assumes im: "kernel_image tr m" and p: "p < 63"
  shows "entry_type tr m 0x500000 p = (if p = 0 then 2 else 0)" "entry_inode tr m 0x500000 p = 0"
proof -
  have a: "dentry_addr 0x500000 p + w + of_nat k = 0x500000 + (of_nat (64 * p + 64 + k) + w)" for k w
    by (simp add: dentry_addr_def)
  have t: "load8 tr m (dentry_addr 0x500000 p + 32 + of_nat k) = (if p = 0 \<and> k = 0 then 2 else 0)" if "k < 4" for k
  proof -
    have e: "of_nat (64 * p + 64 + k) + 32 = (of_nat (64 * p + 96 + k) :: u32)" by simp
    show ?thesis unfolding a e using image_byte[OF im, of "64 * p + 96 + k"] p that by (cases p) auto
  qed
  have n: "load8 tr m (dentry_addr 0x500000 p + 36 + of_nat k) = 0" if "k < 4" for k
  proof -
    have e: "of_nat (64 * p + 64 + k) + 36 = (of_nat (64 * p + 100 + k) :: u32)" by simp
    show ?thesis unfolding a e using image_byte[OF im, of "64 * p + 100 + k"] p that by (cases p) auto
  qed
  show "entry_type tr m 0x500000 p = (if p = 0 then 2 else 0)" "entry_inode tr m 0x500000 p = 0"
    using t[of 0] t[of 1] t[of 2] t[of 3] n[of 0] n[of 1] n[of 2] n[of 3]
    by (simp_all add: entry_type_def entry_inode_def load32_def)
qed

lemma fresh_image_ok: "image_ok fresh_kernel"
  by (simp add: image_ok_def image_fields[OF fresh_kernel_image])

lemma fresh_readable: "readable fresh_kernel 2 0x600000 8"
proof -
  note i = fresh_kernel_image
  have x: "xlate fresh_kernel a = a" "0x600000 \<le> unat a" if "a \<in> region 0x600000 8" for a
    using region_kernel[OF i _ _ that] by simp_all
  then have "xlate fresh_kernel ` region 0x600000 8 \<inter>
      file_footprint (xlate fresh_kernel) (\<lambda>a. tiny_image (a - 0x500000)) 0x500000 0 = {}"
    using image_footprint[OF i] by fastforce
  moreover have "inj_on (xlate fresh_kernel) (region 0x600000 8)" using x by (simp add: inj_on_def)
  ultimately show ?thesis
    by (simp add: readable_def fresh_in_use fresh_pcb_def size_ok_def image_file_size[OF i])
qed

lemma fresh_file: "cur_file fresh_kernel 2 = [127, 69, 76, 70]"
  by (simp add: fresh_pcb_def image_file[OF fresh_kernel_image])



text \<open>C17: reading a file through its descriptor in pieces, of any sizes, yields the bytes of
  the file in order from the current position on: the position advances by what was read and the
  pieces join without gap or overlap.\<close>
theorem file_read_in_pieces:
  assumes "readable s k buf N" "\<forall>n \<in> set ns. 0 < n \<and> n \<le> N"
    and "unat (file_pos (cur_fd s k)) \<le> length (cur_file s k)" "length (cur_file s k) \<le> sum_list ns"
  shows "fst (read_pieces k buf ns s) = drop (unat (file_pos (cur_fd s k))) (cur_file s k)"
  using read_pieces_content[OF assms(1-3)] assms(4) by simp

lemma file_read_in_pieces_witness:
  "fst (read_pieces 2 0x600000 [1, 2, 5] fresh_kernel) = [127, 69, 76, 70]"
proof -
  have "file_pos (cur_fd fresh_kernel 2) = 0" by (simp add: fresh_pcb_def)
  then show ?thesis
    using file_read_in_pieces[OF fresh_readable, of "[1, 2, 5]", unfolded fresh_file]
    by (simp del: read_pieces.simps)
qed

text \<open>C21: reading a directory returns, call by call, the names of the 63 entries in order:
  entry \<open>p\<close> gives its name, cut at the length asked for, and moves on to the next; past the last
  entry the read fails and changes nothing.\<close>
theorem directory_read_enumerates:
  assumes "k \<in> in_use s" "n < 2 ^ 31" "buf \<noteq> 0" "length (file_name d) = 32"
    and "\<forall>p < 63. entry_type (xlate s) (phys s) (fs_img_start s) p < 2 ^ 24"
  shows "if unat (file_pos (cur_fd s k)) < 63
    then let nm = entry_name (xlate s) (phys s) (fs_img_start s) (unat (file_pos (cur_fd s k)))
         in directory_read (of_nat k) buf (of_nat n) d stk s =
              Some (of_nat (min n (length nm)), upd_fd k (\<lambda>f. f\<lparr>file_pos := file_pos f + 1\<rparr>)
                (s\<lparr>phys := write_bytes (xlate s) buf (take n nm) (phys s)\<rparr>))
    else directory_read (of_nat k) buf (of_nat n) d stk s = Some (- 1, s)"
  using assms directory_read_entry[of k s "unat (file_pos (cur_fd s k))" n buf d stk]
    directory_read_end[of k s buf "of_nat n" d stk]
  by (auto simp: Let_def word_le_nat_alt)

lemma directory_read_enumerates_witness:
  "directory_read 2 0x600000 32 \<lparr>file_name = replicate 32 1, file_type = 0, inode_num = 0\<rparr> (\<lambda>_. 7) fresh_kernel =
     Some (1, upd_fd 2 (\<lambda>f. f\<lparr>file_pos := file_pos f + 1\<rparr>)
       (fresh_kernel\<lparr>phys := write_bytes (xlate fresh_kernel) 0x600000 [97] (phys fresh_kernel)\<rparr>))"
proof -
  have e: "entry_name (xlate fresh_kernel) (\<lambda>a. tiny_image (a - 0x500000)) 0x500000 0 = [97]"
    by (simp add: image_names[OF fresh_kernel_image])
  have p: "file_pos (cur_fd fresh_kernel 2) = 0" by (simp add: fresh_pcb_def)
  show ?thesis
    using directory_read_enumerates[of 2 fresh_kernel 32 "0x600000"
        "\<lparr>file_name = replicate 32 1, file_type = 0, inode_num = 0\<rparr>" "\<lambda>_. 7"]
    by (simp only: p fresh_kernel_simps) (simp add: fresh_in_use e image_fields[OF fresh_kernel_image])
qed

text \<open>C39: writing to the RTC succeeds exactly for a four-byte buffer that holds a power of two
  from 2 to 1024; it then sets the period and the counter of that descriptor to the number of
  hardware ticks in one period, and otherwise changes nothing.\<close>
theorem rtc_write_accepts_powers_of_two:
  fixes buf n :: u32 and s :: "'a kernel_state_scheme"
  defines "f \<equiv> load32 (xlate s) (phys s) buf"
  shows "(if n = 4 \<and> buf \<noteq> 0 \<and> (\<exists>k. 1 \<le> k \<and> k \<le> 10 \<and> f = 2 ^ k)
          then rtc_write (of_nat i) buf n s =
            (4, upd_fd (nat (sint (of_nat i :: u32))) (\<lambda>d. d\<lparr>file_pos := 1024 div f, flags := 1024 div f\<rparr>) s)
          else rtc_write (of_nat i) buf n s = (- 1, s)) \<and>
         (\<forall>k \<le> 10. f = 2 ^ k \<longrightarrow> unat (1024 div f) = 2 ^ (10 - k))"
proof (rule conjI)
  show "if n = 4 \<and> buf \<noteq> 0 \<and> (\<exists>k. 1 \<le> k \<and> k \<le> 10 \<and> f = 2 ^ k)
          then rtc_write (of_nat i) buf n s =
            (4, upd_fd (nat (sint (of_nat i :: u32))) (\<lambda>d. d\<lparr>file_pos := 1024 div f, flags := 1024 div f\<rparr>) s)
          else rtc_write (of_nat i) buf n s = (- 1, s)"
    unfolding valid_frequency_iff[symmetric] by (simp add: rtc_write_def f_def Let_def)
  have "k \<le> 10 \<Longrightarrow> f = 2 ^ k \<Longrightarrow> unat (1024 div f) = 2 ^ (10 - k)" for k
  proof -
    assume k: "k \<le> 10" "f = 2 ^ k"
    have "(2 :: nat) ^ k \<le> 2 ^ 10" using k(1) by (intro power_increasing) simp_all
    then have "unat f = 2 ^ k" using unat_of_nat32[of "2 ^ k"] k(2) by simp
    then have "unat (1024 div f) = 1024 div 2 ^ k" by (simp add: unat_div)
    also have "\<dots> = 2 ^ (10 - k)" using power_diff[of "2 :: nat" k 10] k(1) by (simp add: power_diff)
    finally show ?thesis .
  qed
  then show "\<forall>k \<le> 10. f = 2 ^ k \<longrightarrow> unat (1024 div f) = 2 ^ (10 - k)" by blast
qed

lemma rtc_write_accepts_powers_of_two_witness:
  "rtc_write 2 0x501000 4 fresh_kernel = (4, upd_fd 2 (\<lambda>d. d\<lparr>file_pos := 256, flags := 256\<rparr>) fresh_kernel)"
proof -
  have yes: "\<exists>k. 1 \<le> k \<and> k \<le> 10 \<and> (4 :: u32) = 2 ^ k" by (rule exI[of _ 2]) simp
  have l: "load32 (xlate fresh_kernel) (phys fresh_kernel) 0x501000 = 4" by (simp add: image_load32[OF fresh_kernel_image])
  have "(0x501000 :: u32) \<noteq> 0" by simp
  with yes have "rtc_write (of_nat 2) 0x501000 4 fresh_kernel =
      (4, upd_fd (nat (sint (of_nat 2 :: u32))) (\<lambda>d. d\<lparr>file_pos := 1024 div 4, flags := 1024 div 4\<rparr>) fresh_kernel)"
    using rtc_write_accepts_powers_of_two[where n = 4 and buf = "0x501000" and s = fresh_kernel and i = 2,
      THEN conjunct1]
    by (simp only: l simp_thms if_True)
  then show ?thesis by simp
qed

end
