(* ===== verification/Process.thy ===== *)
theory Process
  imports Printf Devices
begin

text \<open>
  Processes: \<open>process_create\<close>, \<open>process_start\<close>, \<open>process_switch\<close> and the system
  calls execute, halt, getargs and vidmap of \<open>interrupts/syscall_handler.c\<close>.

  The stack pointer and frame pointer that the inline assembly saves are the argument
  \<open>regs\<close>. A function that ends in \<open>iret\<close> or reloads the stack does not return to its caller:
  its result says where the processor goes on. The local variables of \<open>process_create\<close>, whose
  initial contents are whatever is on the stack, are the argument \<open>fr\<close>.
\<close>

section \<open>Control flow and local variables\<close>

text \<open>
  \<open>Return v\<close>: the function returns \<open>v\<close>. \<open>Iret eip esp\<close>: user mode is entered.
  \<open>Resume esp ebp eax\<close>: the kernel goes on in the frame of another invocation, which returns
  \<open>eax\<close> to its caller.
\<close>

datatype control = Return u32 | Iret u32 u32 | Resume u32 u32 u32

record create_frame =
  loc_file_name :: reader
  loc_file_args :: reader
  loc_dentry :: dentry
  loc_start_bytes :: addr
  loc_conv_buf :: addr

definition ascii :: "string \<Rightarrow> byte list" where
  "ascii cs = map (\<lambda>c. of_nat (of_char c)) cs"

text \<open>A string literal.\<close>

definition lit :: "byte list \<Rightarrow> reader" where
  "lit bs i = (if unat i < length bs then bs ! unat i else 0)"

definition shell_lit :: reader where
  "shell_lit = lit (ascii ''shell'')"

section \<open>process_create\<close>

text \<open>The loop over the command: the name up to a space or NUL, then the arguments.\<close>

function parse_command :: "reader \<Rightarrow> nat \<Rightarrow> reader \<Rightarrow> reader \<Rightarrow> reader \<times> reader" where
  "parse_command command pos file_name0 file_args =
     (if pos < 32 then
        if command (of_nat pos) = 0 then (file_name0(of_nat pos := 0), file_args(0 := 0))
        else if command (of_nat pos) = 32 then
          (file_name0(of_nat pos := 0),
           \<lambda>i. if unat i < 128 then strncpy_out (\<lambda>j. command (of_nat pos + 1 + j)) 128 ! unat i else file_args i)
        else parse_command command (Suc pos) (file_name0(of_nat pos := command (of_nat pos))) file_args
      else (file_name0, file_args))"
  by pat_completeness auto
termination by (relation "measure (\<lambda>(c, pos, _). 32 - pos)") auto

declare parse_command.simps [simp del]

partial_function (option) load_loop ::
  "xlat \<Rightarrow> addr \<Rightarrow> u32 \<Rightarrow> u32 \<Rightarrow> addr \<Rightarrow> mem \<Rightarrow> mem option" where
  "load_loop tr fs ino pos memory_pos m =
     (let (n, m') = read_data tr m fs ino pos memory_pos 4096
      in if n \<noteq> 0 then load_loop tr fs ino (pos + 4096) (memory_pos + 4096) m' else Some m')"

definition BLOCK_START :: addr where "BLOCK_START = 0x08000000"

text \<open>The fields of the PCB that \<open>process_create\<close> sets.\<close>

definition init_pcb :: "int \<Rightarrow> nat \<Rightarrow> addr \<Rightarrow> reader \<Rightarrow> pcb \<Rightarrow> pcb" where
  "init_pcb pid terminal parent file_args p =
     p\<lparr>pcb_fds := (\<lambda>i. if i < 2 then (pcb_fds p i)\<lparr>file_table_ptr := Some terminal_jumptable, inode := - 2\<rparr>
                       else if i < 8 then (pcb_fds p i)\<lparr>inode := - 1\<rparr> else pcb_fds p i),
       pcb_pid := pid, terminal_id := terminal, kernel_esp := get_kernel_start_esp pid,
       parent_pcb := parent,
       args := (\<lambda>i. if unat i < 128 then strncpy_out file_args 128 ! unat i else args p i)\<rparr>"

text \<open>From the executable on: a free pid, the program image, the PCB.\<close>

definition create_executable ::
  "create_frame \<Rightarrow> u32 \<Rightarrow> reader \<Rightarrow> nat \<Rightarrow> int \<Rightarrow> 'a kernel_state_scheme \<Rightarrow> (int \<times> 'a kernel_state_scheme) option" where
  "create_executable fr ino file_args terminal parent_pid s0 =
     (let s1 = sti s0; pid = get_free_pid s1
      in if pid = - 1
         then (case printf (loc_conv_buf fr) (ascii ''Too many processes'' @ [10]) [] s1 of
                 None \<Rightarrow> None | Some (_, s2) \<Rightarrow> Some (- 1, s2))
         else
           (let s2 = set_paging_for_process pid (cli (s1\<lparr>active_pids := (active_pids s1)(nat pid := 0)\<rparr>))
            in case load_loop (xlate s2) (fs_img_start s2) ino 0 (BLOCK_START + 0x00048000) (phys s2) of
                 None \<Rightarrow> None
               | Some m \<Rightarrow>
                   (let s3 = s2\<lparr>phys := m\<rparr>;
                        parent = (if parent_pid \<noteq> - 1 then get_pcb_pointer (current_pid s3) else 0)
                    in Some (pid, upd_pcb (get_pcb_pointer pid) (init_pcb pid terminal parent file_args) s3))))"

definition process_create ::
  "create_frame \<Rightarrow> reader \<Rightarrow> nat \<Rightarrow> int \<Rightarrow> 'a kernel_state_scheme \<Rightarrow> (int \<times> 'a kernel_state_scheme) option" where
  "process_create fr command terminal parent_pid s =
     (let (fname, fargs) = parse_command command 0 (loc_file_name fr) (loc_file_args fr)
      in case read_dentry_by_name (xlate s) (phys s) (fs_img_start s) (Some fname) (loc_dentry fr) of
           None \<Rightarrow> None
         | Some (r, dentry) \<Rightarrow>
             if r = - 1 then Some (- 1, s)
             else if file_type dentry \<noteq> 2 then Some (- 1, s)
             else let (n, m) = read_data (xlate s) (phys s) (fs_img_start s) (inode_num dentry) 0 (loc_start_bytes fr) 4;
                      s1 = s\<lparr>phys := m\<rparr>; start = ptr (xlate s1) (phys s1) (loc_start_bytes fr)
                  in if n \<noteq> 4 then Some (- 1, s1)
                     else if strncmp (\<lambda>i. start (i + 1)) (lit (ascii ''ELF'')) 3 = 0 \<and> start 0 = 0x7F
                     then create_executable fr (inode_num dentry) fargs terminal parent_pid s1
                     else Some (- 1, s1))"

section \<open>Starting, switching, ending\<close>

text \<open>Saving the registers in the PCB of the running process, if there is one.\<close>

definition save_regs :: "u32 \<times> u32 \<Rightarrow> 'a kernel_state_scheme \<Rightarrow> 'a kernel_state_scheme" where
  "save_regs regs s =
     (if current_pid s \<noteq> - 1
      then upd_pcb (get_pcb_pointer (current_pid s)) (\<lambda>p. p\<lparr>kernel_esp := fst regs, kernel_ebp := snd regs\<rparr>) s
      else s)"

text \<open>The argument is converted to \<open>uint8_t\<close>, so -1 arrives as 255.\<close>

definition process_start :: "u32 \<times> u32 \<Rightarrow> int \<Rightarrow> 'a kernel_state_scheme \<Rightarrow> control \<times> 'a kernel_state_scheme" where
  "process_start regs arg s =
     (let pid = arg mod 256
      in if pid > 5 then (Return (- 1), s)
         else if active_pids s (nat pid) \<noteq> 0 then (Return (- 1), s)
         else
           let s1 = set_paging_for_process pid (s\<lparr>active_pids := (active_pids s)(nat pid := 1)\<rparr>);
               new_esp = BLOCK_START + (0x400000 - 4);
               entry_point = load32 (xlate s1) (phys s1) (BLOCK_START + 0x00048000 + 24);
               s2 = save_regs regs s1;
               pcb = get_pcb_pointer pid;
               s3 = s2\<lparr>current_pid := pid, file_descriptors := pcb,
                       terminal_pids := (terminal_pids s2)(terminal_id (pcbs s2 pcb) := pid),
                       tss_esp0 := get_kernel_start_esp pid\<rparr>
           in (Iret entry_point new_esp, sti s3))"

definition process_switch :: "u32 \<times> u32 \<Rightarrow> int \<Rightarrow> 'a kernel_state_scheme \<Rightarrow> (u32 \<times> u32) \<times> 'a kernel_state_scheme" where
  "process_switch regs arg s =
     (let pid = arg mod 256;
          s1 = save_regs regs s;
          pcb = get_pcb_pointer pid;
          s2 = set_paging_for_process pid
                 (s1\<lparr>tss_esp0 := get_kernel_start_esp pid, current_pid := pid, file_descriptors := pcb\<rparr>)
      in ((kernel_esp (pcbs s2 pcb), kernel_ebp (pcbs s2 pcb)), sti s2))"

definition execute_handler ::
  "create_frame \<Rightarrow> u32 \<times> u32 \<Rightarrow> reader \<Rightarrow> 'a kernel_state_scheme \<Rightarrow> (control \<times> 'a kernel_state_scheme) option" where
  "execute_handler fr regs command s =
     (case process_create fr command (terminal_id (pcbs s (get_pcb_pointer (current_pid s)))) (current_pid s) s of
        None \<Rightarrow> None
      | Some (pid, s') \<Rightarrow> Some (process_start regs pid s'))"

text \<open>Closing the descriptors 2 to 7; a call through a NULL jump table is a page fault.\<close>

fun close_all :: "nat list \<Rightarrow> 'a kernel_state_scheme \<Rightarrow> 'a kernel_state_scheme option" where
  "close_all [] s = Some s"
| "close_all (i # is) s =
     (if inode (cur_fd s i) = - 1 then close_all is s
      else case file_table_ptr (cur_fd s i) of None \<Rightarrow> None
           | Some ops \<Rightarrow> close_all is (snd (close_op ops (of_nat i) s)))"

definition halt_handler ::
  "create_frame \<Rightarrow> u32 \<times> u32 \<Rightarrow> u32 \<Rightarrow> 'a kernel_state_scheme \<Rightarrow> (control \<times> 'a kernel_state_scheme) option" where
  "halt_handler fr regs status s =
     (case close_all [2..<8] (cli s) of
        None \<Rightarrow> None
      | Some s1 \<Rightarrow>
          (let pid = current_pid s1; pcb = pcbs s1 (get_pcb_pointer pid)
           in if parent_pcb pcb = 0 then
                (case process_create fr shell_lit (terminal_id pcb) (- 1)
                        (s1\<lparr>current_pid := - 1, active_pids := (active_pids s1)(nat pid := - 1)\<rparr>) of
                   None \<Rightarrow> None
                 | Some (new, s2) \<Rightarrow>
                     (case process_start regs new s2 of
                        (Return _, s3) \<Rightarrow> Some (Return 0, s3)
                      | (c, s3) \<Rightarrow> Some (c, s3)))
              else
                (let parent = pcbs s1 (parent_pcb pcb);
                     s2 = s1\<lparr>tss_esp0 := get_kernel_start_esp (pcb_pid parent),
                             file_descriptors := parent_pcb pcb,
                             current_pid := pcb_pid parent,
                             terminal_pids := (terminal_pids s1)(terminal_id parent := pcb_pid parent),
                             active_pids := (active_pids s1)(nat pid := - 1)\<rparr>;
                     s3 = set_paging_for_process (current_pid s2) s2
                 in Some (Resume (kernel_esp parent) (kernel_ebp parent) status, s3))))"

section \<open>vidmap and getargs\<close>

definition vidmap_handler :: "addr \<Rightarrow> 'a kernel_state_scheme \<Rightarrow> u32 \<times> 'a kernel_state_scheme" where
  "vidmap_handler screen_start s =
     (if screen_start = 0 \<or> screen_start < 0x08000000 \<or> screen_start > 0x080FFFFF then (- 1, s)
      else (0, s\<lparr>phys := store32 (xlate s) screen_start
              (of_nat (4096 * (VIDEO_MEM_INDEX + 1 + terminal_id (pcbs s (get_pcb_pointer (current_pid s)))))) (phys s)\<rparr>))"

text \<open>\<open>strlen\<close> is unsigned, so the comparison with \<open>nbytes\<close> is unsigned too.\<close>

definition getargs_handler :: "addr \<Rightarrow> u32 \<Rightarrow> 'a kernel_state_scheme \<Rightarrow> (u32 \<times> 'a kernel_state_scheme) option" where
  "getargs_handler buf nbytes s =
     (let arg = args (pcbs s (get_pcb_pointer (current_pid s)))
      in case strlen arg of None \<Rightarrow> None
         | Some n \<Rightarrow>
             if nbytes \<le> n \<or> buf = 0 then Some (- 1, s)
             else Some (0, s\<lparr>phys := write_bytes (xlate s) buf (strncpy_out arg (unat nbytes)) (phys s)\<rparr>))"


section \<open>Fields under the updates\<close>

lemma flags_simps [simp]:
  "pcbs (sti (t :: 'a kernel_state_scheme)) = pcbs t" "pcbs (cli t) = pcbs t"
  "file_descriptors (sti t) = file_descriptors t" "file_descriptors (cli t) = file_descriptors t"
  "active_pids (sti t) = active_pids t" "active_pids (cli t) = active_pids t"
  "current_pid (sti t) = current_pid t" "current_pid (cli t) = current_pid t"
  "terminal_pids (sti t) = terminal_pids t" "terminal_pids (cli t) = terminal_pids t"
  "tss_esp0 (sti t) = tss_esp0 t" "tss_esp0 (cli t) = tss_esp0 t"
  "fs_img_start (sti t) = fs_img_start t" "fs_img_start (cli t) = fs_img_start t"
  "phys (sti s) = phys s" "phys (cli s) = phys s" "xlate (sti u) = xlate u" "xlate (cli u) = xlate u"
  "page_directory (sti u) = page_directory u" "page_directory (cli u) = page_directory u"
  "page_table (sti u) = page_table u" "page_table (cli u) = page_table u"
  "pt_addr (sti u) = pt_addr u" "pt_addr (cli u) = pt_addr u"
  "iflag (sti s)" "\<not> iflag (cli s)"
  by (simp_all add: sti_def cli_def)

lemma upd_pcb_simps [simp]:
  "phys (upd_pcb a f s) = phys s" "xlate (upd_pcb a f s) = xlate s" "iflag (upd_pcb a f s) = iflag s"
  "page_directory (upd_pcb a f s) = page_directory s" "page_table (upd_pcb a f s) = page_table s"
  "pt_addr (upd_pcb a f s) = pt_addr s"
  "pcbs (upd_pcb a f s) = (pcbs s)(a := f (pcbs s a))"
  "file_descriptors (upd_pcb a f s) = file_descriptors s" "active_pids (upd_pcb a f s) = active_pids s"
  "current_pid (upd_pcb a f s) = current_pid s" "terminal_pids (upd_pcb a f s) = terminal_pids s"
  "tss_esp0 (upd_pcb a f s) = tss_esp0 s" "fs_img_start (upd_pcb a f s) = fs_img_start s"
  by (simp_all add: upd_pcb_def)

lemma save_regs_simps [simp]:
  "phys (save_regs r s) = phys s" "xlate (save_regs r s) = xlate s" "iflag (save_regs r s) = iflag s"
  "page_directory (save_regs r s) = page_directory s" "page_table (save_regs r s) = page_table s"
  "pt_addr (save_regs r s) = pt_addr s"
  "file_descriptors (save_regs r s) = file_descriptors s" "active_pids (save_regs r s) = active_pids s"
  "current_pid (save_regs r s) = current_pid s" "terminal_pids (save_regs r s) = terminal_pids s"
  "tss_esp0 (save_regs r s) = tss_esp0 s" "fs_img_start (save_regs r s) = fs_img_start s"
  "terminal_id (pcbs (save_regs r s) a) = terminal_id (pcbs s a)"
  "parent_pcb (pcbs (save_regs r s) a) = parent_pcb (pcbs s a)"
  "pcb_pid (pcbs (save_regs r s) a) = pcb_pid (pcbs s a)"
  "pcb_fds (pcbs (save_regs r s) a) = pcb_fds (pcbs s a)"
  "args (pcbs (save_regs r s) a) = args (pcbs s a)"
  by (simp_all add: save_regs_def)

text \<open>PCBs and kernel stacks are 8 KB apart, below 8 MB.\<close>

lemma pid_cases: "0 \<le> p \<Longrightarrow> p < 6 \<Longrightarrow> p = 0 \<or> p = 1 \<or> p = 2 \<or> p = 3 \<or> p = 4 \<or> p = (5 :: int)"
  by arith

lemma unat_pcb_pointer:
  assumes "0 \<le> pid" "pid < 6"
  shows "unat (get_pcb_pointer pid) = 0x800000 - 0x2000 * (1 + nat pid)"
  using pid_cases[OF assms] by (auto simp: get_pcb_pointer_def)

lemma unat_kernel_start_esp:
  assumes "0 \<le> pid" "pid < 6"
  shows "unat (get_kernel_start_esp pid) = 0x800000 - 0x2000 * nat pid - 4"
  using pid_cases[OF assms] by (auto simp: get_kernel_start_esp_def)

lemma pcb_pointer_inj:
  assumes "0 \<le> p" "p < 6" "0 \<le> q" "q < 6"
  shows "get_pcb_pointer p = get_pcb_pointer q \<longleftrightarrow> p = q"
proof
  assume "get_pcb_pointer p = get_pcb_pointer q"
  then have "unat (get_pcb_pointer p) = unat (get_pcb_pointer q)" by simp
  then show "p = q" using assms by (simp add: unat_pcb_pointer)
qed simp

lemma pcb_pointer_nonzero:
  assumes "0 \<le> p" "p < 6"
  shows "get_pcb_pointer p \<noteq> 0"
proof
  assume "get_pcb_pointer p = 0"
  then have "0x800000 - 0x2000 * (1 + nat p) = (0 :: nat)" using unat_pcb_pointer[OF assms] by simp
  moreover have "nat p \<le> 5" using assms by simp
  ultimately show False by simp
qed

section \<open>The program image\<close>

lemma load_loop_content:
  assumes ok: "size_ok tr m fs ino" and pos: "unat pos < 2 ^ 32"
    and disj: "tr ` region dest (file_size tr m fs ino - unat pos) \<inter> file_footprint tr m fs ino = {}"
  shows "load_loop tr fs ino pos dest m =
     Some (write_bytes tr dest (drop (unat pos) (file_content tr m fs ino)) m)"
  using assms
proof (induction "file_size tr m fs ino - unat pos" arbitrary: pos dest m rule: less_induct)
  case less
  let ?fl = "file_size tr m fs ino" and ?c = "file_content tr m fs ino"
  let ?bs = "take 4096 (drop (unat pos) ?c)"
  have sub: "region dest (min 4096 (?fl - unat pos)) \<subseteq> region dest (?fl - unat pos)"
    by (rule region_mono) simp
  have disj: "tr ` region dest (min 4096 (?fl - unat pos)) \<inter> file_footprint tr m fs ino = {}"
    using sub less.prems(3) by blast
  have "read_data tr m fs ino pos dest 4096 =
      (of_nat (min 4096 (?fl - unat pos)), write_bytes tr dest ?bs m)"
    using read_data_content[OF less.prems(1), of dest 4096 pos] disj by simp
  then have step: "load_loop tr fs ino pos dest m =
      (if (of_nat (min 4096 (?fl - unat pos)) :: u32) \<noteq> 0
       then load_loop tr fs ino (pos + 4096) (dest + 4096) (write_bytes tr dest ?bs m)
       else Some (write_bytes tr dest ?bs m))"
    by (subst load_loop.simps) simp
  show ?case
  proof (cases "unat pos < ?fl")
    case False
    then have "?bs = []" "drop (unat pos) ?c = []" by simp_all
    then show ?thesis using step False by simp
  next
    case True
    let ?m' = "write_bytes tr dest ?bs m"
    have fl: "?fl + 4095 < 2 ^ 32" using less.prems(1) by (simp add: size_ok_def)
    have up: "unat (pos + 4096) = unat pos + 4096"
      using True fl by (subst unat_add_lem[THEN iffD1]) simp_all
    have l: "length ?bs = min 4096 (?fl - unat pos)" by (simp add: min.commute)
    note st = footprint_stable[of tr dest ?bs m fs ino, unfolded l, OF disj]
    have "(of_nat (min 4096 (?fl - unat pos)) :: u32) \<noteq> 0"
    proof
      assume "(of_nat (min 4096 (?fl - unat pos)) :: u32) = 0"
      then have "unat (of_nat (min 4096 (?fl - unat pos)) :: u32) = 0" by simp
      moreover have "min 4096 (?fl - unat pos) < 2 ^ 32" by simp
      ultimately show False using True by (simp only: unat_of_nat32)
    qed
    moreover have "load_loop tr fs ino (pos + 4096) (dest + 4096) ?m' =
        Some (write_bytes tr (dest + 4096) (drop (unat pos + 4096) ?c) ?m')"
    proof -
      have "region (dest + of_nat 4096) (?fl - (unat pos + 4096)) \<subseteq> region dest (?fl - unat pos)" if "unat pos + 4096 \<le> ?fl"
        using that by (intro region_shift) simp
      then have "tr ` region (dest + 4096) (?fl - (unat pos + 4096)) \<inter> file_footprint tr m fs ino = {}"
        using less.prems(3) by (cases "unat pos + 4096 \<le> ?fl") auto
      then show ?thesis
        using less.hyps[of ?m' "pos + 4096" "dest + 4096"] less.prems(1) st True up unat_lt32[of "pos + 4096"]
        by (simp add: size_ok_def)
    qed
    moreover have "write_bytes tr (dest + 4096) (drop (unat pos + 4096) ?c) ?m' =
        write_bytes tr dest (drop (unat pos) ?c) m"
    proof (cases "unat pos + 4096 \<le> ?fl")
      case True
      then have "length ?bs = 4096" using l by simp
      then have "write_bytes tr (dest + 4096) (drop (unat pos + 4096) ?c) ?m' =
          write_bytes tr dest (?bs @ drop 4096 (drop (unat pos) ?c)) m"
        by (simp only: write_bytes_append drop_drop add.commute of_nat_numeral)
      then show ?thesis by (simp only: append_take_drop_id)
    qed simp
    ultimately show ?thesis using step by simp
  qed
qed


section \<open>What process_create does to the tables\<close>

text \<open>The process table, the PCBs and the paging tables are the same.\<close>

definition same_tables :: "'a kernel_state_scheme \<Rightarrow> 'a kernel_state_scheme \<Rightarrow> bool" where
  "same_tables s s' \<longleftrightarrow>
     pcbs s' = pcbs s \<and> file_descriptors s' = file_descriptors s \<and> active_pids s' = active_pids s \<and>
     current_pid s' = current_pid s \<and> terminal_pids s' = terminal_pids s \<and> tss_esp0 s' = tss_esp0 s \<and>
     fs_img_start s' = fs_img_start s \<and> page_directory s' = page_directory s \<and>
     page_table s' = page_table s \<and> pt_addr s' = pt_addr s"

lemma same_tables_refl: "same_tables s s"
  by (simp add: same_tables_def)

lemma same_tables_trans: "same_tables s s' \<Longrightarrow> same_tables s' s'' \<Longrightarrow> same_tables s s''"
  by (simp add: same_tables_def)

lemma same_tables_upd [simp]:
  "same_tables s (s\<lparr>phys := m\<rparr>)" "same_tables s (sti s)" "same_tables s (cli s)"
  by (simp_all add: same_tables_def)

lemma console_frame_tables:
  assumes "console_frame s s'"
  shows "same_tables s s'"
  using assms by (cases s; cases s') (simp add: same_tables_def console_frame_def)

lemma get_free_pid_cases:
  obtains "get_free_pid s = - 1" "\<forall>i < 6. active_pids s i \<noteq> - 1"
  | p where "get_free_pid s = int p" "p < 6" "active_pids s p = - 1" "\<forall>q < p. active_pids s q \<noteq> - 1"
  unfolding get_free_pid_def
  by (rule first_index_cases[of "\<lambda>i. active_pids s i = - 1" 0 6]) auto

text \<open>The new process: the lowest free pid, marked created, its PCB filled in, its page mapped.\<close>

definition created :: "int \<Rightarrow> nat \<Rightarrow> int \<Rightarrow> reader \<Rightarrow> 'a kernel_state_scheme \<Rightarrow> 'a kernel_state_scheme \<Rightarrow> bool" where
  "created pid terminal parent fargs s s' \<longleftrightarrow>
     (\<exists>p < 6. pid = int p \<and> active_pids s p = - 1 \<and> (\<forall>q < p. active_pids s q \<noteq> - 1) \<and>
        active_pids s' = (active_pids s)(p := 0)) \<and>
     pcbs s' = (pcbs s)(get_pcb_pointer pid :=
        init_pcb pid terminal (if parent \<noteq> - 1 then get_pcb_pointer (current_pid s) else 0) fargs
          (pcbs s (get_pcb_pointer pid))) \<and>
     current_pid s' = current_pid s \<and> file_descriptors s' = file_descriptors s \<and>
     terminal_pids s' = terminal_pids s \<and> tss_esp0 s' = tss_esp0 s \<and> fs_img_start s' = fs_img_start s \<and>
     page_directory s' = page_directory (set_paging_for_process pid s) \<and>
     page_table s' = page_table s \<and> pt_addr s' = pt_addr s \<and> \<not> iflag s'"

lemma page_directory_set_paging:
  "page_directory s = page_directory t \<Longrightarrow>
   page_directory (set_paging_for_process pid s) = page_directory (set_paging_for_process pid t)"
  by (simp add: set_paging_for_process_def flush_tlb_def set_pde_def)

lemma create_executable_result:
  assumes "create_executable fr ino fargs terminal parent s = Some (pid, s')"
  shows "pid = - 1 \<and> same_tables s s' \<or> created pid terminal parent fargs s s'"
proof (cases rule: get_free_pid_cases[of "sti s"])
  case 1
  then obtain n where n: "pid = - 1" "printf (loc_conv_buf fr) (ascii ''Too many processes'' @ [10]) [] (sti s) = Some (n, s')"
    using assms by (auto simp: create_executable_def Let_def split: option.splits)
  have "same_tables s s'"
    using same_tables_trans[OF same_tables_upd(2) console_frame_tables[OF printf_frame[OF n(2)]]] .
  then show ?thesis using n(1) by blast
next
  case (2 p)
  let ?s1 = "cli ((sti s)\<lparr>active_pids := (active_pids s)(p := 0)\<rparr>)"
  let ?s2 = "set_paging_for_process (int p) ?s1"
  obtain m where m: "pid = int p"
      "s' = upd_pcb (get_pcb_pointer (int p)) (init_pcb (int p) terminal
         (if parent \<noteq> - 1 then get_pcb_pointer (current_pid s) else 0) fargs) (?s2\<lparr>phys := m\<rparr>)"
    using assms unfolding create_executable_def Let_def 2(1)
    by (simp cong: if_cong split: option.splits) blast
  have pd: "page_directory ?s2 = page_directory (set_paging_for_process (int p) s)"
    by (rule page_directory_set_paging) (simp add: sti_def cli_def)
  have "active_pids s p = - 1" "\<forall>q < p. active_pids s q \<noteq> - 1" using 2 by simp_all
  then have "created pid terminal parent fargs s s'"
    using 2(2) pd unfolding created_def m
    by (intro conjI exI[of _ p]) (simp_all add: cli_def sti_def)
  then show ?thesis by blast
qed

lemma process_create_result:
  assumes "process_create fr command terminal parent s = Some (pid, s')"
  defines "fargs \<equiv> snd (parse_command command 0 (loc_file_name fr) (loc_file_args fr))"
  shows "pid = - 1 \<and> same_tables s s' \<or> created pid terminal parent fargs s s'"
proof -
  obtain fname where pc: "parse_command command 0 (loc_file_name fr) (loc_file_args fr) = (fname, fargs)"
    unfolding fargs_def by (metis prod.collapse)
  obtain r d where rd: "read_dentry_by_name (xlate s) (phys s) (fs_img_start s) (Some fname) (loc_dentry fr) = Some (r, d)"
    using assms(1) pc by (auto simp: process_create_def split: option.splits)
  obtain n m where dt: "read_data (xlate s) (phys s) (fs_img_start s) (inode_num d) 0 (loc_start_bytes fr) 4 = (n, m)"
    by (metis surj_pair)
  let ?s1 = "s\<lparr>phys := m\<rparr>"
  let ?start = "ptr (xlate ?s1) (phys ?s1) (loc_start_bytes fr)"
  let ?elf = "strncmp (\<lambda>i. ?start (i + 1)) (lit (ascii ''ELF'')) 3 = 0 \<and> ?start 0 = 0x7F"
  note eq = assms(1)[unfolded process_create_def pc prod.case rd option.case dt Let_def]
  consider "r = - 1 \<or> file_type d \<noteq> 2" | "\<not> (r = - 1 \<or> file_type d \<noteq> 2)" "n \<noteq> 4 \<or> \<not> ?elf"
    | "\<not> (r = - 1 \<or> file_type d \<noteq> 2)" "\<not> (n \<noteq> 4 \<or> \<not> ?elf)" by blast
  then show ?thesis
  proof cases
    case 1
    then have "pid = - 1 \<and> s' = s" using eq by (cases "r = - 1") simp_all
    then show ?thesis using same_tables_refl by blast
  next
    case 2
    then have "pid = - 1 \<and> s' = ?s1" using eq by (cases "n = 4") (simp_all only: if_True if_False simp_thms, simp_all)
    then show ?thesis by simp
  next
    case 3
    then have "create_executable fr (inode_num d) fargs terminal parent ?s1 = Some (pid, s')"
      using eq by (simp only: simp_thms if_True if_False de_Morgan_disj)
    from create_executable_result[OF this]
    consider "pid = - 1" "same_tables ?s1 s'" | "created pid terminal parent fargs ?s1 s'" by blast
    then show ?thesis
    proof cases
      case 1
      then show ?thesis using same_tables_trans[OF same_tables_upd(1)] by blast
    next
      case 2
      moreover have "page_directory (set_paging_for_process pid ?s1) = page_directory (set_paging_for_process pid s)"
        by (rule page_directory_set_paging) simp
      ultimately show ?thesis unfolding created_def by simp
    qed
  qed
qed

lemma created_pid: "created pid terminal parent fargs s s' \<Longrightarrow> 0 \<le> pid \<and> pid < 6 \<and> pid mod 256 = pid"
  by (auto simp: created_def)

section \<open>execute and halt\<close>

text \<open>The state a process starts in.\<close>

definition started :: "int \<Rightarrow> u32 \<times> u32 \<Rightarrow> 'a kernel_state_scheme \<Rightarrow> 'a kernel_state_scheme \<Rightarrow> bool" where
  "started pid regs s s' \<longleftrightarrow>
     active_pids s' = (active_pids s)(nat pid := 1) \<and> pcbs s' = pcbs (save_regs regs s) \<and>
     current_pid s' = pid \<and> file_descriptors s' = get_pcb_pointer pid \<and>
     terminal_pids s' = (terminal_pids s)(terminal_id (pcbs s (get_pcb_pointer pid)) := pid) \<and>
     tss_esp0 s' = get_kernel_start_esp pid \<and> fs_img_start s' = fs_img_start s \<and>
     page_directory s' = page_directory (set_paging_for_process pid s) \<and>
     page_table s' = page_table s \<and> pt_addr s' = pt_addr s \<and> phys s' = phys s \<and> iflag s'"

lemma process_start_ok:
  assumes "0 \<le> pid" "pid < 6" "active_pids s (nat pid) = 0"
  shows "\<exists>entry s'. process_start regs pid s = (Iret entry 0x083FFFFC, s') \<and> started pid regs s s'"
proof -
  have "pid mod 256 = pid" using assms by simp
  moreover have "pcbs (save_regs regs (set_paging_for_process pid (s\<lparr>active_pids := a\<rparr>))) = pcbs (save_regs regs s)" for a
    by (simp add: save_regs_def)
  moreover have "page_directory (set_paging_for_process pid (s\<lparr>active_pids := a\<rparr>)) = page_directory (set_paging_for_process pid s)" for a
    by (rule page_directory_set_paging) simp
  ultimately show ?thesis using assms
    by (simp add: process_start_def Let_def started_def BLOCK_START_def sti_def)
qed

lemma process_start_fail: "process_start regs (- 1) s = (Return (- 1), s)"
  by (simp add: process_start_def)

lemma execute_result:
  assumes "execute_handler fr regs command s = Some (c, s')"
  shows "c = Return (- 1) \<and> same_tables s s' \<or>
     (\<exists>entry pid fargs t. c = Iret entry 0x083FFFFC \<and>
        created pid (terminal_id (pcbs s (get_pcb_pointer (current_pid s)))) (current_pid s) fargs s t \<and>
        started pid regs t s')"
proof -
  obtain pid t where t: "process_create fr command (terminal_id (pcbs s (get_pcb_pointer (current_pid s)))) (current_pid s) s = Some (pid, t)"
      "process_start regs pid t = (c, s')"
    using assms by (auto simp: execute_handler_def split: option.splits)
  from process_create_result[OF t(1)] show ?thesis
  proof
    assume "pid = - 1 \<and> same_tables s t"
    then show ?thesis using t(2) process_start_fail[of regs t] by auto
  next
    assume cr: "created pid (terminal_id (pcbs s (get_pcb_pointer (current_pid s)))) (current_pid s)
        (snd (parse_command command 0 (loc_file_name fr) (loc_file_args fr))) s t"
    have "active_pids t (nat pid) = 0" using cr by (auto simp: created_def)
    then show ?thesis using process_start_ok[of pid t regs] created_pid[OF cr] cr t(2) by auto
  qed
qed


text \<open>Closing descriptors changes the running process's descriptor table and nothing else.\<close>

definition fds_frame :: "'a kernel_state_scheme \<Rightarrow> 'a kernel_state_scheme \<Rightarrow> bool" where
  "fds_frame s s' \<longleftrightarrow>
     (\<exists>f. pcbs s' = (pcbs s)(file_descriptors s := (pcbs s (file_descriptors s))\<lparr>pcb_fds := f\<rparr>)) \<and>
     file_descriptors s' = file_descriptors s \<and> active_pids s' = active_pids s \<and>
     current_pid s' = current_pid s \<and> terminal_pids s' = terminal_pids s \<and> tss_esp0 s' = tss_esp0 s \<and>
     fs_img_start s' = fs_img_start s \<and> phys s' = phys s \<and> iflag s' = iflag s \<and>
     page_directory s' = page_directory s \<and> page_table s' = page_table s \<and> pt_addr s' = pt_addr s"

lemma fds_frame_refl: "fds_frame s s"
  by (auto simp: fds_frame_def intro!: exI[of _ "pcb_fds (pcbs s (file_descriptors s))"])

lemma fds_frame_trans: "fds_frame s s' \<Longrightarrow> fds_frame s' s'' \<Longrightarrow> fds_frame s s''"
  by (auto simp: fds_frame_def)

lemma fds_frame_upd_fd: "fds_frame s (upd_fd i f s)"
  by (auto simp: fds_frame_def upd_fd_def upd_pcb_def)

lemma fds_frame_close_op: "fds_frame s (snd (close_op ops fd s))"
  by (cases ops) (auto simp: directory_close_def file_close_def terminal_close_def rtc_close_def
      fds_frame_refl intro: fds_frame_upd_fd)

lemma close_all_frame: "close_all is s = Some s' \<Longrightarrow> fds_frame s s'"
proof (induction "is" arbitrary: s)
  case (Cons i "is")
  then show ?case
    by (auto split: if_splits option.splits) (metis fds_frame_trans fds_frame_close_op)
qed (simp add: fds_frame_refl)

text \<open>Every descriptor in use has a jump table, and only 0 and 1 are the terminal's.\<close>

definition fds_ok :: "'a kernel_state_scheme \<Rightarrow> bool" where
  "fds_ok s \<longleftrightarrow> (\<forall>i \<in> in_use s. \<exists>ops. file_table_ptr (cur_fd s i) = Some ops \<and> (2 \<le> i \<longrightarrow> ops \<noteq> terminal_jumptable))"

lemma close_op_used:
  assumes "i \<in> in_use s" "ops \<noteq> terminal_jumptable"
  shows "in_use (snd (close_op ops (of_nat i) s)) = in_use s - {i}"
    "\<forall>j. j \<noteq> i \<longrightarrow> cur_fd (snd (close_op ops (of_nat i) s)) j = cur_fd s j"
proof -
  have v: "check_valid_fd (of_nat i) s \<noteq> - 1" using assms(1) by (auto simp: check_valid_fd_iff)
  have i: "nat (sint (of_nat i :: u32)) = i" using assms(1) sint_small[of i] by (simp add: in_use_def)
  show "in_use (snd (close_op ops (of_nat i) s)) = in_use s - {i}"
    "\<forall>j. j \<noteq> i \<longrightarrow> cur_fd (snd (close_op ops (of_nat i) s)) j = cur_fd s j"
    using assms v i
    by (cases ops; auto simp: directory_close_def file_close_def rtc_close_def in_use_def)+
qed

lemma close_all_used:
  assumes "fds_ok s" "\<forall>i \<in> set is. 2 \<le> i \<and> i < 8"
  shows "\<exists>s'. close_all is s = Some s' \<and> in_use s' = in_use s - set is"
  using assms
proof (induction "is" arbitrary: s)
  case (Cons i "is")
  show ?case
  proof (cases "inode (cur_fd s i) = - 1")
    case True
    then have "in_use s - set (i # is) = in_use s - set is" by (auto simp: in_use_def)
    then show ?thesis using Cons True by simp
  next
    case False
    then have u: "i \<in> in_use s" using Cons.prems(2) by (simp add: in_use_def)
    then obtain ops where ops: "file_table_ptr (cur_fd s i) = Some ops" "ops \<noteq> terminal_jumptable"
      using Cons.prems by (auto simp: fds_ok_def)
    note cl = close_op_used[OF u ops(2)]
    have "fds_ok (snd (close_op ops (of_nat i) s))"
      using Cons.prems(1) cl by (auto simp: fds_ok_def)
    then obtain s' where "close_all is (snd (close_op ops (of_nat i) s)) = Some s'"
        "in_use s' = in_use (snd (close_op ops (of_nat i) s)) - set is"
      using Cons.IH[of "snd (close_op ops (of_nat i) s)"] Cons.prems(2) by auto
    then show ?thesis using False ops cl(1) by auto
  qed
qed simp

text \<open>The running process \<open>p\<close>, as the tables have it.\<close>

definition running :: "int \<Rightarrow> 'a kernel_state_scheme \<Rightarrow> bool" where
  "running p s \<longleftrightarrow>
     0 \<le> p \<and> p < 6 \<and> current_pid s = p \<and> active_pids s (nat p) = 1 \<and>
     file_descriptors s = get_pcb_pointer p \<and> pcb_pid (pcbs s (get_pcb_pointer p)) = p \<and>
     terminal_pids s (terminal_id (pcbs s (get_pcb_pointer p))) = p \<and>
     tss_esp0 s = get_kernel_start_esp p \<and> user_frame s = nat (2 + p)"

lemma user_frame_directory:
  "page_directory s = page_directory (set_paging_for_process p t) \<Longrightarrow> 0 \<le> p \<Longrightarrow> p < 6 \<Longrightarrow>
   user_frame s = nat (2 + p)"
  using user_frame_set_paging[of p t] by (simp add: user_frame_def)

text \<open>The child when it halts: its own PCB may have changed, apart from the link to the parent.\<close>

definition about_to_halt :: "'a kernel_state_scheme \<Rightarrow> 'a kernel_state_scheme \<Rightarrow> bool" where
  "about_to_halt s t \<longleftrightarrow>
     current_pid t = current_pid s \<and> file_descriptors t = file_descriptors s \<and>
     active_pids t = active_pids s \<and> terminal_pids t = terminal_pids s \<and>
     (\<forall>a. a \<noteq> get_pcb_pointer (current_pid s) \<longrightarrow> pcbs t a = pcbs s a) \<and>
     parent_pcb (pcbs t (get_pcb_pointer (current_pid s))) = parent_pcb (pcbs s (get_pcb_pointer (current_pid s))) \<and>
     fds_ok t"

lemma halt_to_parent:
  assumes cl: "close_all [2..<8] (cli t) = Some t1" and fd: "file_descriptors t = get_pcb_pointer (current_pid t)"
    and pa: "parent_pcb (pcbs t (get_pcb_pointer (current_pid t))) = pp" "pp \<noteq> 0"
      "pp \<noteq> get_pcb_pointer (current_pid t)"
  defines "par \<equiv> pcbs t pp"
  shows "\<exists>u. halt_handler fr regs status t = Some (Resume (kernel_esp par) (kernel_ebp par) status, u) \<and>
     current_pid u = pcb_pid par \<and> file_descriptors u = pp \<and>
     terminal_pids u = (terminal_pids t)(terminal_id par := pcb_pid par) \<and>
     active_pids u = (active_pids t)(nat (current_pid t) := - 1) \<and>
     tss_esp0 u = get_kernel_start_esp (pcb_pid par) \<and> pcbs u = pcbs t1 \<and> pcbs u pp = par \<and>
     page_directory u = page_directory (set_paging_for_process (pcb_pid par) t) \<and>
     page_table u = page_table t \<and> pt_addr u = pt_addr t \<and> phys u = phys t \<and> fs_img_start u = fs_img_start t"
proof -
  note fr = close_all_frame[OF cl, unfolded fds_frame_def, simplified]
  then obtain f where f: "pcbs t1 = (pcbs t)(file_descriptors t := (pcbs t (file_descriptors t))\<lparr>pcb_fds := f\<rparr>)" by blast
  have par: "parent_pcb (pcbs t1 (get_pcb_pointer (current_pid t1))) = pp" "pcbs t1 pp = par"
    using f fd pa fr by (auto simp: par_def)
  have pd: "page_directory (set_paging_for_process q (t1\<lparr>tss_esp0 := a, file_descriptors := b,
      current_pid := q, terminal_pids := c, active_pids := d\<rparr>)) = page_directory (set_paging_for_process q t)" for q a b c d
    by (rule page_directory_set_paging) (use fr in simp)
  have h: "halt_handler fr regs status t = (
     let s2 = t1\<lparr>tss_esp0 := get_kernel_start_esp (pcb_pid par), file_descriptors := pp,
               current_pid := pcb_pid par,
               terminal_pids := (terminal_pids t1)(terminal_id par := pcb_pid par),
               active_pids := (active_pids t1)(nat (current_pid t1) := - 1)\<rparr>
     in Some (Resume (kernel_esp par) (kernel_ebp par) status, set_paging_for_process (current_pid s2) s2))"
    using pa(2) unfolding halt_handler_def cl option.case Let_def par by simp
  show ?thesis unfolding h Let_def using fr par pd by simp
qed

text \<open>A program that is executed and halts gives its parent the machine back as it was.\<close>

lemma execute_halt:
  assumes run: "running p s"
    and ex: "execute_handler fr regs command s = Some (Iret entry sp, s1)"
    and t: "about_to_halt s1 t"
  shows "\<exists>u. halt_handler fr' regs' status t = Some (Resume (fst regs) (snd regs) status, u) \<and>
     running p u \<and> active_pids u = active_pids s \<and> terminal_pids u = terminal_pids s \<and>
     pcbs u (get_pcb_pointer p) = (pcbs s (get_pcb_pointer p))\<lparr>kernel_esp := fst regs, kernel_ebp := snd regs\<rparr>"
proof -
  let ?pp = "get_pcb_pointer p"
  let ?T = "terminal_id (pcbs s ?pp)"
  obtain pid fargs v where cr: "created pid ?T p fargs s v" and st: "started pid regs v s1"
    using execute_result[OF ex] run by (auto simp: running_def)
  have p: "0 \<le> p" "p < 6" "p \<noteq> - 1" "current_pid s = p" using run by (auto simp: running_def)
  have pid: "0 \<le> pid" "pid < 6" using created_pid[OF cr] by simp_all
  have free: "active_pids s (nat pid) = - 1" "active_pids v = (active_pids s)(nat pid := 0)"
    using cr by (auto simp: created_def)
  have ne: "pid \<noteq> p" using free(1) run by (auto simp: running_def)
  then have nep: "get_pcb_pointer pid \<noteq> ?pp" using pcb_pointer_inj[OF pid p(1,2)] by simp
  have pv: "pcbs v = (pcbs s)(get_pcb_pointer pid := init_pcb pid ?T ?pp fargs (pcbs s (get_pcb_pointer pid)))"
    "current_pid v = p" "terminal_pids v = terminal_pids s"
    using cr p by (simp_all add: created_def)
  have s1: "current_pid s1 = pid" "file_descriptors s1 = get_pcb_pointer pid"
    "active_pids s1 = (active_pids s)(nat pid := 1)" "terminal_pids s1 = (terminal_pids s)(?T := pid)"
    "pcbs s1 ?pp = (pcbs s ?pp)\<lparr>kernel_esp := fst regs, kernel_ebp := snd regs\<rparr>"
    "parent_pcb (pcbs s1 (get_pcb_pointer pid)) = ?pp"
    using st pv free nep p by (simp_all add: started_def save_regs_def init_pcb_def)
  have tt: "current_pid t = pid" "file_descriptors t = get_pcb_pointer pid"
    "active_pids t = (active_pids s)(nat pid := 1)" "terminal_pids t = (terminal_pids s)(?T := pid)"
    "pcbs t ?pp = pcbs s1 ?pp" "parent_pcb (pcbs t (get_pcb_pointer pid)) = ?pp" "fds_ok t"
    using t s1 nep by (simp_all add: about_to_halt_def)
  have "fds_ok (cli t)" using tt(7) by (simp add: fds_ok_def in_use_def cur_fd_def)
  then obtain t1 where cl: "close_all [2..<8] (cli t) = Some t1"
    using close_all_used[of "cli t" "[2..<8]"] by auto
  have ppt: "parent_pcb (pcbs t (get_pcb_pointer (current_pid t))) = ?pp" "?pp \<noteq> get_pcb_pointer (current_pid t)"
    "file_descriptors t = get_pcb_pointer (current_pid t)" using tt nep by auto
  from halt_to_parent[OF cl ppt(3,1) pcb_pointer_nonzero[OF p(1,2)] ppt(2), of fr' regs' status]
  obtain u where u: "halt_handler fr' regs' status t = Some (Resume (kernel_esp (pcbs t ?pp)) (kernel_ebp (pcbs t ?pp)) status, u)"
      "current_pid u = pcb_pid (pcbs t ?pp)" "file_descriptors u = ?pp"
      "terminal_pids u = (terminal_pids t)(terminal_id (pcbs t ?pp) := pcb_pid (pcbs t ?pp))"
      "active_pids u = (active_pids t)(nat pid := - 1)" "tss_esp0 u = get_kernel_start_esp (pcb_pid (pcbs t ?pp))"
      "pcbs u ?pp = pcbs t ?pp" "page_directory u = page_directory (set_paging_for_process (pcb_pid (pcbs t ?pp)) t)"
    unfolding tt(1) by blast
  have par: "pcb_pid (pcbs t ?pp) = p" "terminal_id (pcbs t ?pp) = ?T" "kernel_esp (pcbs t ?pp) = fst regs"
    "kernel_ebp (pcbs t ?pp) = snd regs" using tt(5) s1(5) run by (simp_all add: running_def)
  have act: "active_pids u = active_pids s" using u(5) tt(3) free(1) by (simp add: fun_eq_iff)
  have tps: "terminal_pids u = terminal_pids s"
    using u(4) tt(4) par run by (simp add: running_def fun_eq_iff)
  have "user_frame u = nat (2 + p)" using user_frame_directory[OF u(8)] par p by simp
  then have "running p u"
    using run u par act tps tt(5) s1(5) by (simp add: running_def)
  then show ?thesis using u(1,7) par act tps tt(5) s1(5) by simp
qed

section \<open>Commands and arguments\<close>

lemma parse_command_args:
  assumes "\<forall>i < length nm. command (of_nat (pos + i)) = nm ! i \<and> nm ! i \<noteq> 0 \<and> nm ! i \<noteq> 32"
    and "command (of_nat (pos + length nm)) = 32" "pos + length nm < 32"
  shows "snd (parse_command command pos fn0 ar) =
     (\<lambda>i. if unat i < 128 then strncpy_out (\<lambda>j. command (of_nat (pos + length nm) + 1 + j)) 128 ! unat i else ar i)"
  using assms
proof (induction nm arbitrary: pos fn0)
  case Nil
  then show ?case by (subst parse_command.simps) (simp cong: if_cong)
next
  case (Cons c nm)
  have c: "command (of_nat pos) \<noteq> 0" "command (of_nat pos) \<noteq> 32" using Cons.prems(1) by force+
  have r: "\<forall>i < length nm. command (of_nat (Suc pos + i)) = nm ! i \<and> nm ! i \<noteq> 0 \<and> nm ! i \<noteq> 32"
  proof (intro allI impI)
    fix i assume "i < length nm"
    then show "command (of_nat (Suc pos + i)) = nm ! i \<and> nm ! i \<noteq> 0 \<and> nm ! i \<noteq> 32"
      using Cons.prems(1)[rule_format, of "Suc i"] by simp
  qed
  have "snd (parse_command command (Suc pos) (fn0(of_nat pos := command (of_nat pos))) ar) =
     (\<lambda>i. if unat i < 128 then strncpy_out (\<lambda>j. command (of_nat (Suc pos + length nm) + 1 + j)) 128 ! unat i else ar i)"
    by (rule Cons.IH[OF r]) (use Cons.prems in simp_all)
  then show ?case using c Cons.prems(3) by (subst parse_command.simps) (simp cong: if_cong)
qed

lemma strncpy_out_is_cstr:
  assumes "is_cstr src xs" "length xs < n" "n < 2 ^ 32"
  shows "strncpy_out src n = xs @ replicate (n - length xs) 0"
  using is_cstr_cstr[OF assms(1), of n] assms(2) by (simp add: strncpy_out_cstr)

lemma is_cstr_padded:
  assumes "0 \<notin> set xs" "length xs < 128"
  shows "is_cstr (\<lambda>i. if unat i < 128 then (xs @ replicate (128 - length xs) 0) ! unat i else f i) xs"
  using assms by (auto simp: is_cstr_def unat_of_nat32 nth_append in_set_conv_nth)

section \<open>A concrete creation\<close>

text \<open>What \<open>process_create\<close> does with the small image: the file \<open>a\<close> is an executable, any other
  name is not found.\<close>

definition fresh_frame :: create_frame where
  "fresh_frame = \<lparr>loc_file_name = (\<lambda>_. 0), loc_file_args = (\<lambda>_. 0),
     loc_dentry = \<lparr>file_name = replicate 32 0, file_type = 0, inode_num = 0\<rparr>,
     loc_start_bytes = 0x7E0000, loc_conv_buf = 0x7E0100\<rparr>"


lemma lit_is_cstr: "length bs < 2 ^ 32 \<Longrightarrow> 0 \<notin> set bs \<Longrightarrow> is_cstr (lit bs) bs"
  by (auto simp: is_cstr_def lit_def unat_of_nat32 in_set_conv_nth)

lemma kernel_image_paging:
  assumes "paging_inv s" "\<forall>a. 0x500000 \<le> unat a \<and> unat a < 0x600000 \<longrightarrow> m a = tiny_image (a - 0x500000)"
  shows "kernel_image (xlate s) m"
  using assms by (simp add: kernel_image_def xlate_kernel)

definition fresh_start :: mem where
  "fresh_start = write_bytes (xlate fresh_kernel) 0x7E0000 [127, 69, 76, 70] (\<lambda>a. tiny_image (a - 0x500000))"

lemma magic_length: "length [127, 69, 76, 70 :: byte] = 4"
  by simp

lemma fresh_start_image:
  assumes "paging_inv s"
  shows "kernel_image (xlate s) fresh_start"
proof (rule kernel_image_paging[OF assms], intro allI impI)
  fix a :: addr assume a: "0x500000 \<le> unat a \<and> unat a < 0x600000"
  have "b \<in> region 0x7E0000 4 \<Longrightarrow> xlate fresh_kernel b = b \<and> 0x7E0000 \<le> unat b" for b
    using region_kernel[OF fresh_kernel_image, of "0x7E0000" 4 b] by simp
  then have "a \<notin> xlate fresh_kernel ` region 0x7E0000 4" using a by fastforce
  then show "fresh_start a = tiny_image (a - 0x500000)"
    using write_bytes_other[of a "xlate fresh_kernel" "0x7E0000" "[127, 69, 76, 70]", unfolded magic_length]
    by (simp add: fresh_start_def del: write_bytes.simps)
qed

lemma fresh_command_lookup:
  assumes "is_cstr fname xs" "length xs < 32"
  shows "read_dentry_by_name (xlate fresh_kernel) (\<lambda>a. tiny_image (a - 0x500000)) 0x500000 (Some fname) d =
    Some (if xs = [97] then (0, found_dentry (xlate fresh_kernel) (\<lambda>a. tiny_image (a - 0x500000)) 0x500000 0 d)
          else if xs = [] then (0, found_dentry (xlate fresh_kernel) (\<lambda>a. tiny_image (a - 0x500000)) 0x500000 1 d)
          else (- 1, d))"
proof -
  have f: "find (\<lambda>i. entry_name (xlate fresh_kernel) (\<lambda>a. tiny_image (a - 0x500000)) 0x500000 i = xs) [0..<63] =
      (if xs = [97] then Some 0 else if xs = [] then Some 1 else None)"
  proof -
    have u: "[0..<63] = 0 # 1 # [2..<63]" by (simp add: upt_conv_Cons)
    have "find (\<lambda>i. entry_name (xlate fresh_kernel) (\<lambda>a. tiny_image (a - 0x500000)) 0x500000 i = xs) [2..<63] = None"
      if "xs \<noteq> []" using that by (auto simp: find_None_iff image_names[OF fresh_kernel_image])
    then show ?thesis unfolding u by (simp add: image_names[OF fresh_kernel_image])
  qed
  have "length xs < 2 ^ 31" using assms(2) by simp
  then show ?thesis using assms(2) by (simp add: read_dentry_by_name_find[OF assms(1)] f)
qed

lemma fresh_start_bytes:
  "read_data (xlate fresh_kernel) (\<lambda>a. tiny_image (a - 0x500000)) 0x500000 0 0 0x7E0000 4 = (4, fresh_start)"
proof -
  note i = fresh_kernel_image
  have "xlate fresh_kernel ` region 0x7E0000 4 \<inter>
      file_footprint (xlate fresh_kernel) (\<lambda>a. tiny_image (a - 0x500000)) 0x500000 0 = {}"
    using region_kernel[OF i, of "0x7E0000" 4] image_footprint[OF i] by fastforce
  then show ?thesis
    using read_data_content[of "xlate fresh_kernel" "\<lambda>a. tiny_image (a - 0x500000)" "0x500000" 0 "0x7E0000" 4 0]
    by (simp add: size_ok_def image_file_size[OF i] image_file[OF i] fresh_start_def)
qed

lemma fresh_magic:
  "strncmp (\<lambda>j. ptr (xlate fresh_kernel) fresh_start 0x7E0000 (j + 1)) (lit (ascii ''ELF'')) 3 = 0"
  "ptr (xlate fresh_kernel) fresh_start 0x7E0000 0 = 0x7F"
proof -
  have inj: "inj_on (xlate fresh_kernel) (region 0x7E0000 4)"
    using region_kernel[OF fresh_kernel_image, of "0x7E0000" 4] by (auto simp: inj_on_def)
  have b: "ptr (xlate fresh_kernel) fresh_start 0x7E0000 (of_nat k) = [127, 69, 76, 70] ! k" if "k < 4" for k
    using arg_cong[OF bytes_at_write_bytes[of "xlate fresh_kernel" "0x7E0000" "[127, 69, 76, 70]" "\<lambda>a. tiny_image (a - 0x500000)"],
      of "\<lambda>l. l ! k", unfolded magic_length] inj that
    by (simp add: ptr_def fresh_start_def del: write_bytes.simps)
  show "ptr (xlate fresh_kernel) fresh_start 0x7E0000 0 = 0x7F" using b[of 0] by simp
  have "cstr (\<lambda>j. ptr (xlate fresh_kernel) fresh_start 0x7E0000 (j + 1)) 3 = [69, 76, 70]"
    using b[of 1] b[of 2] b[of 3] by (simp add: cstr_def read_bytes_def upt_rec)
  moreover have "cstr (lit (ascii ''ELF'')) 3 = [69, 76, 70]"
    by (simp add: cstr_def read_bytes_def upt_rec lit_def ascii_def)
  ultimately show "strncmp (\<lambda>j. ptr (xlate fresh_kernel) fresh_start 0x7E0000 (j + 1)) (lit (ascii ''ELF'')) 3 = 0"
    by (simp add: strncmp_0)
qed

lemma paging_inv_frame [simp]:
  fixes t :: "'a paging_state_scheme" and u :: "'b kernel_state_scheme"
  shows "paging_inv (t\<lparr>phys := m\<rparr>) = paging_inv t" "paging_inv (sti t) = paging_inv t"
    "paging_inv (cli t) = paging_inv t" "paging_inv (u\<lparr>active_pids := f\<rparr>) = paging_inv u"
  by (simp_all add: paging_inv_def directory_inv_def table_inv_def sti_def cli_def)

lemma fresh_load:
  assumes inv: "paging_inv s" and pid: "0 \<le> pid" "pid < 6"
  defines "t \<equiv> set_paging_for_process pid s"
  shows "\<exists>m. load_loop (xlate t) 0x500000 0 0 (BLOCK_START + 0x00048000) fresh_start = Some m"
proof -
  have t: "paging_inv t" using inv by (simp add: t_def)
  note im = fresh_start_image[OF t]
  have uf: "user_frame t = nat (2 + pid)" using pid by (simp add: t_def user_frame_set_paging)
  have w: "0x800000 \<le> unat (xlate t a)" if a: "a \<in> region 0x8048000 4" for a
  proof -
    obtain i where i: "i < 4" "a = 0x8048000 + of_nat i" using a unfolding region_def by blast
    then have "unat a = 0x8048000 + i" by (simp add: unat_add_of_nat32)
    then obtain pa where "walk t a = Some (pa, True)" "unat pa = nat (2 + pid) * 0x400000 + (0x48000 + i)"
      using walk_user[OF t, of a] uf i(1) by auto
    then show ?thesis using pid(1) by (simp add: xlate_def translate_def)
  qed
  have "xlate t ` region 0x8048000 4 \<inter> file_footprint (xlate t) fresh_start 0x500000 0 = {}"
    using w image_footprint[OF im] by fastforce
  then show ?thesis
    using load_loop_content[of "xlate t" fresh_start "0x500000" 0 0 "0x8048000"]
    by (simp add: size_ok_def image_file_size[OF im] BLOCK_START_def)
qed

lemma fresh_parse:
  assumes "c \<noteq> 0" "c \<noteq> 32"
  shows "parse_command (lit [c]) 0 (\<lambda>_. 0) (\<lambda>_. 0) = ((\<lambda>_. 0)(0 := c, 1 := 0), (\<lambda>_. 0)(0 := 0))"
  using assms by (simp add: parse_command.simps lit_def)

lemma fresh_fname: "c \<noteq> 0 \<Longrightarrow> is_cstr ((\<lambda>_. 0)(0 := c, 1 := 0)) [c]"
  by (simp add: is_cstr_def)

lemma fresh_execute_fails: "execute_handler fresh_frame (0, 0) (lit [98]) fresh_kernel = Some (Return (- 1), fresh_kernel)"
proof -
  have "process_create fresh_frame (lit [98]) 0 0 fresh_kernel = Some (- 1, fresh_kernel)"
    by (simp add: process_create_def fresh_frame_def fresh_parse fresh_command_lookup[OF fresh_fname])
  then show ?thesis by (simp add: execute_handler_def fresh_pcb_def process_start_def)
qed

lemma fresh_execute: "\<exists>entry sp s'. execute_handler fresh_frame (0, 0) (lit [97]) fresh_kernel = Some (Iret entry sp, s')"
proof -
  let ?s = "(sti (fresh_kernel\<lparr>phys := fresh_start\<rparr>))"
  have pid: "get_free_pid ?s = 1"
    by (simp add: get_free_pid_def first_index_def upt_rec)
  have inv: "paging_inv (cli (?s\<lparr>active_pids := (active_pids ?s)(1 := 0)\<rparr>))"
    by (simp add: fresh_kernel_paging)
  obtain s2 where c: "process_create fresh_frame (lit [97]) 0 0 fresh_kernel = Some (1, s2)"
    using fresh_load[OF inv, of 1] fresh_magic pid
    by (auto simp: process_create_def fresh_frame_def fresh_parse fresh_command_lookup[OF fresh_fname] Let_def
        found_dentry_def image_fields[OF fresh_kernel_image] fresh_start_bytes create_executable_def)
  then have "active_pids s2 1 = 0"
    using process_create_result[OF c] by (auto simp: created_def)
  then show ?thesis
    using process_start_ok[of 1 s2 "(0, 0)"] c by (auto simp: execute_handler_def fresh_pcb_def)
qed

lemma fresh_running: "running 0 fresh_kernel"
proof -
  have "user_frame fresh_kernel = 2" using user_frame_set_paging[of 0] by (simp add: fresh_kernel_def)
  then show ?thesis by (simp add: running_def fresh_pcb_def)
qed


section \<open>Properties\<close>

text \<open>C22: an \<open>execute\<close> that comes back answers -1 and has changed none of the kernel's
  tables: no process slot taken, no control block, descriptor, terminal or page table touched.\<close>
theorem failed_execute_changes_nothing:
  assumes "execute_handler fr regs command s = Some (Return v, s')"
  shows "v = - 1 \<and> active_pids s' = active_pids s \<and> pcbs s' = pcbs s \<and> current_pid s' = current_pid s \<and>
    terminal_pids s' = terminal_pids s \<and> file_descriptors s' = file_descriptors s \<and>
    page_directory s' = page_directory s \<and> page_table s' = page_table s \<and> tss_esp0 s' = tss_esp0 s"
  using execute_result[OF assms] by (auto simp: same_tables_def)

lemma failed_execute_changes_nothing_witness:
  "\<exists>v s'. execute_handler fresh_frame (0, 0) (lit [98]) fresh_kernel = Some (Return v, s') \<and> v = - 1 \<and>
     active_pids s' = active_pids fresh_kernel"
  using failed_execute_changes_nothing[OF fresh_execute_fails] fresh_execute_fails by blast

text \<open>C24: the loader always returns, and then the whole file stands in memory from the load
  address on and nothing else has changed.\<close>
theorem load_loop_loads_file:
  assumes "size_ok tr m fs ino" "inj_on tr (region dest (file_size tr m fs ino))"
    and "tr ` region dest (file_size tr m fs ino) \<inter> file_footprint tr m fs ino = {}"
  shows "\<exists>m'. load_loop tr fs ino 0 dest m = Some m' \<and>
    bytes_at tr m' dest (file_size tr m fs ino) = file_content tr m fs ino \<and>
    (\<forall>p. p \<notin> tr ` region dest (file_size tr m fs ino) \<longrightarrow> m' p = m p)"
proof -
  let ?c = "file_content tr m fs ino"
  have l: "load_loop tr fs ino 0 dest m = Some (write_bytes tr dest ?c m)"
    using load_loop_content[OF assms(1), of 0 dest] assms(3) by simp
  have "length ?c \<le> 2 ^ 32" using assms(1) by (simp add: size_ok_def)
  then have "bytes_at tr (write_bytes tr dest ?c m) dest (length ?c) = ?c"
    using assms(2) by (intro bytes_at_write_bytes) simp_all
  then show ?thesis using l by (simp add: write_bytes_other)
qed

lemma load_loop_loads_file_witness:
  "\<exists>m'. load_loop (\<lambda>a. a) 0 0 0 0x9000 tiny_image = Some m' \<and> bytes_at (\<lambda>a. a) m' 0x9000 4 = [127, 69, 76, 70]"
proof -
  have s: "file_size (\<lambda>a. a) tiny_image 0 0 = 4" by (simp add: tiny_eval)
  have "(\<lambda>a. a) ` region 0x9000 4 \<inter> file_footprint (\<lambda>a. a) tiny_image 0 0 = {}"
    by (simp add: tiny_footprint region_upt upt_rec)
  then show ?thesis
    using load_loop_loads_file[of "\<lambda>a. a" tiny_image 0 0 "0x9000"] by (auto simp: s tiny_content size_ok_def)
qed

lemma execute_descriptors:
  assumes "execute_handler fr regs command s = Some (Iret entry sp, s1)"
  shows "in_use s1 = {0, 1} \<and> fds_ok s1"
proof -
  obtain pid fargs t T where c: "created pid T (current_pid s) fargs s t" and st: "started pid regs t s1"
    using execute_result[OF assms] by auto
  have "inode (cur_fd s1 i) = (if i < 2 then - 2 else - 1)" "i < 2 \<longrightarrow> file_table_ptr (cur_fd s1 i) = Some terminal_jumptable"
    if "i < 8" for i
    using c st that by (auto simp: created_def started_def cur_fd_def init_pcb_def)
  then have u: "i < 8 \<and> inode (cur_fd s1 i) \<noteq> - 1 \<longleftrightarrow> i < 2"
    and f: "i < 2 \<longrightarrow> file_table_ptr (cur_fd s1 i) = Some terminal_jumptable" for i
    by (cases "i < 8", auto split: if_splits)+
  have "in_use s1 = {i. i < 2}" unfolding in_use_def u ..
  then show ?thesis using f by (auto simp: fds_ok_def)
qed



lemma is_cstr_drop:
  assumes "is_cstr s xs" "k \<le> length xs"
  shows "is_cstr (\<lambda>j. s (of_nat k + j)) (drop k xs)"
  using assms by (auto simp: is_cstr_def simp flip: of_nat_add)

lemma is_cstr_nonzero: "is_cstr s xs \<Longrightarrow> 0 \<notin> set xs"
  by (auto simp: is_cstr_def in_set_conv_nth)

lemma process_create_args:
  assumes cmd: "is_cstr command (nm @ 32 # rest)" "32 \<notin> set nm" "length nm < 32" "length rest < 128"
    and create: "process_create fr command terminal parent s = Some (pid, s1)" "pid \<noteq> - 1"
  shows "is_cstr (args (pcbs s1 (get_pcb_pointer pid))) rest"
proof -
  have "created pid terminal parent (snd (parse_command command 0 (loc_file_name fr) (loc_file_args fr))) s s1"
    using process_create_result[OF create(1)] create(2) by blast
  moreover have "snd (parse_command command 0 fn ar) = (\<lambda>i. if unat i < 128 then (rest @ replicate (128 - length rest) 0) ! unat i else ar i)"
    for fn ar
  proof -
    have c: "\<forall>i < length (nm @ 32 # rest). command (of_nat i) = (nm @ 32 # rest) ! i \<and> (nm @ 32 # rest) ! i \<noteq> 0"
      using cmd(1) by (simp add: is_cstr_def)
    have a: "\<forall>i < length nm. command (of_nat (0 + i)) = nm ! i \<and> nm ! i \<noteq> 0 \<and> nm ! i \<noteq> 32"
    proof (intro allI impI)
      fix i assume i: "i < length nm"
      then have "nm ! i \<noteq> 32" using cmd(2) by (metis nth_mem)
      then show "command (of_nat (0 + i)) = nm ! i \<and> nm ! i \<noteq> 0 \<and> nm ! i \<noteq> 32"
        using c[rule_format, of i] i by (auto simp: nth_append)
    qed
    have b: "command (of_nat (0 + length nm)) = 32" using c[rule_format, of "length nm"] by (simp add: nth_append)
    have r: "is_cstr (\<lambda>j. command (of_nat (0 + length nm) + 1 + j)) rest"
    proof -
      have "Suc (length nm) \<le> length (nm @ 32 # rest)" by simp
      from is_cstr_drop[OF cmd(1) this] show ?thesis by (simp add: add_ac)
    qed
    show ?thesis
      using parse_command_args[OF a b, of fn ar] strncpy_out_is_cstr[OF r, of 128] cmd(3,4) by (simp cong: if_cong)
  qed
  moreover have z: "0 \<notin> set rest" using is_cstr_nonzero[OF cmd(1)] by simp
  ultimately have "args (pcbs s1 (get_pcb_pointer pid)) = (\<lambda>i. if unat i < 128
      then strncpy_out (\<lambda>i. if unat i < 128 then (rest @ replicate (128 - length rest) 0) ! unat i else loc_file_args fr i) 128 ! unat i
      else args (pcbs s (get_pcb_pointer pid)) i)"
    by (simp add: created_def init_pcb_def cong: if_cong)
  also have "strncpy_out (\<lambda>i. if unat i < 128 then (rest @ replicate (128 - length rest) 0) ! unat i else loc_file_args fr i) 128 =
      rest @ replicate (128 - length rest) 0"
    using strncpy_out_is_cstr[OF is_cstr_padded[OF z cmd(4)], of 128] cmd(4) by simp
  finally show ?thesis using is_cstr_padded[OF z cmd(4)] by simp
qed


lemma fresh_execute_args:
  "\<exists>s2. process_create fresh_frame (lit [97, 32, 98]) 0 0 fresh_kernel = Some (1, s2)"
proof -
  let ?s = "(sti (fresh_kernel\<lparr>phys := fresh_start\<rparr>))"
  have pid: "get_free_pid ?s = 1" by (simp add: get_free_pid_def first_index_def upt_rec)
  have inv: "paging_inv (cli (?s\<lparr>active_pids := (active_pids ?s)(1 := 0)\<rparr>))" by (simp add: fresh_kernel_paging)
  have "fst (parse_command (lit [97, 32, 98]) 0 (\<lambda>_. 0) (\<lambda>_. 0)) = (\<lambda>_. 0)(0 := 97, 1 := 0)"
    by (simp add: parse_command.simps lit_def)
  then obtain fa where "parse_command (lit [97, 32, 98]) 0 (\<lambda>_. 0) (\<lambda>_. 0) = ((\<lambda>_. 0)(0 := 97, 1 := 0), fa)"
    by (metis prod.collapse)
  then show ?thesis
    using fresh_load[OF inv, of 1] fresh_magic pid
    by (auto simp: process_create_def fresh_frame_def fresh_command_lookup[OF fresh_fname] Let_def
        found_dentry_def image_fields[OF fresh_kernel_image] fresh_start_bytes create_executable_def)
qed



lemma window_inj:
  assumes inv: "paging_inv s" and p: "0x8000000 \<le> unat p" "unat p + n \<le> 0x8400000"
  shows "inj_on (xlate s) (region p n)"
proof (rule inj_onI)
  fix a b assume ab: "a \<in> region p n" "b \<in> region p n" and eq: "xlate s a = xlate s b"
  have w: "\<exists>pa. xlate s c = pa \<and> unat pa = user_frame s * 0x400000 + (unat c - 0x8000000) \<and> 0x8000000 \<le> unat c"
    if c: "c \<in> region p n" for c
  proof -
    obtain i where "i < n" "c = p + of_nat i" using c unfolding region_def by blast
    then have "0x8000000 \<le> unat c" "unat c < 0x8400000" using p by (simp_all add: unat_add_of_nat32)
    then show ?thesis using walk_user[OF inv, of c] by (auto simp: xlate_def translate_def)
  qed
  from w[OF ab(1)] w[OF ab(2)] eq have "unat a = unat b" by auto
  then show "a = b" by (simp only: word_unat_eq_iff)
qed

text \<open>C27: \<open>vidmap\<close> gives a user program the page of its own terminal: the address it stores
  is one that user mode can reach, and behind it stands the displayed video page exactly when that
  terminal is the displayed one, and the terminal's own backing page otherwise.\<close>
theorem vidmap_maps_own_terminal:
  assumes "paging_inv s" "video_map cur s" "0x8000000 \<le> p" "p \<le> 0x80FFFFF"
  defines "T \<equiv> terminal_id (pcbs s (get_pcb_pointer (current_pid s)))"
  assumes "T < 3"
  shows "\<exists>v s'. vidmap_handler p s = (0, s') \<and> load32 (xlate s) (phys s') p = v \<and> user_accessible s v \<and>
    (\<forall>k < 4096. translate s (v + of_nat k) = Some (of_nat (term_frame cur T * 4096 + k)))"
proof -
  let ?v = "of_nat ((0xB9 + T) * 4096) :: u32"
  have p: "0x8000000 \<le> unat p" "unat p + 4 \<le> 0x8400000" using assms(3,4) by (simp_all add: word_le_nat_alt)
  have v: "of_nat (4096 * (VIDEO_MEM_INDEX + 1 + T)) = ?v" by (simp add: VIDEO_MEM_INDEX_def algebra_simps)
  have nz: "p \<noteq> 0" "\<not> p < 0x8000000" "\<not> 0x80FFFFF < p" using assms(3,4) by auto
  have h: "vidmap_handler p s = (0, s\<lparr>phys := store32 (xlate s) p ?v (phys s)\<rparr>)"
    using nz unfolding vidmap_handler_def T_def[symmetric] v by simp
  have l: "load32 (xlate s) (store32 (xlate s) p ?v (phys s)) p = ?v"
    by (rule load32_store32_same[OF window_inj[OF assms(1) p]])
  have u: "unat ?v = (0xB9 + T) * 4096" using assms(6) by (subst unat_of_nat32) simp_all
  have acc: "user_accessible s ?v" using user_accessible_iff[OF assms(1), of ?v] assms(6) unfolding u by simp
  have tr: "translate s (?v + of_nat k) = Some (of_nat (term_frame cur T * 4096 + k))" if "k < 4096" for k
  proof -
    have "unat (get_field 12 20 (page_table s (0xB9 + T))) = term_frame cur T"
      using assms(2,6) unat_of_nat32[of "0xB9 + T"] by (auto simp: video_map_def term_frame_def)
    then show ?thesis using walk_page[OF assms(1), of "0xB9 + T" k] that assms(6) by simp
  qed
  show ?thesis using h l acc tr by (intro exI[of _ ?v] exI[of _ "s\<lparr>phys := store32 (xlate s) p ?v (phys s)\<rparr>"]) simp
qed

lemma vidmap_maps_own_terminal_witness:
  "\<exists>v s'. vidmap_handler 0x8048000 fresh_kernel = (0, s') \<and> user_accessible fresh_kernel v \<and>
     load32 (xlate fresh_kernel) (phys s') 0x8048000 = v"
  using vidmap_maps_own_terminal[OF fresh_kernel_paging, of "0x8048000"] by (auto simp: fresh_pcb_def)

end
