(* ===== verification/RTC.thy ===== *)
theory RTC
  imports Process
begin

text \<open>
  The real time clock, \<open>interrupts/rtc.c\<close>: initialisation, the interrupt handler with the
  virtual frequency counters of the open RTC descriptors and the round-robin scheduler. What
  \<open>inb\<close> reads from the chip is an argument.
\<close>

record rtc_state = kernel_state +
  rtc_interrupt_flag :: int
  rtc_count :: int
  current_index :: nat

definition RTC_PORT :: u16 where "RTC_PORT = 0x70"
definition RTC_PORTD :: u16 where "RTC_PORTD = 0x71"
definition RTC_IRQ :: u32 where "RTC_IRQ = 8"
definition RTC_A_REG :: byte where "RTC_A_REG = 0x0A"
definition RTC_B_REG :: byte where "RTC_B_REG = 0x0B"
definition RTC_C_REG :: byte where "RTC_C_REG = 0x0C"
definition RTC_INT_MASK :: byte where "RTC_INT_MASK = 0x80"

lemmas rtc_consts = RTC_PORT_def RTC_PORTD_def RTC_IRQ_def RTC_A_REG_def RTC_B_REG_def RTC_C_REG_def RTC_INT_MASK_def

section \<open>Operations\<close>

definition rtc_init :: "byte \<Rightarrow> byte \<Rightarrow> 'a pic_state_scheme \<Rightarrow> 'a pic_state_scheme" where
  "rtc_init prevB prevA s =
     (let s1 = outb (RTC_B_REG OR RTC_INT_MASK) RTC_PORT s;
          s2 = outb (RTC_B_REG OR RTC_INT_MASK) RTC_PORT s1;
          s3 = outb (prevB OR 0x40) RTC_PORTD s2;
          s4 = outb (RTC_A_REG OR RTC_INT_MASK) RTC_PORT s3;
          s5 = outb (RTC_A_REG OR RTC_INT_MASK) RTC_PORT s4;
          s6 = outb ((prevA AND 0xF0) OR 0x06) RTC_PORTD s5;
          s7 = outb RTC_C_REG RTC_PORT s6
      in enable_irq RTC_IRQ s7)"

text \<open>\<open>log2_for_frequency\<close> returns -1 for zero and odd numbers.\<close>

function log2_loop :: "u32 \<Rightarrow> int \<Rightarrow> int" where
  "log2_loop number result = (if number > 1 then log2_loop (number div 2) (result + 1) else result)"
  by pat_completeness auto
termination
  by (relation "measure (\<lambda>(number, _). unat number)") (auto simp: word_less_nat_alt unat_div)

declare log2_loop.simps [simp del]

definition log2_for_frequency :: "u32 \<Rightarrow> int" where
  "log2_for_frequency number =
     (if number = 0 \<or> number mod 2 \<noteq> 0 then - 1 else log2_loop number 0)"

definition rtc_set_freq :: "byte \<Rightarrow> u32 \<Rightarrow> 'a pic_state_scheme \<Rightarrow> 'a pic_state_scheme" where
  "rtc_set_freq prev2 f s =
     (if f AND (f - 1) \<noteq> 0 \<or> f < 2 \<or> f > 1024 then s
      else let rate = 16 - log2_for_frequency f;
               s1 = outb (RTC_A_REG OR RTC_INT_MASK) RTC_PORT (cli s);
               s2 = outb (RTC_A_REG OR RTC_INT_MASK) RTC_PORT s1
           in sti (outb ((prev2 AND 0xF0) OR word_of_int rate) RTC_PORTD s2))"

definition rtc_disable :: "'a pic_state_scheme \<Rightarrow> u32 \<times> 'a pic_state_scheme" where
  "rtc_disable s = (0, disable_irq RTC_IRQ s)"

text \<open>One tick of the counters: the RTC descriptors of the process in front on each terminal.\<close>

definition tick_fd :: "nat \<Rightarrow> addr \<Rightarrow> 'a kernel_state_scheme \<Rightarrow> 'a kernel_state_scheme" where
  "tick_fd i a s =
     (let f = pcb_fds (pcbs s a) i
      in if file_table_ptr f = Some rtc_jumptable \<and> file_pos f > 0
         then upd_pcb a (\<lambda>p. p\<lparr>pcb_fds := (pcb_fds p)(i := f\<lparr>file_pos := file_pos f - 1\<rparr>)\<rparr>) s else s)"

definition rtc_tick :: "'a kernel_state_scheme \<Rightarrow> 'a kernel_state_scheme" where
  "rtc_tick s =
     fold (\<lambda>j s. if terminal_pids s j \<noteq> - 1
                 then fold (\<lambda>i s. tick_fd i (get_pcb_pointer (terminal_pids s j)) s) [2..<8] s else s)
       [0..<3] s"

text \<open>The scheduler's loop; the result is the frame of the process switched to.\<close>

fun schedule_loop :: "nat \<Rightarrow> u32 \<times> u32 \<Rightarrow> 'a rtc_state_scheme \<Rightarrow> (u32 \<times> u32) option \<times> 'a rtc_state_scheme" where
  "schedule_loop 0 regs s = (None, s)"
| "schedule_loop (Suc n) regs s =
     (let s1 = s\<lparr>current_index := (current_index s + 1) mod 3\<rparr>;
          pid = terminal_pids s1 (current_index s1)
      in if pid \<noteq> - 1 \<and> pid \<noteq> current_pid s1
         then (let (r, s2) = process_switch regs pid s1 in (Some r, s2))
         else schedule_loop n regs s1)"

definition rtc_handler :: "u32 \<times> u32 \<Rightarrow> 'a rtc_state_scheme \<Rightarrow> (u32 \<times> u32) option \<times> 'a rtc_state_scheme" where
  "rtc_handler regs s =
     (let s1 = sti (send_eoi RTC_IRQ (outb RTC_C_REG RTC_PORT (s\<lparr>rtc_interrupt_flag := 1\<rparr>)));
          s2 = rtc_tick s1;
          s3 = (if rtc_count s2 > 0 then s2\<lparr>rtc_count := rtc_count s2 - 1\<rparr> else s2)
      in if rtc_count s3 = 0 then schedule_loop 3 regs (s3\<lparr>rtc_count := 8\<rparr>)
         else (None, cli s3))"

section \<open>Frequencies\<close>

lemma log2_loop_pow: "k < 32 \<Longrightarrow> log2_loop (2 ^ k) r = r + int k"
proof (induction k arbitrary: r)
  case 0
  then show ?case by (subst log2_loop.simps) simp
next
  case (Suc k)
  have lt: "(2 :: nat) ^ Suc k < 2 ^ 32" "(2 :: nat) ^ k < 2 ^ 32"
    using Suc.prems by (intro power_strict_increasing; simp)+
  have u: "unat (2 ^ Suc k :: u32) = 2 ^ Suc k" "unat (2 ^ k :: u32) = 2 ^ k"
    using unat_of_nat32[OF lt(1)] unat_of_nat32[OF lt(2)] by simp_all
  have "unat ((2 ^ Suc k :: u32) div 2) = unat (2 ^ k :: u32)"
    unfolding unat_div u by simp
  then have d: "(2 ^ Suc k :: u32) div 2 = 2 ^ k" by (simp only: word_unat_eq_iff)
  have "(1 :: nat) < 2 ^ Suc k" by (rule one_less_power) simp_all
  then have "(1 :: u32) < 2 ^ Suc k" unfolding word_less_nat_alt u by simp
  then show ?case using Suc d by (subst log2_loop.simps) simp
qed

text \<open>The rate bits for a frequency of \<open>2^k\<close> Hz.\<close>

lemma log2_for_frequency_pow:
  assumes "1 \<le> k" "k < 32"
  shows "log2_for_frequency (2 ^ k) = int k"
proof -
  have lt: "(2 :: nat) ^ k < 2 ^ 32" using assms by (intro power_strict_increasing) simp_all
  have u: "unat (2 ^ k :: u32) = 2 ^ k" using unat_of_nat32[OF lt] by simp
  have "unat ((2 ^ k :: u32) mod 2) = 0" unfolding unat_mod u using assms by simp
  then have "(2 ^ k :: u32) mod 2 = 0" by (simp only: unat_eq_zero)
  moreover have "(2 ^ k :: u32) \<noteq> 0" using u by (metis unat_0 power_not_zero zero_neq_numeral)
  ultimately show ?thesis using log2_loop_pow[OF assms(2), of 0] by (simp add: log2_for_frequency_def)
qed

section \<open>Counters\<close>

text \<open>The effect of a tick on one descriptor.\<close>

definition ticked :: "fd \<Rightarrow> fd" where
  "ticked f = (if file_table_ptr f = Some rtc_jumptable \<and> file_pos f > 0
               then f\<lparr>file_pos := file_pos f - 1\<rparr> else f)"

lemma tick_fd_alt:
  "tick_fd i a s = upd_pcb a (\<lambda>p. p\<lparr>pcb_fds := (pcb_fds p)(i := ticked (pcb_fds p i))\<rparr>) s"
  by (simp add: tick_fd_def ticked_def Let_def upd_pcb_def)

definition tick_pcb :: "pcb \<Rightarrow> pcb" where
  "tick_pcb p = p\<lparr>pcb_fds := (\<lambda>i. if 2 \<le> i \<and> i < 8 then ticked (pcb_fds p i) else pcb_fds p i)\<rparr>"

lemma fold_tick_fd:
  assumes "distinct is"
  shows "fold (\<lambda>i s. tick_fd i (get_pcb_pointer (terminal_pids s j)) s) is s =
    s\<lparr>pcbs := (pcbs s)(get_pcb_pointer (terminal_pids s j) := (pcbs s (get_pcb_pointer (terminal_pids s j)))
        \<lparr>pcb_fds := (\<lambda>i. if i \<in> set is then ticked (pcb_fds (pcbs s (get_pcb_pointer (terminal_pids s j))) i)
                      else pcb_fds (pcbs s (get_pcb_pointer (terminal_pids s j))) i)\<rparr>)\<rparr>"
  using assms
proof (induction "is" arbitrary: s)
  case (Cons i "is")
  let ?a = "get_pcb_pointer (terminal_pids s j)"
  let ?s1 = "tick_fd i ?a s"
  have t: "terminal_pids ?s1 = terminal_pids s"
    "pcbs ?s1 = (pcbs s)(?a := (pcbs s ?a)\<lparr>pcb_fds := (pcb_fds (pcbs s ?a))(i := ticked (pcb_fds (pcbs s ?a) i))\<rparr>)"
    by (simp_all add: tick_fd_alt)
  have "?s1 = s\<lparr>pcbs := (pcbs s)(?a := (pcbs s ?a)\<lparr>pcb_fds := (pcb_fds (pcbs s ?a))(i := ticked (pcb_fds (pcbs s ?a) i))\<rparr>)\<rparr>"
    by (simp add: tick_fd_alt upd_pcb_def)
  then show ?case using Cons t by (auto simp: fun_eq_iff)
qed simp

text \<open>A tick, as one update of the PCBs of the processes in front.\<close>

lemma rtc_tick_pcbs:
  assumes "\<forall>i < 3. \<forall>j < 3. i \<noteq> j \<longrightarrow> terminal_pids s i \<noteq> - 1 \<longrightarrow> terminal_pids s j \<noteq> - 1 \<longrightarrow>
             get_pcb_pointer (terminal_pids s i) \<noteq> get_pcb_pointer (terminal_pids s j)"
  shows "rtc_tick s = s\<lparr>pcbs := (\<lambda>a. if \<exists>j < 3. terminal_pids s j \<noteq> - 1 \<and> a = get_pcb_pointer (terminal_pids s j)
                                    then tick_pcb (pcbs s a) else pcbs s a)\<rparr>"
proof -
  define at where "at q h a = (if q \<noteq> - 1 \<and> a = get_pcb_pointer q then tick_pcb (h a) else h a)"
    for q :: int and h :: "addr \<Rightarrow> pcb" and a
  have one: "(if terminal_pids u j \<noteq> - 1
       then fold (\<lambda>i s. tick_fd i (get_pcb_pointer (terminal_pids s j)) s) [2..<8] u else u) =
      u\<lparr>pcbs := at (terminal_pids u j) (pcbs u)\<rparr>" for j and u :: "'a kernel_state_scheme"
  proof (cases "terminal_pids u j = - 1")
    case True
    then have "at (terminal_pids u j) (pcbs u) = pcbs u" by (simp add: at_def fun_eq_iff)
    then show ?thesis using True by simp
  next
    case False
    then have "at (terminal_pids u j) (pcbs u) = (pcbs u)(get_pcb_pointer (terminal_pids u j) :=
        tick_pcb (pcbs u (get_pcb_pointer (terminal_pids u j))))"
      by (simp add: at_def fun_eq_iff)
    then show ?thesis using False by (simp add: fold_tick_fd tick_pcb_def del: upt_rec_numeral)
  qed
  have three: "[0..<3] = [0, 1, 2 :: nat]" by (simp add: upt_rec)
  have ex3: "(\<exists>j < 3. P j) \<longleftrightarrow> P 0 \<or> P 1 \<or> P 2" for P :: "nat \<Rightarrow> bool"
    by (auto simp: less_Suc_eq numeral_3_eq_3 numeral_2_eq_2)
  have d: "terminal_pids s 0 \<noteq> - 1 \<Longrightarrow> terminal_pids s 1 \<noteq> - 1 \<Longrightarrow>
      get_pcb_pointer (terminal_pids s 0) \<noteq> get_pcb_pointer (terminal_pids s 1)"
    "terminal_pids s 0 \<noteq> - 1 \<Longrightarrow> terminal_pids s 2 \<noteq> - 1 \<Longrightarrow>
      get_pcb_pointer (terminal_pids s 0) \<noteq> get_pcb_pointer (terminal_pids s 2)"
    "terminal_pids s 1 \<noteq> - 1 \<Longrightarrow> terminal_pids s 2 \<noteq> - 1 \<Longrightarrow>
      get_pcb_pointer (terminal_pids s 1) \<noteq> get_pcb_pointer (terminal_pids s 2)"
    using assms by simp_all
  have "rtc_tick s = s\<lparr>pcbs := at (terminal_pids s 2) (at (terminal_pids s 1) (at (terminal_pids s 0) (pcbs s)))\<rparr>"
    unfolding rtc_tick_def one three by simp
  moreover have "at (terminal_pids s 2) (at (terminal_pids s 1) (at (terminal_pids s 0) (pcbs s))) =
      (\<lambda>a. if \<exists>j < 3. terminal_pids s j \<noteq> - 1 \<and> a = get_pcb_pointer (terminal_pids s j)
           then tick_pcb (pcbs s a) else pcbs s a)"
    using d unfolding ex3 at_def fun_eq_iff by auto
  ultimately show ?thesis by simp
qed


section \<open>Waiting for the clock\<close>

text \<open>Descriptor \<open>k\<close> of the running process is an RTC descriptor, and the process is in front.\<close>

definition rtc_in_front :: "nat \<Rightarrow> 'a kernel_state_scheme \<Rightarrow> bool" where
  "rtc_in_front k s \<longleftrightarrow>
     2 \<le> k \<and> k < 8 \<and> file_table_ptr (cur_fd s k) = Some rtc_jumptable \<and>
     (\<exists>j < 3. terminal_pids s j \<noteq> - 1 \<and> file_descriptors s = get_pcb_pointer (terminal_pids s j)) \<and>
     (\<forall>i < 3. \<forall>j < 3. i \<noteq> j \<longrightarrow> terminal_pids s i \<noteq> - 1 \<longrightarrow> terminal_pids s j \<noteq> - 1 \<longrightarrow>
        get_pcb_pointer (terminal_pids s i) \<noteq> get_pcb_pointer (terminal_pids s j))"

lemma rtc_tick_fd:
  assumes "rtc_in_front k s"
  shows "cur_fd (rtc_tick s) k = ticked (cur_fd s k)" "rtc_in_front k (rtc_tick s)"
proof -
  note t = rtc_tick_pcbs[of s]
  have h: "\<forall>i < 3. \<forall>j < 3. i \<noteq> j \<longrightarrow> terminal_pids s i \<noteq> - 1 \<longrightarrow> terminal_pids s j \<noteq> - 1 \<longrightarrow>
        get_pcb_pointer (terminal_pids s i) \<noteq> get_pcb_pointer (terminal_pids s j)"
    using assms unfolding rtc_in_front_def by blast
  have "pcbs (rtc_tick s) (file_descriptors (rtc_tick s)) = tick_pcb (pcbs s (file_descriptors s))"
    using assms by (auto simp: t[OF h] rtc_in_front_def)
  then show fd: "cur_fd (rtc_tick s) k = ticked (cur_fd s k)"
    using assms by (simp add: cur_fd_def tick_pcb_def rtc_in_front_def)
  have "terminal_pids (rtc_tick s) = terminal_pids s" "file_descriptors (rtc_tick s) = file_descriptors s"
    by (simp_all add: t[OF h])
  then show "rtc_in_front k (rtc_tick s)" using assms fd by (simp add: rtc_in_front_def ticked_def)
qed

lemma spin_ticks:
  assumes "rtc_in_front k s" "unat (file_pos (cur_fd s k)) = m"
  shows "spin_while (\<lambda>t. file_pos (cur_fd t k) \<noteq> 0) (replicate n rtc_tick) s =
    (if m \<le> n then Some ((rtc_tick ^^ m) s, replicate (n - m) rtc_tick) else None)"
  using assms
proof (induction n arbitrary: s m)
  case 0
  have "m = 0 \<longleftrightarrow> file_pos (cur_fd s k) = 0" using 0(2) unat_eq_zero by metis
  then show ?case by (subst spin_while.simps) auto
next
  case (Suc n)
  show ?case
  proof (cases m)
    case 0
    then have "file_pos (cur_fd s k) = 0" using Suc.prems(2) by (simp add: unat_eq_zero)
    then show ?thesis using 0 by (subst spin_while.simps) simp
  next
    case m: (Suc l)
    then have nz: "file_pos (cur_fd s k) \<noteq> 0" using Suc.prems(2) by auto
    have "file_pos (cur_fd (rtc_tick s) k) = file_pos (cur_fd s k) - 1"
      using rtc_tick_fd(1)[OF Suc.prems(1)] Suc.prems(1) nz
      by (simp add: ticked_def rtc_in_front_def word_gt_0 unat_gt_0)
    then have "unat (file_pos (cur_fd (rtc_tick s) k)) = l"
      using unat_minus_one_Suc[OF nz] Suc.prems(2) m by simp
    note IH = Suc.IH[OF rtc_tick_fd(2)[OF Suc.prems(1)] this]
    have "spin_while (\<lambda>t. file_pos (cur_fd t k) \<noteq> 0) (replicate (Suc n) rtc_tick) s =
        spin_while (\<lambda>t. file_pos (cur_fd t k) \<noteq> 0) (replicate n rtc_tick) (rtc_tick s)"
      using nz by (subst spin_while.simps) simp
    then show ?thesis using IH m by (simp add: funpow_Suc_right del: funpow.simps)
  qed
qed

text \<open>\<open>rtc_read\<close> blocks for exactly as many ticks as the descriptor's period.\<close>

lemma rtc_read_ticks:
  assumes "rtc_in_front k s"
  defines "m \<equiv> unat (flags (cur_fd s k))"
  shows "rtc_read (of_nat k) (replicate n rtc_tick) s =
    (if m \<le> n then Some (0, (rtc_tick ^^ m) (upd_fd k (\<lambda>f. f\<lparr>file_pos := flags f\<rparr>) s)) else None)"
proof -
  let ?s = "upd_fd k (\<lambda>f. f\<lparr>file_pos := flags f\<rparr>) s"
  have k: "nat (sint (of_nat k :: u32)) = k" using assms(1) sint_small[of k] by (simp add: rtc_in_front_def)
  have "rtc_in_front k ?s" using assms(1) by (simp add: rtc_in_front_def)
  moreover have "unat (file_pos (cur_fd ?s k)) = m" by (simp add: m_def)
  ultimately show ?thesis using spin_ticks[of k ?s m n] by (simp add: rtc_read_def k)
qed

section \<open>Round robin\<close>

lemma schedule_loop_tables:
  "terminal_pids (snd (schedule_loop n regs s)) = terminal_pids s \<and>
   (current_index s < 3 \<longrightarrow> current_index (snd (schedule_loop n regs s)) < 3)"
proof (induction n arbitrary: s)
  case (Suc n)
  have "terminal_pids (snd (process_switch regs p t)) = terminal_pids t"
    "current_index (snd (process_switch regs p t)) = current_index t" for p and t :: "'a rtc_state_scheme"
    by (simp_all add: process_switch_def Let_def save_regs_def upd_pcb_def sti_def
        set_paging_for_process_def flush_tlb_def set_pde_def)
  then show ?case using Suc[of "s\<lparr>current_index := (current_index s + 1) mod 3\<rparr>"]
    by (simp add: Let_def case_prod_beta)
qed simp

text \<open>The pointer and the current pid after one scheduling decision.\<close>

fun next_slot :: "nat \<Rightarrow> (nat \<Rightarrow> int) \<Rightarrow> nat \<times> int \<Rightarrow> nat \<times> int" where
  "next_slot 0 tp (i, c) = (i, c)"
| "next_slot (Suc n) tp (i, c) =
     (let i' = (i + 1) mod 3
      in if tp i' \<noteq> - 1 \<and> tp i' \<noteq> c then (i', tp i' mod 256) else next_slot n tp (i', c))"

lemma schedule_loop_slot:
  "(current_index (snd (schedule_loop n regs s)), current_pid (snd (schedule_loop n regs s))) =
   next_slot n (terminal_pids s) (current_index s, current_pid s)"
proof (induction n arbitrary: s)
  case (Suc n)
  have "current_index (snd (process_switch regs p t)) = current_index t"
    "current_pid (snd (process_switch regs p t)) = p mod 256" for p and t :: "'a rtc_state_scheme"
    by (simp_all add: process_switch_def Let_def save_regs_def upd_pcb_def sti_def
        set_paging_for_process_def flush_tlb_def set_pde_def)
  then show ?case using Suc[of "s\<lparr>current_index := (current_index s + 1) mod 3\<rparr>"]
    by (simp add: Let_def case_prod_beta)
qed simp

text \<open>Every terminal that has a process gets the processor within three time slices.\<close>

lemma mod3_cycle:
  fixes a j :: nat
  assumes "a < 3" "j < 3"
  shows "(a + 1) mod 3 < 3" "((a + 1) mod 3 + 1) mod 3 < 3" "(((a + 1) mod 3 + 1) mod 3 + 1) mod 3 = a"
    "a \<noteq> (a + 1) mod 3" "a \<noteq> ((a + 1) mod 3 + 1) mod 3" "(a + 1) mod 3 \<noteq> ((a + 1) mod 3 + 1) mod 3"
    "j = (a + 1) mod 3 \<or> j = ((a + 1) mod 3 + 1) mod 3 \<or> j = a"
proof -
  have "a = 0 \<or> a = 1 \<or> a = 2" "j = 0 \<or> j = 1 \<or> j = 2" using assms by auto
  then show "(a + 1) mod 3 < 3" "((a + 1) mod 3 + 1) mod 3 < 3" "(((a + 1) mod 3 + 1) mod 3 + 1) mod 3 = a"
    "a \<noteq> (a + 1) mod 3" "a \<noteq> ((a + 1) mod 3 + 1) mod 3" "(a + 1) mod 3 \<noteq> ((a + 1) mod 3 + 1) mod 3"
    "j = (a + 1) mod 3 \<or> j = ((a + 1) mod 3 + 1) mod 3 \<or> j = a"
    by (elim disjE, simp_all)+
qed

lemma next_slot_fair:
  assumes tp: "\<forall>j < 3. tp j = - 1 \<or> 0 \<le> tp j \<and> tp j < 6"
    and d: "\<forall>i < 3. \<forall>j < 3. i \<noteq> j \<longrightarrow> tp i \<noteq> - 1 \<longrightarrow> tp i \<noteq> tp j"
    and i: "i < 3" and j: "j < 3" "tp j \<noteq> - 1"
  shows "\<exists>n \<le> 3. snd ((next_slot 3 tp ^^ n) (i, c)) = tp j"
proof -
  have m: "tp k mod 256 = tp k" if "k < 3" "tp k \<noteq> - 1" for k using tp that by auto
  have dd: "k < 3 \<Longrightarrow> l < 3 \<Longrightarrow> k \<noteq> l \<Longrightarrow> tp k \<noteq> - 1 \<Longrightarrow> tp k \<noteq> tp l" for k l
    using d by auto
  have step: "next_slot 3 tp (k, x) =
      (if tp a \<noteq> - 1 \<and> tp a \<noteq> x then (a, tp a) else if tp b \<noteq> - 1 \<and> tp b \<noteq> x then (b, tp b)
       else if tp e \<noteq> - 1 \<and> tp e \<noteq> x then (e, tp e) else (e, x))"
    if abe: "a = (k + 1) mod 3" "b = (a + 1) mod 3" "e = (b + 1) mod 3" for k x a b e
  proof -
    have lt: "a < 3" "b < 3" "e < 3" by (simp_all add: abe)
    have "next_slot 3 tp (k, x) = next_slot (Suc (Suc (Suc 0))) tp (k, x)" by (simp only: numeral_3_eq_3)
    also have "\<dots> = (if tp a \<noteq> - 1 \<and> tp a \<noteq> x then (a, tp a mod 256)
        else if tp b \<noteq> - 1 \<and> tp b \<noteq> x then (b, tp b mod 256)
        else if tp e \<noteq> - 1 \<and> tp e \<noteq> x then (e, tp e mod 256) else (e, x))"
      by (simp only: next_slot.simps Let_def abe)
    finally show ?thesis using m[OF lt(1)] m[OF lt(2)] m[OF lt(3)] by simp
  qed
  have sync: "tp j = snd (next_slot 3 tp (a, tp a)) \<or> tp j = snd (next_slot 3 tp (next_slot 3 tp (a, tp a)))"
    if a: "a < 3" "tp a \<noteq> - 1" "a \<noteq> j" for a
  proof -
    define b where "b = (a + 1) mod 3"
    define e where "e = (b + 1) mod 3"
    note cyc = mod3_cycle[OF a(1) j(1), folded b_def, folded e_def]
    have jb: "j = b \<or> j = e" using cyc(7) a(3) by (elim disjE) simp_all
    note be = cyc(1-6) jb
    have ne: "tp a \<noteq> tp b" "tp e \<noteq> tp a"
      using dd[OF a(1) be(1) be(4) a(2)] dd[OF a(1) be(2) be(5) a(2)] by simp_all
    have st1: "next_slot 3 tp (a, tp a) = (if tp b \<noteq> - 1 then (b, tp b) else if tp e \<noteq> - 1 then (e, tp e) else (a, tp a))"
      using step[OF b_def e_def be(3)[symmetric], of "tp a"] ne by simp
    have st2: "next_slot 3 tp (b, tp b) = (e, tp e)" if "tp e \<noteq> - 1" "tp b \<noteq> - 1"
    proof -
      have "tp e \<noteq> tp b" by (rule dd[OF be(2) be(1) be(6)[symmetric] that(1)])
      then show ?thesis using step[OF e_def be(3)[symmetric] b_def, of "tp b"] that by simp
    qed
    show ?thesis using be(7) j(2) st1 st2 by (cases "tp b = - 1") auto
  qed
  have fp: "(f ^^ 2) x = f (f x)" "(f ^^ 3) x = f (f (f x))" for f :: "nat \<times> int \<Rightarrow> nat \<times> int" and x
    by (simp_all add: eval_nat_numeral)
  show ?thesis
  proof (cases "c = tp j")
    case True
    then show ?thesis by (intro exI[of _ 0]) simp
  next
    case False
    obtain a where a: "next_slot 3 tp (i, c) = (a, tp a)" "a < 3" "tp a \<noteq> - 1"
    proof -
      define b where "b = (i + 1) mod 3"
      define e where "e = (b + 1) mod 3"
      note cyc = mod3_cycle[OF i j(1), folded b_def, folded e_def]
      note be = cyc(1-3,7)
      have "next_slot 3 tp (i, c) = (if tp b \<noteq> - 1 \<and> tp b \<noteq> c then (b, tp b)
          else if tp e \<noteq> - 1 \<and> tp e \<noteq> c then (e, tp e)
          else if tp i \<noteq> - 1 \<and> tp i \<noteq> c then (i, tp i) else (i, c))"
        using step[OF b_def e_def be(3)[symmetric], of c] by simp
      then consider "next_slot 3 tp (i, c) = (b, tp b)" "tp b \<noteq> - 1"
        | "next_slot 3 tp (i, c) = (e, tp e)" "tp e \<noteq> - 1"
        | "next_slot 3 tp (i, c) = (i, tp i)" "tp i \<noteq> - 1"
        | "tp b = - 1 \<or> tp b = c" "tp e = - 1 \<or> tp e = c" "tp i = - 1 \<or> tp i = c" by presburger
      then show thesis
      proof cases
        case 4
        then have "tp j = - 1 \<or> tp j = c" using be(4) by (elim disjE) simp_all
        then show thesis using j(2) False by simp
      qed (use that[of b] that[of e] that[of i] be(1,2) i in simp_all)
    qed
    show ?thesis
    proof (cases "a = j")
      case True
      then show ?thesis using a by (intro exI[of _ 1]) simp
    next
      case False
      from sync[OF a(2,3) this] show ?thesis
      proof
        assume "tp j = snd (next_slot 3 tp (a, tp a))"
        then show ?thesis using a(1) fp(1)[of "next_slot 3 tp"] by (intro exI[of _ 2]) simp
      next
        assume "tp j = snd (next_slot 3 tp (next_slot 3 tp (a, tp a)))"
        then show ?thesis using a(1) fp(2)[of "next_slot 3 tp"] by (intro exI[of _ 3]) simp
      qed
    qed
  qed
qed

section \<open>Properties\<close>

text \<open>C30: \<open>rtc_read\<close> blocks for exactly one period of its own virtual clock: with the process
  in front of its terminal, it returns (with 0) as soon as as many ticks have come as the period
  set for that descriptor counts, and not before.\<close>
theorem rtc_read_waits_one_period:
  assumes "rtc_in_front k s"
  shows "((\<exists>r t. rtc_read (of_nat k) (replicate n rtc_tick) s = Some (r, t)) \<longleftrightarrow> unat (flags (cur_fd s k)) \<le> n) \<and>
    (\<forall>r t. rtc_read (of_nat k) (replicate n rtc_tick) s = Some (r, t) \<longrightarrow> r = 0)"
  using rtc_read_ticks[OF assms, of n] by (auto split: if_splits)

definition rtc_opened :: kernel_state where
  "rtc_opened = snd (rtc_open fresh_kernel)"

lemma rtc_opened_front: "rtc_in_front 3 rtc_opened" "flags (cur_fd rtc_opened 3) = 512"
proof -
  have "get_free_fd fresh_kernel = 3"
    by (simp add: get_free_fd_def first_index_def upt_rec fresh_pcb_def free_fd_def)
  then have o: "rtc_opened = upd_fd 3 (\<lambda>_. \<lparr>file_table_ptr = Some rtc_jumptable, inode = 0, file_pos = 512, flags = 512\<rparr>) fresh_kernel"
    by (simp add: rtc_opened_def rtc_open_def open_fd_def)
  have "\<forall>i < 3. \<forall>j < 3. i \<noteq> j \<longrightarrow> terminal_pids fresh_kernel i \<noteq> - 1 \<longrightarrow> terminal_pids fresh_kernel j = - 1"
    by simp
  then show "rtc_in_front 3 rtc_opened" "flags (cur_fd rtc_opened 3) = 512"
    by (auto simp: o rtc_in_front_def intro!: exI[of _ 0])
qed

lemma rtc_read_waits_one_period_witness:
  "(\<exists>r t. rtc_read 3 (replicate 512 rtc_tick) rtc_opened = Some (r, t)) \<and>
   \<not> (\<exists>r t. rtc_read 3 (replicate 511 rtc_tick) rtc_opened = Some (r, t))"
  using rtc_read_waits_one_period[OF rtc_opened_front(1), of 512]
    rtc_read_waits_one_period[OF rtc_opened_front(1), of 511] by (simp add: rtc_opened_front(2))

lemma rtc_tick_frame [simp]:
  "terminal_pids (rtc_tick s) = terminal_pids s" "current_pid (rtc_tick s) = current_pid s"
  "current_index (rtc_tick t) = current_index t" "rtc_count (rtc_tick t) = rtc_count t"
proof -
  have a: "terminal_pids (upd_pcb a f u) = terminal_pids u" "current_pid (upd_pcb a f u) = current_pid u"
    for a f and u :: "'c kernel_state_scheme" by (simp_all add: upd_pcb_def)
  have b: "current_index (upd_pcb a f u) = current_index u" "rtc_count (upd_pcb a f u) = rtc_count u"
    for a f and u :: "'c rtc_state_scheme" by (simp_all add: upd_pcb_def)
  have i: "Q (fold (\<lambda>i u. tick_fd i (get_pcb_pointer (terminal_pids u j)) u) ks u) = Q u"
    if "\<And>a f u. Q (upd_pcb a f u) = Q u" for Q :: "'c kernel_state_scheme \<Rightarrow> 'd" and ks u j
    by (induction ks arbitrary: u) (simp_all add: tick_fd_alt that)
  have o: "Q (rtc_tick u) = Q u" if "\<And>a f u. Q (upd_pcb a f u) = Q u"
    for Q :: "'c kernel_state_scheme \<Rightarrow> 'd" and u
  proof -
    have "Q (fold (\<lambda>j u. if terminal_pids u j \<noteq> - 1
        then fold (\<lambda>i u. tick_fd i (get_pcb_pointer (terminal_pids u j)) u) ks u else u) js u) = Q u" for ks js
      by (induction js arbitrary: u) (simp_all add: i[OF that])
    from this[of "[2..<8]"] show ?thesis unfolding rtc_tick_def by blast
  qed
  show "terminal_pids (rtc_tick s) = terminal_pids s" "current_pid (rtc_tick s) = current_pid s"
    "current_index (rtc_tick t) = current_index t" "rtc_count (rtc_tick t) = rtc_count t"
    by (rule o, rule a, rule o, rule a, rule o, rule b, rule o, rule b)
qed

text \<open>One scheduling decision in terms of the slot and the running process.\<close>

definition slot_of :: "'a rtc_state_scheme \<Rightarrow> nat \<times> int" where
  "slot_of s = (current_index s, current_pid s)"

lemma rtc_handler_step:
  fixes s :: "'a rtc_state_scheme" and regs :: "u32 \<times> u32"
  assumes "0 \<le> rtc_count s" "rtc_count s \<le> 8"
  defines "c \<equiv> (if rtc_count s > 0 then rtc_count s - 1 else 0)"
  defines "u \<equiv> snd (rtc_handler regs s)"
  shows "terminal_pids u = terminal_pids s"
    "c = 0 \<Longrightarrow> slot_of u = next_slot 3 (terminal_pids s) (slot_of s) \<and> rtc_count u = 8"
    "c \<noteq> 0 \<Longrightarrow> slot_of u = slot_of s \<and> rtc_count u = c"
proof -
  let ?s1 = "sti (send_eoi RTC_IRQ (outb RTC_C_REG RTC_PORT (s\<lparr>rtc_interrupt_flag := 1\<rparr>)))"
  have s1: "terminal_pids ?s1 = terminal_pids s" "current_pid ?s1 = current_pid s"
    "current_index ?s1 = current_index s" "rtc_count ?s1 = rtc_count s"
    by (simp_all add: sti_def send_eoi_def outb_def)
  let ?s3 = "(if rtc_count (rtc_tick ?s1) > 0 then (rtc_tick ?s1)\<lparr>rtc_count := rtc_count (rtc_tick ?s1) - 1\<rparr> else rtc_tick ?s1)"
  define v where "v = ?s1"
  have sv: "terminal_pids v = terminal_pids s" "current_pid v = current_pid s"
    "current_index v = current_index s" "rtc_count v = rtc_count s" using s1 unfolding v_def by simp_all
  have s3: "terminal_pids ?s3 = terminal_pids s" "current_pid ?s3 = current_pid s"
    "current_index ?s3 = current_index s" "rtc_count ?s3 = c"
    unfolding v_def[symmetric] using assms(1) by (simp_all add: sv c_def)
  have h: "u = (if c = 0 then snd (schedule_loop 3 regs (?s3\<lparr>rtc_count := 8\<rparr>)) else cli ?s3)"
    unfolding u_def rtc_handler_def Let_def s3(4) by simp
  show "terminal_pids u = terminal_pids s"
    using schedule_loop_tables[of 3 regs "?s3\<lparr>rtc_count := 8\<rparr>"] s3(1) by (simp add: h cli_def)
  have cnt: "rtc_count (snd (schedule_loop n regs t)) = rtc_count t" for n and t :: "'a rtc_state_scheme"
    by (induction n regs t rule: schedule_loop.induct)
      (auto simp: Let_def process_switch_def save_regs_def sti_def set_paging_for_process_def flush_tlb_def set_pde_def upd_pcb_def split: prod.splits)
  show "slot_of u = next_slot 3 (terminal_pids s) (slot_of s) \<and> rtc_count u = 8" if "c = 0"
    using schedule_loop_slot[of 3 regs "?s3\<lparr>rtc_count := 8\<rparr>"] s3 that
    by (simp add: h slot_of_def cnt)
  show "slot_of u = slot_of s \<and> rtc_count u = c" if "c \<noteq> 0"
    using s3 that by (simp add: h slot_of_def cli_def)
qed

abbreviation ticks :: "(u32 \<times> u32) list \<Rightarrow> 'a rtc_state_scheme \<Rightarrow> 'a rtc_state_scheme" where
  "ticks rs s \<equiv> fold (\<lambda>r s. snd (rtc_handler r s)) rs s"

lemma ticks_slot:
  assumes "0 \<le> rtc_count s" "rtc_count s \<le> 8" "length rs = (if rtc_count s = 0 then 1 else nat (rtc_count s))"
  shows "slot_of (ticks rs s) = next_slot 3 (terminal_pids s) (slot_of s) \<and> rtc_count (ticks rs s) = 8 \<and>
    terminal_pids (ticks rs s) = terminal_pids s"
  using assms
proof (induction rs arbitrary: s)
  case Nil
  then show ?case by (simp split: if_splits)
next
  case (Cons r rs)
  let ?u = "snd (rtc_handler r s)"
  note st = rtc_handler_step[OF Cons.prems(1,2), of r]
  show ?case
  proof (cases "rtc_count s \<le> 1")
    case True
    then have "rtc_count s = 0 \<or> rtc_count s = 1" using Cons.prems(1) by linarith
    then have "rs = []" using Cons.prems(3) by auto
    then show ?thesis using True st Cons.prems(1) by (auto split: if_splits)
  next
    case False
    then have u: "slot_of ?u = slot_of s" "rtc_count ?u = rtc_count s - 1" "terminal_pids ?u = terminal_pids s"
      using st by auto
    have "length rs = (if rtc_count ?u = 0 then 1 else nat (rtc_count ?u))"
      using Cons.prems(3) False u(2) by simp
    then show ?thesis using Cons.IH[of ?u] u False Cons.prems(2) by simp
  qed
qed

lemma ticks_slots:
  assumes "0 \<le> rtc_count s" "rtc_count s \<le> 8" "8 * n \<le> length rs"
  shows "\<exists>k \<le> 8 * n. slot_of (ticks (take k rs) s) = (next_slot 3 (terminal_pids s) ^^ n) (slot_of s)"
  using assms
proof (induction n arbitrary: s rs)
  case 0
  then show ?case by simp
next
  case (Suc n)
  define m where "m = (if rtc_count s = 0 then 1 else nat (rtc_count s))"
  have m: "m \<le> 8" using Suc.prems(2) unfolding m_def by (simp add: nat_le_iff)
  let ?u = "ticks (take m rs) s"
  have "length (take m rs) = m" using m Suc.prems(3) by simp
  then have u: "slot_of ?u = next_slot 3 (terminal_pids s) (slot_of s)" "rtc_count ?u = 8"
    "terminal_pids ?u = terminal_pids s"
    using ticks_slot[of s "take m rs"] Suc.prems by (simp_all add: m_def)
  obtain k where "k \<le> 8 * n" "slot_of (ticks (take k (drop m rs)) ?u) = (next_slot 3 (terminal_pids s) ^^ n) (slot_of ?u)"
  proof -
    have "8 * n \<le> length (drop m rs)" using Suc.prems(3) m by simp
    then show ?thesis using that Suc.IH[of ?u "drop m rs"] u by auto
  qed
  then show ?case
    using m by (intro exI[of _ "m + k"]) (simp add: take_add u(1) funpow_swap1)
qed

lemma ticks_serve:
  assumes "\<forall>j < 3. terminal_pids s j = - 1 \<or> 0 \<le> terminal_pids s j \<and> terminal_pids s j < 6"
    and "\<forall>i < 3. \<forall>j < 3. i \<noteq> j \<longrightarrow> terminal_pids s i \<noteq> - 1 \<longrightarrow> terminal_pids s i \<noteq> terminal_pids s j"
    and "current_index s < 3" "0 \<le> rtc_count s" "rtc_count s \<le> 8"
    and "j < 3" "terminal_pids s j \<noteq> - 1" "24 \<le> length rs"
  shows "\<exists>k \<le> 24. current_pid (fold (\<lambda>r s. snd (rtc_handler r s)) (take k rs) s) = terminal_pids s j"
proof -
  obtain n where n: "n \<le> 3" "snd ((next_slot 3 (terminal_pids s) ^^ n) (slot_of s)) = terminal_pids s j"
    using next_slot_fair[OF assms(1-3,6,7), of "current_pid s"] by (auto simp: slot_of_def)
  obtain k where k: "k \<le> 8 * n" "slot_of (ticks (take k rs) s) = (next_slot 3 (terminal_pids s) ^^ n) (slot_of s)"
    using ticks_slots[OF assms(4,5), of n rs] n(1) assms(8) by auto
  then have "current_pid (ticks (take k rs) s) = terminal_pids s j"
    using n(2) unfolding k(2)[symmetric] by (simp add: slot_of_def)
  then show ?thesis using k(1) n(1) by (intro exI[of _ k]) simp
qed

text \<open>No terminal is starved: with the processes in front of the terminals pairwise
  different, at most 24 RTC interrupts pass, whatever runs first and wherever the round robin
  stands, until the processor is with the process of any given live terminal.\<close>
theorem scheduler_serves_every_terminal:
  assumes "\<forall>j < 3. terminal_pids s j = - 1 \<or> 0 \<le> terminal_pids s j \<and> terminal_pids s j < 6"
    and "\<forall>i < 3. \<forall>j < 3. i \<noteq> j \<longrightarrow> terminal_pids s i \<noteq> - 1 \<longrightarrow> terminal_pids s i \<noteq> terminal_pids s j"
    and "current_index s < 3" "0 \<le> rtc_count s" "rtc_count s \<le> 8"
    and "j < 3" "terminal_pids s j \<noteq> - 1" "24 \<le> length rs"
  shows "\<exists>k \<le> 24. current_pid (fold (\<lambda>r s. snd (rtc_handler r s)) (take k rs) s) = terminal_pids s j"
  by (rule ticks_serve[OF assms])

definition two_terminals :: rtc_state where
  "two_terminals = (kernel_state.extend fresh_kernel \<lparr>rtc_interrupt_flag = 0, rtc_count = 0, current_index = 0\<rparr>)
     \<lparr>terminal_pids := (\<lambda>i. if i = 0 then 0 else if i = 1 then 4 else - 1)\<rparr>"

lemma scheduler_serves_every_terminal_witness:
  "\<exists>k \<le> 24. current_pid (fold (\<lambda>r s. snd (rtc_handler r s)) (take k (replicate 24 (0, 0))) two_terminals) = 4"
  using scheduler_serves_every_terminal[of two_terminals 1 "replicate 24 (0, 0)"]
  by (simp add: two_terminals_def kernel_state.defs del: take_replicate)

text \<open>The rate written for a frequency is the hardware's: for every power of two from 2 to
  1024 the RTC's rate selector \<open>16 - log2 f\<close> stands for a frequency of \<open>32768 / 2^(rate - 1)\<close> Hz,
  and that is \<open>f\<close>.\<close>
theorem rtc_rate_gives_frequency:
  assumes "1 \<le> k" "k \<le> 10"
  shows "\<exists>s2. rtc_set_freq prev (2 ^ k) s =
      sti (outb ((prev AND 0xF0) OR word_of_int (16 - int k)) RTC_PORTD s2) \<and>
    32768 div 2 ^ (16 - k - 1) = (2 :: nat) ^ k"
proof -
  have "\<not> ((2 :: u32) ^ k AND (2 ^ k - 1) \<noteq> 0 \<or> (2 :: u32) ^ k < 2 \<or> (2 :: u32) ^ k > 1024)"
    using valid_frequency_iff[of "2 ^ k"] assms by blast
  moreover have "log2_for_frequency (2 ^ k) = int k" using assms by (intro log2_for_frequency_pow) simp_all
  moreover have "32768 div 2 ^ (16 - k - 1) = (2 :: nat) ^ k"
  proof -
    have "(32768 :: nat) = 2 ^ k * 2 ^ (15 - k)" using assms by (simp flip: power_add)
    moreover have "16 - k - 1 = 15 - k" by simp
    ultimately show ?thesis by (metis nonzero_mult_div_cancel_right power_not_zero zero_neq_numeral)
  qed
  ultimately show ?thesis unfolding rtc_set_freq_def by (auto simp: Let_def)
qed

lemma rtc_rate_gives_frequency_witness:
  "\<exists>s2. rtc_set_freq 0x26 1024 fresh_kernel = sti (outb 0x26 RTC_PORTD s2)"
  using rtc_rate_gives_frequency[of 10 "0x26" fresh_kernel] by auto

end
