(* ===== verification/Keyboard.thy ===== *)
theory Keyboard
  imports RTC
begin

text \<open>The keyboard driver and the terminals (\<open>interrupts/keyboard.c\<close>): the interrupt handler
  with its modifier state, the line buffers of the three terminals, the terminal's read and write
  operations, and the switch of the displayed terminal. The flags that only ever hold 0 and 1 are
  booleans; the three line buffers are one array, indexed by offset, as in the code, and
  \<open>terminal_buffer\<close> is the offset it points to. A scan code is read from the controller and is an
  argument of the handler. The code indexes its tables of 64 entries with scan codes up to 255:
  what lies behind each table in memory is the parameter \<open>beyond\<close>.\<close>

record keyboard_state = rtc_state +
  ctrl_state :: bool
  shift_state :: bool
  alt_state :: bool
  caps_state :: bool
  caps_dirty :: bool
  enter_state :: "nat \<Rightarrow> bool"
  terminal_buffers :: "nat \<Rightarrow> byte"
  buffer_indices :: "nat \<Rightarrow> byte"
  terminal_buffer :: nat
  buffer_index :: byte
  terminal_active :: "nat \<Rightarrow> bool"

section \<open>Key tables\<close>

datatype key_table = plain | shifted | caps | caps_shifted

fun key_codes :: "key_table \<Rightarrow> byte list" where
  "key_codes plain =
     [0, 0] @ ascii ''1234567890-='' @ [0, 0] @ ascii ''qwertyuiop[]'' @ [0, 0] @
     ascii ''asdfghjkl;'' @ [39, 96, 0, 92] @ ascii ''zxcvbnm,./'' @ [0, 0, 0, 32] @ replicate 6 0"
| "key_codes shifted =
     [0, 0] @ ascii ''!@#$%^&*()_+'' @ [0, 0] @ ascii ''QWERTYUIOP{}'' @ [0, 0] @
     ascii ''ASDFGHJKL:'' @ [34, 126, 0, 124] @ ascii ''ZXCVBNM<>?'' @ [0, 0, 0, 32] @ replicate 6 0"
| "key_codes caps =
     [0, 0] @ ascii ''1234567890-='' @ [0, 0] @ ascii ''QWERTYUIOP[]'' @ [0, 0] @
     ascii ''ASDFGHJKL;'' @ [39, 96, 0, 92] @ ascii ''ZXCVBNM,./'' @ [0, 0, 0, 32] @ replicate 6 0"
| "key_codes caps_shifted =
     [0, 0] @ ascii ''!@#$%^&*()_+'' @ [0, 0] @ ascii ''qwertyuiop{}'' @ [0, 0] @
     ascii ''asdfghjkl:'' @ [34, 126, 0, 124] @ ascii ''zxcvbnm<>?'' @ [0, 0, 0, 32] @ replicate 6 0"

definition key_at :: "(key_table \<Rightarrow> nat \<Rightarrow> byte) \<Rightarrow> key_table \<Rightarrow> byte \<Rightarrow> byte" where
  "key_at beyond t scan_code =
     (if unat scan_code < 64 then key_codes t ! unat scan_code else beyond t (unat scan_code))"

definition KEYBOARD_IRQ_NUM :: u32 where "KEYBOARD_IRQ_NUM = 1"
definition BACKSPACE_SCANCODE :: byte where "BACKSPACE_SCANCODE = 0x0E"
definition ENTER_PRESSED_SCANCODE :: byte where "ENTER_PRESSED_SCANCODE = 0x1C"
definition LEFT_SHIFT_SCANCODE :: byte where "LEFT_SHIFT_SCANCODE = 0x2A"
definition LEFT_SHIFT_RELEASED_SCANCODE :: byte where "LEFT_SHIFT_RELEASED_SCANCODE = 0xAA"
definition RIGHT_SHIFT_SCANCODE :: byte where "RIGHT_SHIFT_SCANCODE = 0x36"
definition RIGHT_SHIFT_RELEASED_SCANCODE :: byte where "RIGHT_SHIFT_RELEASED_SCANCODE = 0xB6"
definition LEFT_CONTROL_SCANCODE :: byte where "LEFT_CONTROL_SCANCODE = 0x1D"
definition LEFT_CONTROL_RELEASED_SCANCODE :: byte where "LEFT_CONTROL_RELEASED_SCANCODE = 0x9D"
definition CAPS_LOCK_SCANCODE :: byte where "CAPS_LOCK_SCANCODE = 0x3A"
definition CAPS_LOCK_RELEASED_SCANCODE :: byte where "CAPS_LOCK_RELEASED_SCANCODE = 0xBA"
definition L_SCANCODE :: byte where "L_SCANCODE = 0x26"
definition LAST_PRESSED_SCAN_CODE :: byte where "LAST_PRESSED_SCAN_CODE = 0x58"
definition TAB_PRESSED_SCANCODE :: byte where "TAB_PRESSED_SCANCODE = 0x0F"
definition LEFT_ALT_PRESSED_SCANCODE :: byte where "LEFT_ALT_PRESSED_SCANCODE = 0x38"
definition LEFT_ALT_RELEASED_SCANCODE :: byte where "LEFT_ALT_RELEASED_SCANCODE = 0xB8"
definition F1_PRESSED_SCANCODE :: byte where "F1_PRESSED_SCANCODE = 0x3B"
definition F3_PRESSED_SCANCODE :: byte where "F3_PRESSED_SCANCODE = 0x3D"
definition TERMINAL_BUFFER_SIZE :: nat where "TERMINAL_BUFFER_SIZE = 128"

lemmas scancodes = BACKSPACE_SCANCODE_def ENTER_PRESSED_SCANCODE_def LEFT_SHIFT_SCANCODE_def
  LEFT_SHIFT_RELEASED_SCANCODE_def RIGHT_SHIFT_SCANCODE_def RIGHT_SHIFT_RELEASED_SCANCODE_def
  LEFT_CONTROL_SCANCODE_def LEFT_CONTROL_RELEASED_SCANCODE_def CAPS_LOCK_SCANCODE_def
  CAPS_LOCK_RELEASED_SCANCODE_def L_SCANCODE_def LAST_PRESSED_SCAN_CODE_def TAB_PRESSED_SCANCODE_def
  LEFT_ALT_PRESSED_SCANCODE_def LEFT_ALT_RELEASED_SCANCODE_def F1_PRESSED_SCANCODE_def F3_PRESSED_SCANCODE_def

section \<open>The line buffer\<close>

definition put_buffer :: "byte \<Rightarrow> 'a keyboard_state_scheme \<Rightarrow> 'a keyboard_state_scheme" where
  "put_buffer c s =
     s\<lparr>terminal_buffers := (terminal_buffers s)(terminal_buffer s + unat (buffer_index s) := c),
       buffer_index := buffer_index s + 1\<rparr>"

definition clear_terminal_buffer :: "'a keyboard_state_scheme \<Rightarrow> 'a keyboard_state_scheme" where
  "clear_terminal_buffer s =
     s\<lparr>terminal_buffers := fold (\<lambda>i b. b(terminal_buffer s + i := 0)) [0..<TERMINAL_BUFFER_SIZE] (terminal_buffers s),
       buffer_index := 0\<rparr>"

definition keyboard_init :: "'a keyboard_state_scheme \<Rightarrow> 'a keyboard_state_scheme" where
  "keyboard_init s = enable_irq KEYBOARD_IRQ_NUM (s\<lparr>current_terminal := 0\<rparr>)"

definition keyboard_backspace :: "'a keyboard_state_scheme \<Rightarrow> 'a keyboard_state_scheme" where
  "keyboard_backspace s =
     (if buffer_index s = 0 then s
      else let i = buffer_index s - 1;
               s1 = s\<lparr>buffer_index := i, terminal_buffers := (terminal_buffers s)(terminal_buffer s + unat i := 0)\<rparr>
           in update_cursor (terminal_backspace s1))"

section \<open>Reading and writing a terminal\<close>

text \<open>A reader waits until Enter was pressed on its own terminal, but then takes the line of the
  terminal that is displayed: the buffer and its index are those of the display.\<close>

definition terminal_take ::
  "addr \<Rightarrow> u32 \<Rightarrow> nat \<Rightarrow> 'a keyboard_state_scheme \<Rightarrow> u32 \<times> 'a keyboard_state_scheme" where
  "terminal_take buf nbytes tid s =
     (let n = (if sint nbytes < uint (buffer_index s) then nbytes else ucast (buffer_index s));
          s1 = cli s;
          s2 = s1\<lparr>phys := write_bytes (xlate s1) buf
                    (map (\<lambda>i. terminal_buffers s1 (terminal_buffer s1 + i)) [0..<unat n]) (phys s1)\<rparr>;
          s3 = sti (s2\<lparr>enter_state := (enter_state s2)(tid := False)\<rparr>)
      in (n, clear_terminal_buffer s3))"

definition terminal_read ::
  "u32 \<Rightarrow> addr \<Rightarrow> u32 \<Rightarrow> ('a keyboard_state_scheme \<Rightarrow> 'a keyboard_state_scheme) list \<Rightarrow> 'a keyboard_state_scheme
   \<Rightarrow> (u32 \<times> 'a keyboard_state_scheme) option" where
  "terminal_read fd buf nbytes envs s =
     (if fd \<noteq> 0 then Some (- 1, s)
      else if nbytes \<noteq> 0 \<and> buf = 0 then Some (- 1, s)
      else if sint nbytes < 0 then Some (- 1, s)
      else let tid = terminal_id (pcbs s (get_pcb_pointer (current_pid s)))
           in case spin_while (\<lambda>t. \<not> enter_state t tid) envs s of
                None \<Rightarrow> None
              | Some (t, _) \<Rightarrow> Some (terminal_take buf nbytes tid t))"

definition terminal_write_byte ::
  "addr \<Rightarrow> nat \<Rightarrow> u32 \<times> 'a kernel_state_scheme \<Rightarrow> u32 \<times> 'a kernel_state_scheme" where
  "terminal_write_byte buf i = (\<lambda>(written, s).
     let c = load8 (xlate s) (phys s) (buf + of_nat i)
     in if c \<noteq> 0
        then (written + 1, tputc c (terminal_id (pcbs s (get_pcb_pointer (current_pid s)))) s)
        else (written, s))"

definition terminal_write ::
  "u32 \<Rightarrow> addr \<Rightarrow> u32 \<Rightarrow> 'a kernel_state_scheme \<Rightarrow> u32 \<times> 'a kernel_state_scheme" where
  "terminal_write fd buf nbytes s =
     (if fd \<noteq> 1 then (- 1, s)
      else let (written, s1) = fold (terminal_write_byte buf) [0..<nat (sint nbytes)] (0, cli s)
           in (written, update_cursor (sti s1)))"

section \<open>Switching the displayed terminal\<close>

definition remap_video :: "nat \<Rightarrow> 'a console_state_scheme \<Rightarrow> 'a console_state_scheme" where
  "remap_video term_id s =
     flush_tlb
       (set_pte (VIDEO_MEM_INDEX + 4) (set_address_31_12 (of_nat (VIDEO_MEM_INDEX + 1 + term_id)))
       (set_pte (VIDEO_MEM_INDEX + 1 + term_id) (set_address_31_12 (of_nat VIDEO_MEM_INDEX))
       (set_pte (VIDEO_MEM_INDEX + 1 + current_terminal s)
          (set_address_31_12 (of_nat (VIDEO_MEM_INDEX + 1 + current_terminal s))) s)))"

definition copy_page :: "nat \<Rightarrow> nat \<Rightarrow> 'a paging_state_scheme \<Rightarrow> 'a paging_state_scheme" where
  "copy_page dest src s =
     s\<lparr>phys := memcpy (xlate s) (phys s) (of_nat (4096 * dest)) (of_nat (4096 * src)) 4096\<rparr>"

definition swap_terminal :: "nat \<Rightarrow> 'a keyboard_state_scheme \<Rightarrow> 'a keyboard_state_scheme" where
  "swap_terminal term_id s =
     (let s1 = remap_video term_id (save_pos s);
          s2 = copy_page (VIDEO_MEM_INDEX + 1 + current_terminal s1) VIDEO_MEM_INDEX s1;
          s3 = copy_page VIDEO_MEM_INDEX (VIDEO_MEM_INDEX + 4) s2;
          s4 = s3\<lparr>buffer_indices := (buffer_indices s3)(current_terminal s3 := buffer_index s3)\<rparr>;
          s5 = s4\<lparr>buffer_index := buffer_indices s4 term_id, terminal_buffer := term_id * 128,
                  current_terminal := term_id\<rparr>
      in restore_pos s5)"

text \<open>The result is None when starting the shell does not terminate, and otherwise tells whether
  the handler returns (None) or control passes to a new process.\<close>

definition switch_terminal ::
  "create_frame \<Rightarrow> u32 \<times> u32 \<Rightarrow> nat \<Rightarrow> 'a keyboard_state_scheme
   \<Rightarrow> (control option \<times> 'a keyboard_state_scheme) option" where
  "switch_terminal fr regs term_id s =
     (if term_id = current_terminal s then Some (None, s)
      else if get_free_pid s = - 1 \<and> \<not> terminal_active s term_id then Some (None, s)
      else
        let s1 = swap_terminal term_id s
        in if \<not> terminal_active s1 term_id
           then (case process_create fr shell_lit term_id (- 1)
                        (clear (s1\<lparr>terminal_active := (terminal_active s1)(term_id := True)\<rparr>)) of
                   None \<Rightarrow> None
                 | Some (pid, s2) \<Rightarrow>
                     (case process_start regs pid s2 of
                        (Return _, s3) \<Rightarrow> Some (None, sti s3)
                      | (c, s3) \<Rightarrow> Some (Some c, s3)))
           else Some (None, sti s1))"

section \<open>The interrupt handler\<close>

definition echo :: "byte \<Rightarrow> 'a keyboard_state_scheme \<Rightarrow> 'a keyboard_state_scheme" where
  "echo c s = put_buffer c (update_cursor (tputc c (current_terminal s) s))"

definition tab_text :: reader where
  "tab_text = lit (ascii ''    '')"

definition control_key ::
  "byte \<Rightarrow> 'a keyboard_state_scheme \<Rightarrow> 'a keyboard_state_scheme option" where
  "control_key sc s =
     (if sc = ENTER_PRESSED_SCANCODE then
        let s1 = s\<lparr>terminal_buffers := (terminal_buffers s)(terminal_buffer s + unat (buffer_index s) := 10)\<rparr>;
            s2 = update_cursor (tputc 10 (current_terminal s1) s1)
        in Some (s2\<lparr>buffer_index := buffer_index s2 + 1,
                    enter_state := (enter_state s2)(current_terminal s2 := True)\<rparr>)
      else if sc = BACKSPACE_SCANCODE then Some (keyboard_backspace s)
      else if sc = LEFT_CONTROL_SCANCODE then Some (s\<lparr>ctrl_state := True\<rparr>)
      else if sc = LEFT_CONTROL_RELEASED_SCANCODE then Some (s\<lparr>ctrl_state := False\<rparr>)
      else if sc = LEFT_SHIFT_SCANCODE \<or> sc = RIGHT_SHIFT_SCANCODE then Some (s\<lparr>shift_state := True\<rparr>)
      else if sc = LEFT_SHIFT_RELEASED_SCANCODE \<or> sc = RIGHT_SHIFT_RELEASED_SCANCODE then Some (s\<lparr>shift_state := False\<rparr>)
      else if sc = CAPS_LOCK_SCANCODE \<and> \<not> caps_dirty s
        then Some (s\<lparr>caps_state := \<not> caps_state s, caps_dirty := True\<rparr>)
      else if sc = CAPS_LOCK_RELEASED_SCANCODE then Some (s\<lparr>caps_dirty := False\<rparr>)
      else if sc = TAB_PRESSED_SCANCODE
        then (case tputs tab_text (current_terminal s) s of None \<Rightarrow> None | Some (_, s1) \<Rightarrow> Some (update_cursor s1))
      else if sc = LEFT_ALT_PRESSED_SCANCODE then Some (s\<lparr>alt_state := True\<rparr>)
      else if sc = LEFT_ALT_RELEASED_SCANCODE then Some (s\<lparr>alt_state := False\<rparr>)
      else Some s)"

definition switch_key :: "byte \<Rightarrow> 'a keyboard_state_scheme \<Rightarrow> bool" where
  "switch_key sc s \<longleftrightarrow>
     sc \<notin> {ENTER_PRESSED_SCANCODE, BACKSPACE_SCANCODE, LEFT_CONTROL_SCANCODE, LEFT_CONTROL_RELEASED_SCANCODE,
           LEFT_SHIFT_SCANCODE, RIGHT_SHIFT_SCANCODE, LEFT_SHIFT_RELEASED_SCANCODE, RIGHT_SHIFT_RELEASED_SCANCODE,
           CAPS_LOCK_RELEASED_SCANCODE, TAB_PRESSED_SCANCODE, LEFT_ALT_PRESSED_SCANCODE, LEFT_ALT_RELEASED_SCANCODE} \<and>
     \<not> (sc = CAPS_LOCK_SCANCODE \<and> \<not> caps_dirty s) \<and>
     alt_state s \<and> sc \<ge> F1_PRESSED_SCANCODE \<and> sc \<le> F3_PRESSED_SCANCODE"

definition printable_key ::
  "(key_table \<Rightarrow> nat \<Rightarrow> byte) \<Rightarrow> byte \<Rightarrow> 'a keyboard_state_scheme \<Rightarrow> 'a keyboard_state_scheme" where
  "printable_key beyond sc s =
     (let s0 = (if ctrl_state s \<and> sc = L_SCANCODE \<and> sc \<le> LAST_PRESSED_SCAN_CODE
                then update_cursor (clear s) else s)
      in if unat (buffer_index s0) < TERMINAL_BUFFER_SIZE - 1 then
           let s1 = (if \<not> ctrl_state s0 \<and> \<not> shift_state s0 \<and> \<not> caps_state s0 \<and> sc \<le> LAST_PRESSED_SCAN_CODE
                     then echo (key_at beyond plain sc) s0 else s0);
               s2 = (if \<not> ctrl_state s1 \<and> shift_state s1 \<and> \<not> caps_state s1 \<and> sc \<le> LAST_PRESSED_SCAN_CODE
                     then echo (key_at beyond shifted sc) s1 else s1);
               s3 = (if \<not> ctrl_state s2 \<and> \<not> shift_state s2 \<and> caps_state s2 \<and> sc \<le> LAST_PRESSED_SCAN_CODE
                     then echo (key_at beyond caps sc) s2 else s2);
               s4 = (if \<not> ctrl_state s3 \<and> shift_state s3 \<and> caps_state s3 \<and> sc \<le> LAST_PRESSED_SCAN_CODE
                     then echo (key_at beyond caps_shifted sc) s3 else s3)
           in s4
         else s0)"

definition keyboard_handler ::
  "(key_table \<Rightarrow> nat \<Rightarrow> byte) \<Rightarrow> create_frame \<Rightarrow> u32 \<times> u32 \<Rightarrow> byte \<Rightarrow> 'a keyboard_state_scheme
   \<Rightarrow> (control option \<times> 'a keyboard_state_scheme) option" where
  "keyboard_handler beyond fr regs sc s0 =
     (let s = cli s0
      in if key_at beyond plain sc = 0 then
           if switch_key sc s
           then switch_terminal fr regs (unat (sc - F1_PRESSED_SCANCODE)) (send_eoi KEYBOARD_IRQ_NUM s)
           else (case control_key sc s of None \<Rightarrow> None
                 | Some s1 \<Rightarrow> Some (None, sti (send_eoi KEYBOARD_IRQ_NUM s1)))
         else Some (None, sti (send_eoi KEYBOARD_IRQ_NUM (printable_key beyond sc s))))"


section \<open>What console output leaves alone\<close>

lemma console_frame_keyboard:
  fixes s s' :: "'a keyboard_state_scheme"
  assumes "console_frame s s'"
  shows "terminal_buffers s' = terminal_buffers s" "terminal_buffer s' = terminal_buffer s"
    "buffer_index s' = buffer_index s" "buffer_indices s' = buffer_indices s"
    "enter_state s' = enter_state s" "terminal_active s' = terminal_active s"
    "ctrl_state s' = ctrl_state s" "shift_state s' = shift_state s" "caps_state s' = caps_state s"
    "alt_state s' = alt_state s" "caps_dirty s' = caps_dirty s"
    "pcbs s' = pcbs s" "current_pid s' = current_pid s" "file_descriptors s' = file_descriptors s"
    "current_terminal s' = current_terminal s" "active_pids s' = active_pids s" "terminal_pids s' = terminal_pids s"
  using assms unfolding console_frame_def by (cases s; cases s'; simp)+

definition keys_frame :: "'a keyboard_state_scheme \<Rightarrow> 'a keyboard_state_scheme \<Rightarrow> bool" where
  "keys_frame s s' \<longleftrightarrow>
     terminal_buffer s' = terminal_buffer s \<and> buffer_indices s' = buffer_indices s \<and>
     current_terminal s' = current_terminal s \<and> terminal_active s' = terminal_active s \<and>
     ctrl_state s' = ctrl_state s \<and> shift_state s' = shift_state s \<and> caps_state s' = caps_state s \<and>
     alt_state s' = alt_state s \<and> pcbs s' = pcbs s \<and> current_pid s' = current_pid s \<and> xlate s' = xlate s"

lemma xlate_keyboard_upd [simp]:
  fixes s :: "'a keyboard_state_scheme"
  shows "xlate (s\<lparr>terminal_buffers := v1\<rparr>) = xlate s" "xlate (s\<lparr>buffer_index := v2\<rparr>) = xlate s"
    "xlate (s\<lparr>enter_state := v3\<rparr>) = xlate s" "xlate (s\<lparr>buffer_indices := v4\<rparr>) = xlate s"
    "xlate (s\<lparr>terminal_buffer := v5\<rparr>) = xlate s" "xlate (s\<lparr>terminal_active := v6\<rparr>) = xlate s"
    "xlate (cli s) = xlate s" "xlate (sti s) = xlate s" "xlate (outb b p s) = xlate s"
    "xlate (send_eoi n s) = xlate s"
  by (simp_all add: cli_def sti_def outb_def send_eoi_def) (simp_all add: fun_eq_iff xlate_def translate_def walk_def Let_def)

section \<open>Editing a line\<close>

definition line :: "'a keyboard_state_scheme \<Rightarrow> byte list" where
  "line s = map (\<lambda>i. terminal_buffers s (terminal_buffer s + i)) [0..<unat (buffer_index s)]"

lemma length_line [simp]: "length (line s) = unat (buffer_index s)"
  by (simp add: line_def)

text \<open>The editor the handler implements, over the codes of the keys pressed without
  modifiers.\<close>

definition edit :: "byte \<Rightarrow> byte list \<Rightarrow> byte list" where
  "edit sc l =
     (if sc = 0x0E then butlast l
      else if sc = 0x1C then l @ [10]
      else if unat sc < 64 \<and> key_codes plain ! unat sc \<noteq> 0 \<and> length l < 127
        then l @ [key_codes plain ! unat sc] else l)"

definition edit_key :: "byte \<Rightarrow> bool" where
  "edit_key sc \<longleftrightarrow> sc = 0x0E \<or> unat sc < 64 \<and> key_codes plain ! unat sc \<noteq> 0"

lemma line_put_buffer:
  assumes "unat (buffer_index s) < 255"
  shows "line (put_buffer c s) = line s @ [c]"
proof -
  have "unat (buffer_index s + 1) = Suc (unat (buffer_index s))"
    using assms by (simp add: unat_word_ariths)
  then show ?thesis by (simp add: line_def put_buffer_def)
qed

lemma console_frame_keys: "console_frame s s' \<Longrightarrow> keys_frame s s'"
  by (simp add: keys_frame_def console_frame_keyboard console_frame_xlate)

lemma keys_frame_refl: "keys_frame s s"
  by (simp add: keys_frame_def)

lemma keys_frame_trans: "keys_frame s s' \<Longrightarrow> keys_frame s' s'' \<Longrightarrow> keys_frame s s''"
  by (simp add: keys_frame_def)

lemma line_console: "console_frame s s' \<Longrightarrow> line s' = line s \<and> enter_state s' = enter_state s"
  by (simp add: line_def console_frame_keyboard)

lemma console_frame_echo:
  "console_frame s (update_cursor (tputc c (current_terminal s) s))"
  by (rule console_frame_trans[OF console_frame_tputc console_frame_update_cursor])

lemma line_echo:
  assumes "unat (buffer_index s) < 255"
  shows "line (echo c s) = line s @ [c]" "enter_state (echo c s) = enter_state s" "keys_frame s (echo c s)"
proof -
  let ?t = "update_cursor (tputc c (current_terminal s) s)"
  note f = console_frame_echo[of s c]
  have "unat (buffer_index ?t) < 255" using assms console_frame_keyboard(3)[OF f] by simp
  then show "line (echo c s) = line s @ [c]"
    using line_console[OF f] by (simp add: echo_def line_put_buffer)
  show "enter_state (echo c s) = enter_state s" "keys_frame s (echo c s)"
    using console_frame_keys[OF f] line_console[OF f]
    by (simp_all add: echo_def put_buffer_def keys_frame_def)
qed

lemma line_backspace:
  "line (keyboard_backspace s) = butlast (line s) \<and> enter_state (keyboard_backspace s) = enter_state s \<and>
   keys_frame s (keyboard_backspace s)"
proof (cases "buffer_index s = 0")
  case True
  then show ?thesis by (simp add: keyboard_backspace_def keys_frame_refl line_def)
next
  case False
  define i where "i = buffer_index s - 1"
  have i: "unat (buffer_index s) = Suc (unat i)" using unat_minus_one_Suc[OF False] by (simp add: i_def)
  define t where "t = s\<lparr>buffer_index := i, terminal_buffers := (terminal_buffers s)(terminal_buffer s + unat i := 0)\<rparr>"
  have f: "console_frame t (update_cursor (terminal_backspace t))"
    by (rule console_frame_trans[OF console_frame_backspace console_frame_update_cursor])
  have k: "keyboard_backspace s = update_cursor (terminal_backspace t)"
    using False by (simp add: keyboard_backspace_def t_def i_def Let_def)
  have "line t = butlast (line s)"
    unfolding line_def i by (simp add: t_def)
  moreover have "keys_frame s t" "enter_state t = enter_state s"
    by (simp_all add: t_def keys_frame_def)
  ultimately show ?thesis
    using line_console[OF f] console_frame_keys[OF f] keys_frame_trans unfolding k by metis
qed

lemma state_updates:
  fixes s :: "'a keyboard_state_scheme"
  shows "line (cli s) = line s" "line (sti s) = line s" "line (send_eoi n s) = line s"
    "enter_state (cli s) = enter_state s" "enter_state (sti s) = enter_state s"
    "enter_state (send_eoi n s) = enter_state s"
    "keys_frame s (cli s)" "keys_frame s (sti s)" "keys_frame s (send_eoi n s)"
    "buffer_index (cli s) = buffer_index s"
  by (simp_all add: keys_frame_def) (simp_all add: cli_def sti_def send_eoi_def outb_def line_def)

definition no_modifiers :: "'a keyboard_state_scheme \<Rightarrow> bool" where
  "no_modifiers s \<longleftrightarrow> \<not> ctrl_state s \<and> \<not> shift_state s \<and> \<not> caps_state s"

lemma no_modifiers_frame: "keys_frame s s' \<Longrightarrow> no_modifiers s' = no_modifiers s"
  by (simp add: keys_frame_def no_modifiers_def)

lemma backspace_key: "key_at beyond plain 0x0E = 0"
  by (simp add: key_at_def ascii_def)

lemma enter_key: "key_at beyond plain 0x1C = 0"
  by (simp add: key_at_def ascii_def)

lemma line_printable:
  assumes "no_modifiers s" "unat sc < 64" "key_codes plain ! unat sc \<noteq> 0"
  shows "line (printable_key beyond sc s) = edit sc (line s)"
    "enter_state (printable_key beyond sc s) = enter_state s" "keys_frame s (printable_key beyond sc s)"
proof -
  have le: "sc \<le> LAST_PRESSED_SCAN_CODE" using assms(2) by (simp add: LAST_PRESSED_SCAN_CODE_def word_le_nat_alt)
  have k: "key_at beyond plain sc = key_codes plain ! unat sc" using assms(2) by (simp add: key_at_def)
  have ne: "sc \<noteq> 0x0E" "sc \<noteq> 0x1C"
    using assms(2,3) backspace_key[of undefined] enter_key[of undefined] by (auto simp: key_at_def)
  let ?e = "echo (key_codes plain ! unat sc) s"
  have p: "printable_key beyond sc s = (if unat (buffer_index s) < 127 then ?e else s)"
  proof (cases "unat (buffer_index s) < 127")
    case True
    then have "keys_frame s ?e" by (intro line_echo) simp
    then show ?thesis
      using assms(1) le True by (simp add: printable_key_def Let_def k no_modifiers_def keys_frame_def TERMINAL_BUFFER_SIZE_def)
  next
    case False
    then show ?thesis using assms(1) by (simp add: printable_key_def Let_def no_modifiers_def TERMINAL_BUFFER_SIZE_def)
  qed
  show "line (printable_key beyond sc s) = edit sc (line s)"
    "enter_state (printable_key beyond sc s) = enter_state s" "keys_frame s (printable_key beyond sc s)"
    using line_echo[of s "key_codes plain ! unat sc"] assms(2,3) ne
    by (simp_all add: p edit_def keys_frame_refl)
qed

lemma handler_edit:
  assumes "no_modifiers s" "edit_key sc"
  shows "\<exists>s'. keyboard_handler beyond fr regs sc s = Some (None, s') \<and> line s' = edit sc (line s) \<and>
    enter_state s' = enter_state s \<and> keys_frame s s'"
proof (cases "sc = 0x0E")
  case True
  have h: "keyboard_handler beyond fr regs sc s =
      Some (None, sti (send_eoi KEYBOARD_IRQ_NUM (keyboard_backspace (cli s))))"
    by (simp add: True keyboard_handler_def backspace_key switch_key_def control_key_def scancodes)
  have "keys_frame s (sti (send_eoi KEYBOARD_IRQ_NUM (keyboard_backspace (cli s))))"
    using line_backspace[of "cli s"] state_updates(7-9) keys_frame_trans by metis
  then show ?thesis
    using h line_backspace[of "cli s"] by (simp add: state_updates True edit_def)
next
  case False
  then have k: "unat sc < 64" "key_codes plain ! unat sc \<noteq> 0" using assms(2) by (auto simp: edit_key_def)
  have m: "no_modifiers (cli s)" using assms(1) by (simp add: no_modifiers_frame[OF state_updates(7)])
  have h: "keyboard_handler beyond fr regs sc s =
      Some (None, sti (send_eoi KEYBOARD_IRQ_NUM (printable_key beyond sc (cli s))))"
    using k by (simp add: keyboard_handler_def key_at_def)
  have "keys_frame s (sti (send_eoi KEYBOARD_IRQ_NUM (printable_key beyond sc (cli s))))"
    using line_printable(3)[OF m k, of beyond] state_updates(7-9) keys_frame_trans by metis
  then show ?thesis
    using h line_printable(1,2)[OF m k, of beyond] by (simp add: state_updates)
qed


lemma edit_length: "edit_key sc \<Longrightarrow> length l \<le> 127 \<Longrightarrow> length (edit sc l) \<le> 127"
  using enter_key[of undefined] by (auto simp: edit_def edit_key_def key_at_def)

lemma handler_enter:
  assumes "unat (buffer_index s) < 255"
  shows "\<exists>s'. keyboard_handler beyond fr regs 0x1C s = Some (None, s') \<and> line s' = line s @ [10] \<and>
    enter_state s' = (enter_state s)(current_terminal s := True) \<and> keys_frame s s'"
proof -
  define t where "t = (cli s)\<lparr>terminal_buffers := (terminal_buffers (cli s))(terminal_buffer (cli s) + unat (buffer_index (cli s)) := 10)\<rparr>"
  define u where "u = update_cursor (tputc 10 (current_terminal t) t)"
  define v where "v = u\<lparr>buffer_index := buffer_index u + 1, enter_state := (enter_state u)(current_terminal u := True)\<rparr>"
  have h: "keyboard_handler beyond fr regs 0x1C s = Some (None, sti (send_eoi KEYBOARD_IRQ_NUM v))"
    by (simp add: keyboard_handler_def enter_key switch_key_def control_key_def scancodes t_def u_def v_def Let_def)
  note f = console_frame_echo[of t 10, folded u_def]
  have b: "unat (buffer_index u + 1) = Suc (unat (buffer_index s))" "buffer_index u = buffer_index s"
    using assms by (simp_all add: console_frame_keyboard[OF f] t_def state_updates unat_word_ariths)
  have tb: "terminal_buffers u = (terminal_buffers s)(terminal_buffer s + unat (buffer_index s) := 10)"
    "terminal_buffer u = terminal_buffer s" "enter_state u = enter_state s" "current_terminal u = current_terminal s"
    by (simp_all add: console_frame_keyboard[OF f] t_def) (simp_all add: cli_def)
  have "line v = line s @ [10]" "enter_state v = (enter_state s)(current_terminal s := True)"
    using tb b by (simp_all add: v_def line_def)
  moreover have "keys_frame s v"
  proof -
    have "keys_frame s t" by (simp add: t_def keys_frame_def) (simp add: cli_def)
    moreover have "keys_frame t u" by (rule console_frame_keys[OF f])
    moreover have "keys_frame u v" by (simp add: v_def keys_frame_def)
    ultimately show ?thesis using keys_frame_trans by blast
  qed
  moreover note keys_frame_trans[OF keys_frame_trans[OF _ state_updates(9)] state_updates(8), of s v KEYBOARD_IRQ_NUM]
  ultimately show ?thesis using h by (simp add: state_updates)
qed

text \<open>One key press as the environment of a waiting reader sees it.\<close>

definition press ::
  "(key_table \<Rightarrow> nat \<Rightarrow> byte) \<Rightarrow> create_frame \<Rightarrow> u32 \<times> u32 \<Rightarrow> byte \<Rightarrow> 'a keyboard_state_scheme \<Rightarrow> 'a keyboard_state_scheme" where
  "press beyond fr regs sc s = (case keyboard_handler beyond fr regs sc s of None \<Rightarrow> s | Some (_, s') \<Rightarrow> s')"

lemma spin_line:
  assumes "no_modifiers s" "\<forall>k \<in> set ks. edit_key k" "length (line s) \<le> 127"
    and "\<not> enter_state s T" "T = current_terminal s"
  shows "\<exists>u. spin_while (\<lambda>t. \<not> enter_state t T) (map (press beyond fr regs) (ks @ [0x1C])) s = Some (u, []) \<and>
    line u = fold edit ks (line s) @ [10] \<and> length (fold edit ks (line s)) \<le> 127 \<and> keys_frame s u"
  using assms
proof (induction ks arbitrary: s)
  case Nil
  obtain s' where s': "keyboard_handler beyond fr regs 0x1C s = Some (None, s')" "line s' = line s @ [10]"
    "enter_state s' = (enter_state s)(current_terminal s := True)" "keys_frame s s'"
    using handler_enter[of s beyond fr regs] Nil.prems(3) by auto
  then show ?case using Nil.prems by (simp add: spin_while.simps press_def)
next
  case (Cons k ks)
  obtain s' where s': "keyboard_handler beyond fr regs k s = Some (None, s')" "line s' = edit k (line s)"
    "enter_state s' = enter_state s" "keys_frame s s'"
    using handler_edit[of s k beyond fr regs] Cons.prems by auto
  have c: "current_terminal s' = current_terminal s" using s'(4) by (simp add: keys_frame_def)
  have "length (line s') \<le> 127"
    unfolding s'(2) using Cons.prems(2,3) by (intro edit_length) simp_all
  then obtain u where u: "spin_while (\<lambda>t. \<not> enter_state t T) (map (press beyond fr regs) (ks @ [0x1C])) s' = Some (u, [])"
    "line u = fold edit ks (line s') @ [10]" "length (fold edit ks (line s')) \<le> 127" "keys_frame s' u"
    using Cons.IH[of s'] Cons.prems s'(3) c no_modifiers_frame[OF s'(4)] by auto
  have "spin_while (\<lambda>t. \<not> enter_state t T) (map (press beyond fr regs) ((k # ks) @ [0x1C])) s = Some (u, [])"
    using u(1) Cons.prems(4) s'(1) by (subst spin_while.simps) (simp add: press_def)
  moreover have "keys_frame s u" using keys_frame_trans[OF s'(4) u(4)] .
  ultimately show ?case using u s'(2) by auto
qed

lemma clear_buffer: "line (clear_terminal_buffer s) = []"
  by (simp add: clear_terminal_buffer_def line_def)

text \<open>What \<open>terminal_read\<close> delivers: the smaller of the length asked for and the line's.\<close>

lemma taken_length:
  fixes i :: byte
  assumes "n < 2 ^ 31"
  shows "(if sint (of_nat n :: u32) < uint i then of_nat n else ucast i :: u32) = of_nat (min n (unat i))"
proof -
  have s: "sint (of_nat n :: u32) = int n" using assms by (rule sint_of_nat32)
  have "(ucast i :: u32) = of_nat (unat i)" by simp
  moreover have "int n < uint i \<longleftrightarrow> n < unat i" by (metis of_nat_less_iff uint_nat)
  ultimately show ?thesis unfolding s by (cases "n < unat i") simp_all
qed

section \<open>Properties\<close>

text \<open>C12: what is typed is what is read: a process reading its displayed terminal, with no
  modifier held, gets the keys pressed up to Enter as a line editor combines them (backspace
  erases, at most 127 characters are kept), with the newline, cut at the length it asked for; the
  call returns on Enter and not before, and leaves an empty line for the next read.\<close>
theorem typed_line_is_read:
  fixes s :: "'a keyboard_state_scheme"
  assumes "no_modifiers s" "\<forall>k \<in> set ks. edit_key k" "buffer_index s = 0" "buf \<noteq> 0" "n < 2 ^ 31"
    and "terminal_id (pcbs s (get_pcb_pointer (current_pid s))) = current_terminal s"
    and "\<not> enter_state s (current_terminal s)" "inj_on (xlate s) (region buf 128)"
  defines "l \<equiv> fold edit ks [] @ [10]"
  shows "\<exists>t. terminal_read 0 buf (of_nat n) (map (press beyond fr regs) (ks @ [0x1C])) s =
      Some (of_nat (min n (length l)), t) \<and>
    bytes_at (xlate s) (phys t) buf (min n (length l)) = take n l \<and>
    buffer_index t = 0 \<and> \<not> enter_state t (current_terminal s)"
proof -
  have l0: "line s = []" using assms(3) by (simp add: line_def)
  obtain u where u: "spin_while (\<lambda>t. \<not> enter_state t (current_terminal s)) (map (press beyond fr regs) (ks @ [0x1C])) s = Some (u, [])"
    "line u = l" "length l \<le> 128" "keys_frame s u"
    using spin_line[of s ks "current_terminal s" beyond fr regs] assms(1,2,7) l0 by (auto simp: l_def)
  have b: "unat (buffer_index u) = length l" using u(2) length_line[of u] by simp
  have sn: "sint (of_nat n :: u32) = int n" using assms(5) by (rule sint_of_nat32)
  define m where "m = (if sint (of_nat n :: u32) < uint (buffer_index u) then of_nat n else ucast (buffer_index u) :: u32)"
  have m: "m = of_nat (min n (length l))" using taken_length[OF assms(5), of "buffer_index u"] b by (simp add: m_def)
  have um: "unat m = min n (length l)" unfolding m using assms(5) by (simp add: unat_of_nat32)
  let ?bs = "map (\<lambda>i. terminal_buffers (cli u) (terminal_buffer (cli u) + i)) [0..<unat m]"
  have bs: "?bs = take n l"
  proof -
    have "?bs = take (unat m) (line u)" using b by (simp add: line_def take_map um cli_def)
    also have "\<dots> = take n l" by (simp add: u(2) um min_def)
    finally show ?thesis .
  qed
  define t where "t = snd (terminal_take buf (of_nat n) (current_terminal s) u)"
  have tk: "terminal_take buf (of_nat n) (current_terminal s) u = (m, t)"
    by (simp add: t_def terminal_take_def m_def Let_def)
  have r: "terminal_read 0 buf (of_nat n) (map (press beyond fr regs) (ks @ [0x1C])) s = Some (m, t)"
    using u(1) assms(4,6) sn tk by (simp add: terminal_read_def Let_def)
  have x: "xlate u = xlate s" using u(4) by (simp add: keys_frame_def)
  have ph: "phys t = write_bytes (xlate s) buf (take n l) (phys u)"
    using bs x by (simp add: t_def terminal_take_def Let_def m_def[symmetric] clear_terminal_buffer_def) 
  have "length (take n l) \<le> 128" using u(3) by simp
  then have "inj_on (xlate s) (region buf (length (take n l)))"
    using inj_on_subset[OF assms(8) region_mono] by blast
  then have "bytes_at (xlate s) (phys t) buf (length (take n l)) = take n l"
    unfolding ph using u(3) by (intro bytes_at_write_bytes) simp_all
  moreover have "buffer_index t = 0" "\<not> enter_state t (current_terminal s)"
    by (simp_all add: t_def terminal_take_def Let_def clear_terminal_buffer_def) (simp add: sti_def)
  ultimately show ?thesis using r m by (auto simp: min.commute)
qed


text \<open>The concrete kernel of \<open>Devices\<close> with an idle keyboard: terminals 0 and 1 are active,
  terminal 0 is displayed.\<close>

definition fresh_keyboard :: keyboard_state where
  "fresh_keyboard = rtc_state.extend two_terminals
     \<lparr>ctrl_state = False, shift_state = False, alt_state = False, caps_state = False, caps_dirty = False,
      enter_state = (\<lambda>_. False), terminal_buffers = (\<lambda>_. 0), buffer_indices = (\<lambda>_. 0),
      terminal_buffer = 0, buffer_index = 0, terminal_active = (\<lambda>t. t < 2)\<rparr>"

lemma fresh_keyboard_tables:
  "page_directory fresh_keyboard = page_directory fresh_kernel" "page_table fresh_keyboard = page_table fresh_kernel"
  "pt_addr fresh_keyboard = pt_addr fresh_kernel" "pcbs fresh_keyboard = (\<lambda>_. fresh_pcb)"
  "current_pid fresh_keyboard = 0" "current_terminal fresh_keyboard = 0"
  "phys fresh_keyboard = phys fresh_kernel" "active_pids fresh_keyboard = active_pids fresh_kernel"
  "screen_x fresh_keyboard = 0" "screen_y fresh_keyboard = 0" "term_x fresh_keyboard = (\<lambda>_. 0)"
  "term_y fresh_keyboard = (\<lambda>_. 0)"
  by (simp_all add: fresh_keyboard_def two_terminals_def rtc_state.defs kernel_state.defs)
    (simp_all add: fresh_kernel_def console_extend_defs set_paging_for_process_def flush_tlb_def set_pde_def)

lemma fresh_keyboard_fields:
  "ctrl_state fresh_keyboard = False" "shift_state fresh_keyboard = False" "caps_state fresh_keyboard = False"
  "enter_state fresh_keyboard = (\<lambda>_. False)" "buffer_index fresh_keyboard = 0" "terminal_buffer fresh_keyboard = 0"
  "terminal_active fresh_keyboard = (\<lambda>t. t < 2)" "terminal_buffers fresh_keyboard = (\<lambda>_. 0)"
  by (simp_all add: fresh_keyboard_def rtc_state.defs)

lemma fresh_keyboard_paging: "paging_inv fresh_keyboard" "video_map 0 fresh_keyboard"
  using fresh_kernel_paging
  by (simp_all add: paging_inv_def directory_inv_def table_inv_def video_map_def fresh_keyboard_tables)

lemma typed_line_is_read_witness:
  "\<exists>t. terminal_read 0 0x600000 10 (map (press (\<lambda>_ _. 0) fresh_frame (0, 0)) ([0x23, 0x17, 0x0E, 0x18] @ [0x1C])) fresh_keyboard =
      Some (3, t) \<and> bytes_at (xlate fresh_keyboard) (phys t) 0x600000 3 = [104, 111, 10]"
proof -
  have x: "xlate fresh_keyboard a = a" if a: "a \<in> region 0x600000 128" for a
  proof -
    obtain i where "i < 128" "a = 0x600000 + of_nat i" using a unfolding region_def by blast
    then have "0x400000 \<le> unat a" "unat a < 0x800000" by (simp_all add: unat_add_of_nat32)
    then show ?thesis by (rule xlate_kernel[OF fresh_keyboard_paging(1)])
  qed
  then have inj: "inj_on (xlate fresh_keyboard) (region 0x600000 128)" by (simp add: inj_on_def)
  have e: "fold edit [0x23, 0x17, 0x0E, 0x18] [] = [104, 111]" "\<forall>k \<in> set [0x23, 0x17, 0x0E, 0x18]. edit_key k"
    by (simp_all add: edit_def edit_key_def ascii_def)
  have "\<exists>t. terminal_read 0 0x600000 (of_nat 10) (map (press (\<lambda>_ _. 0) fresh_frame (0, 0)) ([0x23, 0x17, 0x0E, 0x18] @ [0x1C])) fresh_keyboard =
      Some (of_nat (min 10 (length (fold edit [0x23, 0x17, 0x0E, 0x18] [] @ [10]))), t) \<and>
    bytes_at (xlate fresh_keyboard) (phys t) 0x600000 (min 10 (length (fold edit [0x23, 0x17, 0x0E, 0x18] [] @ [10]))) =
      take 10 (fold edit [0x23, 0x17, 0x0E, 0x18] [] @ [10]) \<and>
    buffer_index t = 0 \<and> \<not> enter_state t (current_terminal fresh_keyboard)"
    by (rule typed_line_is_read[OF _ e(2) _ _ _ _ _ inj])
      (simp_all add: fresh_keyboard_tables fresh_keyboard_fields no_modifiers_def fresh_pcb_def)
  then show ?thesis unfolding e by (auto simp: numeral_3_eq_3)
qed

section \<open>Switching terminals\<close>

lemma copy_page_phys:
  assumes d: "linear_page s (of_nat (4096 * d)) fd" and sr: "linear_page s (of_nat (4096 * src)) fs" and ne: "fd \<noteq> fs"
  shows "phys (copy_page d src s) p =
    (if unat p div 4096 = fd then phys s (of_nat (fs * 4096 + unat p mod 4096)) else phys s p)"
proof -
  let ?D = "of_nat (4096 * d) :: u32" and ?S = "of_nat (4096 * src) :: u32"
  have fr: "unat (xlate s (?D + of_nat k)) div 4096 = fd" "unat (xlate s (?S + of_nat k)) div 4096 = fs"
    if "k < 4096" for k
  proof -
    have "fd * 4096 + k < 2 ^ 32" "fs * 4096 + k < 2 ^ 32" using d sr that by (auto simp: linear_page_def)
    moreover have "xlate s (?D + of_nat k) = of_nat (fd * 4096 + k)" "xlate s (?S + of_nat k) = of_nat (fs * 4096 + k)"
      using d sr that by (simp_all add: linear_page_def)
    ultimately show "unat (xlate s (?D + of_nat k)) div 4096 = fd" "unat (xlate s (?S + of_nat k)) div 4096 = fs"
      using that by (simp_all only: unat_of_nat32)
  qed
  have ap: "apart (xlate s) ?D 4096 ?S 4096"
    unfolding apart_def region_def using fr ne by fastforce
  let ?bs = "bytes_at (xlate s) (phys s) ?S 4096"
  have c: "phys (copy_page d src s) = write_bytes (xlate s) ?D ?bs (phys s)"
    using ap memcpy_bytes[of "xlate s" ?D 4096 ?S "phys s"] by (simp add: copy_page_def)
  show ?thesis
  proof (cases "unat p div 4096 = fd")
    case False
    then show ?thesis using write_page_frame[OF d, of 0 ?bs p] by (simp add: c)
  next
    case True
    define k where "k = unat p mod 4096"
    have k: "k < 4096" "unat p = fd * 4096 + k" using True by (simp_all add: k_def mult.commute flip: True)
    have p: "p = of_nat (fd * 4096 + k)" unfolding k(2)[symmetric] by simp
    have "phys (copy_page d src s) p = load8 (xlate s) (write_bytes (xlate s) ?D ?bs (phys s)) (?D + of_nat k)"
      unfolding c p using load8_page[OF d k(1)] by simp
    also have "\<dots> = ?bs ! k" using load8_write_page[OF d, of 0 ?bs k] k(1) by simp
    also have "\<dots> = phys s (of_nat (fs * 4096 + k))" using load8_page[OF sr k(1)] k(1) by simp
    finally show ?thesis using True by (simp add: k_def)
  qed
qed

lemma cell_copy_page:
  assumes "linear_page s (of_nat (4096 * d)) fd" "linear_page s (of_nat (4096 * src)) fs" "fd \<noteq> fs"
    and "i < 2048" "g < 2 ^ 20"
  shows "cell g i (copy_page d src s) = (if g = fd then cell fs i s else cell g i s)"
proof -
  have u: "unat (of_nat (g * 4096 + k) :: u32) = g * 4096 + k" if "k < 4096" for k
    using that assms(5) by (intro unat_of_nat32) simp
  have "phys (copy_page d src s) (of_nat (g * 4096 + k)) =
      (if g = fd then phys s (of_nat (fs * 4096 + k)) else phys s (of_nat (g * 4096 + k)))" if "k < 4096" for k
    using copy_page_phys[OF assms(1-3), of "of_nat (g * 4096 + k)"] that unfolding u[OF that] by simp
  from this[of "2 * i"] this[of "2 * i + 1"] show ?thesis using assms(4) by (simp add: cell_def)
qed

definition terminals_ok :: "'a keyboard_state_scheme \<Rightarrow> bool" where
  "terminals_ok s \<longleftrightarrow> paging_inv s \<and> current_terminal s < 3 \<and> video_map (current_terminal s) s \<and> cursor_synced s \<and>
     terminal_buffer s = 128 * current_terminal s"

text \<open>What the user of a terminal has: its picture with its cursor, and the line being typed.\<close>

definition terminal_view :: "nat \<Rightarrow> 'a keyboard_state_scheme \<Rightarrow> tty" where
  "terminal_view t s = tty_of (term_frame (current_terminal s) t) t s"

definition terminal_line :: "nat \<Rightarrow> 'a keyboard_state_scheme \<Rightarrow> byte list" where
  "terminal_line t s = map (\<lambda>i. terminal_buffers s (128 * t + i))
     [0..<unat (if t = current_terminal s then buffer_index s else buffer_indices s t)]"

lemma remap_video_inv:
  assumes inv: "paging_inv s" "video_map (current_terminal s) s" and t: "n < 3" "current_terminal s < 3" "n \<noteq> current_terminal s"
  shows "paging_inv (remap_video n s)" "video_map n (remap_video n s)"
proof -
  let ?c = "current_terminal s"
  define T where "T = page_table (remap_video n s)"
  have T: "T i = (if i = 0xBC then set_address_31_12 (of_nat (0xB9 + n)) (page_table s i)
      else if i = 0xB9 + n then set_address_31_12 0xB8 (page_table s i)
      else if i = 0xB9 + ?c then set_address_31_12 (of_nat (0xB9 + ?c)) (page_table s i) else page_table s i)" for i
    using t by (simp add: T_def remap_video_def flush_tlb_def set_pte_def VIDEO_MEM_INDEX_def)
  have same: "get_field lo k (T i) = get_field lo k (page_table s i)" if "lo + k \<le> 12" for i lo k
    using that by (simp add: T set_address_31_12_def get_field_other)
  have dir: "page_directory (remap_video n s) = page_directory s" "pt_addr (remap_video n s) = pt_addr s"
    by (simp_all add: remap_video_def flush_tlb_def set_pte_def)
  have B8: "T 0xB8 = page_table s 0xB8" by (simp add: T)
  show "paging_inv (remap_video n s)"
    using inv(1) same[of 0 1] same[of 2 1] B8
    by (simp add: paging_inv_def directory_inv_def table_inv_def dir T_def[symmetric])
  have f: "get_field 12 20 (set_address_31_12 (of_nat v) w) = of_nat v" if "v < 2 ^ 20" for v w
    using that by (simp add: set_address_31_12_def get_field_same take_bit_20_small)
  have f8: "get_field 12 20 (set_address_31_12 0xB8 w) = 0xB8" for w using f[of "0xB8" w] by simp
  show "video_map n (remap_video n s)"
    unfolding video_map_def T_def[symmetric]
  proof (intro conjI allI impI)
    fix u :: nat assume u: "u < 3"
    show "get_field 12 20 (T (0xB9 + u)) = (if u = n then 0xB8 else of_nat (0xB9 + u))"
      using u t inv(2) f[of "0xB9 + ?c"] f8 by (auto simp: T video_map_def)
  next
    show "get_field 12 20 (T 0xBC) = of_nat (0xB9 + n)" using t f[of "0xB9 + n"] by (simp add: T)
  qed
qed


lemma linear_table_page:
  assumes "paging_inv s" "0xB8 \<le> i" "i \<le> 0xBC" "get_field 12 20 (page_table s i) = of_nat f" "f < 2 ^ 20"
  shows "linear_page s (of_nat (4096 * i)) f"
  using linear_page_table[OF assms(1-3)] assms(4,5) by (simp add: mult.commute unat_of_nat32)

lemma swap_cells:
  assumes ok: "terminals_ok s" and n: "n < 3" "n \<noteq> current_terminal s" and i: "i < 2048" and t: "t < 3"
  shows "cell (term_frame n t) i (swap_terminal n s) = cell (term_frame (current_terminal s) t) i s"
proof -
  let ?c = "current_terminal s"
  have c: "?c < 3" "paging_inv s" "video_map ?c s" using ok by (simp_all add: terminals_ok_def)
  let ?v = "save_pos s"
  have v: "paging_inv ?v" "video_map ?c ?v" "current_terminal ?v = ?c" "phys ?v = phys s"
    using c(2,3) by (simp_all add: paging_inv_def directory_inv_def table_inv_def video_map_def save_pos_def)
  define s1 where "s1 = remap_video n ?v"
  have s1: "paging_inv s1" "video_map n s1" "current_terminal s1 = ?c" "phys s1 = phys s"
    using remap_video_inv[of ?v n] v n c(1)
    by (simp_all add: s1_def) (simp_all add: remap_video_def flush_tlb_def set_pte_def)
  define s2 where "s2 = copy_page (0xB9 + ?c) 0xB8 s1"
  have fld: "get_field 12 20 (page_table s1 (0xB9 + ?c)) = of_nat (0xB9 + ?c)"
    "get_field 12 20 (page_table s1 0xB8) = of_nat 0xB8" "get_field 12 20 (page_table s1 0xBC) = of_nat (0xB9 + n)"
    using s1(1,2) c(1) n by (auto simp: video_map_def paging_inv_def table_inv_def)
  have lin: "linear_page s1 (of_nat (4096 * (0xB9 + ?c))) (0xB9 + ?c)" "linear_page s1 (of_nat (4096 * 0xB8)) 0xB8"
    "linear_page s1 (of_nat (4096 * 0xBC)) (0xB9 + n)"
    using linear_table_page[OF s1(1) _ _ fld(1)] linear_table_page[OF s1(1) _ _ fld(2)]
      linear_table_page[OF s1(1) _ _ fld(3)] c(1) n(1) by simp_all
  have x2: "xlate s2 = xlate s1" by (simp add: s2_def copy_page_def)
  have lin2: "linear_page s2 (of_nat (4096 * 0xB8)) 0xB8" "linear_page s2 (of_nat (4096 * 0xBC)) (0xB9 + n)"
    using lin(2,3) by (simp_all add: linear_page_def x2)
  define s3 where "s3 = copy_page 0xB8 0xBC s2"
  have ph: "phys (swap_terminal n s) = phys s3"
    by (simp add: swap_terminal_def Let_def s3_def s2_def s1_def[symmetric] VIDEO_MEM_INDEX_def s1(3) restore_pos_def update_cursor_def outb_def)
  have c2: "cell g i s2 = (if g = 0xB9 + ?c then cell 0xB8 i s else cell g i s)" if "g < 2 ^ 20" for g
    using cell_copy_page[OF lin(1,2) _ i that] cell_phys[OF s1(4)] by (simp add: s2_def)
  have c3: "cell g i s3 = (if g = 0xB8 then cell (0xB9 + n) i s2 else cell g i s2)" if "g < 2 ^ 20" for g
    using cell_copy_page[OF lin2 _ i that] by (simp add: s3_def)
  have "cell (term_frame n t) i s3 = cell (term_frame ?c t) i s"
    using c3[of "term_frame n t"] c2[of "term_frame n t"] c2[of "0xB9 + n"] t n c(1)
    by (auto simp: term_frame_def)
  then show ?thesis using cell_phys[OF ph] by metis
qed

lemma swap_fields:
  assumes ok: "terminals_ok s" and n: "n < 3" "n \<noteq> current_terminal s"
  shows "terminals_ok (swap_terminal n s)" "current_terminal (swap_terminal n s) = n"
    "term_x (swap_terminal n s) = term_x s" "term_y (swap_terminal n s) = term_y s"
    "terminal_buffers (swap_terminal n s) = terminal_buffers s" "buffer_index (swap_terminal n s) = buffer_indices s n"
    "buffer_indices (swap_terminal n s) = (buffer_indices s)(current_terminal s := buffer_index s)"
    "terminal_active (swap_terminal n s) = terminal_active s" "terminal_buffer (swap_terminal n s) = 128 * n"
proof -
  let ?c = "current_terminal s" and ?v = "save_pos s"
  have c: "?c < 3" "paging_inv s" "video_map ?c s" "cursor_synced s" using ok by (simp_all add: terminals_ok_def)
  have v: "paging_inv ?v" "video_map ?c ?v" "current_terminal ?v = ?c"
    using c(2,3) by (simp_all add: paging_inv_def directory_inv_def table_inv_def video_map_def save_pos_def)
  note r = remap_video_inv[of ?v n, unfolded v(3), OF v(1,2) n(1) c(1) n(2)]
  have tb: "page_directory (swap_terminal n s) = page_directory (remap_video n ?v)"
    "page_table (swap_terminal n s) = page_table (remap_video n ?v)"
    "pt_addr (swap_terminal n s) = pt_addr (remap_video n ?v)"
    by (simp_all add: swap_terminal_def Let_def restore_pos_def update_cursor_def outb_def copy_page_def)
  have inv: "paging_inv (swap_terminal n s)" "video_map n (swap_terminal n s)"
    using r by (simp_all add: paging_inv_def directory_inv_def table_inv_def video_map_def tb)
  show "current_terminal (swap_terminal n s) = n" "terminal_buffers (swap_terminal n s) = terminal_buffers s"
    "buffer_index (swap_terminal n s) = buffer_indices s n"
    "buffer_indices (swap_terminal n s) = (buffer_indices s)(?c := buffer_index s)"
    "terminal_active (swap_terminal n s) = terminal_active s" "terminal_buffer (swap_terminal n s) = 128 * n"
    using n(2) by (simp_all add: swap_terminal_def Let_def restore_pos_def update_cursor_def outb_def copy_page_def
        remap_video_def flush_tlb_def set_pte_def save_pos_def)
  moreover show xy: "term_x (swap_terminal n s) = term_x s" "term_y (swap_terminal n s) = term_y s"
    using c(4) by (simp_all add: swap_terminal_def Let_def restore_pos_def update_cursor_def outb_def copy_page_def
        remap_video_def flush_tlb_def set_pte_def save_pos_def cursor_synced_def fun_eq_iff)
  moreover have "screen_x (swap_terminal n s) = term_x (swap_terminal n s) n" "screen_y (swap_terminal n s) = term_y (swap_terminal n s) n"
    by (simp_all add: swap_terminal_def Let_def restore_pos_def update_cursor_def outb_def)
  ultimately show "terminals_ok (swap_terminal n s)"
    using inv n(1) by (simp add: terminals_ok_def cursor_synced_def)
qed

text \<open>C11: switching the displayed terminal loses nothing: the switch to an active terminal
  returns, displays that terminal, keeps the terminal invariant, and leaves the picture, the cursor
  and the half-typed line of every one of the three terminals exactly as they were.\<close>
theorem switch_terminal_transparent:
  assumes "terminals_ok s" "n < 3" "terminal_active s n"
  shows "\<exists>s'. switch_terminal fr regs n s = Some (None, s') \<and> current_terminal s' = n \<and> terminals_ok s' \<and>
    (\<forall>t < 3. terminal_view t s' = terminal_view t s \<and> terminal_line t s' = terminal_line t s)"
proof (cases "n = current_terminal s")
  case True
  then show ?thesis using assms(1) by (simp add: switch_terminal_def)
next
  case False
  note f = swap_fields[OF assms(1,2) False]
  have sw: "switch_terminal fr regs n s = Some (None, sti (swap_terminal n s))"
    using False assms(3) f(8) by (simp add: switch_terminal_def Let_def)
  have ct: "current_terminal (sti u) = current_terminal u" "cell g i (sti u) = cell g i u" "term_x (sti u) = term_x u"
    "term_y (sti u) = term_y u" for g i and u :: "'a keyboard_state_scheme"
    by (simp_all add: sti_def cell_def)
  have st: "terminals_ok (sti u) = terminals_ok u" "current_terminal (sti u) = current_terminal u"
    "terminal_view t (sti u) = terminal_view t u" "terminal_line t (sti u) = terminal_line t u"
    for t and u :: "'a keyboard_state_scheme"
    by (simp_all add: terminals_ok_def video_map_def cursor_synced_def terminal_view_def tty_of_def terminal_line_def ct cong: if_cong)
      (simp_all add: sti_def)
  have view: "terminal_view t (swap_terminal n s) = terminal_view t s" if "t < 3" for t
    using swap_cells[OF assms(1,2) False _ that] f(2,3,4)
    by (simp add: terminal_view_def tty_of_def fun_eq_iff)
  have ln: "terminal_line t (swap_terminal n s) = terminal_line t s" if "t < 3" for t
    using f(2,5,6,7) False by (auto simp: terminal_line_def)
  show ?thesis using sw st f(1,2) view ln by auto
qed

lemma switch_terminal_transparent_witness:
  "\<exists>s'. switch_terminal fresh_frame (0, 0) 1 fresh_keyboard = Some (None, s') \<and> current_terminal s' = 1 \<and>
     terminal_view 0 s' = terminal_view 0 fresh_keyboard"
proof -
  have "terminals_ok fresh_keyboard"
    by (simp add: terminals_ok_def fresh_keyboard_paging fresh_keyboard_tables fresh_keyboard_fields cursor_synced_def)
  from switch_terminal_transparent[OF this, of 1 fresh_frame "(0, 0)"] show ?thesis
    by (auto simp: fresh_keyboard_fields)
qed


lemma press_enter_many:
  assumes "length (line s) + k \<le> 255"
  shows "line ((press beyond fr regs 0x1C ^^ k) s) = line s @ replicate k 10 \<and>
    keys_frame s ((press beyond fr regs 0x1C ^^ k) s)"
  using assms
proof (induction k)
  case 0
  then show ?case by (simp add: keys_frame_refl)
next
  case (Suc k)
  let ?u = "(press beyond fr regs 0x1C ^^ k) s"
  have u: "line ?u = line s @ replicate k 10" "keys_frame s ?u" using Suc by simp_all
  have "unat (buffer_index ?u) < 255" using length_line[of ?u] Suc.prems by (simp add: u(1))
  then obtain s' where "keyboard_handler beyond fr regs 0x1C ?u = Some (None, s')" "line s' = line ?u @ [10]" "keys_frame ?u s'"
    using handler_enter[of ?u beyond fr regs] by blast
  moreover from this(1) have "(press beyond fr regs 0x1C ^^ Suc k) s = s'" by (simp add: press_def)
  ultimately show ?case using u keys_frame_trans by (simp add: replicate_append_same) blast
qed

text \<open>C40: Enter is not bounded: pressing it 129 times on terminal 0 with nobody reading fills
  the 128 bytes of that terminal's line and stores the last newline into the first byte of
  terminal 1's line.\<close>
theorem enter_overruns_line_buffer:
  assumes "buffer_index s = 0" "terminal_buffer s = 0"
  shows "terminal_buffers ((press beyond fr regs 0x1C ^^ 129) s) 128 = 10 \<and>
    unat (buffer_index ((press beyond fr regs 0x1C ^^ 129) s)) = 129"
proof -
  let ?u = "(press beyond fr regs 0x1C ^^ 129) s"
  have "line s = []" using assms(1) by (simp add: line_def)
  then have l: "line ?u = replicate 129 10" "keys_frame s ?u"
    using press_enter_many[of s 129 beyond fr regs] by simp_all
  then have n: "unat (buffer_index ?u) = 129" using length_line[of ?u] by simp
  have "line ?u ! 128 = 10" unfolding l(1) by simp
  moreover have "line ?u ! 128 = terminal_buffers ?u (terminal_buffer ?u + 128)"
    unfolding line_def n by simp
  ultimately show ?thesis using n l(2) assms(2) by (simp add: keys_frame_def)
qed

lemma enter_overruns_line_buffer_witness:
  "terminal_buffers ((press (\<lambda>_ _. 0) fresh_frame (0, 0) 0x1C ^^ 129) fresh_keyboard) 128 = 10"
  by (rule enter_overruns_line_buffer[THEN conjunct1]) (simp_all add: fresh_keyboard_fields)

section \<open>Writing to a terminal\<close>

lemma terminal_write_loop:
  fixes s :: "'a kernel_state_scheme"
  assumes lin: "linear_page s (term_base T) f" "cursor_ok T s"
    and T: "terminal_id (pcbs s (get_pcb_pointer (current_pid s))) = T"
    and away: "\<forall>i < n. unat (xlate s (buf + of_nat i)) div 4096 \<noteq> f"
  defines "bs \<equiv> filter (\<lambda>b. b \<noteq> 0) (bytes_at (xlate s) (phys s) buf n)"
  shows "fold (terminal_write_byte buf) [0..<n] (0, s) = (of_nat (length bs), fold (\<lambda>c. tputc c T) bs s)"
  unfolding bs_def using away
proof (induction n)
  case 0
  then show ?case by simp
next
  case (Suc n)
  let ?bs = "\<lambda>n. filter (\<lambda>b. b \<noteq> 0) (bytes_at (xlate s) (phys s) buf n)"
  let ?u = "fold (\<lambda>c. tputc c T) (?bs n) s"
  have l: "linear_page s (term_base T) f \<and> cursor_ok T s" using lin by simp
  note fr = terminal_out.write_frame[of s T f "?bs n", OF l]
  have cf: "console_frame s ?u" by (rule console_frame_fold) (rule console_frame_tputc)
  have ext: "pcbs ?u = pcbs s" "current_pid ?u = current_pid s"
    using cf unfolding console_frame_def by (cases s; cases ?u; simp)+
  have "load8 (xlate ?u) (phys ?u) (buf + of_nat n) = load8 (xlate s) (phys s) (buf + of_nat n)"
    using fr Suc.prems by (simp add: load8_def tty_frame_def)
  moreover have "bytes_at (xlate s) (phys s) buf (Suc n) =
      bytes_at (xlate s) (phys s) buf n @ [load8 (xlate s) (phys s) (buf + of_nat n)]"
    by (simp add: bytes_at_def)
  ultimately show ?case using Suc ext T by (simp add: terminal_write_byte_def Let_def)
qed

text \<open>The state after a write: the characters of the buffer that are not NUL went to the terminal of the
  calling process, and nothing else changed but the interrupt flag and the cursor ports.\<close>

lemma terminal_write_result:
  fixes s :: "'a keyboard_state_scheme"
  defines "T \<equiv> terminal_id (pcbs s (get_pcb_pointer (current_pid s)))"
  defines "f \<equiv> term_frame (current_terminal s)"
  assumes pv: "paging_inv s" "video_map (current_terminal s) s" and T: "T < 3" "cursor_ok T s" and n: "n < 2 ^ 31"
    and away: "\<forall>i < n. unat (xlate s (buf + of_nat i)) div 4096 \<noteq> f T"
  defines "bs \<equiv> filter (\<lambda>b. b \<noteq> 0) (bytes_at (xlate s) (phys s) buf n)"
  defines "u \<equiv> fold (\<lambda>c. tputc c T) bs (cli s)"
  shows "terminal_write 1 buf (of_nat n) s = (of_nat (length bs), update_cursor (sti u))"
    "tty_frame (f T) T (cli s) u" "console_frame (cli s) u"
    "tty_of (f T) T u = fold tty_put bs (tty_of (f T) T s)"
proof -
  let ?s = "cli s"
  have c: "xlate ?s = xlate s" "phys ?s = phys s" "pcbs ?s = pcbs s" "current_pid ?s = current_pid s"
    "term_x ?s = term_x s" "term_y ?s = term_y s"
    by (simp, simp_all add: cli_def)
  have l: "linear_page ?s (term_base T) (f T) \<and> cursor_ok T ?s"
    using linear_term[OF pv T(1)] T(2) c by (simp add: linear_page_def cursor_ok_def f_def)
  have nn: "nat (sint (of_nat n :: u32)) = n" using n by (simp add: sint_of_nat32)
  show "terminal_write 1 buf (of_nat n) s = (of_nat (length bs), update_cursor (sti u))"
    using terminal_write_loop[of ?s T "f T" n buf] l away c
    by (simp add: terminal_write_def nn T_def bs_def u_def)
  have "tty_of (f T) T ?s = tty_of (f T) T s" by (simp add: tty_of_def cell_def c cong: if_cong)
  then show "tty_of (f T) T u = fold tty_put bs (tty_of (f T) T s)"
    using terminal_out.write_view[of ?s T "f T" bs, OF l] by (simp add: u_def)
  show "tty_frame (f T) T (cli s) u" unfolding u_def by (rule terminal_out.write_frame[of ?s T "f T" bs, OF l])
  show "console_frame (cli s) u" unfolding u_def by (rule console_frame_fold) (rule console_frame_tputc)
qed

text \<open>The other terminals keep their page.\<close>

lemma tty_frame_other:
  assumes fr: "tty_frame (term_frame cur T) T s u" and t: "t < 3" "T < 3" "t \<noteq> T"
  shows "tty_of (term_frame cur t) t u = tty_of (term_frame cur t) t s"
proof -
  have "term_frame cur t \<noteq> term_frame cur T" "term_frame cur t < 2 ^ 20" using t by (auto simp: term_frame_def)
  then have "cell (term_frame cur t) i u = cell (term_frame cur t) i s" if "i < 2000" for i
    using cell_other_frame[OF fr, of "term_frame cur t" i] that by simp
  then show ?thesis using fr t(3) by (auto simp: tty_of_def tty_frame_def)
qed

lemma tty_of_flags [simp]:
  fixes v :: "'a keyboard_state_scheme"
  shows "tty_of g t (update_cursor v) = tty_of g t v" "tty_of g t (sti v) = tty_of g t v" "tty_of g t (cli v) = tty_of g t v"
  by (simp_all add: tty_of_def cell_def update_cursor_def Let_def outb_def sti_def cli_def cong: if_cong)

text \<open>C10: \<open>write\<close> on the terminal puts the nonzero bytes of the buffer, in order, on the
  terminal of the calling process, whichever terminal is displayed, answers how many they were, and
  leaves the other terminals alone.\<close>
theorem terminal_write_own_terminal:
  fixes s :: "'a keyboard_state_scheme"
  defines "T \<equiv> terminal_id (pcbs s (get_pcb_pointer (current_pid s)))"
  defines "f \<equiv> term_frame (current_terminal s)"
  assumes "paging_inv s" "video_map (current_terminal s) s" "T < 3" "cursor_ok T s" "n < 2 ^ 31"
    and "\<forall>i < n. unat (xlate s (buf + of_nat i)) div 4096 \<noteq> f T"
  defines "bs \<equiv> filter (\<lambda>b. b \<noteq> 0) (bytes_at (xlate s) (phys s) buf n)"
  shows "\<exists>s'. terminal_write 1 buf (of_nat n) s = (of_nat (length bs), s') \<and>
    tty_of (f T) T s' = fold tty_put bs (tty_of (f T) T s) \<and>
    (\<forall>u < 3. u \<noteq> T \<longrightarrow> tty_of (f u) u s' = tty_of (f u) u s)"
proof -
  note r = terminal_write_result[OF assms(3,4,5,6,7,8)[unfolded T_def f_def], folded T_def f_def, folded bs_def]
  show ?thesis using r tty_frame_other[OF r(2)[unfolded f_def] _ assms(5)] by (auto simp: f_def)
qed

lemma terminal_write_own_terminal_witness:
  "\<exists>s'. terminal_write 1 0x502000 4 fresh_keyboard = (4, s') \<and>
     tty_of 0xB8 0 s' = fold tty_put [127, 69, 76, 70] (tty_of 0xB8 0 fresh_keyboard)"
proof -
  have i: "kernel_image (xlate fresh_keyboard) (phys fresh_keyboard)"
    by (rule kernel_image_paging[OF fresh_keyboard_paging(1)]) (simp add: fresh_keyboard_tables)
  have b: "bytes_at (xlate fresh_keyboard) (phys fresh_keyboard) 0x502000 4 = [127, 69, 76, 70]"
    by (simp add: bytes_at_def upt_rec image_load8[OF i]) (simp add: tiny_image_def)
  have a: "unat (xlate fresh_keyboard (0x502000 + of_nat k)) div 4096 \<noteq> 0xB8" if "k < 4" for k
    using region_kernel[OF i _ _ in_region[of k 4 "0x502000"]] that by auto
  have f: "current_terminal fresh_keyboard = 0" "term_frame 0 0 = 0xB8"
    "terminal_id (pcbs fresh_keyboard (get_pcb_pointer (current_pid fresh_keyboard))) = 0"
    by (simp_all add: term_frame_def fresh_keyboard_tables fresh_pcb_def)
  have "cursor_ok 0 fresh_keyboard" by (simp add: cursor_ok_def fresh_keyboard_tables)
  then show ?thesis
    using terminal_write_own_terminal[of fresh_keyboard 4 "0x502000", unfolded f b] fresh_keyboard_paging a by auto
qed

section \<open>Key releases\<close>

text \<open>The tables one after the other in memory, in the order of their declarations.\<close>

definition contiguous :: "key_table \<Rightarrow> nat \<Rightarrow> byte" where
  "contiguous t i =
     (let rows = key_codes plain @ key_codes shifted @ key_codes caps @ key_codes caps_shifted;
          k = (case t of plain \<Rightarrow> 0 | shifted \<Rightarrow> 64 | caps \<Rightarrow> 128 | caps_shifted \<Rightarrow> 192) + i
      in if k < length rows then rows ! k else 0)"

text \<open>Releasing a key types nothing: whatever lies behind the key table in memory, a
  release code returns without touching the line, the screen or a pending Enter; and with the four
  tables in memory one after the other, the releases of the shift, control and alt keys are
  recognised and end their modifier, although the handler reads its table far out of bounds for
  them.\<close>
theorem releases_type_nothing:
  assumes "0x80 \<le> sc"
  shows "(\<exists>s'. keyboard_handler beyond fr regs sc s = Some (None, s') \<and> line s' = line s \<and> phys s' = phys s \<and>
           enter_state s' = enter_state s \<and> current_terminal s' = current_terminal s) \<and>
    (sc \<in> {0xAA, 0xB6} \<longrightarrow> (\<exists>s'. keyboard_handler contiguous fr regs sc s = Some (None, s') \<and> \<not> shift_state s')) \<and>
    (sc = 0x9D \<longrightarrow> (\<exists>s'. keyboard_handler contiguous fr regs sc s = Some (None, s') \<and> \<not> ctrl_state s')) \<and>
    (sc = 0xB8 \<longrightarrow> (\<exists>s'. keyboard_handler contiguous fr regs sc s = Some (None, s') \<and> \<not> alt_state s'))"
proof -
  have ne: "sc \<noteq> 0x0E" "sc \<noteq> 0x1C" "sc \<noteq> 0x0F" "sc \<noteq> 0x26" "\<not> sc \<le> 0x58" "\<not> sc \<le> 0x3D" "sc \<noteq> 0x3A" "sc \<noteq> 0x2A" "sc \<noteq> 0x36" "sc \<noteq> 0x1D" "sc \<noteq> 0x38"
    using assms by (auto simp: word_le_nat_alt)
  have fld: "line (sti (send_eoi n (cli u))) = line u \<and> phys (sti (send_eoi n (cli u))) = phys u \<and>
      enter_state (sti (send_eoi n (cli u))) = enter_state u \<and>
      current_terminal (sti (send_eoi n (cli u))) = current_terminal u" for n and u :: "'a keyboard_state_scheme"
    by (simp add: state_updates) (simp add: sti_def cli_def send_eoi_def outb_def)
  have any: "\<exists>s'. keyboard_handler beyond fr regs sc s = Some (None, s') \<and> line s' = line s \<and> phys s' = phys s \<and>
           enter_state s' = enter_state s \<and> current_terminal s' = current_terminal s"
    using ne by (simp add: keyboard_handler_def Let_def switch_key_def control_key_def printable_key_def scancodes)
      (simp add: line_def sti_def cli_def send_eoi_def outb_def)
  have "contiguous plain 170 = 0" "contiguous plain 182 = 0" "contiguous plain 157 = 0" "contiguous plain 184 = 0"
    by code_simp+
  then have k: "key_at contiguous plain 0xAA = 0" "key_at contiguous plain 0xB6 = 0" "key_at contiguous plain 0x9D = 0"
    "key_at contiguous plain 0xB8 = 0"
    by (simp_all add: key_at_def)
  have m: "shift_state (sti (send_eoi n u)) = shift_state u" "ctrl_state (sti (send_eoi n u)) = ctrl_state u"
    "alt_state (sti (send_eoi n u)) = alt_state u" for n and u :: "'a keyboard_state_scheme"
    by (simp_all add: sti_def send_eoi_def outb_def)
  have "sc \<in> {0xAA, 0xB6} \<longrightarrow> (\<exists>s'. keyboard_handler contiguous fr regs sc s = Some (None, s') \<and> \<not> shift_state s')"
    "sc = 0x9D \<longrightarrow> (\<exists>s'. keyboard_handler contiguous fr regs sc s = Some (None, s') \<and> \<not> ctrl_state s')"
    "sc = 0xB8 \<longrightarrow> (\<exists>s'. keyboard_handler contiguous fr regs sc s = Some (None, s') \<and> \<not> alt_state s')"
    by (auto simp: keyboard_handler_def k m switch_key_def control_key_def scancodes)
  then show ?thesis using any by blast
qed

lemma releases_type_nothing_witness:
  "\<exists>s'. keyboard_handler contiguous fresh_frame (0, 0) 0xAA (fresh_keyboard\<lparr>shift_state := True\<rparr>) = Some (None, s') \<and> \<not> shift_state s'"
  using releases_type_nothing[of "0xAA" contiguous fresh_frame "(0, 0)" "fresh_keyboard\<lparr>shift_state := True\<rparr>"] by auto

end
