(* ===== verification/Syscall.thy ===== *)
theory Syscall
  imports Keyboard
begin

text \<open>
  The system call interface: the handlers of \<open>interrupts/syscall_handler.c\<close> that go through a
  descriptor's jump table, the two handlers that only print, and the dispatcher of
  \<open>interrupts/syscall.S\<close> with its table of handlers. What a call meets outside its arguments
  (uninitialised locals, saved registers, the interrupts that arrive while it spins) is collected
  in one record.
\<close>

section \<open>The context of a call\<close>

record 's call_context =
  ctx_frame :: create_frame
  ctx_regs :: "u32 \<times> u32"
  ctx_dentry :: dentry
  ctx_stack :: reader
  ctx_interrupts :: "('s \<Rightarrow> 's) list"

section \<open>Jump tables\<close>

fun read_op ::
  "fd_ops \<Rightarrow> 'a keyboard_state_scheme call_context \<Rightarrow> u32 \<Rightarrow> addr \<Rightarrow> u32 \<Rightarrow> 'a keyboard_state_scheme
   \<Rightarrow> (u32 \<times> 'a keyboard_state_scheme) option" where
  "read_op directory_jumptable ctx fd buf nbytes s = directory_read fd buf nbytes (ctx_dentry ctx) (ctx_stack ctx) s"
| "read_op file_jumptable ctx fd buf nbytes s = Some (file_read fd buf nbytes s)"
| "read_op terminal_jumptable ctx fd buf nbytes s = terminal_read fd buf nbytes (ctx_interrupts ctx) s"
| "read_op rtc_jumptable ctx fd buf nbytes s = rtc_read fd (ctx_interrupts ctx) s"

fun write_op ::
  "fd_ops \<Rightarrow> u32 \<Rightarrow> addr \<Rightarrow> u32 \<Rightarrow> 'a keyboard_state_scheme \<Rightarrow> u32 \<times> 'a keyboard_state_scheme" where
  "write_op directory_jumptable fd buf nbytes s = directory_write fd buf nbytes s"
| "write_op file_jumptable fd buf nbytes s = file_write fd buf nbytes s"
| "write_op terminal_jumptable fd buf nbytes s = terminal_write fd buf nbytes s"
| "write_op rtc_jumptable fd buf nbytes s = rtc_write fd buf nbytes s"

section \<open>Handlers\<close>

text \<open>The jump table of a valid descriptor; a NULL pointer there is a jump to an unmapped page, which
  never returns (None).\<close>

definition fd_table :: "u32 \<Rightarrow> 'a kernel_state_scheme \<Rightarrow> fd_ops option" where
  "fd_table fd s = file_table_ptr (cur_fd s (nat (sint fd)))"

definition read_handler ::
  "'a keyboard_state_scheme call_context \<Rightarrow> u32 \<Rightarrow> addr \<Rightarrow> u32 \<Rightarrow> 'a keyboard_state_scheme
   \<Rightarrow> (u32 \<times> 'a keyboard_state_scheme) option" where
  "read_handler ctx fd buf nbytes s =
     (if check_valid_fd fd s = - 1 then Some (- 1, s)
      else case fd_table fd s of None \<Rightarrow> None | Some ops \<Rightarrow> read_op ops ctx fd buf nbytes s)"

definition write_handler ::
  "u32 \<Rightarrow> addr \<Rightarrow> u32 \<Rightarrow> 'a keyboard_state_scheme \<Rightarrow> (u32 \<times> 'a keyboard_state_scheme) option" where
  "write_handler fd buf nbytes s =
     (if check_valid_fd fd s = - 1 then Some (- 1, s)
      else case fd_table fd s of None \<Rightarrow> None | Some ops \<Rightarrow> Some (write_op ops fd buf nbytes s))"

text \<open>A NULL filename is dereferenced by \<open>strncmp\<close>: page 0 is not mapped, and the page fault
  handler does not return.\<close>

definition open_handler ::
  "dentry \<Rightarrow> reader option \<Rightarrow> 'a kernel_state_scheme \<Rightarrow> (u32 \<times> 'a kernel_state_scheme) option" where
  "open_handler d filename s =
     (case filename of None \<Rightarrow> None
      | Some name \<Rightarrow>
          if strncmp (lit (ascii ''rtc'')) name 3 = 0 then Some (rtc_open s)
          else if strncmp (lit (ascii ''.'')) name 1 = 0 then directory_open filename d s
          else file_open filename d s)"

definition close_handler :: "u32 \<Rightarrow> 'a kernel_state_scheme \<Rightarrow> (u32 \<times> 'a kernel_state_scheme) option" where
  "close_handler fd s =
     (if check_valid_fd fd s = - 1 then Some (- 1, s)
      else case fd_table fd s of None \<Rightarrow> None | Some ops \<Rightarrow> Some (close_op ops fd s))"

definition set_handler_handler :: "addr \<Rightarrow> 'a console_state_scheme \<Rightarrow> (u32 \<times> 'a console_state_scheme) option" where
  "set_handler_handler conv_buf s =
     (case printf conv_buf (ascii ''set_handler syscall occurred'' @ [10]) [] s of
        None \<Rightarrow> None | Some (_, s') \<Rightarrow> Some (- 1, s'))"

definition sigreturn_handler :: "addr \<Rightarrow> 'a console_state_scheme \<Rightarrow> (u32 \<times> 'a console_state_scheme) option" where
  "sigreturn_handler conv_buf s =
     (case printf conv_buf (ascii ''sigreturn syscall occurred'' @ [10]) [] s of
        None \<Rightarrow> None | Some (_, s') \<Rightarrow> Some (- 1, s'))"

section \<open>The dispatcher\<close>

datatype syscall =
  halt_S | execute_S | read_S | write_S | open_S | close_S | getargs_S | vidmap_S | set_handler_S | sigreturn_S

definition mp3_syscall_table :: "syscall list" where
  "mp3_syscall_table =
     [halt_S, execute_S, read_S, write_S, open_S, close_S, getargs_S, vidmap_S, set_handler_S, sigreturn_S]"

definition returning :: "(u32 \<times> 's) option \<Rightarrow> (control \<times> 's) option" where
  "returning r = (case r of None \<Rightarrow> None | Some (v, s) \<Rightarrow> Some (Return v, s))"

definition user_string :: "addr \<Rightarrow> 'a paging_state_scheme \<Rightarrow> reader option" where
  "user_string a s = (if a = 0 then None else Some (ptr (xlate s) (phys s) a))"

text \<open>\<open>execute\<close> with a NULL command faults in \<open>process_create\<close>.\<close>

fun run_syscall ::
  "syscall \<Rightarrow> 'a keyboard_state_scheme call_context \<Rightarrow> u32 \<Rightarrow> u32 \<Rightarrow> u32 \<Rightarrow> 'a keyboard_state_scheme
   \<Rightarrow> (control \<times> 'a keyboard_state_scheme) option" where
  "run_syscall halt_S ctx ebx ecx edx s = halt_handler (ctx_frame ctx) (ctx_regs ctx) ebx s"
| "run_syscall execute_S ctx ebx ecx edx s =
     (case user_string ebx s of None \<Rightarrow> None
      | Some command \<Rightarrow> execute_handler (ctx_frame ctx) (ctx_regs ctx) command s)"
| "run_syscall read_S ctx ebx ecx edx s = returning (read_handler ctx ebx ecx edx s)"
| "run_syscall write_S ctx ebx ecx edx s = returning (write_handler ebx ecx edx s)"
| "run_syscall open_S ctx ebx ecx edx s = returning (open_handler (ctx_dentry ctx) (user_string ebx s) s)"
| "run_syscall close_S ctx ebx ecx edx s = returning (close_handler ebx s)"
| "run_syscall getargs_S ctx ebx ecx edx s = returning (getargs_handler ebx ecx s)"
| "run_syscall vidmap_S ctx ebx ecx edx s = Some (case vidmap_handler ebx s of (v, s') \<Rightarrow> (Return v, s'))"
| "run_syscall set_handler_S ctx ebx ecx edx s = returning (set_handler_handler (loc_conv_buf (ctx_frame ctx)) s)"
| "run_syscall sigreturn_S ctx ebx ecx edx s = returning (sigreturn_handler (loc_conv_buf (ctx_frame ctx)) s)"

definition handle_syscall ::
  "'a keyboard_state_scheme call_context \<Rightarrow> u32 \<Rightarrow> u32 \<Rightarrow> u32 \<Rightarrow> u32 \<Rightarrow> 'a keyboard_state_scheme
   \<Rightarrow> (control \<times> 'a keyboard_state_scheme) option" where
  "handle_syscall ctx eax ebx ecx edx s =
     (if eax < 1 then Some (Return (- 1), s)
      else if eax > 10 then Some (Return (- 1), s)
      else run_syscall (mp3_syscall_table ! unat (eax - 1)) ctx ebx ecx edx s)"

end
