(* ===== verification/Display.thy ===== *)
theory Display
  imports Syscall
begin

text \<open>
  What the terminals rely on between any two operations of the kernel: the page tables have their
  shape, the displayed terminal's page is the video memory, its cursor is the screen's, every
  cursor is on its page and the line buffer is the displayed terminal's. Every system call and
  every interrupt keeps it.
\<close>

section \<open>The display invariant\<close>

definition disp_ok :: "'a keyboard_state_scheme \<Rightarrow> bool" where
  "disp_ok s \<longleftrightarrow> terminals_ok s \<and> (\<forall>t < 3. cursor_ok t s)"

lemmas disp_defs = disp_ok_def terminals_ok_def paging_inv_def directory_inv_def table_inv_def
  video_map_def cursor_synced_def cursor_ok_def

lemma disp_ok_machine [simp]:
  fixes s :: "'a keyboard_state_scheme"
  shows "disp_ok (s\<lparr>phys := v1\<rparr>) = disp_ok s" "disp_ok (s\<lparr>iflag := v2\<rparr>) = disp_ok s"
    "disp_ok (s\<lparr>io_log := v3\<rparr>) = disp_ok s" "disp_ok (s\<lparr>master_mask := v4\<rparr>) = disp_ok s"
    "disp_ok (s\<lparr>slave_mask := v5\<rparr>) = disp_ok s"
  by (simp_all add: disp_defs)

lemma disp_ok_kernel [simp]:
  fixes s :: "'a keyboard_state_scheme"
  shows "disp_ok (s\<lparr>fs_img_start := v1\<rparr>) = disp_ok s" "disp_ok (s\<lparr>pcbs := v2\<rparr>) = disp_ok s"
    "disp_ok (s\<lparr>file_descriptors := v3\<rparr>) = disp_ok s" "disp_ok (s\<lparr>active_pids := v4\<rparr>) = disp_ok s"
    "disp_ok (s\<lparr>current_pid := v5\<rparr>) = disp_ok s" "disp_ok (s\<lparr>terminal_pids := v6\<rparr>) = disp_ok s"
    "disp_ok (s\<lparr>tss_esp0 := v7\<rparr>) = disp_ok s" "disp_ok (s\<lparr>rtc_interrupt_flag := v8\<rparr>) = disp_ok s"
    "disp_ok (s\<lparr>rtc_count := v9\<rparr>) = disp_ok s" "disp_ok (s\<lparr>current_index := v10\<rparr>) = disp_ok s"
  by (simp_all add: disp_defs)

lemma disp_ok_keyboard [simp]:
  fixes s :: "'a keyboard_state_scheme"
  shows "disp_ok (s\<lparr>ctrl_state := v1\<rparr>) = disp_ok s" "disp_ok (s\<lparr>shift_state := v2\<rparr>) = disp_ok s"
    "disp_ok (s\<lparr>alt_state := v3\<rparr>) = disp_ok s" "disp_ok (s\<lparr>caps_state := v4\<rparr>) = disp_ok s"
    "disp_ok (s\<lparr>caps_dirty := v5\<rparr>) = disp_ok s" "disp_ok (s\<lparr>enter_state := v6\<rparr>) = disp_ok s"
    "disp_ok (s\<lparr>terminal_buffers := v7\<rparr>) = disp_ok s" "disp_ok (s\<lparr>buffer_index := v8\<rparr>) = disp_ok s"
    "disp_ok (s\<lparr>buffer_indices := v9\<rparr>) = disp_ok s" "disp_ok (s\<lparr>terminal_active := v10\<rparr>) = disp_ok s"
  by (simp_all add: disp_defs)

lemma disp_ok_updates [simp]:
  fixes s :: "'a keyboard_state_scheme"
  shows "disp_ok (cli s) = disp_ok s" "disp_ok (sti s) = disp_ok s" "disp_ok (outb b p s) = disp_ok s"
    "disp_ok (send_eoi n s) = disp_ok s" "disp_ok (upd_pcb a f s) = disp_ok s" "disp_ok (upd_fd i g s) = disp_ok s"
    "disp_ok (save_regs r s) = disp_ok s" "disp_ok (update_cursor s) = disp_ok s"
  by (simp_all add: cli_def sti_def outb_def send_eoi_def upd_pcb_def upd_fd_def save_regs_def update_cursor_def Let_def)

lemma disp_ok_set_paging [simp]: "disp_ok (set_paging_for_process pid s) = disp_ok s"
  by (simp add: disp_ok_def terminals_ok_def cursor_synced_def cursor_ok_def)
    (simp add: set_paging_for_process_def flush_tlb_def set_pde_def)


section \<open>Console output keeps the display invariant\<close>

lemma disp_ok_frame:
  assumes "disp_ok s" "console_frame s s'" "cursor_synced s'" "\<forall>t < 3. cursor_ok t s'"
  shows "disp_ok s'"
proof -
  have "page_directory s' = page_directory s" "page_table s' = page_table s" "pt_addr s' = pt_addr s"
    "current_terminal s' = current_terminal s" "terminal_buffer s' = terminal_buffer s"
    using assms(2) console_frame_keyboard[OF assms(2)] by (simp_all add: console_frame_def)
  then show ?thesis using assms(1,3,4)
    by (simp add: disp_ok_def terminals_ok_def paging_inv_def directory_inv_def table_inv_def video_map_def)
qed

lemma disp_ok_screen: "disp_ok s \<Longrightarrow> screen_ok s"
  by (simp add: disp_ok_def terminals_ok_def screen_ok_def linear_video cursor_synced_def)
    (metis cursor_ok_def)

lemma disp_ok_screen_out:
  assumes ok: "disp_ok s" and s': "console_frame s s'" "screen_ok s'" "cursor_synced s'"
    and fr: "\<forall>u. u \<noteq> current_terminal s \<longrightarrow> term_x s' u = term_x s u \<and> term_y s' u = term_y s u"
  shows "disp_ok s'"
proof (rule disp_ok_frame[OF ok s'(1,3)], intro allI impI)
  fix t :: nat
  assume t: "t < 3"
  have c: "current_terminal s' = current_terminal s" using s'(1) by (simp add: console_frame_def)
  show "cursor_ok t s'"
  proof (cases "t = current_terminal s")
    case True
    then show ?thesis using s'(2,3) c by (simp add: cursor_ok_def cursor_synced_def screen_ok_def)
  next
    case False
    then show ?thesis using ok fr t by (simp add: disp_ok_def cursor_ok_def)
  qed
qed

lemma disp_ok_putc: "disp_ok s \<Longrightarrow> disp_ok (putc c s)"
  using putc_frame[OF disp_ok_screen, of s c] putc_ok[OF disp_ok_screen, of s c] putc_synced[OF disp_ok_screen, of s c]
  by (intro disp_ok_screen_out[OF _ console_frame_putc]) (simp_all add: tty_frame_def)

interpretation disp_output: output_invariant disp_ok
  by unfold_locales (simp_all add: disp_ok_putc)

lemma disp_ok_tputc:
  assumes ok: "disp_ok s" and t: "t < 3"
  shows "disp_ok (tputc c t s)"
proof -
  let ?f = "term_frame (current_terminal s) t"
  have l: "linear_page s (term_base t) ?f" "cursor_ok t s"
    using ok linear_term t by (auto simp: disp_ok_def terminals_ok_def)
  note e = tputc_effect[OF l, of c]
  have "cursor_synced (tputc c t s)"
    using ok e(4,5) e(2) by (auto simp: disp_ok_def terminals_ok_def cursor_synced_def tty_frame_def)
  moreover have "cursor_ok u (tputc c t s)" if "u < 3" for u
    using that e(3) e(2) ok by (cases "u = t") (auto simp: disp_ok_def tty_frame_def cursor_ok_def)
  ultimately show ?thesis using disp_ok_frame[OF ok console_frame_tputc] by blast
qed

lemma disp_ok_tputs:
  assumes "disp_ok s" "t < 3" "is_cstr str cs"
  shows "\<exists>s'. tputs str t s = Some (of_nat (length cs), s') \<and> disp_ok s'"
proof -
  have "disp_ok (fold (\<lambda>c. tputc c t) cs s)" using assms(1,2)
    by (induction cs arbitrary: s) (simp_all add: disp_ok_tputc)
  then show ?thesis using tputs_fold[OF assms(3)] by blast
qed

lemma disp_ok_clear:
  assumes "disp_ok s"
  shows "disp_ok (clear s)"
proof (rule disp_ok_screen_out[OF assms console_frame_clear])
  have x: "xlate (clear s) = xlate s" by (rule console_frame_xlate[OF console_frame_clear])
  show "screen_ok (clear s)" using disp_ok_screen[OF assms] linear_page_cong[OF x]
    by (simp add: screen_ok_def) (simp add: clear_def)
  show "cursor_synced (clear s)" by (simp add: clear_def save_pos_synced)
  have "term_x (fold (\<lambda>i. put_cell video_mem (int i) 32) is s) = term_x s \<and>
        term_y (fold (\<lambda>i. put_cell video_mem (int i) 32) is s) = term_y s \<and>
        current_terminal (fold (\<lambda>i. put_cell video_mem (int i) 32) is s) = current_terminal s" for "is"
    by (induction "is" arbitrary: s) simp_all
  then show "\<forall>u. u \<noteq> current_terminal s \<longrightarrow> term_x (clear s) u = term_x s u \<and> term_y (clear s) u = term_y s u"
    by (simp add: clear_def save_pos_def)
qed

lemma disp_ok_backspace:
  assumes "disp_ok s"
  shows "disp_ok (terminal_backspace s)"
proof (rule disp_ok_screen_out[OF assms console_frame_backspace])
  show "screen_ok (terminal_backspace s)" by (rule terminal_backspace_screen[OF disp_ok_screen[OF assms]])
  show "cursor_synced (terminal_backspace s)"
    using assms by (simp add: terminal_backspace_def save_pos_synced disp_ok_def terminals_ok_def)
  show "\<forall>u. u \<noteq> current_terminal s \<longrightarrow>
      term_x (terminal_backspace s) u = term_x s u \<and> term_y (terminal_backspace s) u = term_y s u"
    by (simp add: terminal_backspace_def save_pos_def)
qed


section \<open>The operations keep the display invariant\<close>

lemma disp_ok_create:
  assumes "process_create fr command terminal parent s = Some (pid, s')" "disp_ok s"
  shows "disp_ok s'"
proof -
  have exe: "disp_ok t'" if "create_executable fr ino fargs terminal parent t = Some (p, t')" "disp_ok t" for ino fargs t p t'
    using that by (auto simp: create_executable_def Let_def split: if_splits option.splits
        dest!: disp_output.keep_printf)
  show ?thesis using assms
    by (auto simp: process_create_def Let_def split: if_splits option.splits prod.splits dest!: exe)
qed

lemma disp_ok_start: "disp_ok (snd (process_start regs pid s)) = disp_ok s"
  by (simp add: process_start_def Let_def)

lemma disp_ok_switch: "disp_ok (snd (process_switch regs pid s)) = disp_ok s"
  by (simp add: process_switch_def Let_def)

lemma disp_ok_execute: "execute_handler fr regs command s = Some (c, s') \<Longrightarrow> disp_ok s \<Longrightarrow> disp_ok s'"
  by (auto simp: execute_handler_def split: option.splits)
    (metis disp_ok_create disp_ok_start snd_conv)

lemma disp_ok_close_op [simp]: "disp_ok (snd (close_op ops fd s)) = disp_ok s"
  by (cases ops) (simp_all add: directory_close_def file_close_def terminal_close_def rtc_close_def)

lemma disp_ok_close_all: "close_all is s = Some s' \<Longrightarrow> disp_ok s' = disp_ok s"
  by (induction "is" arbitrary: s) (auto split: if_splits option.splits)

lemma disp_ok_halt:
  assumes "halt_handler fr regs status s = Some (c, s')" "disp_ok s"
  shows "disp_ok s'"
proof -
  obtain s1 where cl: "close_all [2..<8] (cli s) = Some s1"
    using assms(1) by (auto simp: halt_handler_def simp del: close_all.simps split: option.splits)
  then have d: "disp_ok s1" using disp_ok_close_all[OF cl] assms(2) by simp
  note eq = assms(1)[unfolded halt_handler_def cl option.case Let_def]
  show ?thesis
  proof (cases "parent_pcb (pcbs s1 (get_pcb_pointer (current_pid s1))) = 0")
    case True
    let ?u = "s1\<lparr>current_pid := - 1, active_pids := (active_pids s1)(nat (current_pid s1) := - 1)\<rparr>"
    obtain new s2 where cr: "process_create fr shell_lit
        (terminal_id (pcbs s1 (get_pcb_pointer (current_pid s1)))) (- 1) ?u = Some (new, s2)"
      using eq True by (auto split: option.splits)
    have "s' = snd (process_start regs new s2)"
      using eq[unfolded if_P[OF True] cr] by (auto split: prod.splits control.splits)
    moreover have "disp_ok s2" using disp_ok_create[OF cr] d by simp
    ultimately show ?thesis by (simp add: disp_ok_start)
  next
    case False
    then show ?thesis using eq d by auto
  qed
qed

lemma disp_ok_schedule: "disp_ok (snd (schedule_loop n regs s)) = disp_ok s"
proof (induction n arbitrary: s)
  case (Suc n)
  let ?u = "s\<lparr>current_index := (current_index s + 1) mod 3\<rparr>"
  show ?case
  proof (cases "terminal_pids ?u (current_index ?u) \<noteq> - 1 \<and> terminal_pids ?u (current_index ?u) \<noteq> current_pid ?u")
    case True
    then have "snd (schedule_loop (Suc n) regs s) = snd (process_switch regs (terminal_pids ?u (current_index ?u)) ?u)"
      by (simp add: Let_def split: prod.splits)
    then show ?thesis by (simp add: disp_ok_switch)
  next
    case False
    then have "schedule_loop (Suc n) regs s = schedule_loop n regs ?u" by (auto simp: Let_def)
    then show ?thesis by (simp add: Suc)
  qed
qed simp

lemma disp_ok_tick_fd [simp]:
  fixes s :: "'a keyboard_state_scheme"
  shows "disp_ok (tick_fd i a s) = disp_ok s"
  by (simp add: tick_fd_def Let_def)

lemma disp_ok_tick [simp]: "disp_ok (rtc_tick s) = disp_ok s"
proof -
  have "disp_ok (fold (\<lambda>j s. if terminal_pids s j \<noteq> - 1
      then fold (\<lambda>i s. tick_fd i (get_pcb_pointer (terminal_pids s j)) s) [2..<8] s else s) js t) = disp_ok t"
    for js and t :: "'a keyboard_state_scheme"
    by (induction js arbitrary: t) simp_all
  then show ?thesis by (simp only: rtc_tick_def)
qed

lemma disp_ok_rtc_handler: "disp_ok (snd (rtc_handler regs s)) = disp_ok s"
  by (simp add: rtc_handler_def Let_def disp_ok_schedule)


lemma disp_ok_spin:
  assumes "spin_while P envs s = Some (t, rest)" "disp_ok s" "\<forall>e \<in> set envs. \<forall>u. disp_ok u \<longrightarrow> disp_ok (e u)"
  shows "disp_ok t"
  using assms by (induction envs arbitrary: s) (auto simp: spin_while.simps split: if_splits)

lemma disp_ok_open_fd [simp]: "disp_ok (snd (open_fd ops ino pos flgs s)) = disp_ok s"
  by (simp add: open_fd_def Let_def)

lemma disp_ok_opens:
  "directory_open f d s = Some (r, s') \<Longrightarrow> disp_ok s' = disp_ok s"
  "file_open f d s = Some (r, s') \<Longrightarrow> disp_ok s' = disp_ok s"
  "rtc_open s = (r, s') \<Longrightarrow> disp_ok s' = disp_ok s"
  by (auto simp: directory_open_def file_open_def rtc_open_def split: option.splits if_splits prod.splits)
    (metis disp_ok_open_fd snd_conv)+

lemma disp_ok_open: "open_handler d f s = Some (r, s') \<Longrightarrow> disp_ok s' = disp_ok s"
  by (auto simp: open_handler_def split: option.splits if_splits dest: disp_ok_opens)

lemma disp_ok_close: "close_op ops fd s = (r, s') \<Longrightarrow> disp_ok s' = disp_ok s"
  using disp_ok_close_op[of ops fd s] by simp

lemma disp_ok_clear_buffer [simp]:
  fixes s :: "'a keyboard_state_scheme"
  shows "disp_ok (clear_terminal_buffer s) = disp_ok s"
  by (simp add: clear_terminal_buffer_def)

lemma disp_ok_take [simp]: "disp_ok (snd (terminal_take buf n tid s)) = disp_ok s"
  by (simp add: terminal_take_def Let_def)

lemma disp_ok_read_op:
  assumes "read_op ops ctx fd buf n s = Some (r, s')" "disp_ok s"
    and "\<forall>e \<in> set (ctx_interrupts ctx). \<forall>u. disp_ok u \<longrightarrow> disp_ok (e u)"
  shows "disp_ok s'"
proof (cases ops)
  case directory_jumptable
  then show ?thesis using assms(1,2)
    by (auto simp: directory_read_def Let_def split: if_splits option.splits prod.splits)
next
  case file_jumptable
  then show ?thesis using assms(1,2)
    by (auto simp: file_read_def Let_def split: if_splits prod.splits)
next
  case terminal_jumptable
  then show ?thesis using assms(1,2) disp_ok_spin[OF _ assms(2,3)]
    by (auto simp: terminal_read_def Let_def split: if_splits option.splits) (metis disp_ok_take snd_conv)+
next
  case rtc_jumptable
  then show ?thesis using assms(1,2) disp_ok_spin[OF _ _ assms(3)]
    by (auto simp: rtc_read_def Let_def split: option.splits)
qed

text \<open>A process writes to its own terminal, so its terminal number has to be one of the three.\<close>

lemma disp_ok_terminal_write:
  assumes ok: "disp_ok s" and t: "terminal_id (pcbs s (get_pcb_pointer (current_pid s))) < 3"
  shows "disp_ok (snd (terminal_write fd buf n s))"
proof -
  have "disp_ok (snd (fold (terminal_write_byte buf) is (w, u))) \<and>
      pcbs (snd (fold (terminal_write_byte buf) is (w, u))) = pcbs u"
    if "disp_ok u" "terminal_id (pcbs u (get_pcb_pointer (current_pid u))) < 3"
    for "is" w and u :: "'a keyboard_state_scheme"
    using that
  proof (induction "is" arbitrary: w u)
    case (Cons i "is")
    let ?T = "terminal_id (pcbs u (get_pcb_pointer (current_pid u)))"
    let ?v = "snd (terminal_write_byte buf i (w, u))"
    have "?v = u \<or> (\<exists>c. ?v = tputc c ?T u)" by (auto simp: terminal_write_byte_def Let_def)
    then have "disp_ok ?v \<and> pcbs ?v = pcbs u \<and> current_pid ?v = current_pid u"
      using disp_ok_tputc Cons.prems console_frame_keyboard(12,13)[OF console_frame_tputc] by auto
    then show ?case using Cons.IH[of ?v "fst (terminal_write_byte buf i (w, u))"] Cons.prems by simp
  qed simp
  from this[of "cli s"] show ?thesis using ok t
    by (simp add: terminal_write_def split: prod.splits) (metis snd_conv)
qed

lemma disp_ok_write_op:
  assumes "disp_ok s" "terminal_id (pcbs s (get_pcb_pointer (current_pid s))) < 3"
  shows "disp_ok (snd (write_op ops fd buf n s))"
  using assms disp_ok_terminal_write
  by (cases ops) (auto simp: directory_write_def file_write_def rtc_write_def Let_def)

definition calm :: "('a keyboard_state_scheme \<Rightarrow> 'a keyboard_state_scheme) \<Rightarrow> bool" where
  "calm e \<longleftrightarrow> (\<forall>u. disp_ok u \<longrightarrow> disp_ok (e u))"

lemma disp_ok_syscall:
  assumes h: "handle_syscall ctx n a b c s = Some (r, s')" and ok: "disp_ok s"
    and t: "terminal_id (pcbs s (get_pcb_pointer (current_pid s))) < 3"
    and i: "\<forall>e \<in> set (ctx_interrupts ctx). calm e"
  shows "disp_ok s'"
proof -
  have "disp_ok s'" if r: "run_syscall k ctx a b c s = Some (r, s')" for k
  proof (cases k)
    case halt_S
    then show ?thesis using r disp_ok_halt ok by simp
  next
    case execute_S
    then show ?thesis using r ok by (auto split: option.splits intro: disp_ok_execute)
  next
    case read_S
    then show ?thesis using r disp_ok_read_op[OF _ ok] i ok
      by (auto simp: returning_def read_handler_def calm_def split: option.splits if_splits)
  next
    case write_S
    then show ?thesis using r disp_ok_write_op[OF ok t] ok
      by (auto simp: returning_def write_handler_def split: option.splits if_splits) (metis snd_conv)
  next
    case open_S
    then show ?thesis using r ok by (auto simp: returning_def split: option.splits dest: disp_ok_open)
  next
    case close_S
    then show ?thesis using r ok
      by (auto simp: returning_def close_handler_def split: option.splits if_splits dest: disp_ok_close)
  next
    case getargs_S
    then show ?thesis using r ok
      by (auto simp: returning_def getargs_handler_def Let_def split: option.splits if_splits)
  next
    case vidmap_S
    then show ?thesis using r ok by (auto simp: vidmap_handler_def split: if_splits)
  next
    case set_handler_S
    then show ?thesis using r ok disp_output.keep_printf
      by (auto simp: returning_def set_handler_handler_def split: option.splits)
  next
    case sigreturn_S
    then show ?thesis using r ok disp_output.keep_printf
      by (auto simp: returning_def sigreturn_handler_def split: option.splits)
  qed
  then show ?thesis using h ok by (auto simp: handle_syscall_def split: if_splits)
qed


lemma disp_ok_current: "disp_ok s \<Longrightarrow> current_terminal s < 3"
  by (simp add: disp_ok_def terminals_ok_def)

lemma disp_ok_swap:
  assumes "disp_ok s" "n < 3" "n \<noteq> current_terminal s"
  shows "disp_ok (swap_terminal n s)"
  using swap_fields[of s n] assms by (simp add: disp_ok_def cursor_ok_def)

lemma disp_ok_switch_terminal:
  assumes "switch_terminal fr regs n s = Some (c, s')" "disp_ok s" "n < 3"
  shows "disp_ok s'"
proof (cases "n = current_terminal s \<or> get_free_pid s = - 1 \<and> \<not> terminal_active s n")
  case True
  then have "s' = s" using assms(1) by (auto simp: switch_terminal_def split: if_splits)
  then show ?thesis using assms(2) by simp
next
  case False
  let ?s1 = "swap_terminal n s"
  let ?u = "clear (?s1\<lparr>terminal_active := (terminal_active ?s1)(n := True)\<rparr>)"
  have d: "disp_ok ?s1" using disp_ok_swap assms(2,3) False by blast
  then have u: "disp_ok ?u" by (intro disp_ok_clear) simp
  show ?thesis
  proof (cases "terminal_active ?s1 n")
    case True
    then show ?thesis using assms(1) False d by (auto simp: switch_terminal_def Let_def)
  next
    case act: False
    then obtain pid s2 where cr: "process_create fr shell_lit n (- 1) ?u = Some (pid, s2)"
      using assms(1) False by (auto simp: switch_terminal_def Let_def split: option.splits if_splits)
    have "disp_ok s2" by (rule disp_ok_create[OF cr u])
    then have "disp_ok (snd (process_start regs pid s2))" by (simp add: disp_ok_start)
    moreover have "s' = snd (process_start regs pid s2) \<or> s' = sti (snd (process_start regs pid s2))"
      using assms(1) False act cr by (auto simp: switch_terminal_def Let_def split: prod.splits control.splits if_splits)
    ultimately show ?thesis by auto
  qed
qed

lemma disp_ok_put_buffer [simp]:
  fixes s :: "'a keyboard_state_scheme"
  shows "disp_ok (put_buffer c s) = disp_ok s"
  by (simp add: put_buffer_def)

lemma disp_ok_echo: "disp_ok s \<Longrightarrow> disp_ok (echo c s)"
  by (simp add: echo_def disp_ok_tputc disp_ok_current)

lemma disp_ok_keyboard_backspace: "disp_ok s \<Longrightarrow> disp_ok (keyboard_backspace s)"
  by (simp add: keyboard_backspace_def Let_def disp_ok_backspace)

lemma tab_text_cstr: "is_cstr tab_text [32, 32, 32, 32]"
proof -
  have "ascii ''    '' = [32, 32, 32, 32]" by (simp add: ascii_def)
  then show ?thesis unfolding tab_text_def by (simp add: lit_is_cstr)
qed

lemma disp_ok_control_key:
  assumes "control_key sc s = Some s'" "disp_ok s"
  shows "disp_ok s'"
  using assms disp_ok_tputs[OF assms(2) disp_ok_current[OF assms(2)] tab_text_cstr]
  by (auto simp: control_key_def Let_def disp_ok_tputc disp_ok_current disp_ok_keyboard_backspace
      split: if_splits option.splits)

lemma disp_ok_printable_key: "disp_ok s \<Longrightarrow> disp_ok (printable_key beyond sc s)"
  by (simp add: printable_key_def Let_def disp_ok_echo disp_ok_clear)

lemma switch_key_terminal:
  assumes "switch_key sc s"
  shows "unat (sc - F1_PRESSED_SCANCODE) < 3"
proof -
  have "0x3B \<le> sc" "sc \<le> 0x3D" using assms by (simp_all add: switch_key_def scancodes)
  then have "unat (sc - 0x3B) = unat sc - 0x3B" "unat sc \<le> 0x3D" by (simp_all add: unat_sub word_le_nat_alt)
  then show ?thesis by (simp add: scancodes)
qed

lemma disp_ok_keyboard_handler:
  assumes h: "keyboard_handler beyond fr regs sc s = Some (c, s')" and ok: "disp_ok s"
  shows "disp_ok s'"
proof -
  have u: "disp_ok (cli s)" using ok by simp
  consider "key_at beyond plain sc \<noteq> 0" "s' = sti (send_eoi KEYBOARD_IRQ_NUM (printable_key beyond sc (cli s)))"
    | "switch_key sc (cli s)"
      "switch_terminal fr regs (unat (sc - F1_PRESSED_SCANCODE)) (send_eoi KEYBOARD_IRQ_NUM (cli s)) = Some (c, s')"
    | s1 where "control_key sc (cli s) = Some s1" "s' = sti (send_eoi KEYBOARD_IRQ_NUM s1)"
    using h unfolding keyboard_handler_def Let_def
    by (cases "key_at beyond plain sc = 0"; cases "switch_key sc (cli s)"; cases "control_key sc (cli s)") simp_all
  then show ?thesis
  proof cases
    case 1
    then show ?thesis using disp_ok_printable_key[OF u] by simp
  next
    case 2
    then show ?thesis using disp_ok_switch_terminal[OF 2(2) _ switch_key_terminal[OF 2(1)]] u by simp
  next
    case 3
    then show ?thesis using disp_ok_control_key[OF _ u] by simp
  qed
qed

end
