(* ===== verification/Stacks.thy ===== *)
theory Stacks
  imports Syscall
begin

text \<open>
  The process table as an abstract machine: each terminal holds a stack of processes, the one in
  front can run, and each process below waits for the one above it to halt. The kernel's arrays
  \<open>active_pids\<close> and \<open>terminal_pids\<close> and the links in the process control blocks represent
  these stacks; executing pushes, halting pops, and the clock moves the processor between the
  fronts.
\<close>

section \<open>Stacks and their representation\<close>

type_synonym stacks = "nat \<Rightarrow> nat list"

fun front_pid :: "nat list \<Rightarrow> int" where
  "front_pid [] = - 1"
| "front_pid (p # ps) = int p"

fun front_pcb :: "nat list \<Rightarrow> addr" where
  "front_pcb [] = 0"
| "front_pcb (p # ps) = get_pcb_pointer (int p)"

definition used :: "stacks \<Rightarrow> nat \<Rightarrow> bool" where
  "used st p \<longleftrightarrow> (\<exists>t < 3. p \<in> set (st t))"

definition stacks_ok :: "stacks \<Rightarrow> bool" where
  "stacks_ok st \<longleftrightarrow>
     (\<forall>t < 3. distinct (st t) \<and> (\<forall>p \<in> set (st t). p < 6)) \<and>
     (\<forall>t < 3. \<forall>u < 3. t \<noteq> u \<longrightarrow> set (st t) \<inter> set (st u) = {})"

text \<open>Every descriptor in use has a jump table, and only 0 and 1 can be terminals.\<close>

definition fds_typed :: "pcb \<Rightarrow> bool" where
  "fds_typed b \<longleftrightarrow>
     (\<forall>i < 8. inode (pcb_fds b i) \<noteq> - 1 \<longrightarrow>
        (\<exists>ops. file_table_ptr (pcb_fds b i) = Some ops \<and> (2 \<le> i \<longrightarrow> ops \<noteq> terminal_jumptable)))"

fun chain :: "(addr \<Rightarrow> pcb) \<Rightarrow> nat \<Rightarrow> nat list \<Rightarrow> bool" where
  "chain m t [] = True"
| "chain m t (p # ps) =
     (let b = m (get_pcb_pointer (int p))
      in pcb_pid b = int p \<and> terminal_id b = t \<and> fds_typed b \<and> parent_pcb b = front_pcb ps \<and> chain m t ps)"

text \<open>The set \<open>X\<close> holds the terminals whose entry in \<open>terminal_pids\<close> is out of date.\<close>

definition tables_but :: "nat set \<Rightarrow> stacks \<Rightarrow> 'a kernel_state_scheme \<Rightarrow> bool" where
  "tables_but X st s \<longleftrightarrow>
     stacks_ok st \<and> (\<forall>t < 3. chain (pcbs s) t (st t) \<and> (t \<notin> X \<longrightarrow> terminal_pids s t = front_pid (st t))) \<and>
     (\<forall>p < 6. active_pids s p = (if used st p then 1 else - 1))"

abbreviation tables_ok :: "stacks \<Rightarrow> 'a kernel_state_scheme \<Rightarrow> bool" where
  "tables_ok \<equiv> tables_but {}"

definition runs :: "stacks \<Rightarrow> nat \<Rightarrow> 'a kernel_state_scheme \<Rightarrow> bool" where
  "runs st T s \<longleftrightarrow>
     T < 3 \<and> st T \<noteq> [] \<and> current_pid s = front_pid (st T) \<and>
     file_descriptors s = get_pcb_pointer (current_pid s) \<and>
     tss_esp0 s = get_kernel_start_esp (current_pid s) \<and> user_frame s = nat (2 + current_pid s)"

section \<open>Laws of the representation\<close>

definition keeps :: "pcb \<Rightarrow> pcb \<Rightarrow> bool" where
  "keeps b b' \<longleftrightarrow> pcb_pid b' = pcb_pid b \<and> terminal_id b' = terminal_id b \<and> parent_pcb b' = parent_pcb b \<and>
     (fds_typed b \<longrightarrow> fds_typed b')"

lemma keeps_refl [simp]: "keeps b b"
  by (simp add: keeps_def)

lemma keeps_trans: "keeps a b \<Longrightarrow> keeps b c \<Longrightarrow> keeps a c"
  by (auto simp: keeps_def)

lemma chain_keeps:
  assumes "\<And>p. p \<in> set ps \<Longrightarrow> keeps (m (get_pcb_pointer (int p))) (m' (get_pcb_pointer (int p)))"
    and "chain m t ps"
  shows "chain m' t ps"
  using assms by (induction ps) (auto simp: keeps_def Let_def)

lemma pcb_pointer_eq: "p < 6 \<Longrightarrow> q < 6 \<Longrightarrow> get_pcb_pointer (int p) = get_pcb_pointer (int q) \<longleftrightarrow> p = q"
  using pcb_pointer_inj[of "int p" "int q"] by simp

lemma chain_other:
  assumes "chain m t ps" "\<forall>q \<in> set ps. q < 6" "p < 6" "p \<notin> set ps"
  shows "chain (m(get_pcb_pointer (int p) := b)) t ps"
  using assms by (induction ps) (auto simp: Let_def pcb_pointer_eq)

lemma tables_keep:
  assumes "tables_but X st s" "\<And>a. keeps (pcbs s a) (pcbs s' a)"
    and "terminal_pids s' = terminal_pids s" "active_pids s' = active_pids s"
  shows "tables_but X st s'"
  using assms chain_keeps[of _ "pcbs s" "pcbs s'"] by (simp add: tables_but_def)

lemma used_push: "T < 3 \<Longrightarrow> used (st(T := p # st T)) q \<longleftrightarrow> q = p \<or> used st q"
  by (auto simp: used_def)

lemma stacks_ok_push:
  assumes "stacks_ok st" "p < 6" "\<not> used st p" "T < 3"
  shows "stacks_ok (st(T := p # st T))"
  using assms by (auto simp: stacks_ok_def used_def)

lemma tables_push:
  assumes tb: "tables_but X st s" "X \<subseteq> {T}" and p: "T < 3" "p < 6" "\<not> used st p"
    and b: "pcbs s' = (pcbs s)(get_pcb_pointer (int p) := b)"
      "pcb_pid b = int p" "terminal_id b = T" "fds_typed b" "parent_pcb b = front_pcb (st T)"
    and tabs: "active_pids s' = (active_pids s)(p := 1)" "terminal_pids s' = (terminal_pids s)(T := int p)"
  shows "tables_ok (st(T := p # st T)) s'"
proof -
  have old: "chain (pcbs s') t (st t)" if "t < 3" for t
    unfolding b(1) using that tb(1) p by (intro chain_other) (auto simp: tables_but_def stacks_ok_def used_def)
  have "chain (pcbs s') t ((st(T := p # st T)) t)" if "t < 3" for t
    using old[OF that] b by (auto simp: Let_def)
  moreover have "terminal_pids s' t = front_pid ((st(T := p # st T)) t)" if "t < 3" for t
    using that tb tabs(2) by (auto simp: tables_but_def)
  ultimately show ?thesis
    using tb(1) p stacks_ok_push[of st p T] tabs(1) by (simp add: tables_but_def used_push)
qed


lemma stacks_disjoint:
  "stacks_ok st \<Longrightarrow> t < 3 \<Longrightarrow> u < 3 \<Longrightarrow> x \<in> set (st t) \<Longrightarrow> x \<in> set (st u) \<Longrightarrow> t = u"
  unfolding stacks_ok_def by blast

lemma used_pop:
  assumes ok: "stacks_ok st" and T: "T < 3" "st T = p # ps"
  shows "used (st(T := ps)) q \<longleftrightarrow> used st q \<and> q \<noteq> p"
proof
  assume "used (st(T := ps)) q"
  then obtain t where t: "t < 3" "q \<in> set ((st(T := ps)) t)" by (auto simp: used_def)
  have "distinct (p # ps)" using ok T by (auto simp: stacks_ok_def)
  then show "used st q \<and> q \<noteq> p"
    using t T stacks_disjoint[OF ok t(1) T(1), of p] by (cases "t = T") (auto simp: used_def)
next
  assume "used st q \<and> q \<noteq> p"
  then obtain t where t: "t < 3" "q \<in> set (st t)" "q \<noteq> p" by (auto simp: used_def)
  then have "q \<in> set ((st(T := ps)) t)" using T(2) by auto
  then show "used (st(T := ps)) q" using t(1) unfolding used_def by blast
qed

lemma stacks_ok_pop:
  assumes ok: "stacks_ok st" and T: "T < 3" "st T = p # ps"
  shows "stacks_ok (st(T := ps))"
proof -
  have sub: "set ((st(T := ps)) t) \<subseteq> set (st t)" for t using T(2) by auto
  have "distinct (p # ps)" "\<forall>q \<in> set (p # ps). q < 6" using ok T by (auto simp: stacks_ok_def)
  then have "\<forall>t < 3. distinct ((st(T := ps)) t) \<and> (\<forall>q \<in> set ((st(T := ps)) t). q < 6)"
    using ok by (auto simp: stacks_ok_def)
  then show ?thesis using stacks_disjoint[OF ok] sub unfolding stacks_ok_def by blast
qed

lemma tables_pop:
  assumes tb: "tables_ok st s" and st: "T < 3" "st T = p # ps"
    and k: "\<And>a. keeps (pcbs s a) (pcbs s' a)"
    and act: "active_pids s' = (active_pids s)(p := - 1)"
    and tp: "\<forall>t < 3. t \<notin> X \<longrightarrow> terminal_pids s' t = front_pid ((st(T := ps)) t)"
  shows "tables_but X (st(T := ps)) s'"
proof -
  have "chain (pcbs s') t ((st(T := ps)) t)" if "t < 3" for t
  proof -
    have "chain (pcbs s) t (st t)" using tb that by (simp add: tables_but_def)
    then have "chain (pcbs s') t (st t)" using chain_keeps[of "st t" "pcbs s" "pcbs s'"] k by simp
    then show ?thesis using st(2) by (auto simp: Let_def)
  qed
  then show ?thesis using tb tp act stacks_ok_pop[of st T p ps] st used_pop[of st T p ps]
    by (auto simp: tables_but_def)
qed

lemma runs_keep:
  assumes "runs st T s" "current_pid s' = current_pid s" "file_descriptors s' = file_descriptors s"
    "tss_esp0 s' = tss_esp0 s" "user_frame s' = user_frame s"
  shows "runs st T s'"
  using assms by (simp add: runs_def)

lemma runs_front:
  assumes "tables_ok st s" "runs st T s"
  obtains p ps where "st T = p # ps" "p < 6" "current_pid s = int p" "T < 3"
    "pcb_pid (pcbs s (get_pcb_pointer (int p))) = int p" "terminal_id (pcbs s (get_pcb_pointer (int p))) = T"
    "fds_typed (pcbs s (get_pcb_pointer (int p)))" "parent_pcb (pcbs s (get_pcb_pointer (int p))) = front_pcb ps"
    "file_descriptors s = get_pcb_pointer (int p)"
proof -
  obtain p ps where st: "st T = p # ps" "T < 3" using assms(2) by (cases "st T") (auto simp: runs_def)
  then have "chain (pcbs s) T (p # ps)" "p < 6" using assms(1) by (fastforce simp: tables_but_def stacks_ok_def)+
  then show ?thesis using that[of p ps] st assms(2) by (auto simp: runs_def Let_def)
qed

section \<open>Launching a process\<close>

lemma init_pcb_fields:
  "pcb_pid (init_pcb pid T parent fargs b) = pid" "terminal_id (init_pcb pid T parent fargs b) = T"
  "parent_pcb (init_pcb pid T parent fargs b) = parent" "fds_typed (init_pcb pid T parent fargs b)"
  by (auto simp: init_pcb_def fds_typed_def)

lemma keeps_save_regs: "keeps (pcbs s a) (pcbs (save_regs regs s) a)"
  by (auto simp: save_regs_def keeps_def upd_pcb_def fds_typed_def)

lemma launch:
  assumes cr: "created pid T parent fargs s t" and sta: "started pid regs t s'"
    and tb: "tables_but X st s" "X \<subseteq> {T}" "T < 3"
    and pa: "parent = - 1 \<and> st T = [] \<or> parent \<noteq> - 1 \<and> st T \<noteq> [] \<and> current_pid s = front_pid (st T)"
  shows "\<exists>p < 6. pid = int p \<and> \<not> used st p \<and> tables_ok (st(T := p # st T)) s' \<and> runs (st(T := p # st T)) T s'"
proof -
  obtain p where p: "p < 6" "pid = int p" "active_pids s p = - 1" "active_pids t = (active_pids s)(p := 0)"
    using cr by (auto simp: created_def)
  then have free: "\<not> used st p" using tb(1) by (auto simp: tables_but_def)
  let ?b = "init_pcb pid T (front_pcb (st T)) fargs (pcbs s (get_pcb_pointer pid))"
  have par: "(if parent \<noteq> - 1 then get_pcb_pointer (current_pid s) else 0) = front_pcb (st T)"
    using pa by (cases "st T") auto
  have pt: "pcbs t = (pcbs s)(get_pcb_pointer (int p) := ?b)" "terminal_pids t = terminal_pids s"
    using cr par p(2) by (simp_all add: created_def)
  let ?v = "t\<lparr>active_pids := (active_pids s)(p := 1), terminal_pids := (terminal_pids s)(T := int p)\<rparr>"
  have v: "tables_ok (st(T := p # st T)) ?v"
    by (rule tables_push[OF tb(1,2,3) p(1) free, of ?v ?b]) (simp_all add: pt init_pcb_fields p(2))
  have "tables_ok (st(T := p # st T)) s'"
    using sta p pt keeps_save_regs[of t _ regs]
    by (intro tables_keep[OF v]) (auto simp: started_def init_pcb_fields)
  moreover have "runs (st(T := p # st T)) T s'"
    using sta tb(3) p user_frame_directory[of s' pid t] by (simp add: runs_def started_def)
  ultimately show ?thesis using p(1,2) free by blast
qed

lemma same_tables_stacks:
  assumes "same_tables s s'" "tables_but X st s"
  shows "tables_but X st s'"
  by (rule tables_keep[OF assms(2)]) (use assms(1) in \<open>simp_all add: same_tables_def\<close>)

lemma same_tables_runs: "same_tables s s' \<Longrightarrow> runs st T s \<Longrightarrow> runs st T s'"
  by (erule runs_keep) (simp_all add: same_tables_def user_frame_def)

text \<open>Creating and starting the program, as \<open>execute\<close>, \<open>halt\<close> and the terminal switch do it.\<close>

lemma create_start:
  assumes cr: "process_create fr command T parent s = Some (pid, t)"
    and tb: "tables_but X st s" "X \<subseteq> {T}" "T < 3"
    and pa: "parent = - 1 \<and> st T = [] \<or> parent \<noteq> - 1 \<and> st T \<noteq> [] \<and> current_pid s = front_pid (st T)"
    and go: "process_start regs pid t = (c, s')"
  shows "(c = Return (- 1) \<and> s' = t \<and> same_tables s t) \<or>
    (\<exists>entry p. c = Iret entry 0x083FFFFC \<and> p < 6 \<and> \<not> used st p \<and>
       tables_ok (st(T := p # st T)) s' \<and> runs (st(T := p # st T)) T s')"
proof -
  let ?fargs = "snd (parse_command command 0 (loc_file_name fr) (loc_file_args fr))"
  consider "pid = - 1" "same_tables s t" | "created pid T parent ?fargs s t"
    using process_create_result[OF cr] by blast
  then show ?thesis
  proof cases
    case 1
    then show ?thesis using go by (simp add: process_start_fail)
  next
    case 2
    then have "active_pids t (nat pid) = 0" by (auto simp: created_def)
    then obtain entry where e: "c = Iret entry 0x083FFFFC" "started pid regs t s'"
      using process_start_ok[of pid t regs] created_pid[OF 2] go by auto
    then show ?thesis using launch[OF 2 e(2) tb pa] by blast
  qed
qed


section \<open>Operations on descriptors leave the stacks alone\<close>

definition quiet :: "'a kernel_state_scheme \<Rightarrow> 'a kernel_state_scheme \<Rightarrow> bool" where
  "quiet s s' \<longleftrightarrow>
     (\<forall>a. keeps (pcbs s a) (pcbs s' a)) \<and> terminal_pids s' = terminal_pids s \<and> active_pids s' = active_pids s \<and>
     current_pid s' = current_pid s \<and> file_descriptors s' = file_descriptors s \<and> tss_esp0 s' = tss_esp0 s \<and>
     page_directory s' = page_directory s"

lemma quiet_refl [simp]: "quiet s s"
  by (simp add: quiet_def)

lemma quiet_trans: "quiet s s' \<Longrightarrow> quiet s' s'' \<Longrightarrow> quiet s s''"
  unfolding quiet_def by (metis keeps_trans)

lemma quiet_same_tables: "same_tables s s' \<Longrightarrow> quiet s s'"
  by (simp add: quiet_def same_tables_def)

lemma quiet_console: "console_frame s s' \<Longrightarrow> quiet s s'"
  by (rule quiet_same_tables[OF console_frame_tables])

definition alive :: "stacks \<Rightarrow> nat \<Rightarrow> 'a kernel_state_scheme \<Rightarrow> bool" where
  "alive st T s \<longleftrightarrow> tables_ok st s \<and> runs st T s"

lemma alive_quiet: "quiet s s' \<Longrightarrow> alive st T s \<Longrightarrow> alive st T s'"
  using tables_keep[of "{}" st s s'] runs_keep[of st T s s']
  by (simp add: quiet_def alive_def user_frame_def)

lemma quiet_phys [simp]:
  "quiet s (s\<lparr>phys := m\<rparr>)" "quiet (s\<lparr>phys := m\<rparr>) s' = quiet s s'" "quiet s (s'\<lparr>phys := m\<rparr>) = quiet s s'"
  by (simp_all add: quiet_def)

lemma quiet_keyboard [simp]:
  fixes s :: "'a keyboard_state_scheme"
  shows "quiet t (s\<lparr>ctrl_state := v1\<rparr>) = quiet t s" "quiet t (s\<lparr>shift_state := v2\<rparr>) = quiet t s"
    "quiet t (s\<lparr>alt_state := v3\<rparr>) = quiet t s" "quiet t (s\<lparr>caps_state := v4\<rparr>) = quiet t s"
    "quiet t (s\<lparr>caps_dirty := v5\<rparr>) = quiet t s" "quiet t (s\<lparr>enter_state := v6\<rparr>) = quiet t s"
    "quiet t (s\<lparr>terminal_buffers := v7\<rparr>) = quiet t s" "quiet t (s\<lparr>buffer_index := v8\<rparr>) = quiet t s"
    "quiet t (s\<lparr>buffer_indices := v9\<rparr>) = quiet t s" "quiet t (s\<lparr>terminal_active := v10\<rparr>) = quiet t s"
    "quiet t (s\<lparr>terminal_buffer := v11\<rparr>) = quiet t s" "quiet t (s\<lparr>current_terminal := v12\<rparr>) = quiet t s"
  by (simp_all add: quiet_def)

lemma quiet_flags [simp]: "quiet s (cli s')= quiet s s'" "quiet s (sti s') = quiet s s'"
    "quiet (cli s) s' = quiet s s'" "quiet (sti s) s' = quiet s s'"
  by (simp_all add: quiet_def)

definition typed_fd :: "nat \<Rightarrow> fd \<Rightarrow> bool" where
  "typed_fd i f \<longleftrightarrow> (inode f \<noteq> - 1 \<longrightarrow>
     (\<exists>ops. file_table_ptr f = Some ops \<and> (2 \<le> i \<longrightarrow> ops \<noteq> terminal_jumptable)))"

lemma fds_typed_iff: "fds_typed b \<longleftrightarrow> (\<forall>i < 8. typed_fd i (pcb_fds b i))"
  by (simp add: fds_typed_def typed_fd_def)

lemma keeps_upd_fd:
  assumes "typed_fd i (pcb_fds b i) \<or> 8 \<le> i \<Longrightarrow> typed_fd i f \<or> 8 \<le> i"
  shows "keeps b (b\<lparr>pcb_fds := (pcb_fds b)(i := f)\<rparr>)"
  using assms by (auto simp: keeps_def fds_typed_iff)

lemma quiet_upd_fd:
  assumes "\<And>f. typed_fd i f \<Longrightarrow> typed_fd i (g f)"
  shows "quiet s (upd_fd i g s)"
  using assms by (auto simp: quiet_def upd_fd_def upd_pcb_def intro!: keeps_upd_fd)

lemma quiet_upd_pos [simp]: "quiet s (upd_fd i (\<lambda>f. f\<lparr>file_pos := p f\<rparr>) s)"
  by (rule quiet_upd_fd) (simp add: typed_fd_def)

lemma quiet_upd_close [simp]: "quiet s (upd_fd i (\<lambda>f. f\<lparr>inode := - 1\<rparr>) s)"
  by (rule quiet_upd_fd) (simp add: typed_fd_def)

lemma quiet_close_op: "quiet s (snd (close_op ops fd s))"
proof (cases ops)
  case rtc_jumptable
  then show ?thesis by (auto simp: rtc_close_def intro: quiet_upd_fd simp: typed_fd_def)
qed (simp_all add: directory_close_def file_close_def terminal_close_def)

lemma quiet_close_all: "close_all is s = Some s' \<Longrightarrow> quiet s s'"
proof (induction "is" arbitrary: s)
  case (Cons i "is")
  then show ?case
    by (auto split: if_splits option.splits) (metis quiet_trans quiet_close_op)
qed simp

lemma quiet_open_fd: "open_fd ops ino pos flgs s = (r, s') \<Longrightarrow> ops \<noteq> terminal_jumptable \<Longrightarrow> quiet s s'"
  by (auto simp: open_fd_def Let_def typed_fd_def split: if_splits intro!: quiet_upd_fd)

lemma quiet_open: "open_handler d f s = Some (r, s') \<Longrightarrow> quiet s s'"
  by (auto simp: open_handler_def rtc_open_def directory_open_def file_open_def split: option.splits if_splits
      dest: quiet_open_fd)

lemma quiet_spin:
  assumes "spin_while P envs s = Some (t, rest)" "\<forall>e \<in> set envs. \<forall>u. quiet u (e u)"
  shows "quiet s t"
  using assms by (induction envs arbitrary: s) (auto simp: spin_while.simps split: if_splits intro: quiet_trans)

lemma quiet_take: "terminal_take buf n tid s = (r, s') \<Longrightarrow> quiet s s'"
  by (auto simp: terminal_take_def clear_terminal_buffer_def Let_def)

lemma quiet_read:
  assumes "read_op ops ctx fd buf n s = Some (r, s')" "\<forall>e \<in> set (ctx_interrupts ctx). \<forall>u. quiet u (e u)"
  shows "quiet s s'"
proof (cases ops)
  case directory_jumptable
  then show ?thesis using assms
    by (auto simp: directory_read_def Let_def split: if_splits option.splits prod.splits
        intro!: quiet_trans[OF quiet_phys(1) quiet_upd_pos])
next
  case file_jumptable
  then show ?thesis using assms
    by (auto simp: file_read_def Let_def split: if_splits prod.splits intro!: quiet_trans[OF quiet_phys(1) quiet_upd_pos])
next
  case terminal_jumptable
  then show ?thesis using assms quiet_trans[OF quiet_spin quiet_take]
    by (auto simp: terminal_read_def Let_def split: if_splits option.splits)
next
  case rtc_jumptable
  then show ?thesis using assms quiet_trans[OF quiet_upd_pos quiet_spin]
    by (auto simp: rtc_read_def Let_def split: option.splits)
qed

lemma quiet_terminal_write: "quiet s (snd (terminal_write fd buf n s))"
proof -
  have "quiet u (snd (fold (terminal_write_byte buf) js (w, u)))" for js w and u :: "'a kernel_state_scheme"
  proof (induction js arbitrary: w u)
    case (Cons i js)
    let ?v = "snd (terminal_write_byte buf i (w, u))"
    have "?v = u \<or> (\<exists>c T. ?v = tputc c T u)" by (auto simp: terminal_write_byte_def Let_def)
    then have "quiet u ?v" using quiet_console[OF console_frame_tputc] by auto
    then show ?case using Cons.IH[where u = ?v and w = "fst (terminal_write_byte buf i (w, u))"] quiet_trans by simp blast
  qed simp
  from this[where u = "cli s" and w = 0 and js = "[0..<nat (sint n)]"]
  have "quiet s (sti (snd (fold (terminal_write_byte buf) [0..<nat (sint n)] (0, cli s))))" by simp
  from quiet_trans[OF this quiet_console[OF console_frame_update_cursor]]
  show ?thesis by (auto simp: terminal_write_def split: prod.splits)
qed

lemma quiet_write: "quiet s (snd (write_op ops fd buf n s))"
  using quiet_terminal_write
  by (cases ops) (auto simp: directory_write_def file_write_def rtc_write_def Let_def typed_fd_def intro!: quiet_upd_fd)


section \<open>The abstract machine\<close>

inductive stack_step :: "stacks \<times> nat \<Rightarrow> stacks \<times> nat \<Rightarrow> bool" where
  stay: "stack_step (st, T) (st, T)"
| push: "p < 6 \<Longrightarrow> \<not> used st p \<Longrightarrow> stack_step (st, T) (st(T := p # st T), T)"
| pop: "st T = p # q # ps \<Longrightarrow> stack_step (st, T) (st(T := q # ps), T)"
| restart: "st T = [p] \<Longrightarrow> q < 6 \<Longrightarrow> \<not> used (st(T := [])) q \<Longrightarrow> stack_step (st, T) (st(T := [q]), T)"
| open_terminal: "U < 3 \<Longrightarrow> st U = [] \<Longrightarrow> p < 6 \<Longrightarrow> \<not> used st p \<Longrightarrow> stack_step (st, T) (st(U := [p]), U)"
| preempt: "U < 3 \<Longrightarrow> st U \<noteq> [] \<Longrightarrow> stack_step (st, T) (st, U)"

inductive_cases stack_stepE: "stack_step (st, T) (st', T')"

section \<open>The kernel's operations on the stacks\<close>

lemma alive_front:
  assumes "alive st T s"
  obtains p ps where "st T = p # ps" "p < 6" "current_pid s = int p" "T < 3"
    "terminal_id (pcbs s (get_pcb_pointer (int p))) = T" "fds_typed (pcbs s (get_pcb_pointer (int p)))"
    "parent_pcb (pcbs s (get_pcb_pointer (int p))) = front_pcb ps" "file_descriptors s = get_pcb_pointer (int p)"
proof -
  have "tables_ok st s" "runs st T s" using assms by (simp_all add: alive_def)
  then show ?thesis by (rule runs_front) (rule that)
qed

lemma execute_stacks:
  assumes ex: "execute_handler fr regs command s = Some (c, s')" and al: "alive st T s"
  shows "\<exists>st'. alive st' T s' \<and> stack_step (st, T) (st', T)"
proof -
  obtain p ps where f: "st T = p # ps" "current_pid s = int p" "T < 3"
      "terminal_id (pcbs s (get_pcb_pointer (int p))) = T"
    by (rule alive_front[OF al]) (rule that; assumption)
  obtain pid t where cr: "process_create fr command T (int p) s = Some (pid, t)"
      and go: "process_start regs pid t = (c, s')"
    using ex f by (auto simp: execute_handler_def split: option.splits)
  have pa: "int p \<noteq> - 1 \<and> st T \<noteq> [] \<and> current_pid s = front_pid (st T)" using f by simp
  have tb: "tables_but {} st s" using al by (simp add: alive_def)
  from create_start[OF cr tb _ f(3) disjI2[OF pa] go] consider "s' = t" "same_tables s t"
    | q where "q < 6" "\<not> used st q" "tables_ok (st(T := q # st T)) s'" "runs (st(T := q # st T)) T s'" by auto
  then show ?thesis
  proof cases
    case 1
    then show ?thesis using alive_quiet[OF quiet_same_tables al] stack_step.stay by blast
  next
    case 2
    then show ?thesis using stack_step.push[OF 2(1,2), of T] unfolding alive_def by blast
  qed
qed

lemma halt_stacks:
  assumes h: "halt_handler fr regs status s = Some (c, s')" and al: "alive st T s"
  shows "(\<exists>st'. alive st' T s' \<and> stack_step (st, T) (st', T)) \<or> current_pid s' = - 1"
proof -
  obtain s1 where cl: "close_all [2..<8] (cli s) = Some s1"
    using h by (auto simp: halt_handler_def simp del: close_all.simps split: option.splits)
  have q1: "quiet s s1" using quiet_close_all[OF cl] by simp
  then have al1: "alive st T s1" by (rule alive_quiet[OF _ al])
  obtain p ps where f: "st T = p # ps" "current_pid s1 = int p" "T < 3" "p < 6"
      "terminal_id (pcbs s1 (get_pcb_pointer (int p))) = T"
      "parent_pcb (pcbs s1 (get_pcb_pointer (int p))) = front_pcb ps"
    by (rule alive_front[OF al1]) (rule that; assumption)
  have tb1: "tables_ok st s1" using al1 by (simp add: alive_def)
  note eq = h[unfolded halt_handler_def cl option.case Let_def f(2,5,6)]
  show ?thesis
  proof (cases ps)
    case Nil
    let ?u = "s1\<lparr>current_pid := - 1, active_pids := (active_pids s1)(nat (int p) := - 1)\<rparr>"
    obtain new t where cr: "process_create fr shell_lit T (- 1) ?u = Some (new, t)"
      using eq f(5) Nil by (auto split: option.splits)
    have s': "s' = snd (process_start regs new t)"
      using eq cr f(5) Nil by (auto split: prod.splits control.splits)
    obtain k where go: "process_start regs new t = (k, s')" using s' by (metis prod.collapse)
    have tb: "tables_but {T} (st(T := [])) ?u"
      using tables_pop[OF tb1 f(3), of p "[]" ?u "{T}"] f(1) Nil tb1 by (simp add: tables_but_def)
    from create_start[OF cr tb subset_refl f(3) _ go] consider "s' = t" "same_tables ?u t"
      | q where "q < 6" "\<not> used (st(T := [])) q" "tables_ok (st(T := [q])) s'" "runs (st(T := [q])) T s'" by auto
    then show ?thesis
    proof cases
      case 1
      then show ?thesis by (simp add: same_tables_def)
    next
      case 2
      then show ?thesis using stack_step.restart[of st T p q] f(1) Nil unfolding alive_def by auto
    qed
  next
    case (Cons q qs)
    let ?par = "pcbs s1 (get_pcb_pointer (int q))"
    have ch: "chain (pcbs s1) T (p # q # qs)" and "\<forall>x \<in> set (p # q # qs). x < 6"
      using tb1 f(1,3) Cons by (auto simp: tables_but_def stacks_ok_def)
    then have q: "pcb_pid ?par = int q" "terminal_id ?par = T" "q < 6" by (auto simp: Let_def)
    have nz: "get_pcb_pointer (int q) \<noteq> 0" using pcb_pointer_nonzero[of "int q"] q(3) by simp
    let ?u = "s1\<lparr>tss_esp0 := get_kernel_start_esp (int q), file_descriptors := get_pcb_pointer (int q),
        current_pid := int q, terminal_pids := (terminal_pids s1)(T := int q),
        active_pids := (active_pids s1)(p := - 1)\<rparr>"
    have s': "s' = set_paging_for_process (int q) ?u"
      using eq Cons nz q by simp
    have "tables_ok (st(T := q # qs)) ?u"
      by (rule tables_pop[OF tb1 f(3), of p "q # qs"]) (use f(1) Cons tb1 in \<open>auto simp: tables_but_def\<close>)
    then have "tables_ok (st(T := q # qs)) s'"
      by (rule tables_keep) (simp_all add: s')
    moreover have "runs (st(T := q # qs)) T s'"
      using f(3) q(3) user_frame_set_paging[of "int q" ?u] by (simp add: runs_def s')
    ultimately show ?thesis using stack_step.pop[of st T p q qs] f(1) Cons unfolding alive_def by blast
  qed
qed

lemma switch_stacks:
  assumes al: "alive st T s" and U: "U < 3" "st U \<noteq> []"
  shows "alive st U (snd (process_switch regs (terminal_pids s U) s))"
proof -
  obtain p ps where f: "st U = p # ps" using U(2) by (cases "st U") auto
  have tb: "tables_ok st s" using al by (simp add: alive_def)
  have p: "terminal_pids s U = int p" "p < 6" using tb U(1) f by (auto simp: tables_but_def stacks_ok_def)
  let ?u = "(save_regs regs s)\<lparr>tss_esp0 := get_kernel_start_esp (int p), current_pid := int p,
      file_descriptors := get_pcb_pointer (int p)\<rparr>"
  have s': "snd (process_switch regs (terminal_pids s U) s) = sti (set_paging_for_process (int p) ?u)"
    using p by (simp add: process_switch_def Let_def)
  have "tables_ok st (sti (set_paging_for_process (int p) ?u))"
    by (rule tables_keep[OF tb]) (simp_all add: keeps_save_regs)
  moreover have "runs st U (sti (set_paging_for_process (int p) ?u))"
    using U f p(2) user_frame_set_paging[of "int p" ?u] by (simp add: runs_def user_frame_def)
  ultimately show ?thesis by (simp add: alive_def s')
qed


section \<open>The clock and the terminal switch\<close>

lemma quiet_outputs [simp]:
  "quiet s (outb b p s') = quiet s s'" "quiet s (send_eoi n t) = quiet s t" "quiet s (update_cursor u) = quiet s u"
  for s' t u :: "'a kernel_state_scheme"
  by (simp_all add: quiet_def outb_def send_eoi_def update_cursor_def Let_def)

lemma quiet_tick_fd: "quiet s (tick_fd i a s)"
  by (auto simp: tick_fd_def Let_def quiet_def upd_pcb_def typed_fd_def intro!: keeps_upd_fd)

lemma quiet_rtc_tick: "quiet s (rtc_tick s)"
proof -
  have one: "quiet u (fold (\<lambda>i s. tick_fd i (get_pcb_pointer (terminal_pids s j)) s) is u)" for "is" j
      and u :: "'a kernel_state_scheme"
    by (induction "is" arbitrary: u) (auto intro: quiet_trans[OF quiet_tick_fd])
  have "quiet u (fold (\<lambda>j s. if terminal_pids s j \<noteq> - 1
      then fold (\<lambda>i s. tick_fd i (get_pcb_pointer (terminal_pids s j)) s) [2..<8] s else s) js u)" for js
      and u :: "'a kernel_state_scheme"
  proof (induction js arbitrary: u)
    case (Cons j js)
    show ?case using quiet_trans[OF one[of u j "[2..<8]"] Cons.IH] Cons.IH[of u] by (simp del: upt_rec_numeral)
  qed simp
  then show ?thesis by (simp only: rtc_tick_def)
qed

lemma quiet_rtc_upd [simp]:
  fixes s :: "'a rtc_state_scheme"
  shows "quiet t (s\<lparr>rtc_count := v1\<rparr>) = quiet t s" "quiet t (s\<lparr>rtc_interrupt_flag := v2\<rparr>) = quiet t s"
    "quiet t (s\<lparr>current_index := v3\<rparr>) = quiet t s"
  by (simp_all add: quiet_def)

lemma schedule_stacks:
  assumes "alive st T s"
  shows "\<exists>U. alive st U (snd (schedule_loop n regs s)) \<and> stack_step (st, T) (st, U)"
  using assms
proof (induction n arbitrary: s)
  case (Suc n)
  let ?i = "(current_index s + 1) mod 3"
  let ?u = "s\<lparr>current_index := ?i\<rparr>"
  have al: "alive st T ?u" by (rule alive_quiet[OF _ Suc.prems]) simp
  show ?case
  proof (cases "terminal_pids ?u ?i \<noteq> - 1 \<and> terminal_pids ?u ?i \<noteq> current_pid ?u")
    case True
    then have e: "snd (schedule_loop (Suc n) regs s) = snd (process_switch regs (terminal_pids ?u ?i) ?u)"
      by (simp add: Let_def split: prod.splits)
    have "?i < 3" by simp
    moreover from this have "st ?i \<noteq> []" using al True by (auto simp: alive_def tables_but_def)
    ultimately show ?thesis unfolding e using switch_stacks[OF al] stack_step.preempt by blast
  next
    case False
    then have "schedule_loop (Suc n) regs s = schedule_loop n regs ?u" by (auto simp: Let_def)
    then show ?thesis using Suc.IH[OF al] by simp
  qed
qed (auto intro: stack_step.stay)

lemma rtc_handler_stacks:
  assumes "alive st T s"
  shows "\<exists>U. alive st U (snd (rtc_handler regs s)) \<and> stack_step (st, T) (st, U)"
proof -
  let ?s1 = "sti (send_eoi RTC_IRQ (outb RTC_C_REG RTC_PORT (s\<lparr>rtc_interrupt_flag := 1\<rparr>)))"
  let ?s2 = "rtc_tick ?s1"
  let ?s3 = "if rtc_count ?s2 > 0 then ?s2\<lparr>rtc_count := rtc_count ?s2 - 1\<rparr> else ?s2"
  have "quiet s ?s2" by (rule quiet_trans[OF _ quiet_rtc_tick]) simp
  then have q: "quiet s ?s3" by simp
  show ?thesis
  proof (cases "rtc_count ?s3 = 0")
    case True
    have "alive st T (?s3\<lparr>rtc_count := 8\<rparr>)" by (rule alive_quiet[OF _ assms]) (use q in simp)
    from schedule_stacks[OF this, of 3 regs] show ?thesis
      unfolding rtc_handler_def Let_def if_P[OF True] .
  next
    case False
    have "alive st T (cli ?s3)" by (rule alive_quiet[OF _ assms]) (use q in simp)
    then show ?thesis unfolding rtc_handler_def Let_def if_not_P[OF False] snd_conv using stack_step.stay by blast
  qed
qed

lemma quiet_swap: "quiet s (swap_terminal n s)"
proof -
  have p: "pcbs (swap_terminal n s) = pcbs s" "terminal_pids (swap_terminal n s) = terminal_pids s"
    "active_pids (swap_terminal n s) = active_pids s" "current_pid (swap_terminal n s) = current_pid s"
    "file_descriptors (swap_terminal n s) = file_descriptors s" "tss_esp0 (swap_terminal n s) = tss_esp0 s"
    "page_directory (swap_terminal n s) = page_directory s"
    by (simp_all add: swap_terminal_def Let_def restore_pos_def update_cursor_def outb_def copy_page_def
        remap_video_def flush_tlb_def set_pte_def save_pos_def)
  then show ?thesis by (simp add: quiet_def)
qed

lemma switch_terminal_stacks:
  assumes sw: "switch_terminal fr regs n s = Some (c, s')" and al: "alive st T s" and n: "n < 3"
    and open_st: "\<forall>t < 3. st t \<noteq> [] \<longrightarrow> terminal_active s t"
  shows "\<exists>st' U. alive st' U s' \<and> stack_step (st, T) (st', U) \<and> (\<forall>t < 3. st' t \<noteq> [] \<longrightarrow> st t \<noteq> [] \<or> t = n \<and> U = n)"
proof (cases "n = current_terminal s \<or> get_free_pid s = - 1 \<and> \<not> terminal_active s n")
  case True
  then have "s' = s" using sw by (auto simp: switch_terminal_def split: if_splits)
  then show ?thesis using al stack_step.stay by blast
next
  case False
  let ?s1 = "swap_terminal n s"
  let ?u = "clear (?s1\<lparr>terminal_active := (terminal_active ?s1)(n := True)\<rparr>)"
  have ta: "terminal_active ?s1 = terminal_active s"
    by (simp add: swap_terminal_def Let_def restore_pos_def update_cursor_def outb_def copy_page_def
        remap_video_def flush_tlb_def set_pte_def save_pos_def)
  show ?thesis
  proof (cases "terminal_active ?s1 n")
    case True
    then have "s' = sti ?s1" using sw False by (auto simp: switch_terminal_def Let_def)
    then have "quiet s s'" by (simp add: quiet_swap)
    then have "alive st T s'" by (rule alive_quiet[OF _ al])
    then show ?thesis using stack_step.stay by blast
  next
    case act: False
    then have e: "st n = []" using open_st n ta by auto
    have "quiet s ?u" by (rule quiet_trans[OF _ quiet_console[OF console_frame_clear]]) (simp add: quiet_swap)
    then have al1: "alive st T ?u" by (rule alive_quiet[OF _ al])
    then have tb: "tables_but {} st ?u" by (simp add: alive_def)
    obtain pid t where cr: "process_create fr shell_lit n (- 1) ?u = Some (pid, t)"
      using sw False act by (auto simp: switch_terminal_def Let_def split: option.splits if_splits)
    obtain k v where go: "process_start regs pid t = (k, v)" by (metis prod.collapse)
    have s': "s' = (case k of Return _ \<Rightarrow> sti v | _ \<Rightarrow> v)"
      using sw False act cr go by (auto simp: switch_terminal_def Let_def split: control.splits)
    from create_start[OF cr tb _ n _ go] e consider "k = Return (- 1)" "v = t" "same_tables ?u t"
      | entry q where "k = Iret entry 0x083FFFFC" "q < 6" "\<not> used st q" "tables_ok (st(n := [q])) v" "runs (st(n := [q])) n v"
      by auto
    then show ?thesis
    proof cases
      case 1
      then have "alive st T s'" using alive_quiet[OF quiet_same_tables al1, of t]
          alive_quiet[of t "sti t" st T] s' by simp
      then show ?thesis using stack_step.stay by blast
    next
      case 2
      then have "alive (st(n := [q])) n s'" using s' by (simp add: alive_def)
      then show ?thesis using stack_step.open_terminal[OF n e 2(2,3), of T] by (metis fun_upd_other)
    qed
  qed
qed

end
