(* ===== verification/System.thy ===== *)
theory System
  imports Display Stacks
begin

text \<open>
  The kernel as a whole. One step is a system call of the running process, a key, a tick of the
  clock or a store by the user program. In every state reached the display invariant holds, and the
  process table represents terminal stacks that move by the rules of the abstract machine, as long
  as a shell can be started when the last process of a terminal halts.
\<close>

section \<open>Fields only interrupts change\<close>

definition same_extra :: "'a keyboard_state_scheme \<Rightarrow> 'a keyboard_state_scheme \<Rightarrow> bool" where
  "same_extra s s' \<longleftrightarrow>
     terminal_active s' = terminal_active s \<and> rtc_count s' = rtc_count s \<and> current_index s' = current_index s"

lemma same_extra_refl [simp]: "same_extra s s"
  by (simp add: same_extra_def)

lemma same_extra_trans: "same_extra s s' \<Longrightarrow> same_extra s' s'' \<Longrightarrow> same_extra s s''"
  by (simp add: same_extra_def)

lemma same_extra_updates [simp]:
  fixes s t :: "'a keyboard_state_scheme"
  shows "same_extra s (cli t) = same_extra s t" "same_extra s (sti t) = same_extra s t"
    "same_extra s (outb b p t) = same_extra s t" "same_extra s (send_eoi n t) = same_extra s t"
    "same_extra s (upd_pcb a f t) = same_extra s t" "same_extra s (upd_fd i g t) = same_extra s t"
    "same_extra s (save_regs r t) = same_extra s t" "same_extra s (update_cursor t) = same_extra s t"
    "same_extra s (set_paging_for_process pid t) = same_extra s t"
  by (simp_all add: same_extra_def cli_def sti_def outb_def send_eoi_def upd_pcb_def upd_fd_def save_regs_def
      update_cursor_def set_paging_for_process_def flush_tlb_def set_pde_def Let_def)

lemma same_extra_fields [simp]:
  fixes s t :: "'a keyboard_state_scheme"
  shows "same_extra s (t\<lparr>phys := v1\<rparr>) = same_extra s t" "same_extra s (t\<lparr>active_pids := v2\<rparr>) = same_extra s t"
    "same_extra s (t\<lparr>current_pid := v3\<rparr>) = same_extra s t" "same_extra s (t\<lparr>file_descriptors := v4\<rparr>) = same_extra s t"
    "same_extra s (t\<lparr>terminal_pids := v5\<rparr>) = same_extra s t" "same_extra s (t\<lparr>tss_esp0 := v6\<rparr>) = same_extra s t"
    "same_extra s (t\<lparr>terminal_buffers := v7\<rparr>) = same_extra s t" "same_extra s (t\<lparr>buffer_index := v8\<rparr>) = same_extra s t"
    "same_extra s (t\<lparr>enter_state := v9\<rparr>) = same_extra s t"
    "same_extra (s\<lparr>phys := v1\<rparr>) t = same_extra s t"
  by (simp_all add: same_extra_def)

lemma same_extra_console:
  fixes s s' :: "'a keyboard_state_scheme"
  assumes "console_frame s s'"
  shows "same_extra s s'"
  using assms unfolding console_frame_def same_extra_def by (cases s; cases s'; simp)

lemma same_extra_printf: "printf cb fmt as s = Some (n, s') \<Longrightarrow> same_extra s s'"
  by (rule same_extra_console[OF printf_frame])

lemma same_extra_create:
  assumes "process_create fr command terminal parent s = Some (pid, s')"
  shows "same_extra s s'"
proof -
  have exe: "same_extra t t'" if "create_executable fr ino fargs terminal parent t = Some (p, t')"
    for ino fargs p and t t' :: "'a keyboard_state_scheme"
    using that by (auto simp: create_executable_def Let_def split: if_splits option.splits
        dest!: same_extra_printf intro: same_extra_trans[of _ "sti t"])
  show ?thesis using assms
    by (auto simp: process_create_def Let_def split: if_splits option.splits prod.splits dest!: exe)
qed

lemma same_extra_start: "process_start regs pid s = (c, s') \<Longrightarrow> same_extra s s'"
  by (auto simp: process_start_def Let_def split: if_splits)

lemma same_extra_execute: "execute_handler fr regs command s = Some (c, s') \<Longrightarrow> same_extra s s'"
  by (auto simp: execute_handler_def split: option.splits
      dest!: same_extra_create same_extra_start intro: same_extra_trans)

lemma same_extra_close: "close_op ops fd s = (r, s') \<Longrightarrow> same_extra s s'"
  by (cases ops) (auto simp: directory_close_def file_close_def terminal_close_def rtc_close_def split: if_splits)

lemma same_extra_close_all: "close_all is s = Some s' \<Longrightarrow> same_extra s s'"
proof (induction "is" arbitrary: s)
  case (Cons i "is")
  then show ?case
    by (auto split: if_splits option.splits)
      (metis same_extra_trans same_extra_close prod.collapse)
qed simp

lemma same_extra_open: "open_handler d f s = Some (r, s') \<Longrightarrow> same_extra s s'"
  by (auto simp: open_handler_def rtc_open_def directory_open_def file_open_def open_fd_def Let_def
      split: option.splits if_splits)


lemma same_extra_halt:
  assumes "halt_handler fr regs status s = Some (c, s')"
  shows "same_extra s s'"
proof -
  obtain s1 where cl: "close_all [2..<8] (cli s) = Some s1"
    using assms by (auto simp: halt_handler_def simp del: close_all.simps split: option.splits)
  then have q: "same_extra s s1" using same_extra_close_all[OF cl] by (simp add: same_extra_def cli_def)
  note eq = assms[unfolded halt_handler_def cl option.case Let_def]
  show ?thesis
  proof (cases "parent_pcb (pcbs s1 (get_pcb_pointer (current_pid s1))) = 0")
    case True
    let ?u = "s1\<lparr>current_pid := - 1, active_pids := (active_pids s1)(nat (current_pid s1) := - 1)\<rparr>"
    obtain new t where cr: "process_create fr shell_lit
        (terminal_id (pcbs s1 (get_pcb_pointer (current_pid s1)))) (- 1) ?u = Some (new, t)"
      using eq True by (auto split: option.splits)
    obtain k where "process_start regs new t = (k, s')"
      using eq[unfolded if_P[OF True] cr] by (auto split: prod.splits control.splits)
    then have "same_extra t s'" by (rule same_extra_start)
    moreover have "same_extra s t" using same_extra_trans[OF q] same_extra_create[OF cr] by (simp add: same_extra_def)
    ultimately show ?thesis using same_extra_trans by blast
  next
    case False
    then show ?thesis using eq q by auto
  qed
qed

text \<open>The interrupts that return to the interrupted program: a key that starts no process and a tick
  that does not give the processor away.\<close>

definition local_press ::
  "(key_table \<Rightarrow> nat \<Rightarrow> byte) \<Rightarrow> create_frame \<Rightarrow> u32 \<times> u32 \<Rightarrow> byte \<Rightarrow> 'a keyboard_state_scheme \<Rightarrow> 'a keyboard_state_scheme" where
  "local_press beyond fr regs sc s =
     (case keyboard_handler beyond fr regs sc s of Some (None, s') \<Rightarrow> s' | _ \<Rightarrow> s)"

definition local_tick :: "u32 \<times> u32 \<Rightarrow> 'a rtc_state_scheme \<Rightarrow> 'a rtc_state_scheme" where
  "local_tick regs s = (case rtc_handler regs s of (None, s') \<Rightarrow> s' | _ \<Rightarrow> s)"

inductive returning_interrupt :: "('a keyboard_state_scheme \<Rightarrow> 'a keyboard_state_scheme) \<Rightarrow> bool" where
  "returning_interrupt (local_press beyond fr regs sc)"
| "returning_interrupt (local_tick regs)"

definition clock_ok :: "'a rtc_state_scheme \<Rightarrow> bool" where
  "clock_ok s \<longleftrightarrow> 0 \<le> rtc_count s \<and> rtc_count s \<le> 8 \<and> current_index s < 3"

definition opened :: "stacks \<Rightarrow> 'a keyboard_state_scheme \<Rightarrow> bool" where
  "opened st s \<longleftrightarrow> (\<forall>t < 3. st t \<noteq> [] \<longrightarrow> terminal_active s t)"

definition kernel_ok :: "stacks \<Rightarrow> nat \<Rightarrow> 'a keyboard_state_scheme \<Rightarrow> bool" where
  "kernel_ok st T s \<longleftrightarrow> alive st T s \<and> disp_ok s \<and> opened st s \<and> clock_ok s"

inductive system_step :: "'a keyboard_state_scheme \<Rightarrow> 'a keyboard_state_scheme \<Rightarrow> bool" where
  call: "current_pid s \<noteq> - 1 \<Longrightarrow> \<forall>e \<in> set (ctx_interrupts ctx). returning_interrupt e \<Longrightarrow>
    handle_syscall ctx n a b c s = Some (k, s') \<Longrightarrow> system_step s s'"
| key: "current_pid s \<noteq> - 1 \<Longrightarrow> keyboard_handler beyond fr regs sc s = Some (k, s') \<Longrightarrow> system_step s s'"
| tick: "current_pid s \<noteq> - 1 \<Longrightarrow> system_step s (snd (rtc_handler regs s))"
| store: "current_pid s \<noteq> - 1 \<Longrightarrow> user_accessible s a \<Longrightarrow>
    system_step s (s\<lparr>phys := store8 (xlate s) a v (phys s)\<rparr>)"

section \<open>Interrupts\<close>

lemma clock_ok_frame: "rtc_count s' = rtc_count s \<Longrightarrow> current_index s' = current_index s \<Longrightarrow> clock_ok s' = clock_ok s"
  by (simp add: clock_ok_def)

lemma clock_fields [simp]:
  fixes s :: "'a rtc_state_scheme"
  shows "rtc_count (set_paging_for_process pid s) = rtc_count s" "current_index (set_paging_for_process pid s) = current_index s"
    "rtc_count (save_regs r s) = rtc_count s" "current_index (save_regs r s) = current_index s"
    "rtc_count (sti s) = rtc_count s" "current_index (sti s) = current_index s"
    "rtc_count (cli s) = rtc_count s" "current_index (cli s) = current_index s"
    "rtc_count (outb b p s) = rtc_count s" "current_index (outb b p s) = current_index s"
    "rtc_count (send_eoi n s) = rtc_count s" "current_index (send_eoi n s) = current_index s"
  by (simp_all add: set_paging_for_process_def flush_tlb_def set_pde_def save_regs_def upd_pcb_def sti_def cli_def
      outb_def send_eoi_def)

lemma schedule_clock:
  "rtc_count (snd (schedule_loop n regs s)) = rtc_count s \<and>
   (current_index s < 3 \<longrightarrow> current_index (snd (schedule_loop n regs s)) < 3)"
proof (induction n arbitrary: s)
  case (Suc n)
  let ?u = "s\<lparr>current_index := (current_index s + 1) mod 3\<rparr>"
  show ?case
  proof (cases "terminal_pids ?u (current_index ?u) \<noteq> - 1 \<and> terminal_pids ?u (current_index ?u) \<noteq> current_pid ?u")
    case True
    then have "snd (schedule_loop (Suc n) regs s) = snd (process_switch regs (terminal_pids ?u (current_index ?u)) ?u)"
      by (simp add: Let_def split: prod.splits)
    then show ?thesis by (simp add: process_switch_def Let_def)
  next
    case False
    then have "schedule_loop (Suc n) regs s = schedule_loop n regs ?u" by (auto simp: Let_def)
    then show ?thesis using Suc[of ?u] by simp
  qed
qed simp

lemma rtc_handler_clock:
  assumes "clock_ok s"
  shows "clock_ok (snd (rtc_handler regs s))"
  using assms by (simp add: rtc_handler_def Let_def clock_ok_def schedule_clock)


lemma terminal_active_tick [simp]:
  fixes s :: "'a keyboard_state_scheme"
  shows "terminal_active (rtc_tick s) = terminal_active s"
proof -
  have fd: "terminal_active (tick_fd i a u) = terminal_active u" for i a and u :: "'a keyboard_state_scheme"
    by (simp add: tick_fd_def upd_pcb_def Let_def)
  have "terminal_active (fold (\<lambda>j s. if terminal_pids s j \<noteq> - 1
      then fold (\<lambda>i s. tick_fd i (get_pcb_pointer (terminal_pids s j)) s) [2..<8] s else s) js u) = terminal_active u"
    for js and u :: "'a keyboard_state_scheme"
    by (induction js arbitrary: u) (simp_all add: fd)
  then show ?thesis by (simp only: rtc_tick_def)
qed

lemma terminal_active_schedule:
  fixes s :: "'a keyboard_state_scheme"
  shows "terminal_active (snd (schedule_loop n regs s)) = terminal_active s"
proof (induction n arbitrary: s)
  case (Suc n)
  have sw: "terminal_active (snd (process_switch regs pid u)) = terminal_active u" for pid and u :: "'a keyboard_state_scheme"
    by (simp add: process_switch_def Let_def sti_def set_paging_for_process_def flush_tlb_def set_pde_def save_regs_def upd_pcb_def)
  let ?u = "s\<lparr>current_index := (current_index s + 1) mod 3\<rparr>"
  show ?case
  proof (cases "terminal_pids ?u (current_index ?u) \<noteq> - 1 \<and> terminal_pids ?u (current_index ?u) \<noteq> current_pid ?u")
    case True
    then have "snd (schedule_loop (Suc n) regs s) = snd (process_switch regs (terminal_pids ?u (current_index ?u)) ?u)"
      by (simp add: Let_def split: prod.splits)
    then show ?thesis by (simp add: sw)
  next
    case False
    then have "schedule_loop (Suc n) regs s = schedule_loop n regs ?u" by (auto simp: Let_def)
    then show ?thesis using Suc[of ?u] by simp
  qed
qed simp

lemma rtc_handler_opened:
  fixes s :: "'a keyboard_state_scheme"
  shows "terminal_active (snd (rtc_handler regs s)) = terminal_active s"
  by (simp add: rtc_handler_def Let_def terminal_active_schedule)
    (simp add: sti_def cli_def outb_def send_eoi_def)

lemma tick_kernel_ok:
  fixes s :: "'a keyboard_state_scheme"
  assumes "kernel_ok st T s"
  shows "\<exists>U. kernel_ok st U (snd (rtc_handler regs s)) \<and> stack_step (st, T) (st, U)"
  using assms rtc_handler_stacks[of st T s regs]
  by (auto simp: kernel_ok_def opened_def disp_ok_rtc_handler rtc_handler_clock rtc_handler_opened)

text \<open>Console output and the line buffer touch none of the fields of interest.\<close>

lemma same_extra_keys [simp]:
  fixes s t :: "'a keyboard_state_scheme"
  shows "same_extra s (t\<lparr>ctrl_state := v1\<rparr>) = same_extra s t" "same_extra s (t\<lparr>shift_state := v2\<rparr>) = same_extra s t"
    "same_extra s (t\<lparr>alt_state := v3\<rparr>) = same_extra s t" "same_extra s (t\<lparr>caps_state := v4\<rparr>) = same_extra s t"
    "same_extra s (t\<lparr>caps_dirty := v5\<rparr>) = same_extra s t" "same_extra s (t\<lparr>buffer_indices := v6\<rparr>) = same_extra s t"
    "same_extra s (t\<lparr>terminal_buffer := v7\<rparr>) = same_extra s t" "same_extra s (t\<lparr>current_terminal := v8\<rparr>) = same_extra s t"
  by (simp_all add: same_extra_def)

definition undisturbed :: "'a keyboard_state_scheme \<Rightarrow> 'a keyboard_state_scheme \<Rightarrow> bool" where
  "undisturbed s s' \<longleftrightarrow> quiet s s' \<and> same_extra s s'"

lemma undisturbed_refl [simp]: "undisturbed s s"
  by (simp add: undisturbed_def)

lemma undisturbed_trans: "undisturbed s s' \<Longrightarrow> undisturbed s' s'' \<Longrightarrow> undisturbed s s''"
  unfolding undisturbed_def using quiet_trans same_extra_trans by blast

lemma undisturbed_console: "console_frame s s' \<Longrightarrow> undisturbed s s'"
  by (simp add: undisturbed_def quiet_console same_extra_console)

lemma undisturbed_echo: "undisturbed s (echo c s)"
  using undisturbed_console[OF console_frame_echo, of s c] by (simp add: echo_def put_buffer_def undisturbed_def)

lemma undisturbed_let:
  "undisturbed s t \<Longrightarrow> (\<And>x. undisturbed s x \<Longrightarrow> undisturbed s (f x)) \<Longrightarrow> undisturbed s (Let t f)"
  by simp

lemma undisturbed_if: "undisturbed s a \<Longrightarrow> undisturbed s b \<Longrightarrow> undisturbed s (if P then a else b)"
  by simp

lemma undisturbed_printable_key: "undisturbed s (printable_key beyond sc s)"
  unfolding printable_key_def
  by (intro undisturbed_let undisturbed_if undisturbed_trans[OF _ undisturbed_echo] undisturbed_refl
      undisturbed_console[OF console_frame_trans[OF console_frame_clear console_frame_update_cursor]])
    assumption+


lemma undisturbed_simps [simp]:
  fixes s t :: "'a keyboard_state_scheme"
  shows "undisturbed s (cli t) = undisturbed s t" "undisturbed s (sti t) = undisturbed s t"
    "undisturbed s (send_eoi n t) = undisturbed s t" "undisturbed s (update_cursor t) = undisturbed s t"
    "undisturbed s (t\<lparr>ctrl_state := v1\<rparr>) = undisturbed s t" "undisturbed s (t\<lparr>shift_state := v2\<rparr>) = undisturbed s t"
    "undisturbed s (t\<lparr>alt_state := v3\<rparr>) = undisturbed s t" "undisturbed s (t\<lparr>caps_state := v4\<rparr>) = undisturbed s t"
    "undisturbed s (t\<lparr>caps_dirty := v5\<rparr>) = undisturbed s t" "undisturbed s (t\<lparr>enter_state := v6\<rparr>) = undisturbed s t"
    "undisturbed s (t\<lparr>terminal_buffers := v7\<rparr>) = undisturbed s t" "undisturbed s (t\<lparr>buffer_index := v8\<rparr>) = undisturbed s t"
    "undisturbed s (t\<lparr>buffer_indices := v9\<rparr>) = undisturbed s t" "undisturbed s (t\<lparr>terminal_buffer := v10\<rparr>) = undisturbed s t"
    "undisturbed s (t\<lparr>current_terminal := v11\<rparr>) = undisturbed s t"
  by (simp_all add: undisturbed_def)

lemma undisturbed_tputs: "tputs str t s = Some (n, s') \<Longrightarrow> is_cstr str cs \<Longrightarrow> undisturbed s s'"
  using undisturbed_console[OF console_frame_fold[of "\<lambda>c. tputc c t", OF console_frame_tputc], of s cs]
    tputs_fold[of str cs t s] by simp

lemma undisturbed_control_key:
  assumes "control_key sc s = Some s'"
  shows "undisturbed s s'"
proof -
  have enter: "undisturbed s (tputc 10 n (s\<lparr>terminal_buffers := b\<rparr>))" for n b
    by (rule undisturbed_trans[OF _ undisturbed_console[OF console_frame_tputc]]) simp
  have erase: "undisturbed s (keyboard_backspace s)"
    unfolding keyboard_backspace_def Let_def
    by (auto intro: undisturbed_trans[OF _ undisturbed_console[OF console_frame_backspace]])
  show ?thesis using assms undisturbed_tputs[OF _ tab_text_cstr]
    by (auto simp: control_key_def Let_def enter erase split: if_splits option.splits)
qed

lemma undisturbed_swap: "undisturbed s (swap_terminal n s)"
  unfolding undisturbed_def
  by (simp add: quiet_swap) (simp add: same_extra_def swap_terminal_def Let_def restore_pos_def update_cursor_def
      outb_def copy_page_def remap_video_def flush_tlb_def set_pte_def save_pos_def)

lemma process_start_return: "process_start regs pid s = (Return v, s') \<Longrightarrow> s' = s"
  by (auto simp: process_start_def Let_def split: if_splits)

lemma create_return:
  assumes cr: "process_create fr command terminal parent s = Some (pid, t)"
    and go: "process_start regs pid t = (Return v, s')"
  shows "quiet s s'"
proof -
  let ?fargs = "snd (parse_command command 0 (loc_file_name fr) (loc_file_args fr))"
  consider "same_tables s t" | "created pid terminal parent ?fargs s t" using process_create_result[OF cr] by blast
  then show ?thesis
  proof cases
    case 1
    then show ?thesis using process_start_return[OF go] quiet_same_tables by blast
  next
    case 2
    then have "active_pids t (nat pid) = 0" by (auto simp: created_def)
    then show ?thesis using process_start_ok[of pid t regs] created_pid[OF 2] go by auto
  qed
qed

text \<open>Switching the displayed terminal: what happens to the active terminals, and that the
  interrupted program is untouched when the handler returns to it.\<close>

lemma switch_terminal_extra:
  assumes sw: "switch_terminal fr regs n s = Some (c, s')"
  shows "rtc_count s' = rtc_count s" "current_index s' = current_index s"
    "s' = s \<or> terminal_active s' = (terminal_active s)(n := True)" "c = None \<Longrightarrow> quiet s s'"
proof -
  have *: "rtc_count s' = rtc_count s \<and> current_index s' = current_index s \<and>
    (s' = s \<or> terminal_active s' = (terminal_active s)(n := True)) \<and> (c = None \<longrightarrow> quiet s s')"
  proof (cases "n = current_terminal s \<or> get_free_pid s = - 1 \<and> \<not> terminal_active s n")
    case True
    then have "s' = s" using sw by (auto simp: switch_terminal_def split: if_splits)
    then show ?thesis by simp
  next
    case False
    let ?s1 = "swap_terminal n s"
    let ?u = "clear (?s1\<lparr>terminal_active := (terminal_active ?s1)(n := True)\<rparr>)"
    have d1: "quiet s ?s1" "same_extra s ?s1" using undisturbed_swap[of s n] by (simp_all add: undisturbed_def)
    show ?thesis
    proof (cases "terminal_active ?s1 n")
      case True
      then have s': "s' = sti ?s1" using sw False by (auto simp: switch_terminal_def Let_def)
      have "same_extra s s'" "quiet s s'" unfolding s' using d1 by simp_all
      moreover have "terminal_active s n" using True d1(2) by (simp add: same_extra_def)
      ultimately show ?thesis by (auto simp: same_extra_def fun_upd_idem)
    next
      case act: False
      have u: "same_extra (?s1\<lparr>terminal_active := (terminal_active ?s1)(n := True)\<rparr>) ?u"
        by (rule same_extra_console[OF console_frame_clear])
      have qu: "quiet s ?u" by (rule quiet_trans[OF _ quiet_console[OF console_frame_clear]]) (simp add: d1)
      obtain pid t where cr: "process_create fr shell_lit n (- 1) ?u = Some (pid, t)"
        using sw False act by (auto simp: switch_terminal_def Let_def split: option.splits if_splits)
      obtain k v where go: "process_start regs pid t = (k, v)" by (metis prod.collapse)
      have s': "s' = (case k of Return _ \<Rightarrow> sti v | _ \<Rightarrow> v)" "c = None \<longleftrightarrow> (\<exists>r. k = Return r)"
        using sw False act cr go by (auto simp: switch_terminal_def Let_def split: control.splits)
      have "same_extra ?u v" using same_extra_trans[OF same_extra_create[OF cr] same_extra_start[OF go]] .
      then have "same_extra (?s1\<lparr>terminal_active := (terminal_active ?s1)(n := True)\<rparr>) s'"
        using same_extra_trans[OF u] s'(1) by (cases k) simp_all
      moreover have "quiet s s'" if none: "c = None"
      proof -
        obtain r where k: "k = Return r" using none s'(2) by blast
        show ?thesis using quiet_trans[OF qu create_return[OF cr go[unfolded k]]] s'(1) k by simp
      qed
      ultimately show ?thesis using d1(2) by (auto simp: same_extra_def)
    qed
  qed
  then show "rtc_count s' = rtc_count s" "current_index s' = current_index s"
    "s' = s \<or> terminal_active s' = (terminal_active s)(n := True)" "c = None \<Longrightarrow> quiet s s'" by simp_all
qed


section \<open>Interrupts that return\<close>

definition settled :: "'a keyboard_state_scheme \<Rightarrow> 'a keyboard_state_scheme \<Rightarrow> bool" where
  "settled s s' \<longleftrightarrow> (clock_ok s \<longrightarrow> clock_ok s') \<and> (\<forall>t. terminal_active s t \<longrightarrow> terminal_active s' t)"

lemma settled_trans: "settled s s' \<Longrightarrow> settled s' s'' \<Longrightarrow> settled s s''"
  by (auto simp: settled_def)

lemma settled_extra: "same_extra s s' \<Longrightarrow> settled s s'"
  by (auto simp: settled_def same_extra_def clock_ok_def)

lemma kernel_ok_settled:
  assumes "kernel_ok st T s" "settled s s'" "alive st T s'" "disp_ok s'"
  shows "kernel_ok st T s'"
  using assms by (auto simp: kernel_ok_def settled_def opened_def)

text \<open>What a key does: it leaves everything but its terminals alone, or it is a terminal switch.\<close>

lemma keyboard_handler_cases:
  assumes "keyboard_handler beyond fr regs sc s = Some (c, s')"
  obtains (key) "undisturbed s s'" "c = None"
  | (switch) n u where "n < 3" "undisturbed s u" "disp_ok u = disp_ok s" "switch_terminal fr regs n u = Some (c, s')"
proof -
  have q: "undisturbed s (cli s)" by simp
  consider "s' = sti (send_eoi KEYBOARD_IRQ_NUM (printable_key beyond sc (cli s)))" "c = None"
    | "switch_key sc (cli s)"
      "switch_terminal fr regs (unat (sc - F1_PRESSED_SCANCODE)) (send_eoi KEYBOARD_IRQ_NUM (cli s)) = Some (c, s')"
    | s1 where "control_key sc (cli s) = Some s1" "s' = sti (send_eoi KEYBOARD_IRQ_NUM s1)" "c = None"
    using assms unfolding keyboard_handler_def Let_def
    by (cases "key_at beyond plain sc = 0"; cases "switch_key sc (cli s)"; cases "control_key sc (cli s)") simp_all
  then show ?thesis
  proof cases
    case 1
    then show ?thesis using key undisturbed_trans[OF q undisturbed_printable_key] by simp
  next
    case 2
    then show ?thesis using switch[OF switch_key_terminal[OF 2(1)] _ _ 2(2)] by simp
  next
    case 3
    then show ?thesis using key undisturbed_trans[OF q undisturbed_control_key[OF 3(1)]] by simp
  qed
qed

lemma local_press_laws:
  "quiet s (local_press beyond fr regs sc s)" "settled s (local_press beyond fr regs sc s)"
  "disp_ok s \<Longrightarrow> disp_ok (local_press beyond fr regs sc s)"
proof -
  have *: "quiet s s' \<and> settled s s' \<and> (disp_ok s \<longrightarrow> disp_ok s')"
    if h: "keyboard_handler beyond fr regs sc s = Some (None, s')" for s'
    using h
  proof (cases rule: keyboard_handler_cases)
    case key
    then show ?thesis using disp_ok_keyboard_handler[OF h] settled_extra by (auto simp: undisturbed_def)
  next
    case (switch n u)
    have "quiet u s'" "settled u s'" using switch_terminal_extra[OF switch(4)] by (auto simp: settled_def clock_ok_def)
    then show ?thesis using disp_ok_keyboard_handler[OF h] quiet_trans settled_trans settled_extra switch(2)
      unfolding undisturbed_def by blast
  qed
  show "quiet s (local_press beyond fr regs sc s)" "settled s (local_press beyond fr regs sc s)"
    "disp_ok s \<Longrightarrow> disp_ok (local_press beyond fr regs sc s)"
    using * by (auto simp: local_press_def settled_def split: option.splits)
qed

lemma schedule_none: "schedule_loop n regs s = (None, s') \<Longrightarrow> quiet s s'"
proof (induction n arbitrary: s)
  case (Suc n)
  then show ?case by (auto simp: Let_def split: if_splits prod.splits) (metis quiet_refl quiet_rtc_upd(3) quiet_trans)+
qed simp

lemma local_tick_laws:
  fixes s :: "'a keyboard_state_scheme"
  shows "quiet s (local_tick regs s)" "settled s (local_tick regs s)" "disp_ok s \<Longrightarrow> disp_ok (local_tick regs s)"
proof -
  let ?s1 = "sti (send_eoi RTC_IRQ (outb RTC_C_REG RTC_PORT (s\<lparr>rtc_interrupt_flag := 1\<rparr>)))"
  have "quiet s (rtc_tick ?s1)" by (rule quiet_trans[OF _ quiet_rtc_tick]) simp
  then have t: "quiet s (rtc_tick ?s1)" "quiet s (rtc_tick ?s1\<lparr>rtc_count := 8\<rparr>)" by simp_all
  then have q: "quiet s s'" if "rtc_handler regs s = (None, s')" for s'
    using that by (auto simp: rtc_handler_def Let_def split: if_splits dest!: schedule_none intro: quiet_trans[OF t(2)])
  have l: "local_tick regs s = s \<or> rtc_handler regs s = (None, local_tick regs s)"
    by (cases "rtc_handler regs s"; cases "fst (rtc_handler regs s)") (simp_all add: local_tick_def)
  then show "quiet s (local_tick regs s)" using q quiet_refl by metis
  have "settled s (snd (rtc_handler regs s))"
    using rtc_handler_clock[of s regs] rtc_handler_opened[of regs s] by (simp add: settled_def)
  then show "settled s (local_tick regs s)" using l by (metis settled_def snd_conv)
  show "disp_ok s \<Longrightarrow> disp_ok (local_tick regs s)" using l disp_ok_rtc_handler[of regs s] by (metis snd_conv)
qed

lemma returning_interrupt_laws:
  assumes "returning_interrupt e"
  shows "quiet u (e u)" "settled u (e u)" "calm e"
  using assms local_press_laws local_tick_laws by (auto simp: calm_def elim!: returning_interrupt.cases)


section \<open>System calls\<close>

lemma settled_refl [simp]: "settled s s"
  by (simp add: settled_def)

lemma settled_spin:
  assumes "spin_while P envs s = Some (t, rest)" "\<forall>e \<in> set envs. returning_interrupt e"
  shows "settled s t"
  using assms
proof (induction envs arbitrary: s)
  case Nil
  then show ?case by (auto simp: spin_while.simps split: if_splits)
next
  case (Cons e es)
  show ?case
  proof (cases "P s")
    case True
    then have "spin_while P es (e s) = Some (t, rest)" using Cons.prems(1) by (simp add: spin_while.simps[of P "e # es"])
    then show ?thesis using Cons returning_interrupt_laws(2)[of e s] settled_trans by auto
  next
    case False
    then show ?thesis using Cons.prems(1) by (simp add: spin_while.simps[of P "e # es"])
  qed
qed

lemma same_extra_take: "terminal_take buf n tid s = (r, s') \<Longrightarrow> same_extra s s'"
  by (auto simp: terminal_take_def clear_terminal_buffer_def Let_def)

lemma settled_read:
  assumes r: "read_op ops ctx fd buf n s = Some (r, s')" and i: "\<forall>e \<in> set (ctx_interrupts ctx). returning_interrupt e"
  shows "settled s s'"
proof (cases ops)
  case terminal_jumptable
  then show ?thesis using r settled_spin[OF _ i, of _ s] settled_extra[OF same_extra_take] settled_trans
    by (auto simp: terminal_read_def Let_def settled_extra split: if_splits option.splits) blast+
next
  case rtc_jumptable
  then obtain rest where "spin_while (\<lambda>t. file_pos (cur_fd t (nat (sint fd))) \<noteq> 0) (ctx_interrupts ctx)
      (upd_fd (nat (sint fd)) (\<lambda>f. f\<lparr>file_pos := flags f\<rparr>) s) = Some (s', rest)"
    using r by (auto simp: rtc_read_def Let_def split: option.splits)
  then have "settled (upd_fd (nat (sint fd)) (\<lambda>f. f\<lparr>file_pos := flags f\<rparr>) s) s'" by (rule settled_spin[OF _ i])
  then show ?thesis by (rule settled_trans[OF settled_extra, rotated]) simp
qed (use r in \<open>auto simp: directory_read_def file_read_def Let_def settled_extra split: if_splits option.splits prod.splits\<close>)

lemma same_extra_write: "same_extra s (snd (write_op ops fd buf n s))"
proof (cases ops)
  case terminal_jumptable
  have "same_extra u (snd (fold (terminal_write_byte buf) js (w, u)))" for js w and u :: "'a keyboard_state_scheme"
  proof (induction js arbitrary: w u)
    case (Cons i js)
    let ?v = "snd (terminal_write_byte buf i (w, u))"
    have "?v = u \<or> (\<exists>c T. ?v = tputc c T u)" by (auto simp: terminal_write_byte_def Let_def)
    then have "same_extra u ?v" using same_extra_console[OF console_frame_tputc] by auto
    then show ?case
      using Cons.IH[where u = ?v and w = "fst (terminal_write_byte buf i (w, u))"] same_extra_trans by simp blast
  qed simp
  from this[where u = "cli s" and w = 0 and js = "[0..<nat (sint n)]"]
  have "same_extra (cli s) (update_cursor (sti (snd (fold (terminal_write_byte buf) [0..<nat (sint n)] (0, cli s)))))"
    by simp
  from same_extra_trans[OF _ this, of s] show ?thesis
    using terminal_jumptable by (auto simp: terminal_write_def split: prod.splits)
qed (auto simp: directory_write_def file_write_def rtc_write_def Let_def)

lemma settled_call:
  assumes "handle_syscall ctx n a b c s = Some (k, s')" "\<forall>e \<in> set (ctx_interrupts ctx). returning_interrupt e"
  shows "settled s s'"
proof -
  have "settled s s'" if r: "run_syscall f ctx a b c s = Some (k, s')" for f
  proof (cases f)
    case read_S
    then show ?thesis using r settled_read[OF _ assms(2)]
      by (auto simp: returning_def read_handler_def settled_extra split: option.splits if_splits)
  next
    case write_S
    have "same_extra s (snd (write_op ops a b c s))" for ops by (rule same_extra_write)
    then show ?thesis using r write_S
      by (auto simp: returning_def write_handler_def intro!: settled_extra split: option.splits if_splits) (metis snd_conv)
  next
    case vidmap_S
    then show ?thesis using r by (auto simp: vidmap_handler_def settled_extra split: if_splits)
  qed (use r in \<open>auto simp: returning_def close_handler_def getargs_handler_def set_handler_handler_def sigreturn_handler_def
        Let_def intro!: settled_extra split: option.splits if_splits
        dest: same_extra_halt same_extra_execute same_extra_open same_extra_close same_extra_printf\<close>)
  then show ?thesis using assms(1) by (auto simp: handle_syscall_def settled_extra split: if_splits)
qed

lemma call_stacks:
  assumes h: "handle_syscall ctx n a b c s = Some (k, s')" and al: "alive st T s"
    and i: "\<forall>e \<in> set (ctx_interrupts ctx). returning_interrupt e"
  shows "(\<exists>st'. alive st' T s' \<and> stack_step (st, T) (st', T)) \<or> current_pid s' = - 1"
proof -
  have stay: "?thesis" if "quiet s s'" using alive_quiet[OF that al] stack_step.stay by blast
  have ev: "\<forall>e \<in> set (ctx_interrupts ctx). \<forall>u. quiet u (e u)" using i returning_interrupt_laws by blast
  have "?thesis" if r: "run_syscall f ctx a b c s = Some (k, s')" for f
  proof (cases f)
    case halt_S
    then show ?thesis using r halt_stacks[OF _ al] by simp
  next
    case execute_S
    then show ?thesis using r execute_stacks[OF _ al] by (auto split: option.splits)
  next
    case read_S
    then show ?thesis using r quiet_read[OF _ ev]
      by (intro stay) (auto simp: returning_def read_handler_def split: option.splits if_splits)
  next
    case write_S
    have "quiet s (snd (write_op ops a b c s))" for ops by (rule quiet_write)
    then show ?thesis using r write_S
      by (intro stay) (auto simp: returning_def write_handler_def split: option.splits if_splits, metis snd_conv)
  next
    case close_S
    have "quiet s (snd (close_op ops a s))" for ops by (rule quiet_close_op)
    then show ?thesis using r close_S
      by (intro stay) (auto simp: returning_def close_handler_def split: option.splits if_splits, metis snd_conv)
  next
    case vidmap_S
    then show ?thesis using r by (intro stay) (auto simp: vidmap_handler_def split: if_splits)
  qed (use r in \<open>auto simp: returning_def getargs_handler_def set_handler_handler_def sigreturn_handler_def
        Let_def intro!: stay split: option.splits if_splits
        dest: quiet_open quiet_console[OF printf_frame]\<close>)
  then show ?thesis using h stay by (auto simp: handle_syscall_def split: if_splits)
qed


section \<open>Every step\<close>

lemma stack_step_opened:
  assumes "stack_step (st, T) (st', T)" "st T \<noteq> []" "opened st s"
  shows "opened st' s"
  using assms by (elim stack_stepE) (auto simp: opened_def)

lemma call_kernel_ok:
  assumes h: "handle_syscall ctx n a b c s = Some (k, s')" and ok: "kernel_ok st T s"
    and i: "\<forall>e \<in> set (ctx_interrupts ctx). returning_interrupt e"
  shows "(\<exists>st'. kernel_ok st' T s' \<and> stack_step (st, T) (st', T)) \<or> current_pid s' = - 1"
proof -
  have al: "alive st T s" and d: "disp_ok s" and op: "opened st s" using ok by (simp_all add: kernel_ok_def)
  obtain p ps where f: "st T = p # ps" "current_pid s = int p" "T < 3"
      "terminal_id (pcbs s (get_pcb_pointer (int p))) = T"
    by (rule alive_front[OF al]) (rule that; assumption)
  have "disp_ok s'"
    by (rule disp_ok_syscall[OF h d]) (use f i returning_interrupt_laws(3) in auto)
  moreover have se: "settled s s'" by (rule settled_call[OF h i])
  moreover have "opened st' s'" if "stack_step (st, T) (st', T)" for st'
    using stack_step_opened[OF that _ op] f(1) se by (auto simp: opened_def settled_def)
  ultimately show ?thesis using call_stacks[OF h al i] ok
    by (auto simp: kernel_ok_def settled_def)
qed

lemma key_kernel_ok:
  assumes h: "keyboard_handler beyond fr regs sc s = Some (c, s')" and ok: "kernel_ok st T s"
  shows "\<exists>st' U. kernel_ok st' U s' \<and> stack_step (st, T) (st', U)"
  using h
proof (cases rule: keyboard_handler_cases)
  case key
  then have "kernel_ok st T s'"
    using kernel_ok_settled[OF ok settled_extra[of s s'] alive_quiet[of s s' st T] disp_ok_keyboard_handler[OF h]] ok
    by (simp add: undisturbed_def kernel_ok_def)
  then show ?thesis using stack_step.stay by blast
next
  case (switch n u)
  have al: "alive st T u" and op: "opened st u" and cl: "clock_ok u"
    using ok switch(2) alive_quiet[of s u st T]
    by (auto simp: kernel_ok_def undisturbed_def same_extra_def opened_def clock_ok_def)
  have d: "disp_ok s'" using disp_ok_keyboard_handler[OF h] ok by (simp add: kernel_ok_def)
  note ex = switch_terminal_extra[OF switch(4)]
  show ?thesis
  proof (cases "s' = u")
    case True
    then show ?thesis using al op cl d stack_step.stay by (auto simp: kernel_ok_def)
  next
    case False
    obtain st' U where st': "alive st' U s'" "stack_step (st, T) (st', U)"
        "\<forall>t < 3. st' t \<noteq> [] \<longrightarrow> st t \<noteq> [] \<or> t = n \<and> U = n"
      using switch_terminal_stacks[OF switch(4) al switch(1)] op by (auto simp: opened_def)
    have "opened st' s'" using st'(3) op ex(3) False by (auto simp: opened_def)
    moreover have "clock_ok s'" using cl ex(1,2) by (simp add: clock_ok_def)
    ultimately have "kernel_ok st' U s'" using st'(1) d by (simp add: kernel_ok_def)
    then show ?thesis using st'(2) by blast
  qed
qed

lemma step_kernel_ok:
  assumes "system_step s s'" "kernel_ok st T s"
  shows "(\<exists>st' T'. kernel_ok st' T' s' \<and> stack_step (st, T) (st', T')) \<or> current_pid s' = - 1"
  using assms
proof (cases rule: system_step.cases)
  case (call ctx n a b c k)
  then show ?thesis using call_kernel_ok assms(2) by blast
next
  case (key beyond fr regs sc k)
  then show ?thesis using key_kernel_ok assms(2) by blast
next
  case (tick regs)
  then show ?thesis using tick_kernel_ok[OF assms(2)] by blast
next
  case (store a v)
  then have "kernel_ok st T s'" using assms(2) alive_quiet[of s s' st T]
    by (simp add: kernel_ok_def opened_def clock_ok_def)
  then show ?thesis using stack_step.stay by blast
qed

inductive_cases dead_stepE: "system_step s s'"

lemma run_kernel_ok:
  assumes "system_step\<^sup>*\<^sup>* s s'" "kernel_ok st T s"
  shows "(\<exists>st' T'. kernel_ok st' T' s' \<and> stack_step\<^sup>*\<^sup>* (st, T) (st', T')) \<or> current_pid s' = - 1"
  using assms(1)
proof (induction rule: rtranclp_induct)
  case base
  then show ?case using assms(2) by blast
next
  case (step u v)
  have "current_pid u \<noteq> - 1" using step.hyps(2) by (auto elim: dead_stepE)
  then obtain st1 T1 where "kernel_ok st1 T1 u" "stack_step\<^sup>*\<^sup>* (st, T) (st1, T1)" using step.IH by blast
  then show ?case using step_kernel_ok[OF step.hyps(2)] rtranclp.rtrancl_into_rtrancl by metis
qed


section \<open>Properties\<close>

text \<open>One process, number 0, on terminal 0.\<close>

definition fresh_system :: keyboard_state where
  "fresh_system = fresh_keyboard\<lparr>terminal_pids := (\<lambda>t. if t = 0 then 0 else - 1)\<rparr>"

definition fresh_stacks :: stacks where
  "fresh_stacks = (\<lambda>t. if t = 0 then [0] else [])"

lemma fresh_system_kernel_ok: "kernel_ok fresh_stacks 0 fresh_system"
proof -
  have "fds_typed fresh_pcb" by (simp add: fds_typed_def fresh_pcb_def free_fd_def)
  then have "tables_ok fresh_stacks fresh_system"
    by (auto simp: tables_but_def stacks_ok_def fresh_stacks_def fresh_system_def fresh_keyboard_tables used_def fresh_pcb_def)
  moreover have "runs fresh_stacks 0 fresh_system"
  proof -
    have "user_frame fresh_system = user_frame fresh_kernel"
      by (simp add: user_frame_def fresh_system_def fresh_keyboard_tables)
    also have "\<dots> = 2" using fresh_running by (simp add: running_def)
    finally show ?thesis
      by (simp add: runs_def fresh_stacks_def) (simp add: fresh_system_def fresh_keyboard_tables fresh_keyboard_def
        two_terminals_def rtc_state.defs kernel_state.defs)
  qed
  moreover have "disp_ok fresh_system"
    unfolding fresh_system_def disp_ok_kernel
    by (simp add: disp_ok_def terminals_ok_def fresh_keyboard_paging fresh_keyboard_tables
        fresh_keyboard_fields cursor_synced_def cursor_ok_def)
  moreover have "opened fresh_stacks fresh_system" "clock_ok fresh_system"
    by (simp_all add: opened_def fresh_stacks_def fresh_system_def fresh_keyboard_fields clock_ok_def)
      (simp_all add: fresh_keyboard_def two_terminals_def rtc_state.defs kernel_state.defs)
  ultimately show ?thesis by (simp add: kernel_ok_def alive_def)
qed



lemma kernel_ok_fronts:
  assumes "kernel_ok st T s" "j < 3"
  shows "terminal_pids s j = front_pid (st j)" "terminal_pids s j = - 1 \<or> 0 \<le> terminal_pids s j \<and> terminal_pids s j < 6"
    "i < 3 \<Longrightarrow> i \<noteq> j \<Longrightarrow> terminal_pids s i \<noteq> - 1 \<Longrightarrow> terminal_pids s i \<noteq> terminal_pids s j"
proof -
  have tb: "tables_ok st s" and ok: "stacks_ok st" using assms(1) by (simp_all add: kernel_ok_def alive_def tables_but_def)
  show t: "terminal_pids s j = front_pid (st j)" using tb assms(2) by (simp add: tables_but_def)
  show "terminal_pids s j = - 1 \<or> 0 \<le> terminal_pids s j \<and> terminal_pids s j < 6"
    using ok assms(2) unfolding t by (cases "st j") (auto simp: stacks_ok_def)
  show "terminal_pids s i \<noteq> terminal_pids s j" if i: "i < 3" "i \<noteq> j" "terminal_pids s i \<noteq> - 1"
  proof -
    have "terminal_pids s i = front_pid (st i)" using tb i(1) by (simp add: tables_but_def)
    then show ?thesis using t i(3) stacks_disjoint[OF ok i(1) assms(2)] i(2)
      by (cases "st i"; cases "st j") auto
  qed
qed





end
