(* ===== verification/Descriptors.thy ===== *)
theory Descriptors
  imports System
begin

text \<open>
  The processor's tables: the structures of \<open>x86_desc.h\<close> (interrupt gates, segment descriptors
  and the selectors), the macros that fill them, \<open>initialize_idt\<close> of \<open>interrupts/idt.c\<close> and
  the exception handlers of \<open>interrupts/exception_handlers.c\<close>. A packed structure is the number
  its bit fields make, the first field in the lowest bits; the processor's reading of a gate or a
  segment descriptor is by the bit positions of the architecture.
\<close>

section \<open>Packed structures\<close>

fun pack :: "(nat \<times> nat) list \<Rightarrow> nat" where
  "pack [] = 0"
| "pack ((w, v) # fs) = v mod 2 ^ w + 2 ^ w * pack fs"

definition bits_of :: "nat \<Rightarrow> nat \<Rightarrow> nat \<Rightarrow> nat" where
  "bits_of lo n v = v div 2 ^ lo mod 2 ^ n"

lemma bits_of_pack_skip: "w \<le> lo \<Longrightarrow> bits_of lo n (pack ((w, v) # fs)) = bits_of (lo - w) n (pack fs)"
proof -
  assume "w \<le> lo"
  then have "(2 :: nat) ^ lo = 2 ^ w * 2 ^ (lo - w)" by (simp flip: power_add)
  moreover have "(v mod 2 ^ w + 2 ^ w * pack fs) div 2 ^ w = pack fs" by simp
  ultimately show ?thesis by (simp add: bits_of_def div_mult2_eq)
qed

lemma bits_of_pack_all: "bits_of 0 w (pack ((w, v) # fs)) = v mod 2 ^ w"
  by (simp add: bits_of_def)

lemma bits_of_pack_part:
  assumes "w \<le> n"
  shows "bits_of 0 n (pack ((w, v) # fs)) = v mod 2 ^ w + 2 ^ w * bits_of 0 (n - w) (pack fs)"
proof -
  have "(2 :: nat) ^ n = 2 ^ w * 2 ^ (n - w)" using assms by (simp flip: power_add)
  then show ?thesis by (simp add: bits_of_def mod_mult2_eq)
qed

section \<open>Interrupt gates\<close>

record idt_desc =
  offset_15_00 :: nat
  seg_selector :: nat
  reserved4 :: nat
  reserved3 :: nat
  reserved2 :: nat
  reserved1 :: nat
  gate_size :: nat
  reserved0 :: nat
  gate_dpl :: nat
  gate_present :: nat
  offset_31_16 :: nat

text \<open>The 64 bits of an entry.\<close>

definition idt_val :: "idt_desc \<Rightarrow> nat" where
  "idt_val d = pack
     [(16, offset_15_00 d), (16, seg_selector d), (8, reserved4 d), (1, reserved3 d), (1, reserved2 d),
      (1, reserved1 d), (1, gate_size d), (1, reserved0 d), (2, gate_dpl d), (1, gate_present d), (16, offset_31_16 d)]"

definition SET_IDT_ENTRY ::
  "u32 \<Rightarrow> nat \<Rightarrow> nat \<Rightarrow> nat \<Rightarrow> nat \<Rightarrow> nat \<Rightarrow> nat \<Rightarrow> nat \<Rightarrow> nat \<Rightarrow> idt_desc" where
  "SET_IDT_ENTRY handler segment presentval dplval sizeval res_0 res_1 res_2 res_3 =
     \<lparr>offset_15_00 = unat (handler AND 0xFFFF), seg_selector = segment, reserved4 = 0, reserved3 = res_3,
      reserved2 = res_2, reserved1 = res_1, gate_size = sizeval, reserved0 = res_0, gate_dpl = dplval,
      gate_present = presentval, offset_31_16 = unat (drop_bit 16 (handler AND 0xFFFF0000))\<rparr>"

definition SET_IDT_INTR_ENTRY :: "u32 \<Rightarrow> nat \<Rightarrow> nat \<Rightarrow> idt_desc" where
  "SET_IDT_INTR_ENTRY handler segment dplval = SET_IDT_ENTRY handler segment 1 dplval 1 0 1 1 0"

definition SET_IDT_TRAP_ENTRY :: "u32 \<Rightarrow> nat \<Rightarrow> nat \<Rightarrow> idt_desc" where
  "SET_IDT_TRAP_ENTRY handler segment dplval = SET_IDT_ENTRY handler segment 1 dplval 1 0 1 1 1"

text \<open>The processor's reading of a gate: bits 40 to 44 are the type (14 an interrupt gate, 15 a trap
  gate, both 32 bits wide), 45 and 46 the privilege level, 47 the present bit.\<close>

definition gate_offset :: "nat \<Rightarrow> nat" where
  "gate_offset v = bits_of 0 16 v + 2 ^ 16 * bits_of 48 16 v"

definition gate_type :: "nat \<Rightarrow> nat" where "gate_type v = bits_of 40 5 v"
definition gate_selector :: "nat \<Rightarrow> nat" where "gate_selector v = bits_of 16 16 v"
definition gate_privilege :: "nat \<Rightarrow> nat" where "gate_privilege v = bits_of 45 2 v"
definition gate_is_present :: "nat \<Rightarrow> bool" where "gate_is_present v \<longleftrightarrow> bits_of 47 1 v = 1"

lemmas gate_defs = gate_offset_def gate_type_def gate_selector_def gate_privilege_def gate_is_present_def

lemma handler_halves:
  "unat (h AND 0xFFFF) = unat h mod 2 ^ 16" "unat (drop_bit 16 (h AND 0xFFFF0000)) = unat h div 2 ^ 16"
  for h :: u32
proof -
  have "(0xFFFF :: u32) = mask 16" by (simp add: mask_eq_exp_minus_1)
  then have "h AND 0xFFFF = take_bit 16 h" by (simp only: take_bit_eq_mask)
  moreover have "unat (take_bit 16 h) = take_bit 16 (unat h)" by (rule unsigned_take_bit_eq)
  ultimately show "unat (h AND 0xFFFF) = unat h mod 2 ^ 16" by (simp only: take_bit_eq_mod)
  have m: "(0xFFFF0000 :: u32) = NOT (mask 16)" by (simp add: mask_eq_exp_minus_1)
  have "drop_bit 16 (h AND 0xFFFF0000) = drop_bit 16 h"
    unfolding m by (rule bit_eqI) (auto simp: bit_simps dest: bit_imp_le_length)
  moreover have "unat (drop_bit 16 h) = drop_bit 16 (unat h)" by (rule unat_drop_bit_eq)
  ultimately show "unat (drop_bit 16 (h AND 0xFFFF0000)) = unat h div 2 ^ 16" by (metis drop_bit_eq_div)
qed


text \<open>The processor finds in a gate the fields the code put into the structure.\<close>

lemma idt_val_fields:
  "gate_offset (idt_val d) = offset_15_00 d mod 2 ^ 16 + 2 ^ 16 * (offset_31_16 d mod 2 ^ 16)"
  "gate_type (idt_val d) = reserved3 d mod 2 + 2 * (reserved2 d mod 2) + 4 * (reserved1 d mod 2) +
     8 * (gate_size d mod 2) + 16 * (reserved0 d mod 2)"
  "gate_selector (idt_val d) = seg_selector d mod 2 ^ 16" "gate_privilege (idt_val d) = gate_dpl d mod 4"
  "gate_is_present (idt_val d) = (gate_present d mod 2 = 1)"
  by (simp_all add: idt_val_def gate_defs bits_of_pack_skip bits_of_pack_all bits_of_pack_part del: pack.simps)

lemma gate_bits:
  fixes h :: u32 and r :: nat
  assumes "segment < 2 ^ 16" "dplval < 4"
  defines "v \<equiv> idt_val (SET_IDT_ENTRY h segment 1 dplval 1 0 1 1 r)"
  shows "gate_offset v = unat h" "gate_type v = 14 + r mod 2" "gate_selector v = segment"
    "gate_privilege v = dplval" "gate_is_present v"
proof -
  have "unat h div 2 ^ 16 < 2 ^ 16" using unat_lt32[of h] by simp
  then have "unat h mod 2 ^ 16 mod 2 ^ 16 + 2 ^ 16 * (unat h div 2 ^ 16 mod 2 ^ 16) = unat h" by simp
  then show "gate_offset v = unat h"
    unfolding v_def idt_val_fields SET_IDT_ENTRY_def idt_desc.select_convs handler_halves .
  show "gate_type v = 14 + r mod 2" by (simp add: v_def idt_val_fields SET_IDT_ENTRY_def)
  show "gate_selector v = segment" "gate_privilege v = dplval" "gate_is_present v"
    using assms(1,2) by (simp_all add: v_def idt_val_fields SET_IDT_ENTRY_def)
qed

section \<open>The vectors\<close>

text \<open>The assembly stubs the table points to; \<open>addr_of\<close> is where the linker put them.\<close>

datatype stub = divide_error | nmi | breakpoint | overflow | bound_range_exceeded | invalid_opcode
  | device_not_available | double_fault | coprocessor_segment_overrun | invalid_tss | segment_not_present
  | stack_segment_fault | general_protection | page_fault | FPU_error | alignment_check | machine_check
  | simd_floating_point_exception | syscall_wrapper | rtc_wrapper | keyboard_wrapper

definition KERNEL_CS :: nat where "KERNEL_CS = 0x0010"
definition KERNEL_DS :: nat where "KERNEL_DS = 0x0018"
definition KERNEL_TSS :: nat where "KERNEL_TSS = 0x0030"
definition KERNEL_LDT :: nat where "KERNEL_LDT = 0x0038"
definition PIC_OFFSET :: nat where "PIC_OFFSET = 0x20"

lemmas selectors = KERNEL_CS_def KERNEL_DS_def KERNEL_TSS_def KERNEL_LDT_def PIC_OFFSET_def

record seg_desc =
  seg_lim_15_00 :: nat
  base_15_00 :: nat
  base_23_16 :: nat
  seg_type :: nat
  sys :: nat
  seg_dpl :: nat
  seg_present :: nat
  seg_lim_19_16 :: nat
  avail :: nat
  seg_reserved :: nat
  opsize :: nat
  granularity :: nat
  base_31_24 :: nat

definition seg_val :: "seg_desc \<Rightarrow> nat" where
  "seg_val d = pack
     [(16, seg_lim_15_00 d), (16, base_15_00 d), (8, base_23_16 d), (4, seg_type d), (1, sys d), (2, seg_dpl d),
      (1, seg_present d), (4, seg_lim_19_16 d), (1, avail d), (1, seg_reserved d), (1, opsize d),
      (1, granularity d), (8, base_31_24 d)]"

text \<open>\<open>SET_LDT_PARAMS\<close> and \<open>SET_TSS_PARAMS\<close> have the same text.\<close>

definition SET_SEG_PARAMS :: "u32 \<Rightarrow> u32 \<Rightarrow> seg_desc \<Rightarrow> seg_desc" where
  "SET_SEG_PARAMS a lim d =
     d\<lparr>base_31_24 := unat (drop_bit 24 (a AND 0xFF000000)), base_23_16 := unat (drop_bit 16 (a AND 0x00FF0000)),
       base_15_00 := unat (a AND 0x0000FFFF), seg_lim_19_16 := unat (drop_bit 16 (lim AND 0x000F0000)),
       seg_lim_15_00 := unat (lim AND 0x0000FFFF)\<rparr>"

text \<open>The state the boot code adds: the table of gates, whether it is loaded, the two system
  descriptors of the GDT, the selectors in the LDT and task registers, and the fields of the task
  state segment besides \<open>esp0\<close>.\<close>

record boot_state = keyboard_state +
  idt :: "nat \<Rightarrow> idt_desc"
  idt_loaded :: bool
  ldt_desc_ptr :: seg_desc
  tss_desc_ptr :: seg_desc
  ldtr :: nat
  task_register :: nat
  tss_ldt_selector :: nat
  tss_ss0 :: nat

definition set_gate :: "nat \<Rightarrow> idt_desc \<Rightarrow> 'a boot_state_scheme \<Rightarrow> 'a boot_state_scheme" where
  "set_gate i d s = s\<lparr>idt := (idt s)(i := d)\<rparr>"

definition SETUP_EXCEPTION :: "(stub \<Rightarrow> u32) \<Rightarrow> stub \<Rightarrow> nat \<Rightarrow> 'a boot_state_scheme \<Rightarrow> 'a boot_state_scheme" where
  "SETUP_EXCEPTION addr_of exception index = set_gate index (SET_IDT_INTR_ENTRY (addr_of exception) KERNEL_CS 0)"

definition exception_vectors :: "(stub \<times> nat) list" where
  "exception_vectors =
     [(divide_error, 0), (nmi, 2), (breakpoint, 3), (overflow, 4), (bound_range_exceeded, 5), (invalid_opcode, 6),
      (device_not_available, 7), (double_fault, 8), (coprocessor_segment_overrun, 9), (invalid_tss, 10),
      (segment_not_present, 11), (stack_segment_fault, 12), (general_protection, 13), (page_fault, 14),
      (FPU_error, 16), (alignment_check, 17), (machine_check, 18), (simd_floating_point_exception, 19)]"

definition initialize_idt :: "(stub \<Rightarrow> u32) \<Rightarrow> 'a boot_state_scheme \<Rightarrow> 'a boot_state_scheme" where
  "initialize_idt addr_of s =
     (let s1 = fold (\<lambda>(e, i). SETUP_EXCEPTION addr_of e i) exception_vectors s;
          s2 = set_gate 0x80 (SET_IDT_TRAP_ENTRY (addr_of syscall_wrapper) KERNEL_CS 3) s1;
          s3 = set_gate (PIC_OFFSET + unat RTC_IRQ) (SET_IDT_TRAP_ENTRY (addr_of rtc_wrapper) KERNEL_CS 0) s2;
          s4 = s3\<lparr>idt_loaded := True\<rparr>
      in set_gate 0x21 (SET_IDT_INTR_ENTRY (addr_of keyboard_wrapper) KERNEL_CS 0) s4)"

section \<open>Exception handlers\<close>

text \<open>The generated handlers switch interrupts off, print the name and loop for ever: the result is
  the state they loop in.\<close>

definition exception_handler :: "addr \<Rightarrow> string \<Rightarrow> 'a console_state_scheme \<Rightarrow> 'a console_state_scheme option" where
  "exception_handler cb name s = map_option snd (printf cb (ascii (name @ '' occurred'') @ [10]) [] (cli s))"

definition page_fault_handler ::
  "addr \<Rightarrow> u32 \<Rightarrow> u32 \<Rightarrow> u32 \<Rightarrow> 'a console_state_scheme \<Rightarrow> 'a console_state_scheme option" where
  "page_fault_handler cb addr error_code eip s =
     map_option snd (printf cb (ascii ''Page fault (Code: 0x%x) occurred trying to access: 0x%x from 0x%x'' @ [10])
       [error_code, addr, eip] s)"

definition invalid_opcode_handler :: "addr \<Rightarrow> u16 \<Rightarrow> 'a console_state_scheme \<Rightarrow> 'a console_state_scheme option" where
  "invalid_opcode_handler cb ds s = map_option snd (printf cb (ascii ''Invalid opcode occurred'' @ [10]) [ucast ds] s)"

section \<open>What the processor reads\<close>

text \<open>The base is in bits 16 to 39 and 56 to 63, the limit in bits 0 to 15 and 48 to 51, the type with the
  system bit in 40 to 44.\<close>

definition seg_base :: "nat \<Rightarrow> nat" where
  "seg_base v = bits_of 16 24 v + 2 ^ 24 * bits_of 56 8 v"

definition seg_limit :: "nat \<Rightarrow> nat" where
  "seg_limit v = bits_of 0 16 v + 2 ^ 16 * bits_of 48 4 v"

definition system_type :: "nat \<Rightarrow> nat" where "system_type v = bits_of 40 5 v"
definition seg_is_present :: "nat \<Rightarrow> bool" where "seg_is_present v \<longleftrightarrow> bits_of 47 1 v = 1"

lemma seg_val_fields:
  "seg_base (seg_val d) = base_15_00 d mod 2 ^ 16 + 2 ^ 16 * (base_23_16 d mod 2 ^ 8) + 2 ^ 24 * (base_31_24 d mod 2 ^ 8)"
  "seg_limit (seg_val d) = seg_lim_15_00 d mod 2 ^ 16 + 2 ^ 16 * (seg_lim_19_16 d mod 2 ^ 4)"
  "system_type (seg_val d) = seg_type d mod 16 + 16 * (sys d mod 2)"
  "seg_is_present (seg_val d) = (seg_present d mod 2 = 1)"
  by (simp_all add: seg_val_def seg_base_def seg_limit_def system_type_def seg_is_present_def
      bits_of_pack_skip bits_of_pack_all bits_of_pack_part del: pack.simps)

lemma word_part:
  fixes a :: u32
  assumes "lo + n \<le> 32" and m: "m = push_bit lo (mask n)"
  shows "unat (drop_bit lo (a AND m)) = unat a div 2 ^ lo mod 2 ^ n"
proof -
  have "drop_bit lo (a AND m) = get_field lo n a"
    using assms(1) unfolding m get_field_def by (intro bit_eqI) (auto simp: bit_simps)
  then show ?thesis by (simp add: unat_get_field)
qed

lemma seg_params_bits:
  fixes a lim :: u32 and d :: seg_desc
  assumes "unat lim < 2 ^ 20"
  defines "v \<equiv> seg_val (SET_SEG_PARAMS a lim d)"
  shows "seg_base v = unat a" "seg_limit v = unat lim" "system_type v = seg_type d mod 16 + 16 * (sys d mod 2)"
    "seg_is_present v = (seg_present d mod 2 = 1)"
proof -
  have parts: "unat (drop_bit 24 (a AND 0xFF000000)) = unat a div 2 ^ 24 mod 2 ^ 8"
    "unat (drop_bit 16 (a AND 0x00FF0000)) = unat a div 2 ^ 16 mod 2 ^ 8"
    "unat (drop_bit 16 (lim AND 0x000F0000)) = unat lim div 2 ^ 16 mod 2 ^ 4"
    by (rule word_part; simp add: mask_eq_exp_minus_1 push_bit_eq_mult)+
  have glue: "x mod 2 ^ i + 2 ^ i * (x div 2 ^ i mod 2 ^ j) = x mod 2 ^ (i + j)" for x i j :: nat
    by (simp add: power_add mod_mult2_eq)
  have "unat a < 2 ^ (24 + 8)" using unat_lt32[of a] by simp
  then have "unat a mod 2 ^ 16 + 2 ^ 16 * (unat a div 2 ^ 16 mod 2 ^ 8) + 2 ^ 24 * (unat a div 2 ^ 24 mod 2 ^ 8) = unat a"
    using glue[of "unat a" 16 8] glue[of "unat a" 24 8] by (simp only: mod_less) simp
  then show "seg_base v = unat a"
    using parts handler_halves(1)[of a] by (simp add: v_def seg_val_fields SET_SEG_PARAMS_def)
  have "unat lim mod 2 ^ 16 + 2 ^ 16 * (unat lim div 2 ^ 16 mod 2 ^ 4) = unat lim"
    using assms(1) glue[of "unat lim" 16 4] by simp
  then show "seg_limit v = unat lim"
    using parts handler_halves(1)[of lim] by (simp add: v_def seg_val_fields SET_SEG_PARAMS_def)
  show "system_type v = seg_type d mod 16 + 16 * (sys d mod 2)" "seg_is_present v = (seg_present d mod 2 = 1)"
    by (simp_all add: v_def seg_val_fields SET_SEG_PARAMS_def)
qed

section \<open>The table of vectors\<close>

text \<open>Who serves a vector, how and for whom: the stub, whether the gate is a trap gate (which leaves
  interrupts on) and the privilege level that may call it.\<close>

definition service :: "nat \<Rightarrow> (stub \<times> bool \<times> nat) option" where
  "service v =
     (if v = 0x80 then Some (syscall_wrapper, True, 3)
      else if v = 0x28 then Some (rtc_wrapper, True, 0)
      else if v = 0x21 then Some (keyboard_wrapper, False, 0)
      else case find (\<lambda>(e, i). i = v) exception_vectors of
             None \<Rightarrow> None | Some (e, _) \<Rightarrow> Some (e, False, 0))"

text \<open>The gate in the table serves the vector as it should.\<close>

definition gate_serves :: "(stub \<Rightarrow> u32) \<Rightarrow> nat \<Rightarrow> (stub \<times> bool \<times> nat) option \<Rightarrow> bool" where
  "gate_serves addr_of v sv \<longleftrightarrow>
     (case sv of None \<Rightarrow> \<not> gate_is_present v
      | Some (e, trap, level) \<Rightarrow>
          gate_is_present v \<and> gate_offset v = unat (addr_of e) \<and> gate_selector v = KERNEL_CS \<and>
          gate_type v = (if trap then 15 else 14) \<and> gate_privilege v = level)"

lemma intr_gate_serves: "gate_serves addr_of (idt_val (SET_IDT_INTR_ENTRY (addr_of e) KERNEL_CS 0)) (Some (e, False, 0))"
  using gate_bits[of KERNEL_CS 0 "addr_of e" 0] by (simp add: gate_serves_def SET_IDT_INTR_ENTRY_def selectors)

lemma trap_gate_serves:
  "level < 4 \<Longrightarrow> gate_serves addr_of (idt_val (SET_IDT_TRAP_ENTRY (addr_of e) KERNEL_CS level)) (Some (e, True, level))"
  using gate_bits[of KERNEL_CS level "addr_of e" 1] by (simp add: gate_serves_def SET_IDT_TRAP_ENTRY_def selectors)

lemma idt_set_gate [simp]: "idt (set_gate i d s) = (idt s)(i := d)"
  by (simp add: set_gate_def)

lemma idt_exceptions:
  assumes "distinct (map snd es)"
  shows "idt (fold (\<lambda>(e, i). SETUP_EXCEPTION addr_of e i) es s) v =
    (case find (\<lambda>(e, i). i = v) es of None \<Rightarrow> idt s v | Some (e, _) \<Rightarrow> SET_IDT_INTR_ENTRY (addr_of e) KERNEL_CS 0)"
  using assms
proof (induction es arbitrary: s)
  case (Cons x es)
  obtain e i where x: "x = (e, i)" by fastforce
  have "find (\<lambda>(e, j). j = i) es = None" using Cons.prems by (force simp: x find_None_iff)
  then show ?case using Cons by (auto simp: x SETUP_EXCEPTION_def split: option.splits)
qed simp

lemma initialize_idt_gate:
  "idt (initialize_idt addr_of s) v =
     (case service v of None \<Rightarrow> idt s v
      | Some (e, trap, level) \<Rightarrow>
          (if trap then SET_IDT_TRAP_ENTRY (addr_of e) KERNEL_CS level else SET_IDT_INTR_ENTRY (addr_of e) KERNEL_CS 0))"
proof -
  have "distinct (map snd exception_vectors)" by (simp add: exception_vectors_def)
  note ex = idt_exceptions[OF this]
  have "PIC_OFFSET + unat RTC_IRQ = 0x28" by (simp add: PIC_OFFSET_def RTC_IRQ_def)
  then show ?thesis by (simp add: initialize_idt_def Let_def service_def ex split: option.splits)
qed

definition empty_gate :: idt_desc where
  "empty_gate = \<lparr>offset_15_00 = 0, seg_selector = 0, reserved4 = 0, reserved3 = 0, reserved2 = 0, reserved1 = 0,
     gate_size = 0, reserved0 = 0, gate_dpl = 0, gate_present = 0, offset_31_16 = 0\<rparr>"

lemma initialize_idt_serves:
  assumes "idt s v = empty_gate"
  shows "gate_serves addr_of (idt_val (idt (initialize_idt addr_of s) v)) (service v)"
proof (cases "service v")
  case None
  then show ?thesis using assms
    by (simp add: initialize_idt_gate) (simp add: gate_serves_def idt_val_fields empty_gate_def)
next
  case (Some a)
  have "level = 3 \<or> level = 0" "\<not> trap \<longrightarrow> level = 0" if "service v = Some (e, trap, level)" for e trap level
    using that by (auto simp: service_def split: if_splits option.splits prod.splits)
  then show ?thesis using Some intr_gate_serves trap_gate_serves[of _ addr_of]
    by (cases a) (force simp: initialize_idt_gate)
qed

section \<open>What an exception leaves on the screen\<close>

text \<open>No \<open>%\<close> in a name: the message is printed as it is.\<close>

lemma render_plain: "37 \<notin> set fmt \<Longrightarrow> render strs fmt [] = Some fmt" "37 \<notin> set fmt \<Longrightarrow> str_args fmt [] = []"
  by (induction fmt) auto

lemma exception_reports:
  fixes s :: "'a console_state_scheme"
  assumes "screen_ok s" "conv_ok s cb" "37 \<notin> set (ascii name)"
  shows "\<exists>s'. exception_handler cb name s = Some s' \<and> \<not> iflag s' \<and>
    screen_of s' = fold screen_put (ascii (name @ '' occurred'') @ [10]) (screen_of s)"
proof -
  let ?fmt = "ascii (name @ '' occurred'') @ [10]"
  have f: "37 \<notin> set ?fmt" using assms(3) by (simp add: ascii_def)
  have x: "xlate (cli s) = xlate s" by (simp add: cli_def xlate_def translate_def walk_def fun_eq_iff Let_def)
  then have "screen_ok (cli s)" "conv_ok (cli s) cb" using assms(1,2)
    by (simp_all add: screen_ok_def linear_page_def conv_ok_def) (simp_all add: cli_def)
  then obtain s' n where s': "printf cb ?fmt [] (cli s) = Some (n, s')" "printed cb ?fmt (cli s) s'"
    using printf_printed[of "cli s" cb ?fmt "[]" "\<lambda>_. []" ?fmt] render_plain[OF f] by auto
  moreover have "\<not> iflag s'" using printf_frame[OF s'(1)] by (simp add: console_frame_def cli_def)
  moreover have "screen_of (cli s) = screen_of s" by (rule screen_of_cong) (simp_all add: cli_def)
  ultimately show ?thesis by (simp add: exception_handler_def printed_def)
qed

end
