(* ===== verification/Boot.thy ===== *)
theory Boot
  imports Descriptors "HOL-Library.Monad_Syntax"
begin

text \<open>
  \<open>kernel.c\<close>: \<open>entry\<close> prints what the boot loader passed (the structures of \<open>multiboot.h\<close>, read
  from memory), fills the system descriptors of the GDT and the task state segment, initialises
  the interrupt table, the interrupt controllers, paging, the file system, the clock, the keyboard
  and the process table, and starts the first shell. What the linker and the devices decide is in
  the record \<open>boot_env\<close>: the addresses of the tables and of the stubs, the two bytes read from the
  clock, the place of printf's buffer on the stack and the stack registers.
\<close>

record boot_env =
  ldt_at :: addr
  tss_at :: addr
  stub_at :: "stub \<Rightarrow> u32"
  prev_b :: byte
  prev_a :: byte
  conv_buf :: addr
  boot_regs :: "u32 \<times> u32"

definition MULTIBOOT_BOOTLOADER_MAGIC :: u32 where "MULTIBOOT_BOOTLOADER_MAGIC = 0x2BADB002"
definition TSS_SIZE :: u32 where "TSS_SIZE = 104"

text \<open>The sizes \<open>x86_desc.S\<close> computes: one less than the bytes of the tables.\<close>

definition tss_size :: u32 where "tss_size = 103"
definition ldt_size :: u32 where "ldt_size = 31"

section \<open>What the boot loader passed\<close>

text \<open>The member at an offset of a structure in memory.\<close>

definition member32 :: "'a paging_state_scheme \<Rightarrow> addr \<Rightarrow> u32 \<Rightarrow> u32" where
  "member32 s a offset = load32 (xlate s) (phys s) (a + offset)"

abbreviation "mbi_flags s mbi \<equiv> member32 s mbi 0"
abbreviation "mbi_mem_lower s mbi \<equiv> member32 s mbi 4"
abbreviation "mbi_mem_upper s mbi \<equiv> member32 s mbi 8"
abbreviation "mbi_boot_device s mbi \<equiv> member32 s mbi 12"
abbreviation "mbi_cmdline s mbi \<equiv> member32 s mbi 16"
abbreviation "mbi_mods_count s mbi \<equiv> member32 s mbi 20"
abbreviation "mbi_mods_addr s mbi \<equiv> member32 s mbi 24"
abbreviation "mbi_elf_num s mbi \<equiv> member32 s mbi 28"
abbreviation "mbi_elf_size s mbi \<equiv> member32 s mbi 32"
abbreviation "mbi_elf_addr s mbi \<equiv> member32 s mbi 36"
abbreviation "mbi_elf_shndx s mbi \<equiv> member32 s mbi 40"
abbreviation "mbi_mmap_length s mbi \<equiv> member32 s mbi 44"
abbreviation "mbi_mmap_addr s mbi \<equiv> member32 s mbi 48"
abbreviation "mod_start s md \<equiv> member32 s md 0"
abbreviation "mod_end s md \<equiv> member32 s md 4"

definition CHECK_FLAG :: "u32 \<Rightarrow> nat \<Rightarrow> bool" where
  "CHECK_FLAG flgs b \<longleftrightarrow> flgs AND push_bit b 1 \<noteq> 0"

definition say :: "addr \<Rightarrow> byte list \<Rightarrow> u32 list \<Rightarrow> 'a console_state_scheme \<Rightarrow> 'a console_state_scheme option" where
  "say cb fmt vals s = map_option snd (printf cb fmt vals s)"

text \<open>The first 16 bytes of a module; \<open>char\<close> is signed.\<close>

fun first_bytes :: "addr \<Rightarrow> addr \<Rightarrow> nat list \<Rightarrow> 'a console_state_scheme \<Rightarrow> 'a console_state_scheme option" where
  "first_bytes cb md [] s = Some s"
| "first_bytes cb md (i # is) s = do {
     s1 \<leftarrow> say cb (ascii ''0x%x '') [scast (load8 (xlate s) (phys s) (mod_start s md + of_nat i))] s;
     first_bytes cb md is s1 }"

partial_function (option) module_loop ::
  "addr \<Rightarrow> addr \<Rightarrow> u32 \<Rightarrow> addr \<Rightarrow> u32 \<Rightarrow> 'a console_state_scheme \<Rightarrow> (u32 \<times> 'a console_state_scheme) option" where
  "module_loop cb mbi mod_count md blk_start s =
     (if mod_count < mbi_mods_count s mbi then do {
        s1 \<leftarrow> say cb (ascii ''Module %d loaded at address: 0x%#x'' @ [10]) [mod_count, mod_start s md] s;
        s2 \<leftarrow> say cb (ascii ''Module %d ends at address: 0x%#x'' @ [10]) [mod_count, mod_end s1 md] s1;
        s3 \<leftarrow> say cb (ascii ''First few bytes of module:'' @ [10]) [] s2;
        s4 \<leftarrow> first_bytes cb md [0..<16] s3;
        s5 \<leftarrow> say cb [10] [] s4;
        module_loop cb mbi (mod_count + 1) (md + 16) (if mod_count = 0 then mod_start s md else blk_start) s5
      } else Some (blk_start, s))"

text \<open>The entries of the memory map: \<open>size\<close> does not count its own four bytes.\<close>

partial_function (option) mmap_loop ::
  "addr \<Rightarrow> addr \<Rightarrow> addr \<Rightarrow> 'a console_state_scheme \<Rightarrow> 'a console_state_scheme option" where
  "mmap_loop cb mbi mmap s =
     (if mmap < mbi_mmap_addr s mbi + mbi_mmap_length s mbi then do {
        s1 \<leftarrow> say cb (ascii ''    size = 0x%x, base_addr = 0x%#x%#x'' @ [10] @
                    ascii ''    type = 0x%x,  length    = 0x%#x%#x'' @ [10])
               [member32 s mmap 0, member32 s mmap 8, member32 s mmap 4, member32 s mmap 20, member32 s mmap 16,
                member32 s mmap 12] s;
        mmap_loop cb mbi (mmap + member32 s1 mmap 0 + 4) s1
      } else Some s)"

definition print_if :: "bool \<Rightarrow> addr \<Rightarrow> byte list \<Rightarrow> u32 list \<Rightarrow> 'a console_state_scheme \<Rightarrow> 'a console_state_scheme option" where
  "print_if b cb fmt vals s = (if b then say cb fmt vals s else Some s)"

text \<open>Lines 41 to 103 of \<open>entry\<close>: the result is the start of the first module, or None when the early
  return for contradicting flags is taken.\<close>

definition multiboot_report ::
  "addr \<Rightarrow> addr \<Rightarrow> 'a console_state_scheme \<Rightarrow> (u32 option \<times> 'a console_state_scheme) option" where
  "multiboot_report cb mbi s = do {
     s1 \<leftarrow> say cb (ascii ''flags = 0x%#x'' @ [10]) [mbi_flags s mbi] s;
     s2 \<leftarrow> print_if (CHECK_FLAG (mbi_flags s1 mbi) 0) cb
            (ascii ''mem_lower = %uKB, mem_upper = %uKB'' @ [10]) [mbi_mem_lower s1 mbi, mbi_mem_upper s1 mbi] s1;
     s3 \<leftarrow> print_if (CHECK_FLAG (mbi_flags s2 mbi) 1) cb
            (ascii ''boot_device = 0x%#x'' @ [10]) [mbi_boot_device s2 mbi] s2;
     s4 \<leftarrow> print_if (CHECK_FLAG (mbi_flags s3 mbi) 2) cb (ascii ''cmdline = %s'' @ [10]) [mbi_cmdline s3 mbi] s3;
     (blk_start, s5) \<leftarrow> (if CHECK_FLAG (mbi_flags s4 mbi) 3 then module_loop cb mbi 0 (mbi_mods_addr s4 mbi) (- 1) s4
                         else Some (- 1, s4));
     if CHECK_FLAG (mbi_flags s5 mbi) 4 \<and> CHECK_FLAG (mbi_flags s5 mbi) 5 then do {
       s6 \<leftarrow> say cb (ascii ''Both bits 4 and 5 are set.'' @ [10]) [] s5;
       Some (None, s6)
     } else do {
       s6 \<leftarrow> print_if (CHECK_FLAG (mbi_flags s5 mbi) 5) cb
              (ascii ''elf_sec: num = %u, size = 0x%#x, addr = 0x%#x, shndx = 0x%#x'' @ [10])
              [mbi_elf_num s5 mbi, mbi_elf_size s5 mbi, mbi_elf_addr s5 mbi, mbi_elf_shndx s5 mbi] s5;
       s7 \<leftarrow> (if CHECK_FLAG (mbi_flags s6 mbi) 6 then do {
                s7 \<leftarrow> say cb (ascii ''mmap_addr = 0x%#x, mmap_length = 0x%x'' @ [10])
                       [mbi_mmap_addr s6 mbi, mbi_mmap_length s6 mbi] s6;
                mmap_loop cb mbi (mbi_mmap_addr s7 mbi) s7
              } else Some s6);
       Some (Some blk_start, s7) } }"

section \<open>Initialisation\<close>

text \<open>The two descriptors on the stack have no initial value: every field is assigned.\<close>

definition the_ldt_desc :: "seg_desc \<Rightarrow> seg_desc" where
  "the_ldt_desc d =
     d\<lparr>granularity := 0, opsize := 1, seg_reserved := 0, avail := 0, seg_present := 1, seg_dpl := 0, sys := 0, seg_type := 2\<rparr>"

definition the_tss_desc :: "seg_desc \<Rightarrow> seg_desc" where
  "the_tss_desc d =
     d\<lparr>granularity := 0, opsize := 0, seg_reserved := 0, avail := 0, seg_lim_19_16 := unat (TSS_SIZE AND 0x000F0000),
       seg_present := 1, seg_dpl := 0, sys := 0, seg_type := 9, seg_lim_15_00 := unat (TSS_SIZE AND 0x0000FFFF)\<rparr>"

definition load_descriptors :: "boot_env \<Rightarrow> seg_desc \<Rightarrow> seg_desc \<Rightarrow> 'a boot_state_scheme \<Rightarrow> 'a boot_state_scheme" where
  "load_descriptors env d1 d2 s =
     (let s1 = s\<lparr>ldt_desc_ptr := SET_SEG_PARAMS (ldt_at env) ldt_size (the_ldt_desc d1), ldtr := KERNEL_LDT\<rparr>;
          s2 = s1\<lparr>tss_desc_ptr := SET_SEG_PARAMS (tss_at env) tss_size (the_tss_desc d2)\<rparr>
      in s2\<lparr>tss_ldt_selector := KERNEL_LDT, tss_ss0 := KERNEL_DS, tss_esp0 := 0x800000, task_register := KERNEL_TSS\<rparr>)"

text \<open>\<open>tests.c\<close>: all tests are commented out, what is left of \<open>launch_tests\<close> clears the screen.\<close>

definition launch_tests :: "'a console_state_scheme \<Rightarrow> 'a console_state_scheme" where
  "launch_tests s = clear s"

definition init_system :: "boot_env \<Rightarrow> seg_desc \<Rightarrow> seg_desc \<Rightarrow> u32 \<Rightarrow> 'a boot_state_scheme \<Rightarrow> 'a boot_state_scheme" where
  "init_system env d1 d2 blk_start s =
     launch_tests (processes_init (keyboard_init (rtc_init (prev_b env) (prev_a env) (fs_init blk_start
       (paging_init (i8259_init (initialize_idt (stub_at env) (load_descriptors env d1 d2 s))))))))"

text \<open>How \<open>entry\<close> ends: by a return to \<open>boot.S\<close>, which halts; in the final loop of \<open>hlt\<close>, when no
  shell could be started; or in the shell.\<close>

datatype boot_end = Returned | Idle | Shell u32 u32

definition entry ::
  "boot_env \<Rightarrow> seg_desc \<Rightarrow> seg_desc \<Rightarrow> create_frame \<Rightarrow> u32 \<Rightarrow> addr \<Rightarrow> 'a boot_state_scheme \<Rightarrow>
   (boot_end \<times> 'a boot_state_scheme) option" where
  "entry env d1 d2 fr magic mbi s0 = do {
     let s = clear s0;
     if magic \<noteq> MULTIBOOT_BOOTLOADER_MAGIC then do {
       s1 \<leftarrow> say (conv_buf env) (ascii ''Invalid magic number: 0x%#x'' @ [10]) [magic] s;
       Some (Returned, s1)
     } else do {
       (blk, s1) \<leftarrow> multiboot_report (conv_buf env) mbi s;
       case blk of None \<Rightarrow> Some (Returned, s1)
       | Some blk_start \<Rightarrow> do {
           (pid, s2) \<leftarrow> process_create fr shell_lit 0 (- 1) (init_system env d1 d2 blk_start s1);
           let (c, s3) = process_start (boot_regs env) pid s2;
           Some (case c of Iret eip esp \<Rightarrow> Shell eip esp | _ \<Rightarrow> Idle, s3) } } }"

section \<open>The report leaves everything but the screen alone\<close>

context output_invariant
begin

lemma keep_say: "say cb fmt vals s = Some s' \<Longrightarrow> I s \<Longrightarrow> I s'"
  by (auto simp: say_def intro: keep_printf)

lemma keep_print_if: "print_if b cb fmt vals s = Some s' \<Longrightarrow> I s \<Longrightarrow> I s'"
  by (auto simp: print_if_def split: if_splits intro: keep_say)

lemma keep_first_bytes: "first_bytes cb md is s = Some s' \<Longrightarrow> I s \<Longrightarrow> I s'"
  by (induction "is" arbitrary: s) (auto simp: bind_eq_Some_conv dest: keep_say)

lemma keep_module_loop:
  assumes "module_loop cb mbi n md blk s = Some r" "I s"
  shows "I (snd r)"
proof -
  have "I s \<longrightarrow> I (snd r)"
    by (rule module_loop.raw_induct[where P = "\<lambda>cb mbi n md blk s r. I s \<longrightarrow> I (snd r)", OF _ assms(1)])
      (auto simp: bind_eq_Some_conv split: if_splits dest!: keep_say keep_first_bytes)
  then show ?thesis using assms(2) by blast
qed

lemma keep_mmap_loop:
  assumes "mmap_loop cb mbi mmap s = Some s'" "I s"
  shows "I s'"
proof -
  have "I s \<longrightarrow> I s'"
    by (rule mmap_loop.raw_induct[where P = "\<lambda>cb mbi mmap s s'. I s \<longrightarrow> I s'", OF _ assms(1)])
      (auto simp: bind_eq_Some_conv split: if_splits dest!: keep_say)
  then show ?thesis using assms(2) by blast
qed

lemma keep_report: "multiboot_report cb mbi s = Some (r, s') \<Longrightarrow> I s \<Longrightarrow> I s'"
  by (auto simp: multiboot_report_def bind_eq_Some_conv split: if_splits prod.splits
      dest!: keep_say keep_print_if keep_module_loop keep_mmap_loop)

end

lemma say_frame: "say cb fmt vals s = Some s' \<Longrightarrow> console_frame s s'"
  by (erule output_frame.keep_say) simp

lemma report_frame: "multiboot_report cb mbi s = Some (r, s') \<Longrightarrow> console_frame s s'"
  by (erule output_frame.keep_report) simp

lemma putc_registers: "master_mask (putc c s) = master_mask s" "slave_mask (putc c s) = slave_mask s"
  "u \<noteq> current_terminal s \<Longrightarrow> term_x (putc c s) u = term_x s u"
  "u \<noteq> current_terminal s \<Longrightarrow> term_y (putc c s) u = term_y s u"
  by (simp_all add: putc_def Let_def save_pos_def scroll_def scroll_page_def put_cell_def kstore8_def)

interpretation output_masks: output_invariant "\<lambda>t. master_mask t = m \<and> slave_mask t = k" for m k
  by unfold_locales (simp_all add: putc_registers update_cursor_def Let_def)

interpretation output_others:
  output_invariant "\<lambda>t. current_terminal t = n \<and> (\<forall>u. u \<noteq> n \<longrightarrow> term_x t u = 0 \<and> term_y t u = 0)" for n
proof unfold_locales
  fix s :: "'a console_state_scheme" and c
  assume "current_terminal s = n \<and> (\<forall>u. u \<noteq> n \<longrightarrow> term_x s u = 0 \<and> term_y s u = 0)"
  then show "current_terminal (putc c s) = n \<and> (\<forall>u. u \<noteq> n \<longrightarrow> term_x (putc c s) u = 0 \<and> term_y (putc c s) u = 0)"
    using console_frame_putc[of s c] by (auto simp: putc_registers console_frame_def)
qed (simp_all add: update_cursor_def Let_def outb_def)

section \<open>The state after initialisation\<close>

text \<open>What the C program starts with: the data segment and the zeroed one.\<close>

definition power_on :: "'a boot_state_scheme \<Rightarrow> bool" where
  "power_on s \<longleftrightarrow> (\<forall>i. page_directory s i = 0) \<and> current_terminal s = 0 \<and> (\<forall>t. term_x s t = 0 \<and> term_y s t = 0) \<and>
     terminal_buffer s = 0 \<and> terminal_active s = (\<lambda>t. t = 0) \<and> rtc_count s = 0 \<and> current_index s = 0 \<and>
     (\<forall>v. idt s v = empty_gate)"

text \<open>What of it the report leaves.\<close>

definition bare :: "'a boot_state_scheme \<Rightarrow> bool" where
  "bare s \<longleftrightarrow> (\<forall>i. page_directory s i = 0) \<and> current_terminal s = 0 \<and>
     (\<forall>t. t \<noteq> 0 \<longrightarrow> term_x s t = 0 \<and> term_y s t = 0) \<and>
     terminal_buffer s = 0 \<and> terminal_active s = (\<lambda>t. t = 0) \<and> rtc_count s = 0 \<and> current_index s = 0 \<and>
     (\<forall>v. idt s v = empty_gate)"

lemma frame_boot:
  fixes s s' :: "'a boot_state_scheme"
  assumes "console_frame s s'"
  shows "terminal_buffer s' = terminal_buffer s" "terminal_active s' = terminal_active s"
    "rtc_count s' = rtc_count s" "current_index s' = current_index s" "idt s' = idt s"
    "page_directory s' = page_directory s" "current_terminal s' = current_terminal s"
  using assms by (cases s; cases s'; simp add: console_frame_def)+

lemma fold_put_cell [simp]:
  fixes s :: "'a console_state_scheme"
  shows "term_x (fold (\<lambda>i. put_cell base (int i) c) xs s) = term_x s"
    "term_y (fold (\<lambda>i. put_cell base (int i) c) xs s) = term_y s"
    "master_mask (fold (\<lambda>i. put_cell base (int i) c) xs s) = master_mask s"
    "slave_mask (fold (\<lambda>i. put_cell base (int i) c) xs s) = slave_mask s"
    "current_terminal (fold (\<lambda>i. put_cell base (int i) c) xs s) = current_terminal s"
  by (induction xs arbitrary: s) (simp_all add: put_cell_def kstore8_def)

lemma clear_others: "t \<noteq> current_terminal s \<Longrightarrow> term_x (clear s) t = term_x s t \<and> term_y (clear s) t = term_y s t"
  by (simp add: clear_def save_pos_def del: upt_rec_numeral)

lemma power_on_bare:
  assumes "power_on s" "multiboot_report cb mbi (clear s) = Some (r, s')"
  shows "bare s'"
proof -
  have "current_terminal (clear s) = 0 \<and> (\<forall>u. u \<noteq> 0 \<longrightarrow> term_x (clear s) u = 0 \<and> term_y (clear s) u = 0)"
    using assms(1) clear_others[of _ s] frame_boot(7)[OF console_frame_clear[of s]] by (simp add: power_on_def)
  from output_others.keep_report[OF assms(2) this] show ?thesis
    using assms(1) frame_boot[OF console_frame_trans[OF console_frame_clear report_frame[OF assms(2)]]]
    by (simp add: bare_def power_on_def)
qed

text \<open>The initialisation before the screen is cleared.\<close>

abbreviation init_devices :: "boot_env \<Rightarrow> seg_desc \<Rightarrow> seg_desc \<Rightarrow> u32 \<Rightarrow> 'a boot_state_scheme \<Rightarrow> 'a boot_state_scheme" where
  "init_devices env d1 d2 blk_start s \<equiv>
     processes_init (keyboard_init (rtc_init (prev_b env) (prev_a env) (fs_init blk_start
       (paging_init (i8259_init (initialize_idt (stub_at env) (load_descriptors env d1 d2 s)))))))"

lemmas init_defs = processes_init_def keyboard_init_def rtc_init_def fs_init_def enable_irq_def KEYBOARD_IRQ_NUM_def
  RTC_IRQ_def outb_def Let_def

lemma load_descriptors_tables:
  "page_directory (load_descriptors env d1 d2 s) = page_directory s" "idt (load_descriptors env d1 d2 s) = idt s"
  by (simp_all add: load_descriptors_def Let_def)

lemma initialize_idt_only:
  "\<exists>g. initialize_idt h s = s\<lparr>idt_loaded := True, idt := g\<rparr>"
proof -
  have "\<exists>g. fold (\<lambda>(e, i). SETUP_EXCEPTION h e i) es s = s\<lparr>idt := g\<rparr>" for es
  proof (induction es arbitrary: s)
    case Nil
    show ?case by (intro exI[of _ "idt s"]) simp
  next
    case (Cons x es)
    obtain e i where x: "x = (e, i)" by fastforce
    show ?case using Cons[of "SETUP_EXCEPTION h e i s"] by (auto simp: x SETUP_EXCEPTION_def set_gate_def)
  qed
  then obtain g where "fold (\<lambda>(e, i). SETUP_EXCEPTION h e i) exception_vectors s = s\<lparr>idt := g\<rparr>" by blast
  then show ?thesis by (auto simp: initialize_idt_def Let_def set_gate_def)
qed

lemma initialize_idt_keeps [simp]:
  "term_x (initialize_idt h s) = term_x s" "term_y (initialize_idt h s) = term_y s"
  "pt_addr (initialize_idt h s) = pt_addr s" "page_directory (initialize_idt h s) = page_directory s"
  using initialize_idt_only[of h s] by auto

lemma paging_init_more:
  fixes s :: "'a boot_state_scheme"
  shows "kernel_state.more (paging_init s) = kernel_state.more s" "master_mask (paging_init s) = master_mask s"
    "slave_mask (paging_init s) = slave_mask s" "pt_addr (paging_init s) = pt_addr s"
  by (simp_all add: paging_init_def flush_tlb_def paging_init_directory_def paging_init_video_def
      paging_init_loop_def fold_set_pte set_pde_def set_pte_def)

lemma kernel_more_boot:
  fixes s s' :: "'a boot_state_scheme"
  assumes "kernel_state.more s' = kernel_state.more s"
  shows "terminal_buffer s' = terminal_buffer s" "terminal_active s' = terminal_active s"
    "rtc_count s' = rtc_count s" "current_index s' = current_index s" "idt s' = idt s"
    "ldt_desc_ptr s' = ldt_desc_ptr s" "tss_desc_ptr s' = tss_desc_ptr s" "idt_loaded s' = idt_loaded s"
    "ldtr s' = ldtr s" "task_register s' = task_register s" "tss_ldt_selector s' = tss_ldt_selector s" "tss_ss0 s' = tss_ss0 s"
  using assms by (cases s; cases s'; simp)+

lemma init_devices_frame:
  fixes s :: "'a boot_state_scheme"
  shows "kernel_state.more (init_devices env d1 d2 blk s) = kernel_state.more (initialize_idt (stub_at env) (load_descriptors env d1 d2 s))"
    "current_terminal (init_devices env d1 d2 blk s) = 0" "term_x (init_devices env d1 d2 blk s) = term_x s" "term_y (init_devices env d1 d2 blk s) = term_y s"
    "fs_img_start (init_devices env d1 d2 blk s) = blk" "current_pid (init_devices env d1 d2 blk s) = - 1"
    "\<forall>i < 6. active_pids (init_devices env d1 d2 blk s) i = - 1" "\<forall>i < 3. terminal_pids (init_devices env d1 d2 blk s) i = - 1"
    "page_directory (init_devices env d1 d2 blk s) =
       page_directory (paging_init (i8259_init (initialize_idt (stub_at env) (load_descriptors env d1 d2 s))))"
    "page_table (init_devices env d1 d2 blk s) =
       page_table (paging_init (i8259_init (initialize_idt (stub_at env) (load_descriptors env d1 d2 s))))"
    "pt_addr (init_devices env d1 d2 blk s) = pt_addr s"
  by (simp_all add: init_defs i8259_init_def paging_init_more load_descriptors_def)

lemma i8259_init_tables [simp]:
  "page_directory (i8259_init s) = page_directory s" "pt_addr (i8259_init s) = pt_addr s"
  by (simp_all add: i8259_init_def Let_def outb_def)

lemma paging_cong:
  assumes "page_directory t = page_directory s" "page_table t = page_table s" "pt_addr t = pt_addr s"
  shows "paging_inv t = paging_inv s" "video_map n t = video_map n s"
  using assms by (simp_all add: paging_inv_def directory_inv_def table_inv_def video_map_def)

lemma init_devices_paging:
  fixes s :: "'a boot_state_scheme"
  assumes "bare s"
  shows "paging_inv (init_devices env d1 d2 blk s)" "video_map 0 (init_devices env d1 d2 blk s)"
proof -
  let ?t = "paging_init (i8259_init (initialize_idt (stub_at env) (load_descriptors env d1 d2 s)))"
  have "paging_inv ?t" "video_map 0 ?t"
    using assms by (simp_all add: paging_init_inv load_descriptors_tables bare_def)
  moreover have "pt_addr ?t = pt_addr s" by (simp add: paging_init_more load_descriptors_def)
  ultimately show "paging_inv (init_devices env d1 d2 blk s)" "video_map 0 (init_devices env d1 d2 blk s)"
    using paging_cong[of "init_devices env d1 d2 blk s" ?t, OF init_devices_frame(9,10)] init_devices_frame(11)[of env blk d1 d2 s]
    by metis+
qed

lemma init_devices_masks:
  assumes "n < 16"
  shows "masked (init_devices env d1 d2 blk s) n \<longleftrightarrow> n \<notin> {1, 2, 8}"
proof -
  let ?p = "paging_init (i8259_init (initialize_idt (stub_at env) (load_descriptors env d1 d2 s)))"
  have m: "masked u n = masked v n" if "master_mask u = master_mask v" "slave_mask u = slave_mask v"
    for u :: "'a boot_state_scheme" and v :: "'a boot_state_scheme" using that by (simp add: masked_def)
  have r: "masked (rtc_init b a u) n = masked (enable_irq RTC_IRQ u) n" for b a and u :: "'a boot_state_scheme"
    by (rule m) (simp_all add: rtc_init_def enable_irq_def RTC_IRQ_def Let_def outb_def)
  have "masked (init_devices env d1 d2 blk s) n \<longleftrightarrow>
      masked (enable_irq KEYBOARD_IRQ_NUM ((rtc_init (prev_b env) (prev_a env) (fs_init blk ?p))\<lparr>current_terminal := 0\<rparr>)) n"
    by (rule m) (simp_all add: processes_init_def keyboard_init_def)
  also have "\<dots> \<longleftrightarrow> masked (rtc_init (prev_b env) (prev_a env) (fs_init blk ?p)) n \<and> n \<noteq> 1"
    unfolding masked_enable[OF assms] by (simp add: KEYBOARD_IRQ_NUM_def masked_def)
  also have "\<dots> \<longleftrightarrow> masked (fs_init blk ?p) n \<and> n \<noteq> 8 \<and> n \<noteq> 1"
    unfolding r masked_enable[OF assms] by (auto simp: RTC_IRQ_def)
  also have "masked (fs_init blk ?p) n = masked (i8259_init (initialize_idt (stub_at env) (load_descriptors env d1 d2 s))) n"
    by (rule m) (simp_all add: fs_init_def paging_init_more)
  finally show ?thesis using masked_init[OF assms] by auto
qed

lemma init_devices_tables:
  fixes s :: "'a boot_state_scheme"
  assumes "bare s"
  shows "terminal_buffer (init_devices env d1 d2 blk s) = 0" "terminal_active (init_devices env d1 d2 blk s) = (\<lambda>t. t = 0)"
    "rtc_count (init_devices env d1 d2 blk s) = 0" "current_index (init_devices env d1 d2 blk s) = 0"
    "gate_serves (stub_at env) (idt_val (idt (init_devices env d1 d2 blk s) v)) (service v)" "idt_loaded (init_devices env d1 d2 blk s)"
    "ldt_desc_ptr (init_devices env d1 d2 blk s) = SET_SEG_PARAMS (ldt_at env) ldt_size (the_ldt_desc d1)"
    "tss_desc_ptr (init_devices env d1 d2 blk s) = SET_SEG_PARAMS (tss_at env) tss_size (the_tss_desc d2)"
    "ldtr (init_devices env d1 d2 blk s) = KERNEL_LDT" "task_register (init_devices env d1 d2 blk s) = KERNEL_TSS"
    "tss_ldt_selector (init_devices env d1 d2 blk s) = KERNEL_LDT" "tss_ss0 (init_devices env d1 d2 blk s) = KERNEL_DS"
proof -
  let ?l = "load_descriptors env d1 d2 s"
  note k = kernel_more_boot[OF init_devices_frame(1)[of env blk d1 d2 s]]
  obtain h where h: "initialize_idt (stub_at env) ?l = ?l\<lparr>idt_loaded := True, idt := h\<rparr>"
    using initialize_idt_only by blast
  have "idt ?l v = empty_gate" using assms(1) by (simp add: load_descriptors_tables bare_def)
  from initialize_idt_serves[of ?l v, OF this]
  show "gate_serves (stub_at env) (idt_val (idt (init_devices env d1 d2 blk s) v)) (service v)" by (simp add: k)
  show "terminal_buffer (init_devices env d1 d2 blk s) = 0" "terminal_active (init_devices env d1 d2 blk s) = (\<lambda>t. t = 0)"
    "rtc_count (init_devices env d1 d2 blk s) = 0" "current_index (init_devices env d1 d2 blk s) = 0"
    "idt_loaded (init_devices env d1 d2 blk s)"
    "ldt_desc_ptr (init_devices env d1 d2 blk s) = SET_SEG_PARAMS (ldt_at env) ldt_size (the_ldt_desc d1)"
    "tss_desc_ptr (init_devices env d1 d2 blk s) = SET_SEG_PARAMS (tss_at env) tss_size (the_tss_desc d2)"
    "ldtr (init_devices env d1 d2 blk s) = KERNEL_LDT" "task_register (init_devices env d1 d2 blk s) = KERNEL_TSS"
    "tss_ldt_selector (init_devices env d1 d2 blk s) = KERNEL_LDT" "tss_ss0 (init_devices env d1 d2 blk s) = KERNEL_DS"
    using assms(1) unfolding k unfolding h by (simp_all add: load_descriptors_def bare_def Let_def)
qed

lemma init_system_disp:
  assumes "bare s"
  shows "disp_ok (init_system env d1 d2 blk s)"
proof -
  let ?t = "init_devices env d1 d2 blk s"
  note fr = console_frame_clear[of ?t] and f = init_devices_frame[of env blk d1 d2 s]
  have p: "paging_inv (clear ?t)" "video_map 0 (clear ?t)"
    using paging_cong[of "clear ?t" ?t] fr init_devices_paging[OF assms] by (auto simp: console_frame_def)
  have c: "current_terminal (clear ?t) = 0" "terminal_buffer (clear ?t) = 0"
    using frame_boot[OF fr] f(2) init_devices_tables(1)[OF assms] by simp_all
  have z: "screen_x (clear ?t) = 0" "screen_y (clear ?t) = 0" by (simp_all add: clear_def)
  have sy: "cursor_synced (clear ?t)" by (simp add: clear_def save_pos_synced)
  have "cursor_ok u (clear ?t)" for u
  proof (cases "u = 0")
    case True
    then show ?thesis using sy z c(1) by (simp add: cursor_ok_def cursor_synced_def)
  next
    case False
    then show ?thesis using clear_others[of u ?t] f(2-4) assms by (simp add: cursor_ok_def bare_def)
  qed
  then show ?thesis using p c sy
    by (simp add: init_system_def launch_tests_def disp_ok_def terminals_ok_def)
qed

definition no_stacks :: stacks where "no_stacks = (\<lambda>_. [])"

lemma init_system_tables: "tables_ok no_stacks (init_system env d1 d2 blk s)" "current_pid (init_system env d1 d2 blk s) = - 1"
proof -
  let ?t = "init_devices env d1 d2 blk s"
  note fr = console_frame_tables[OF console_frame_clear[of ?t]]
    and f = init_devices_frame[of env blk d1 d2 s]
  have "tables_ok no_stacks ?t" using f(7,8)
    by (simp add: tables_but_def no_stacks_def stacks_ok_def used_def)
  then show "tables_ok no_stacks (init_system env d1 d2 blk s)"
    using same_tables_stacks[OF fr] by (simp add: init_system_def launch_tests_def)
  show "current_pid (init_system env d1 d2 blk s) = - 1"
    using fr f(6) by (simp add: init_system_def launch_tests_def same_tables_def)
qed

lemma masked_cong: "master_mask t = master_mask s \<Longrightarrow> slave_mask t = slave_mask s \<Longrightarrow> masked t = masked s"
  by (simp add: masked_def fun_eq_iff)

section \<open>Starting the shell\<close>

text \<open>What starting a process leaves of the machine beside the process tables.\<close>

definition boot_kept :: "'a kernel_state_scheme \<Rightarrow> 'a kernel_state_scheme \<Rightarrow> bool" where
  "boot_kept s s' \<longleftrightarrow> kernel_state.more s' = kernel_state.more s \<and> master_mask s' = master_mask s \<and> slave_mask s' = slave_mask s"

lemma boot_kept_refl [simp]: "boot_kept s s"
  by (simp add: boot_kept_def)

lemma boot_kept_trans: "boot_kept s t \<Longrightarrow> boot_kept t u \<Longrightarrow> boot_kept s u"
  by (simp add: boot_kept_def)

lemma boot_kept_frame:
  fixes s s' :: "'a kernel_state_scheme"
  assumes "console_frame s s'" "master_mask s' = master_mask s" "slave_mask s' = slave_mask s"
  shows "boot_kept s s'"
  using assms by (cases s; cases s') (simp add: console_frame_def boot_kept_def)

lemma boot_kept_printf: "printf cb fmt vals s = Some (n, s') \<Longrightarrow> boot_kept s s'"
  using output_masks.keep_printf[of cb fmt vals s n s' "master_mask s" "slave_mask s"]
  by (intro boot_kept_frame[OF printf_frame]) simp_all

lemma boot_kept_create:
  assumes "process_create fr command terminal parent s = Some (pid, s')"
  shows "boot_kept s s'"
proof -
  have [simp]: "boot_kept u (sti t) = boot_kept u t" "boot_kept u (cli t) = boot_kept u t"
    "boot_kept (sti u) t = boot_kept u t" "boot_kept u (upd_pcb a f t) = boot_kept u t"
    "boot_kept u (set_paging_for_process p t) = boot_kept u t" "boot_kept u (t\<lparr>phys := m\<rparr>) = boot_kept u t"
    "boot_kept u (t\<lparr>active_pids := g\<rparr>) = boot_kept u t" "boot_kept (u\<lparr>phys := m\<rparr>) t = boot_kept u t"
    for u t :: "'a kernel_state_scheme" and a f p m g
    by (simp_all add: boot_kept_def sti_def cli_def upd_pcb_def set_paging_for_process_def flush_tlb_def set_pde_def)
  have exe: "boot_kept t t'" if "create_executable fr ino fargs terminal parent t = Some (p, t')"
    for ino fargs p and t t' :: "'a kernel_state_scheme"
    using that by (auto simp: create_executable_def Let_def split: if_splits option.splits
        dest!: boot_kept_printf intro: boot_kept_trans[of _ "sti t"])
  show ?thesis using assms
    by (auto simp: process_create_def Let_def split: if_splits option.splits prod.splits dest!: exe)
qed

lemma boot_kept_start: "process_start regs pid s = (c, s') \<Longrightarrow> boot_kept s s'"
  by (auto simp: process_start_def Let_def boot_kept_def save_regs_def upd_pcb_def set_paging_for_process_def
      flush_tlb_def set_pde_def cli_def sti_def split: if_splits)

section \<open>The report as text\<close>

text \<open>The report printed from a memory that does not change: a list of formats with their arguments.\<close>

type_synonym line = "byte list \<times> u32 list"

abbreviation m32 :: "mem \<Rightarrow> addr \<Rightarrow> u32" where "m32 m a \<equiv> load32 (\<lambda>x. x) m a"

definition module_line :: "mem \<Rightarrow> u32 \<Rightarrow> addr \<Rightarrow> line list" where
  "module_line m k md =
     [(ascii ''Module %d loaded at address: 0x%#x'' @ [10], [k, m32 m md]),
      (ascii ''Module %d ends at address: 0x%#x'' @ [10], [k, m32 m (md + 4)]),
      (ascii ''First few bytes of module:'' @ [10], [])] @
     map (\<lambda>i. (ascii ''0x%x '', [scast (m (m32 m md + of_nat i))])) [0..<16] @ [([10], [])]"

fun module_lines :: "mem \<Rightarrow> nat \<Rightarrow> u32 \<Rightarrow> addr \<Rightarrow> line list" where
  "module_lines m 0 k md = []"
| "module_lines m (Suc n) k md = module_line m k md @ module_lines m n (k + 1) (md + 16)"

definition map_line :: "mem \<Rightarrow> addr \<Rightarrow> line" where
  "map_line m a =
     (ascii ''    size = 0x%x, base_addr = 0x%#x%#x'' @ [10] @ ascii ''    type = 0x%x,  length    = 0x%#x%#x'' @ [10],
      [m32 m a, m32 m (a + 8), m32 m (a + 4), m32 m (a + 20), m32 m (a + 16), m32 m (a + 12)])"

text \<open>The records of a memory map, when the chain of sizes reaches the end of the map.\<close>

inductive map_chain :: "mem \<Rightarrow> addr \<Rightarrow> addr \<Rightarrow> addr list \<Rightarrow> bool" for m fin where
  last: "\<not> a < fin \<Longrightarrow> map_chain m fin a []"
| step: "a < fin \<Longrightarrow> map_chain m fin (a + m32 m a + 4) rs \<Longrightarrow> map_chain m fin a (a # rs)"

definition on_flag :: "bool \<Rightarrow> 'b list \<Rightarrow> 'b list" where
  "on_flag b xs = (if b then xs else [])"

definition report_rest :: "mem \<Rightarrow> addr \<Rightarrow> addr list \<Rightarrow> line list" where
  "report_rest m mbi recs =
     (let flgs = m32 m mbi
      in if CHECK_FLAG flgs 4 \<and> CHECK_FLAG flgs 5 then [(ascii ''Both bits 4 and 5 are set.'' @ [10], [])]
         else on_flag (CHECK_FLAG flgs 5)
                [(ascii ''elf_sec: num = %u, size = 0x%#x, addr = 0x%#x, shndx = 0x%#x'' @ [10],
                  [m32 m (mbi + 28), m32 m (mbi + 32), m32 m (mbi + 36), m32 m (mbi + 40)])] @
              on_flag (CHECK_FLAG flgs 6)
                ((ascii ''mmap_addr = 0x%#x, mmap_length = 0x%x'' @ [10], [m32 m (mbi + 48), m32 m (mbi + 44)]) #
                 map (map_line m) recs))"

definition report_lines :: "mem \<Rightarrow> addr \<Rightarrow> addr list \<Rightarrow> line list" where
  "report_lines m mbi recs =
     (let flgs = m32 m mbi
      in [(ascii ''flags = 0x%#x'' @ [10], [flgs])] @
         on_flag (CHECK_FLAG flgs 0)
           [(ascii ''mem_lower = %uKB, mem_upper = %uKB'' @ [10], [m32 m (mbi + 4), m32 m (mbi + 8)])] @
         on_flag (CHECK_FLAG flgs 1) [(ascii ''boot_device = 0x%#x'' @ [10], [m32 m (mbi + 12)])] @
         on_flag (CHECK_FLAG flgs 2) [(ascii ''cmdline = %s'' @ [10], [m32 m (mbi + 16)])] @
         on_flag (CHECK_FLAG flgs 3) (module_lines m (unat (m32 m (mbi + 20))) 0 (m32 m (mbi + 24))) @
         report_rest m mbi recs)"

definition line_text :: "(u32 \<Rightarrow> byte list) \<Rightarrow> line \<Rightarrow> byte list" where
  "line_text strs l = the (render strs (fst l) (snd l))"

fun say_all :: "addr \<Rightarrow> line list \<Rightarrow> 'a console_state_scheme \<Rightarrow> 'a console_state_scheme option" where
  "say_all cb [] s = Some s"
| "say_all cb (l # ls) s = do { s1 \<leftarrow> say cb (fst l) (snd l) s; say_all cb ls s1 }"

lemma say_all_append: "say_all cb (xs @ ys) s = do { s1 \<leftarrow> say_all cb xs s; say_all cb ys s1 }"
  by (induction xs arbitrary: s) (auto split: bind_splits)

section \<open>Memory the report does not touch\<close>

definition safe :: "addr \<Rightarrow> addr \<Rightarrow> bool" where
  "safe cb p \<longleftrightarrow> unat p div 4096 \<noteq> 0xB8 \<and> p \<notin> region cb 64"

definition safe_range :: "addr \<Rightarrow> addr \<Rightarrow> nat \<Rightarrow> bool" where
  "safe_range cb a n \<longleftrightarrow> (\<forall>i < n. safe cb (a + of_nat i))"

text \<open>Before paging, with what is not written as it was in \<open>m\<close>.\<close>

definition looks :: "mem \<Rightarrow> addr \<Rightarrow> 'a console_state_scheme \<Rightarrow> bool" where
  "looks m cb s \<longleftrightarrow> screen_ok s \<and> conv_ok s cb \<and> xlate s = (\<lambda>x. x) \<and> (\<forall>p. safe cb p \<longrightarrow> phys s p = m p)"

definition boot_string :: "mem \<Rightarrow> addr \<Rightarrow> u32 \<Rightarrow> byte list \<Rightarrow> bool" where
  "boot_string m cb a xs \<longleftrightarrow> (\<forall>m'. (\<forall>p. safe cb p \<longrightarrow> m' p = m p) \<longrightarrow> is_cstr (ptr (\<lambda>x. x) m' a) xs)"

definition printable :: "mem \<Rightarrow> addr \<Rightarrow> (u32 \<Rightarrow> byte list) \<Rightarrow> line \<Rightarrow> bool" where
  "printable m cb strs l \<longleftrightarrow> render strs (fst l) (snd l) \<noteq> None \<and>
     (\<forall>a \<in> set (str_args (fst l) (snd l)). boot_string m cb a (strs a))"

lemma safe_sub: "safe_range cb a n \<Longrightarrow> k + j \<le> n \<Longrightarrow> safe_range cb (a + of_nat k) j"
  unfolding safe_range_def by (metis (no_types, opaque_lifting) add.assoc add_less_cancel_left of_nat_add order_less_le_trans)

lemma member32_looks:
  assumes "looks m cb s" "safe_range cb (a + off) 4"
  shows "member32 s a off = m32 m (a + off)"
proof -
  have "safe cb (a + off + of_nat i)" if "i < 4" for i using assms(2) that by (simp add: safe_range_def)
  from this[of 0] this[of 1] this[of 2] this[of 3] show ?thesis
    using assms(1) by (simp add: looks_def member32_def load32_def load8_def)
qed

lemma say_looks:
  assumes ok: "looks m cb s" and p: "printable m cb strs l"
  obtains s' where "say cb (fst l) (snd l) s = Some s'" "looks m cb s'"
    "screen_of s' = fold screen_put (line_text strs l) (screen_of s)"
proof -
  obtain xs where xs: "render strs (fst l) (snd l) = Some xs" using p by (auto simp: printable_def)
  have x: "xlate s = (\<lambda>x. x)" and m: "\<forall>p. safe cb p \<longrightarrow> phys s p = m p" using ok by (simp_all add: looks_def)
  have "str_behind s cb (strs a) a" if "a \<in> set (str_args (fst l) (snd l))" for a
    using p that m by (simp add: printable_def boot_string_def str_behind_def x safe_def)
  then obtain s' where s': "printf cb (fst l) (snd l) s = Some (of_nat (length (fst l)), s')" "printed cb xs s s'"
    using printf_printed[of s cb "fst l" "snd l" strs xs] ok xs by (auto simp: looks_def)
  show thesis
  proof (rule that)
    show "say cb (fst l) (snd l) s = Some s'" using s'(1) by (simp add: say_def)
    have "xlate s' = xlate s" "screen_ok s'" using s'(2) by (simp_all add: printed_def)
    then show "looks m cb s'" using s'(2) ok m x conv_ok_printed[OF s'(2), of cb]
      by (auto simp: looks_def printed_def safe_def)
    show "screen_of s' = fold screen_put (line_text strs l) (screen_of s)"
      using s'(2) xs by (simp add: printed_def line_text_def)
  qed
qed

lemma say_all_looks:
  assumes "looks m cb s" "\<forall>l \<in> set ls. printable m cb strs l"
  obtains s' where "say_all cb ls s = Some s'" "looks m cb s'"
    "screen_of s' = fold screen_put (concat (map (line_text strs) ls)) (screen_of s)"
  using assms
proof (induction ls arbitrary: s thesis)
  case (Cons l ls)
  obtain t where t: "say cb (fst l) (snd l) s = Some t" "looks m cb t"
      "screen_of t = fold screen_put (line_text strs l) (screen_of s)"
    using Cons.prems(3) by (auto intro: say_looks[OF Cons.prems(2)])
  obtain u where "say_all cb ls t = Some u" "looks m cb u"
      "screen_of u = fold screen_put (concat (map (line_text strs) ls)) (screen_of t)"
    using Cons.prems(3) by (auto intro: Cons.IH[OF _ t(2)])
  then show ?case using t Cons.prems(1)[of u] by simp
qed simp

section \<open>Reading while printing is reading first\<close>

lemma say_then:
  assumes "looks m cb s" "printable m cb strs (fmt, vals)" "\<And>t. looks m cb t \<Longrightarrow> f t = g t"
  shows "Option.bind (say cb fmt vals s) f = Option.bind (say cb fmt vals s) g"
proof -
  obtain t where "say cb fmt vals s = Some t" "looks m cb t" using say_looks[OF assms(1,2)] by auto
  then show ?thesis using assms(3) by simp
qed

lemma say_all_then:
  assumes "looks m cb s" "\<forall>l \<in> set ls. printable m cb strs l" "\<And>t. looks m cb t \<Longrightarrow> f t = g t"
  shows "Option.bind (say_all cb ls s) f = Option.bind (say_all cb ls s) g"
proof -
  obtain t where "say_all cb ls s = Some t" "looks m cb t" using say_all_looks[OF assms(1,2)] by blast
  then show ?thesis using assms(3) by simp
qed

text \<open>Every format of the report but the one with the command line is printable whatever its numbers.\<close>

lemma printable_lines:
  "printable m cb strs (ascii ''0x%x '', [v])" "printable m cb strs ([10], [])"
  "printable m cb strs (ascii ''Module %d loaded at address: 0x%#x'' @ [10], [k, v])"
  "printable m cb strs (ascii ''Module %d ends at address: 0x%#x'' @ [10], [k, v])"
  "printable m cb strs (ascii ''First few bytes of module:'' @ [10], [])"
  "printable m cb strs (ascii ''flags = 0x%#x'' @ [10], [v])"
  "printable m cb strs (ascii ''mem_lower = %uKB, mem_upper = %uKB'' @ [10], [v, w])"
  "printable m cb strs (ascii ''boot_device = 0x%#x'' @ [10], [v])"
  "printable m cb strs (ascii ''Both bits 4 and 5 are set.'' @ [10], [])"
  "printable m cb strs (ascii ''elf_sec: num = %u, size = 0x%#x, addr = 0x%#x, shndx = 0x%#x'' @ [10], [v, w, x, y])"
  "printable m cb strs (ascii ''mmap_addr = 0x%#x, mmap_length = 0x%x'' @ [10], [v, w])"
  "printable m cb strs (map_line m' a)"
  by (simp_all add: printable_def ascii_def takes_arg_def map_line_def)

lemma printable_cmdline: "printable m cb strs (ascii ''cmdline = %s'' @ [10], [v]) \<longleftrightarrow> boot_string m cb v (strs v)"
  by (simp add: printable_def ascii_def takes_arg_def)

lemma first_bytes_lines:
  assumes "looks m cb s" "safe_range cb md 4" "\<forall>i \<in> set is. safe cb (m32 m md + of_nat i)"
  shows "first_bytes cb md is s = say_all cb (map (\<lambda>i. (ascii ''0x%x '', [scast (m (m32 m md + of_nat i))])) is) s"
  using assms(1,3)
proof (induction "is" arbitrary: s)
  case (Cons i "is")
  have b: "load8 (xlate s) (phys s) (mod_start s md + of_nat i) = m (m32 m md + of_nat i)"
    using Cons.prems member32_looks[OF Cons.prems(1), of md 0] assms(2) by (simp add: looks_def load8_def)
  show ?case
    using Cons say_then[OF Cons.prems(1) printable_lines(1), where f = "first_bytes cb md is"] by (simp add: b)
qed simp

fun modules_safe :: "mem \<Rightarrow> addr \<Rightarrow> nat \<Rightarrow> addr \<Rightarrow> bool" where
  "modules_safe m cb 0 md = True"
| "modules_safe m cb (Suc n) md = (safe_range cb md 8 \<and> safe_range cb (m32 m md) 16 \<and> modules_safe m cb n (md + 16))"

lemma member32_part:
  assumes "looks m cb s" "safe_range cb a n" "k + 4 \<le> n"
  shows "member32 s a (of_nat k) = m32 m (a + of_nat k)"
  by (rule member32_looks[OF assms(1) safe_sub[OF assms(2,3)]])

lemma printable_module:
  "\<forall>l \<in> set (module_line m' k md). printable m cb strs l" "\<forall>l \<in> set (module_lines m' n k md). printable m cb strs l"
proof -
  show l: "\<forall>l \<in> set (module_line m' k md). printable m cb strs l" for k md
    by (auto simp: module_line_def printable_lines simp del: upt_rec_numeral set_upt)
  show "\<forall>l \<in> set (module_lines m' n k md). printable m cb strs l"
    by (induction n arbitrary: k md) (auto dest: l[rule_format])
qed

lemma module_loop_lines:
  assumes "looks m cb s" "modules_safe m cb n md" "safe_range cb (mbi + 20) 4"
    and "unat k + n = unat (m32 m (mbi + 20))"
  shows "module_loop cb mbi k md blk s =
    do { t \<leftarrow> say_all cb (module_lines m n k md) s; Some (if n = 0 \<or> k \<noteq> 0 then blk else m32 m md, t) }"
  using assms(1,2,4)
proof (induction n arbitrary: k md blk s)
  case 0
  then show ?case using member32_looks[OF 0(1) assms(3)]
    by (subst module_loop.simps) (simp add: word_less_nat_alt)
next
  case (Suc n)
  have c: "k < mbi_mods_count s mbi"
    using Suc.prems(3) member32_looks[OF Suc.prems(1) assms(3)] by (simp add: word_less_nat_alt)
  have r: "safe_range cb md 8" "\<forall>i \<in> set [0..<16]. safe cb (m32 m md + of_nat i)"
    using Suc.prems(2) by (auto simp: safe_range_def simp del: upt_rec_numeral)
  have f: "mod_start u md = m32 m md" "mod_end u md = m32 m (md + 4)" if "looks m cb u" for u :: "'a console_state_scheme"
    using member32_part[OF that r(1), of 0] member32_part[OF that r(1), of 4] by simp_all
  have r4: "safe_range cb md 4" using safe_sub[OF r(1), of 0 4] by simp
  have k1: "unat (k + 1) = Suc (unat k)" by (rule unat_Suc_less[OF c])
  have ih: "module_loop cb mbi (k + 1) (md + 16) b u = do { t \<leftarrow> say_all cb (module_lines m n (k + 1) (md + 16)) u; Some (b, t) }"
    if "looks m cb u" for u :: "'a console_state_scheme" and b
  proof -
    have "k + 1 \<noteq> 0" using k1 by force
    then show ?thesis using Suc.IH[OF that, of "md + 16" "k + 1" b] Suc.prems(2,3) k1 by simp
  qed
  let ?b = "if k = 0 then m32 m md else blk"
  have "module_loop cb mbi k md blk s = do {
      s1 \<leftarrow> say cb (ascii ''Module %d loaded at address: 0x%#x'' @ [10]) [k, m32 m md] s;
      s2 \<leftarrow> say cb (ascii ''Module %d ends at address: 0x%#x'' @ [10]) [k, mod_end s1 md] s1;
      s3 \<leftarrow> say cb (ascii ''First few bytes of module:'' @ [10]) [] s2;
      s4 \<leftarrow> first_bytes cb md [0..<16] s3;
      s5 \<leftarrow> say cb [10] [] s4;
      module_loop cb mbi (k + 1) (md + 16) ?b s5 }"
    using c f(1)[OF Suc.prems(1)] by (subst module_loop.simps) (simp del: upt_rec_numeral)
  also have "\<dots> = do {
      s1 \<leftarrow> say cb (ascii ''Module %d loaded at address: 0x%#x'' @ [10]) [k, m32 m md] s;
      s2 \<leftarrow> say cb (ascii ''Module %d ends at address: 0x%#x'' @ [10]) [k, m32 m (md + 4)] s1;
      s3 \<leftarrow> say cb (ascii ''First few bytes of module:'' @ [10]) [] s2;
      s4 \<leftarrow> say_all cb (map (\<lambda>i. (ascii ''0x%x '', [scast (m (m32 m md + of_nat i))])) [0..<16]) s3;
      s5 \<leftarrow> say cb [10] [] s4;
      t \<leftarrow> say_all cb (module_lines m n (k + 1) (md + 16)) s5; Some (?b, t) }"
    apply (rule say_then[OF Suc.prems(1) printable_lines(3)])
    apply (simp only: f)
    apply (rule say_then[OF _ printable_lines(4)], assumption)
    apply (rule say_then[OF _ printable_lines(5)], assumption)
    apply (simp only: first_bytes_lines[OF _ r4 r(2)])
    apply (rule say_all_then, assumption, simp add: printable_lines del: upt_rec_numeral)
    apply (rule say_then[OF _ printable_lines(2)], assumption)
    apply (erule ih)
    done
  also have "\<dots> = do { t \<leftarrow> say_all cb (module_lines m (Suc n) k md) s; Some (?b, t) }"
    by (simp add: say_all_append module_line_def del: upt_rec_numeral)
  finally show ?case by auto
qed

lemma mmap_loop_lines:
  assumes "map_chain m (m32 m (mbi + 48) + m32 m (mbi + 44)) a rs" "looks m cb s"
    and "safe_range cb (mbi + 44) 4" "safe_range cb (mbi + 48) 4" "\<forall>r \<in> set rs. safe_range cb r 24"
  shows "mmap_loop cb mbi a s = say_all cb (map (map_line m) rs) s"
  using assms(1,2,5)
proof (induction arbitrary: s rule: map_chain.induct)
  case (last a)
  then show ?case using member32_looks[OF last(2) assms(3)] member32_looks[OF last(2) assms(4)]
    by (subst mmap_loop.simps) simp
next
  case (step a rs)
  have r: "safe_range cb a 24" using step.prems(2) by simp
  have f: "member32 u a 0 = m32 m a" "member32 u a 4 = m32 m (a + 4)" "member32 u a 8 = m32 m (a + 8)"
    "member32 u a 12 = m32 m (a + 12)" "member32 u a 16 = m32 m (a + 16)" "member32 u a 20 = m32 m (a + 20)"
    if "looks m cb u" for u :: "'a console_state_scheme"
    using member32_part[OF that r, of 0] member32_part[OF that r, of 4] member32_part[OF that r, of 8]
      member32_part[OF that r, of 12] member32_part[OF that r, of 16] member32_part[OF that r, of 20] by simp_all
  have "mmap_loop cb mbi a s =
      do { s1 \<leftarrow> say cb (fst (map_line m a)) (snd (map_line m a)) s; mmap_loop cb mbi (a + member32 s1 a 0 + 4) s1 }"
    using step.hyps(1) member32_looks[OF step.prems(1) assms(3)] member32_looks[OF step.prems(1) assms(4)]
      f[OF step.prems(1)]
    by (subst mmap_loop.simps) (simp add: map_line_def)
  also have "\<dots> = do { s1 \<leftarrow> say cb (fst (map_line m a)) (snd (map_line m a)) s; say_all cb (map (map_line m) rs) s1 }"
    by (rule say_then[OF step.prems(1)]) (use printable_lines(12) step in \<open>simp_all add: f\<close>)
  finally show ?case by simp
qed

lemma say_all_one: "say cb fmt vals s = say_all cb [(fmt, vals)] s" "print_if b cb fmt vals s = say_all cb (on_flag b [(fmt, vals)]) s"
  by (cases "say cb fmt vals s"; simp add: print_if_def on_flag_def)+

lemma printable_on_flag: "(b \<Longrightarrow> \<forall>l \<in> set ls. printable m cb strs l) \<Longrightarrow> \<forall>l \<in> set (on_flag b ls). printable m cb strs l"
  by (simp add: on_flag_def)

definition report_safe :: "mem \<Rightarrow> addr \<Rightarrow> (u32 \<Rightarrow> byte list) \<Rightarrow> addr \<Rightarrow> addr list \<Rightarrow> bool" where
  "report_safe m cb strs mbi recs \<longleftrightarrow>
     safe_range cb mbi 52 \<and>
     (CHECK_FLAG (m32 m mbi) 2 \<longrightarrow> boot_string m cb (m32 m (mbi + 16)) (strs (m32 m (mbi + 16)))) \<and>
     (CHECK_FLAG (m32 m mbi) 3 \<longrightarrow> modules_safe m cb (unat (m32 m (mbi + 20))) (m32 m (mbi + 24))) \<and>
     (CHECK_FLAG (m32 m mbi) 6 \<longrightarrow>
        map_chain m (m32 m (mbi + 48) + m32 m (mbi + 44)) (m32 m (mbi + 48)) recs \<and> (\<forall>r \<in> set recs. safe_range cb r 24))"

definition first_module :: "mem \<Rightarrow> addr \<Rightarrow> u32" where
  "first_module m mbi =
     (if CHECK_FLAG (m32 m mbi) 3 \<and> m32 m (mbi + 20) \<noteq> 0 then m32 m (m32 m (mbi + 24)) else - 1)"

lemma member32_mbi:
  fixes u :: "'a console_state_scheme"
  assumes "looks m cb u" "safe_range cb mbi 52"
  shows "member32 u mbi 0 = m32 m mbi" "member32 u mbi 4 = m32 m (mbi + 4)" "member32 u mbi 8 = m32 m (mbi + 8)"
    "member32 u mbi 12 = m32 m (mbi + 12)" "member32 u mbi 16 = m32 m (mbi + 16)" "member32 u mbi 20 = m32 m (mbi + 20)"
    "member32 u mbi 24 = m32 m (mbi + 24)" "member32 u mbi 28 = m32 m (mbi + 28)" "member32 u mbi 32 = m32 m (mbi + 32)"
    "member32 u mbi 36 = m32 m (mbi + 36)" "member32 u mbi 40 = m32 m (mbi + 40)" "member32 u mbi 44 = m32 m (mbi + 44)"
    "member32 u mbi 48 = m32 m (mbi + 48)"
  using member32_part[OF assms, of 0] member32_part[OF assms, of 4] member32_part[OF assms, of 8] member32_part[OF assms, of 12] member32_part[OF assms, of 16] member32_part[OF assms, of 20] member32_part[OF assms, of 24] member32_part[OF assms, of 28] member32_part[OF assms, of 32]
      member32_part[OF assms, of 36] member32_part[OF assms, of 40] member32_part[OF assms, of 44] member32_part[OF assms, of 48]
  by simp_all

lemma report_safe_mbi:
  assumes "report_safe m cb strs mbi recs"
  shows "safe_range cb mbi 52" "safe_range cb (mbi + 20) 4" "safe_range cb (mbi + 44) 4" "safe_range cb (mbi + 48) 4"
proof -
  show mb: "safe_range cb mbi 52" using assms by (simp add: report_safe_def)
  show "safe_range cb (mbi + 20) 4" "safe_range cb (mbi + 44) 4" "safe_range cb (mbi + 48) 4"
    using safe_sub[OF mb, of 20 4] safe_sub[OF mb, of 44 4] safe_sub[OF mb, of 48 4] by simp_all
qed

lemma report_modules:
  fixes u :: "'a console_state_scheme"
  assumes ok: "looks m cb u" and safe: "report_safe m cb strs mbi recs"
  shows "(if CHECK_FLAG (m32 m mbi) 3 then module_loop cb mbi 0 (m32 m (mbi + 24)) (- 1) u else Some (- 1, u)) =
      do { t \<leftarrow> say_all cb (on_flag (CHECK_FLAG (m32 m mbi) 3) (module_lines m (unat (m32 m (mbi + 20))) 0 (m32 m (mbi + 24)))) u;
           Some (first_module m mbi, t) }"
  using safe module_loop_lines[OF ok _ report_safe_mbi(2)[OF safe], of "unat (m32 m (mbi + 20))" "m32 m (mbi + 24)" 0 "- 1"]
  by (auto simp: report_safe_def on_flag_def first_module_def unat_eq_zero)


lemma report_maps:
  fixes u :: "'a console_state_scheme"
  assumes ok: "looks m cb u" and safe: "report_safe m cb strs mbi recs"
  shows "(if CHECK_FLAG (m32 m mbi) 6 then do {
        t \<leftarrow> say cb (ascii ''mmap_addr = 0x%#x, mmap_length = 0x%x'' @ [10]) [m32 m (mbi + 48), m32 m (mbi + 44)] u;
        mmap_loop cb mbi (mbi_mmap_addr t mbi) t } else Some u) =
      say_all cb (on_flag (CHECK_FLAG (m32 m mbi) 6)
        ((ascii ''mmap_addr = 0x%#x, mmap_length = 0x%x'' @ [10], [m32 m (mbi + 48), m32 m (mbi + 44)]) # map (map_line m) recs)) u"
proof (cases "CHECK_FLAG (m32 m mbi) 6")
  case True
  then have ch: "map_chain m (m32 m (mbi + 48) + m32 m (mbi + 44)) (m32 m (mbi + 48)) recs"
    "\<forall>r \<in> set recs. safe_range cb r 24" using safe by (simp_all add: report_safe_def)
  have "do { t \<leftarrow> say cb (ascii ''mmap_addr = 0x%#x, mmap_length = 0x%x'' @ [10]) [m32 m (mbi + 48), m32 m (mbi + 44)] u;
      mmap_loop cb mbi (mbi_mmap_addr t mbi) t } =
    do { t \<leftarrow> say cb (ascii ''mmap_addr = 0x%#x, mmap_length = 0x%x'' @ [10]) [m32 m (mbi + 48), m32 m (mbi + 44)] u;
      say_all cb (map (map_line m) recs) t }"
    by (rule say_then[OF ok printable_lines(11)]) (simp add: member32_mbi[OF _ report_safe_mbi(1)[OF safe]] mmap_loop_lines[OF ch(1) _ report_safe_mbi(3,4)[OF safe] ch(2)])
  then show ?thesis using True by (simp add: on_flag_def)
qed (simp add: on_flag_def)


lemma report_tail:
  fixes u :: "'a console_state_scheme"
  assumes ok: "looks m cb u" and safe: "report_safe m cb strs mbi recs"
  shows "(if CHECK_FLAG (mbi_flags u mbi) 4 \<and> CHECK_FLAG (mbi_flags u mbi) 5 then do {
        s6 \<leftarrow> say cb (ascii ''Both bits 4 and 5 are set.'' @ [10]) [] u;
        Some (None, s6)
      } else do {
        s6 \<leftarrow> print_if (CHECK_FLAG (mbi_flags u mbi) 5) cb
               (ascii ''elf_sec: num = %u, size = 0x%#x, addr = 0x%#x, shndx = 0x%#x'' @ [10])
               [mbi_elf_num u mbi, mbi_elf_size u mbi, mbi_elf_addr u mbi, mbi_elf_shndx u mbi] u;
        s7 \<leftarrow> (if CHECK_FLAG (mbi_flags s6 mbi) 6 then do {
                 s7 \<leftarrow> say cb (ascii ''mmap_addr = 0x%#x, mmap_length = 0x%x'' @ [10])
                        [mbi_mmap_addr s6 mbi, mbi_mmap_length s6 mbi] s6;
                 mmap_loop cb mbi (mbi_mmap_addr s7 mbi) s7
               } else Some s6);
        Some (Some blk, s7) }) =
      do { t \<leftarrow> say_all cb (report_rest m mbi recs) u;
           Some (if CHECK_FLAG (m32 m mbi) 4 \<and> CHECK_FLAG (m32 m mbi) 5 then None else Some blk, t) }"
proof (cases "CHECK_FLAG (m32 m mbi) 4 \<and> CHECK_FLAG (m32 m mbi) 5")
  case True
  then show ?thesis by (simp add: member32_mbi[OF ok report_safe_mbi(1)[OF safe]] report_rest_def)
next
  case False
  have "do { s6 \<leftarrow> say_all cb (on_flag (CHECK_FLAG (m32 m mbi) 5)
             [(ascii ''elf_sec: num = %u, size = 0x%#x, addr = 0x%#x, shndx = 0x%#x'' @ [10],
               [m32 m (mbi + 28), m32 m (mbi + 32), m32 m (mbi + 36), m32 m (mbi + 40)])]) u;
      s7 \<leftarrow> (if CHECK_FLAG (mbi_flags s6 mbi) 6 then do {
               s7 \<leftarrow> say cb (ascii ''mmap_addr = 0x%#x, mmap_length = 0x%x'' @ [10])
                      [mbi_mmap_addr s6 mbi, mbi_mmap_length s6 mbi] s6;
               mmap_loop cb mbi (mbi_mmap_addr s7 mbi) s7
             } else Some s6);
      Some (Some blk, s7) } =
    do { s6 \<leftarrow> say_all cb (on_flag (CHECK_FLAG (m32 m mbi) 5)
             [(ascii ''elf_sec: num = %u, size = 0x%#x, addr = 0x%#x, shndx = 0x%#x'' @ [10],
               [m32 m (mbi + 28), m32 m (mbi + 32), m32 m (mbi + 36), m32 m (mbi + 40)])]) u;
      s7 \<leftarrow> say_all cb (on_flag (CHECK_FLAG (m32 m mbi) 6)
        ((ascii ''mmap_addr = 0x%#x, mmap_length = 0x%x'' @ [10], [m32 m (mbi + 48), m32 m (mbi + 44)]) # map (map_line m) recs)) s6;
      Some (Some blk, s7) }"
  proof (rule say_all_then[OF ok])
    show "\<forall>l \<in> set (on_flag (CHECK_FLAG (m32 m mbi) 5)
             [(ascii ''elf_sec: num = %u, size = 0x%#x, addr = 0x%#x, shndx = 0x%#x'' @ [10],
               [m32 m (mbi + 28), m32 m (mbi + 32), m32 m (mbi + 36), m32 m (mbi + 40)])]). printable m cb strs l"
      by (simp add: on_flag_def printable_lines(10))
  next
    fix v :: "'a console_state_scheme"
    assume v: "looks m cb v"
    show "do { s7 \<leftarrow> (if CHECK_FLAG (mbi_flags v mbi) 6 then do {
               s7 \<leftarrow> say cb (ascii ''mmap_addr = 0x%#x, mmap_length = 0x%x'' @ [10])
                      [mbi_mmap_addr v mbi, mbi_mmap_length v mbi] v;
               mmap_loop cb mbi (mbi_mmap_addr s7 mbi) s7
             } else Some v);
      Some (Some blk, s7) } =
      do { s7 \<leftarrow> say_all cb (on_flag (CHECK_FLAG (m32 m mbi) 6)
        ((ascii ''mmap_addr = 0x%#x, mmap_length = 0x%x'' @ [10], [m32 m (mbi + 48), m32 m (mbi + 44)]) # map (map_line m) recs)) v;
        Some (Some blk, s7) }"
      by (simp only: member32_mbi[OF v report_safe_mbi(1)[OF safe]] report_maps[OF v safe])
  qed
  then show ?thesis
    by (simp only: member32_mbi[OF ok report_safe_mbi(1)[OF safe]] report_rest_def Let_def if_not_P[OF False] say_all_one(2) say_all_append Option.bind_assoc)
qed


lemma report_reads_first:
  assumes ok: "looks m cb s" and safe: "report_safe m cb strs mbi recs"
  shows "multiboot_report cb mbi s =
    do { t \<leftarrow> say_all cb (report_lines m mbi recs) s;
         Some (if CHECK_FLAG (m32 m mbi) 4 \<and> CHECK_FLAG (m32 m mbi) 5 then None else Some (first_module m mbi), t) }"
proof -
  note f = member32_mbi[OF _ report_safe_mbi(1)[OF safe]]
  have "multiboot_report cb mbi s = do {
      s1 \<leftarrow> say_all cb [(ascii ''flags = 0x%#x'' @ [10], [(m32 m mbi)])] s;
      s2 \<leftarrow> say_all cb (on_flag (CHECK_FLAG (m32 m mbi) 0)
        [(ascii ''mem_lower = %uKB, mem_upper = %uKB'' @ [10], [m32 m (mbi + 4), m32 m (mbi + 8)])]) s1;
      s3 \<leftarrow> say_all cb (on_flag (CHECK_FLAG (m32 m mbi) 1) [(ascii ''boot_device = 0x%#x'' @ [10], [m32 m (mbi + 12)])]) s2;
      s4 \<leftarrow> say_all cb (on_flag (CHECK_FLAG (m32 m mbi) 2) [(ascii ''cmdline = %s'' @ [10], [m32 m (mbi + 16)])]) s3;
      s5 \<leftarrow> say_all cb (on_flag (CHECK_FLAG (m32 m mbi) 3) (module_lines m (unat (m32 m (mbi + 20))) 0 (m32 m (mbi + 24)))) s4;
      t \<leftarrow> say_all cb (report_rest m mbi recs) s5;
      Some (if CHECK_FLAG (m32 m mbi) 4 \<and> CHECK_FLAG (m32 m mbi) 5 then None else Some (first_module m mbi), t) }"
    unfolding multiboot_report_def
    apply (simp only: f[OF ok] say_all_one)
    apply (rule say_all_then[OF ok], use printable_lines(6) in simp)
    apply (simp only: f)
    apply (rule say_all_then, assumption, use printable_lines(7) in \<open>simp add: on_flag_def\<close>)
    apply (simp only: f)
    apply (rule say_all_then, assumption, use printable_lines(8) in \<open>simp add: on_flag_def\<close>)
    apply (simp only: f)
    apply (rule say_all_then[where strs = strs], assumption)
     apply (use safe in \<open>simp add: on_flag_def report_safe_def printable_cmdline\<close>)
    apply (simp only: f report_modules[OF _ safe] Option.bind_assoc bind.bind_lunit prod.case)
    apply (rule say_all_then, assumption, rule printable_on_flag, rule printable_module(2))
    apply (erule report_tail[OF _ safe, unfolded say_all_one])
    done
  then show ?thesis by (simp add: report_lines_def say_all_append Let_def)
qed

lemma printable_report:
  assumes "report_safe m cb strs mbi recs"
  shows "\<forall>l \<in> set (report_lines m mbi recs). printable m cb strs l"
proof -
  have "\<forall>l \<in> set (report_rest m mbi recs). printable m cb strs l"
    by (auto simp: report_rest_def Let_def on_flag_def printable_lines)
  moreover have "\<forall>l \<in> set (on_flag (CHECK_FLAG (m32 m mbi) 2) [(ascii ''cmdline = %s'' @ [10], [m32 m (mbi + 16)])]).
      printable m cb strs l"
    using assms by (simp add: on_flag_def printable_cmdline report_safe_def)
  moreover have "\<forall>l \<in> set (on_flag b [(ascii ''mem_lower = %uKB, mem_upper = %uKB'' @ [10], [v, w])]). printable m cb strs l"
    "\<forall>l \<in> set (on_flag b [(ascii ''boot_device = 0x%#x'' @ [10], [v])]). printable m cb strs l" for b v w
    by (simp_all add: on_flag_def printable_lines)
  ultimately show ?thesis
    using printable_on_flag[of "CHECK_FLAG (m32 m mbi) 3", OF printable_module(2)]
    unfolding report_lines_def Let_def set_append ball_Un by (intro conjI) (simp_all add: printable_lines)
qed

text \<open>The state in front of the initialisation and the one behind it.\<close>

lemma entry_ready:
  fixes s :: "'a boot_state_scheme"
  assumes on: "power_on s" and run: "entry env d1 d2 fr magic mbi s = Some (r, s')" "r \<noteq> Returned"
  obtains blk t pid u c where "bare t" "process_create fr shell_lit 0 (- 1) (init_system env d1 d2 blk t) = Some (pid, u)"
    "process_start (boot_regs env) pid u = (c, s')" "r = (case c of Iret eip esp \<Rightarrow> Shell eip esp | _ \<Rightarrow> Idle)"
proof -
  obtain b t where rep: "multiboot_report (conv_buf env) mbi (clear s) = Some (b, t)" "b \<noteq> None"
    using run by (auto simp: entry_def bind_eq_Some_conv Let_def split: if_splits option.splits)
  then obtain blk where b: "b = Some blk" by blast
  have "bare t" by (rule power_on_bare[OF on rep(1)])
  obtain pid u where cr: "process_create fr shell_lit 0 (- 1) (init_system env d1 d2 blk t) = Some (pid, u)"
    using run rep(1) b by (auto simp: entry_def bind_eq_Some_conv Let_def split: if_splits)
  obtain c v where go: "process_start (boot_regs env) pid u = (c, v)" by fastforce
  show thesis using run rep(1) b cr go that[OF \<open>bare t\<close> cr]
    by (auto simp: entry_def bind_eq_Some_conv Let_def split: if_splits)
qed

lemma boot_kept_init:
  fixes t u s' :: "'a boot_state_scheme"
  assumes "process_create fr shell_lit 0 (- 1) (init_system env d1 d2 blk t) = Some (pid, u)"
    "process_start regs pid u = (c, s')"
  shows "boot_kept (init_devices env d1 d2 blk t) s'"
proof -
  let ?d = "init_devices env d1 d2 blk t"
  have "boot_kept ?d (clear ?d)"
    by (rule boot_kept_frame[OF console_frame_clear]) (simp_all add: clear_def save_pos_def del: upt_rec_numeral)
  then show ?thesis
    using boot_kept_trans boot_kept_create[OF assms(1)] boot_kept_start[OF assms(2)]
    by (auto simp: init_system_def launch_tests_def intro: boot_kept_trans)
qed

section \<open>Properties\<close>

text \<open>C14: the boot report is equivalent to one read in advance: although \<open>entry\<close> goes back to memory
  between the lines it prints, and printing itself writes to memory, the report ends and the
  screen shows the text of the lines computed from the memory as the boot loader left it: flags,
  memory sizes, command line, every module with its first bytes, sections and every record of the
  memory map. It answers the start of the first module, or the early return when the two
  exclusive flags are both set.\<close>
theorem boot_report_on_screen:
  assumes "looks m cb s" "report_safe m cb strs mbi recs"
  shows "\<exists>s'. multiboot_report cb mbi s = Some
      (if CHECK_FLAG (m32 m mbi) 4 \<and> CHECK_FLAG (m32 m mbi) 5 then None
       else Some (first_module m mbi), s') \<and>
    screen_of s' = fold screen_put (concat (map (line_text strs) (report_lines m mbi recs))) (screen_of s)"
proof -
  obtain s' where "say_all cb (report_lines m mbi recs) s = Some s'"
    "screen_of s' = fold screen_put (concat (map (line_text strs) (report_lines m mbi recs))) (screen_of s)"
    by (rule say_all_looks[OF assms(1) printable_report[OF assms(2)]])
  then show ?thesis by (simp add: report_reads_first[OF assms])
qed

text \<open>C5: after boot the hardware is set up for exactly what the kernel serves: of the 16 interrupt
  lines only the keyboard, the cascade and the clock are unmasked; the processor finds a present
  32-bit gate to the right stub, in the kernel's code segment, at the vectors of those two devices,
  of the system call and of the 18 exceptions and no gate at any other vector; user code can call
  none but the system call; and the task and local descriptors the processor loads describe the
  tables of \<open>x86_desc.S\<close>.\<close>
theorem boot_sets_up_hardware:
  assumes "power_on s" "entry env d1 d2 fr magic mbi s = Some (r, s')" "r \<noteq> Returned"
  shows "(\<forall>n < 16. \<not> masked s' n \<longleftrightarrow> n = 1 \<or> n = 2 \<or> n = 8) \<and>
    (\<forall>v. gate_serves (stub_at env) (idt_val (idt s' v)) (service v)) \<and> idt_loaded s' \<and>
    (\<forall>n < 16. \<not> masked s' n \<and> n \<noteq> 2 \<longrightarrow> gate_is_present (idt_val (idt s' (PIC_OFFSET + n)))) \<and>
    (\<forall>v. gate_is_present (idt_val (idt s' v)) \<and> gate_privilege (idt_val (idt s' v)) = 3 \<longleftrightarrow> v = 0x80) \<and>
    seg_base (seg_val (ldt_desc_ptr s')) = unat (ldt_at env) \<and> seg_limit (seg_val (ldt_desc_ptr s')) = 4 * 8 - 1 \<and>
    system_type (seg_val (ldt_desc_ptr s')) = 2 \<and> seg_is_present (seg_val (ldt_desc_ptr s')) \<and>
    seg_base (seg_val (tss_desc_ptr s')) = unat (tss_at env) \<and> seg_limit (seg_val (tss_desc_ptr s')) = 104 - 1 \<and>
    system_type (seg_val (tss_desc_ptr s')) = 9 \<and> seg_is_present (seg_val (tss_desc_ptr s')) \<and> tss_ss0 s' = KERNEL_DS"
proof -
  obtain blk t pid u c where b: "bare t" "process_create fr shell_lit 0 (- 1) (init_system env d1 d2 blk t) = Some (pid, u)"
      "process_start (boot_regs env) pid u = (c, s')"
    using entry_ready[OF assms] by metis
  let ?d = "init_devices env d1 d2 blk t"
  have k: "boot_kept ?d s'" by (rule boot_kept_init[OF b(2,3)])
  then have kb: "masked s' = masked ?d" and more: "kernel_state.more s' = kernel_state.more ?d"
    using masked_cong[of s' ?d] by (simp_all add: boot_kept_def)
  note f = kernel_more_boot[OF more] and tb = init_devices_tables[OF b(1), of env blk d1 d2]
  have m: "\<forall>n < 16. \<not> masked s' n \<longleftrightarrow> n = 1 \<or> n = 2 \<or> n = 8"
    using init_devices_masks[of _ env blk d1 d2 t] by (auto simp: kb)
  have g: "\<forall>v. gate_serves (stub_at env) (idt_val (idt s' v)) (service v)" using tb(5) by (simp add: f)
  have dev: "\<forall>n < 16. \<not> masked s' n \<and> n \<noteq> 2 \<longrightarrow> gate_is_present (idt_val (idt s' (PIC_OFFSET + n)))"
  proof (intro allI impI)
    fix n :: nat
    assume "n < 16" "\<not> masked s' n \<and> n \<noteq> 2"
    then have "n = 1 \<or> n = 8" using m by blast
    then show "gate_is_present (idt_val (idt s' (PIC_OFFSET + n)))"
      using g[rule_format, of "PIC_OFFSET + n"] by (auto simp: gate_serves_def service_def PIC_OFFSET_def)
  qed
  have call: "gate_is_present (idt_val (idt s' v)) \<and> gate_privilege (idt_val (idt s' v)) = 3 \<longleftrightarrow> v = 0x80" for v
    using g[rule_format, of v] by (auto simp: gate_serves_def service_def split: if_splits option.splits)
  have sz: "unat ldt_size < 2 ^ 20" "unat tss_size < 2 ^ 20" by (simp_all add: ldt_size_def tss_size_def)
  show ?thesis using m g dev call tb
    by (simp add: f seg_params_bits[OF sz(1)] seg_params_bits[OF sz(2)])
      (simp add: ldt_size_def tss_size_def the_ldt_desc_def the_tss_desc_def)
qed


section \<open>A machine that boots\<close>

text \<open>Flat memory before paging; one module, the small image, at \<open>0x500000\<close>; the information structure
  at \<open>0x400000\<close> announces it.\<close>

definition boot_mem :: mem where
  "boot_mem a =
     (if unat a < 0x500000
      then if a = 0x400000 then 8 else if a = 0x400014 then 1 else if a = 0x400019 then 1 else if a = 0x40001A then 0x40
           else if a = 0x400102 then 0x50 else if a = 0x400105 then 0x40 else if a = 0x400106 then 0x50 else 0
      else tiny_image (a - 0x500000))"

definition zero_seg :: seg_desc where
  "zero_seg = \<lparr>seg_lim_15_00 = 0, base_15_00 = 0, base_23_16 = 0, seg_type = 0, sys = 0, seg_dpl = 0, seg_present = 0,
     seg_lim_19_16 = 0, avail = 0, seg_reserved = 0, opsize = 0, granularity = 0, base_31_24 = 0\<rparr>"

definition power_up :: boot_state where
  "power_up = (keyboard_state.extend fresh_keyboard
     \<lparr>idt = (\<lambda>_. empty_gate), idt_loaded = False, ldt_desc_ptr = zero_seg, tss_desc_ptr = zero_seg, ldtr = 0,
      task_register = 0, tss_ldt_selector = 0, tss_ss0 = 0\<rparr>)
     \<lparr>phys := boot_mem, page_directory := (\<lambda>_. 0), terminal_active := (\<lambda>t. t = 0), terminal_pids := (\<lambda>_. 0),
      paging_on := False\<rparr>"

definition linked_env :: boot_env where
  "linked_env = \<lparr>ldt_at = 0x410000, tss_at = 0x410100, stub_at = (\<lambda>_. 0x420000), prev_b = 2, prev_a = 0x26,
     conv_buf = 0x7F0000, boot_regs = (0, 0)\<rparr>"

lemma power_up_on: "power_on power_up"
  by (simp add: power_on_def power_up_def keyboard_state.defs fresh_keyboard_fields fresh_keyboard_tables)
    (simp add: fresh_keyboard_def two_terminals_def rtc_state.defs kernel_state.defs)

lemma xlate_unmapped: "\<forall>i. page_directory s i = 0 \<Longrightarrow> xlate s = (\<lambda>x. x)"
  by (simp add: fun_eq_iff xlate_def translate_def walk_def)

lemma safe_range_far:
  assumes "0x400000 \<le> unat a" "unat a + n \<le> unat cb" "unat cb + 64 \<le> 0x800000"
  shows "safe_range cb a n"
  unfolding safe_range_def
proof (intro allI impI)
  fix i :: nat
  assume i: "i < n"
  have u: "unat (a + of_nat i) = unat a + i" using assms i by (simp add: unat_add_of_nat32)
  have "a + of_nat i \<noteq> cb + of_nat j" if "j < 64" for j
  proof -
    have "unat (cb + of_nat j) = unat cb + j" using assms(3) that by (simp add: unat_add_of_nat32)
    then show ?thesis using u assms(2) i by (metis add_less_le_mono le_add1 less_irrefl not_add_less1 order_less_le_trans nat_add_left_cancel_less)
  qed
  moreover have "0x400 \<le> unat (a + of_nat i) div 4096" using u assms(1) by simp
  ultimately show "safe cb (a + of_nat i)" by (auto simp: safe_def region_def)
qed

text \<open>Clearing the screen touches the video page only.\<close>

lemma clear_phys:
  assumes "linear_page s video_mem 0xB8" "unat p div 4096 \<noteq> 0xB8"
  shows "phys (clear s) p = phys s p"
proof -
  have "phys (fold (\<lambda>i. put_cell video_mem (int i) 32) xs s) p = phys s p" if "\<forall>i \<in> set xs. i < 2000" for xs
    using that assms(1)
  proof (induction xs arbitrary: s)
    case (Cons i xs)
    have c: "cell_addr video_mem (int i) = video_mem + of_nat (2 * i)" by (simp add: cell_addr_def mult.commute)
    have l: "xlate s (video_mem + of_nat k) = of_nat (0xB8 * 4096 + k)" if "k < 4096" for k
      using Cons.prems(2) that by (simp add: linear_page_def)
    have "unat (of_nat (0xB8 * 4096 + k) :: addr) div 4096 = 0xB8" if "k < 4096" for k
    proof -
      have "unat (of_nat (0xB8 * 4096 + k) :: addr) = 0xB8 * 4096 + k" using that by (intro unat_of_nat32) simp
      then show ?thesis using that by simp
    qed
    then have "p \<noteq> xlate s (video_mem + of_nat k)" if "k < 4096" for k using l[OF that] that assms(2) by metis
    from this[of "2 * i"] this[of "2 * i + 1"] have "phys (put_cell video_mem (int i) 32 s) p = phys s p"
      using Cons.prems(1) by (simp add: put_cell_def kstore8_def store8_def c add_ac)
    moreover have "linear_page (put_cell video_mem (int i) 32 s) video_mem 0xB8"
      using Cons.prems(2) by (simp add: linear_page_def put_cell_def kstore8_def)
    ultimately show ?case using Cons by simp
  qed simp
  from this[of "[0..<2000]"] show ?thesis by (simp add: clear_def del: upt_rec_numeral)
qed

lemma power_on_looks:
  assumes on: "power_on s" and cb: "\<forall>a \<in> region cb 64. unat a div 4096 \<noteq> 0xB8"
  shows "looks (phys s) cb (clear s)"
proof -
  have xs: "xlate s = (\<lambda>x. x)" using xlate_unmapped[of s] on by (simp add: power_on_def)
  then have x: "xlate (clear s) = (\<lambda>x. x)" using console_frame_xlate[OF console_frame_clear[of s]] by simp
  have "screen_ok (clear s)" using x
    by (simp add: screen_ok_def linear_page_def video_mem_def) (simp add: clear_def)
  moreover have "conv_ok (clear s) cb" using cb by (simp add: conv_ok_def x)
  moreover have "linear_page s video_mem 0xB8" by (simp add: xs linear_page_def video_mem_def)
  ultimately show ?thesis using x clear_phys[of s] by (simp add: looks_def safe_def)
qed

lemma boot_mem_words:
  "m32 boot_mem 0x400000 = 8" "m32 boot_mem 0x400014 = 1" "m32 boot_mem 0x400018 = 0x400100" "m32 boot_mem 0x400100 = 0x500000"
  by (simp_all add: load32_def load8_def boot_mem_def)

lemma boot_mem_flags: "CHECK_FLAG 8 b \<longleftrightarrow> b = 3" if "b \<in> {0, 1, 2, 3, 4, 5, 6}"
  using that by (auto simp: CHECK_FLAG_def)

lemma boot_mem_safe: "report_safe boot_mem 0x7F0000 strs 0x400000 []"
  by (simp add: report_safe_def boot_mem_words boot_mem_flags safe_range_far)

lemma linked_conv: "\<forall>a \<in> region 0x7F0000 64. unat a div 4096 \<noteq> 0xB8"
proof
  fix a :: addr
  assume "a \<in> region 0x7F0000 64"
  then obtain i where "a = 0x7F0000 + of_nat i" "i < 64" by (auto simp: region_def)
  then have "unat a = 0x7F0000 + i" by (simp add: unat_add_of_nat32)
  then show "unat a div 4096 \<noteq> 0xB8" by simp
qed

lemma power_up_looks: "looks boot_mem 0x7F0000 (clear power_up)"
  using power_on_looks[OF power_up_on linked_conv] by (simp add: power_up_def)

lemma boot_report_on_screen_witness:
  "\<exists>s'. multiboot_report 0x7F0000 0x400000 (clear power_up) = Some (Some 0x500000, s')"
  using boot_report_on_screen[OF power_up_looks boot_mem_safe] by (auto simp: first_module_def boot_mem_words boot_mem_flags)

lemma entry_report:
  assumes "report_safe m (conv_buf env) strs mbi recs" "looks m (conv_buf env) (clear s)"
    and "\<not> (CHECK_FLAG (m32 m mbi) 4 \<and> CHECK_FLAG (m32 m mbi) 5)"
  obtains t where "multiboot_report (conv_buf env) mbi (clear s) = Some (Some (first_module m mbi), t)" "looks m (conv_buf env) t"
proof -
  obtain t where "say_all (conv_buf env) (report_lines m mbi recs) (clear s) = Some t" "looks m (conv_buf env) t"
    by (rule say_all_looks[OF assms(2) printable_report[OF assms(1)]])
  then show thesis using that[of t] assms(3) by (simp add: report_reads_first[OF assms(2,1)])
qed

lemma fresh_parse_shell:
  "is_cstr (fst (parse_command shell_lit 0 (loc_file_name fresh_frame) (loc_file_args fresh_frame))) (ascii ''shell'')"
  by (simp add: parse_command.simps shell_lit_def lit_def ascii_def fresh_frame_def is_cstr_def All_less_Suc)

lemma no_shell:
  assumes "kernel_image (xlate s) (phys s)" "fs_img_start s = 0x500000"
  shows "process_create fresh_frame shell_lit t parent s = Some (- 1, s)"
proof -
  have "find (\<lambda>i. entry_name (xlate s) (phys s) 0x500000 i = ascii ''shell'') [0..<63] = None"
    by (auto simp: find_None_iff image_names[OF assms(1)] ascii_def simp del: upt_rec_numeral)
  moreover have "length (ascii ''shell'') = 5" by (simp add: ascii_def)
  ultimately have "read_dentry_by_name (xlate s) (phys s) (fs_img_start s)
      (Some (fst (parse_command shell_lit 0 (loc_file_name fresh_frame) (loc_file_args fresh_frame)))) (loc_dentry fresh_frame) =
      Some (- 1, loc_dentry fresh_frame)"
    by (simp add: read_dentry_by_name_find[OF fresh_parse_shell] assms(2) del: upt_rec_numeral)
  then show ?thesis
    by (cases "parse_command shell_lit 0 (loc_file_name fresh_frame) (loc_file_args fresh_frame)") (simp add: process_create_def)
qed

lemma init_devices_phys: "phys (init_devices env d1 d2 blk s) = phys s"
proof -
  have "phys (initialize_idt h u) = phys u" for h and u :: "'a boot_state_scheme"
    using initialize_idt_only[of h u] by auto
  then show ?thesis by (simp add: init_defs i8259_init_def load_descriptors_def)
qed

lemma fs_img_clear:
  fixes s :: "'a kernel_state_scheme"
  shows "fs_img_start (clear s) = fs_img_start s"
  using console_frame_clear[of s] by (cases s; cases "clear s") (simp add: console_frame_def)

lemma power_up_boots:
  "\<exists>s'. entry linked_env zero_seg zero_seg fresh_frame 0x2BADB002 0x400000 power_up = Some (Idle, s')"
proof -
  have c: "conv_buf linked_env = 0x7F0000" by (simp add: linked_env_def)
  obtain t where t: "multiboot_report 0x7F0000 0x400000 (clear power_up) = Some (Some 0x500000, t)" "looks boot_mem 0x7F0000 t"
    using entry_report[of boot_mem linked_env _ "0x400000" "[]" power_up, unfolded c, OF boot_mem_safe power_up_looks]
    by (auto simp: first_module_def boot_mem_words boot_mem_flags)
  let ?d = "init_devices linked_env zero_seg zero_seg 0x500000 t"
  have b: "bare t" by (rule power_on_bare[OF power_up_on t(1)])
  have pg: "paging_inv (clear ?d)"
    using paging_cong(1)[of "clear ?d" ?d] console_frame_clear[of ?d] init_devices_paging(1)[OF b]
    by (auto simp: console_frame_def)
  have ph: "phys (clear ?d) a = tiny_image (a - 0x500000)" if a: "0x500000 \<le> unat a" "unat a < 0x600000" for a
  proof -
    have "safe_range 0x7F0000 a 1" using a by (intro safe_range_far) simp_all
    then have "phys t a = boot_mem a" using t(2) by (simp add: looks_def safe_range_def)
    moreover have "phys (clear ?d) a = phys ?d a"
      using a linear_video[OF init_devices_paging(1)[OF b]] by (intro clear_phys) auto
    moreover have "phys ?d a = phys t a" by (simp only: init_devices_phys)
    ultimately show ?thesis using a by (simp add: boot_mem_def)
  qed
  have "kernel_image (xlate (clear ?d)) (phys (clear ?d))"
    by (rule kernel_image_paging[OF pg]) (simp add: ph)
  moreover have "fs_img_start (clear ?d) = 0x500000" unfolding fs_img_clear by (rule init_devices_frame(5))
  ultimately have "process_create fresh_frame shell_lit 0 (- 1) (init_system linked_env zero_seg zero_seg 0x500000 t) =
      Some (- 1, init_system linked_env zero_seg zero_seg 0x500000 t)"
    using no_shell by (simp add: init_system_def launch_tests_def)
  then show ?thesis using t(1)
    by (simp add: entry_def c MULTIBOOT_BOOTLOADER_MAGIC_def process_start_fail Let_def)
qed

lemma boot_sets_up_hardware_witness:
  "\<exists>s'. entry linked_env zero_seg zero_seg fresh_frame 0x2BADB002 0x400000 power_up = Some (Idle, s') \<and>
     \<not> masked s' 1 \<and> masked s' 0 \<and> gate_offset (idt_val (idt s' 0x80)) = 0x420000 \<and> seg_base (seg_val (tss_desc_ptr s')) = 0x410100"
proof -
  obtain s' where s': "entry linked_env zero_seg zero_seg fresh_frame 0x2BADB002 0x400000 power_up = Some (Idle, s')"
    using power_up_boots by blast
  note w = boot_sets_up_hardware[OF power_up_on s']
  have m: "\<forall>n < 16. \<not> masked s' n \<longleftrightarrow> n = 1 \<or> n = 2 \<or> n = 8" using w by simp
  have "masked s' 0" "\<not> masked s' 1" using m[rule_format, of 0] m[rule_format, of 1] by simp_all
  moreover have "seg_base (seg_val (tss_desc_ptr s')) = 0x410100"
    "gate_serves (stub_at linked_env) (idt_val (idt s' 0x80)) (service 0x80)"
    using w by (simp_all add: linked_env_def)
  ultimately show ?thesis using s' by (auto simp: gate_serves_def service_def linked_env_def)
qed


end
