(* ===== verification/User_Library.thy ===== *)
theory User_Library
  imports Boot
begin

text \<open>
  The library user programs are linked with (\<open>src/syscalls/ece391support.c\<close>): the string and number
  routines, which work on the program's own memory. They are separate code from the kernel's
  library; the lemmas show that they compute the same.
\<close>

section \<open>Strings that are read\<close>

text \<open>\<open>s\<close> and \<open>len\<close> advance together.\<close>

partial_function (option) ece391_strlen_loop :: "reader \<Rightarrow> u32 \<Rightarrow> u32 \<Rightarrow> u32 option" where
  "ece391_strlen_loop s pos len =
     (if s pos \<noteq> 0 then ece391_strlen_loop s (pos + 1) (len + 1) else Some len)"

definition ece391_strlen :: "reader \<Rightarrow> u32 option" where
  "ece391_strlen s = ece391_strlen_loop s 0 0"

text \<open>\<open>uint8_t\<close> is unsigned: the difference is taken after zero extension.\<close>

partial_function (option) ece391_strcmp_loop :: "reader \<Rightarrow> reader \<Rightarrow> u32 \<Rightarrow> u32 option" where
  "ece391_strcmp_loop s1 s2 pos =
     (if s1 pos = s2 pos then
        if s1 pos = 0 then Some 0 else ece391_strcmp_loop s1 s2 (pos + 1)
      else Some (ucast (s1 pos) - ucast (s2 pos)))"

definition ece391_strcmp :: "reader \<Rightarrow> reader \<Rightarrow> u32 option" where
  "ece391_strcmp s1 s2 = ece391_strcmp_loop s1 s2 0"

function ece391_strncmp_loop :: "reader \<Rightarrow> reader \<Rightarrow> u32 \<Rightarrow> u32 \<Rightarrow> u32" where
  "ece391_strncmp_loop s1 s2 n pos =
     (if s1 pos = s2 pos then
        if s1 pos = 0 \<or> n - 1 = 0 then 0 else ece391_strncmp_loop s1 s2 (n - 1) (pos + 1)
      else ucast (s1 pos) - ucast (s2 pos))"
  by pat_completeness auto
termination
proof (relation "measure (\<lambda>(s1, s2, n, pos). unat (n - 1))")
  fix s1 s2 :: reader and n pos :: u32
  assume "\<not> (s1 pos = 0 \<or> n - 1 = 0)"
  then have "unat (n - 1) \<noteq> 0" "unat (n - 1 - 1) = unat (n - 1) - 1" by (simp add: unat_eq_zero, intro unat_minus_one) simp
  then show "((s1, s2, n - 1, pos + 1), s1, s2, n, pos) \<in> measure (\<lambda>(s1, s2, n, pos). unat (n - 1))"
    by simp
qed simp

declare ece391_strncmp_loop.simps [simp del]

definition ece391_strncmp :: "reader \<Rightarrow> reader \<Rightarrow> u32 \<Rightarrow> u32" where
  "ece391_strncmp s1 s2 n = (if n = 0 then 0 else ece391_strncmp_loop s1 s2 n 0)"

section \<open>Strings that are written\<close>

partial_function (option) ece391_strcpy :: "xlat \<Rightarrow> mem \<Rightarrow> addr \<Rightarrow> addr \<Rightarrow> mem option" where
  "ece391_strcpy tr m dst src =
     (let c = load8 tr m src; m1 = store8 tr dst c m
      in if c \<noteq> 0 then ece391_strcpy tr m1 (dst + 1) (src + 1) else Some m1)"

definition ece391_strrev :: "xlat \<Rightarrow> mem \<Rightarrow> addr \<Rightarrow> mem option" where
  "ece391_strrev tr m s =
     (case ece391_strlen (ptr tr m s) of None \<Rightarrow> None
      | Some len \<Rightarrow> (let ed = sint (len - 1) in if ed \<le> 0 then Some m else Some (strrev_loop tr m s 0 ed)))"

partial_function (option) ece391_itoa_loop :: "xlat \<Rightarrow> mem \<Rightarrow> u32 \<Rightarrow> addr \<Rightarrow> u32 \<Rightarrow> mem option" where
  "ece391_itoa_loop tr m newval newbuf radix =
     (if newval > 0
      then (let i = newval mod radix
            in ece391_itoa_loop tr (store8 tr newbuf (itoa_lookup ! unat i) m) (newval div radix) (newbuf + 1) radix)
      else Some (store8 tr newbuf 0 m))"

definition ece391_itoa :: "xlat \<Rightarrow> mem \<Rightarrow> u32 \<Rightarrow> addr \<Rightarrow> u32 \<Rightarrow> mem option" where
  "ece391_itoa tr m val buf radix =
     (if val = 0 then Some (store8 tr (buf + 1) 0 (store8 tr buf 48 m))
      else if radix = 0 then None
      else case ece391_itoa_loop tr m val buf radix of None \<Rightarrow> None
           | Some m1 \<Rightarrow> ece391_strrev tr m1 buf)"

section \<open>The same results as the kernel's library\<close>

text \<open>Two partial functions are equal when each result of either is one of the other.\<close>

lemma option_eqI: "(\<And>y. a = Some y \<Longrightarrow> b = Some y) \<Longrightarrow> (\<And>y. b = Some y \<Longrightarrow> a = Some y) \<Longrightarrow> a = b"
  by (cases a; cases b) auto

lemma ece391_strlen_eq: "ece391_strlen s = strlen s"
proof -
  have "ece391_strlen_loop s l l = strlen_loop s l" for l
  proof (rule option_eqI)
    fix n
    assume a: "ece391_strlen_loop s l l = Some n"
    have "l = l \<longrightarrow> strlen_loop s l = Some n"
      by (rule ece391_strlen_loop.raw_induct[where P = "\<lambda>s p l n. p = l \<longrightarrow> strlen_loop s l = Some n", OF _ a])
        (subst strlen_loop.simps, auto split: if_splits)
    then show "strlen_loop s l = Some n" by simp
  next
    fix n
    assume a: "strlen_loop s l = Some n"
    show "ece391_strlen_loop s l l = Some n"
      by (rule strlen_loop.raw_induct[where P = "\<lambda>s l n. ece391_strlen_loop s l l = Some n", OF _ a])
        (subst ece391_strlen_loop.simps, auto split: if_splits)
  qed
  then show ?thesis by (simp add: ece391_strlen_def strlen_def)
qed

lemma ece391_strcpy_eq: "ece391_strcpy tr m d s = strcpy tr m d s"
proof -
  have "ece391_strcpy tr m (d + i) (s + i) = strcpy_loop tr m d s i" for i
  proof (rule option_eqI)
    fix m'
    assume a: "ece391_strcpy tr m (d + i) (s + i) = Some m'"
    have "\<forall>d' s' j. d + i = d' + j \<and> s + i = s' + j \<longrightarrow> strcpy_loop tr m d' s' j = Some m'"
    proof (rule ece391_strcpy.raw_induct[where P = "\<lambda>tr m x y m'. \<forall>d s i. x = d + i \<and> y = s + i \<longrightarrow> strcpy_loop tr m d s i = Some m'", OF _ a])
      fix f tr m x y m'
      assume ih: "\<And>tr m x y m'. f tr m x y = Some m' \<Longrightarrow> \<forall>d s i. x = d + i \<and> y = s + i \<longrightarrow> strcpy_loop tr m d s i = Some m'"
        and r: "(let c = load8 tr m y; m1 = store8 tr x c m in if c \<noteq> 0 then f tr m1 (x + 1) (y + 1) else Some m1) = Some m'"
      show "\<forall>d s i. x = d + i \<and> y = s + i \<longrightarrow> strcpy_loop tr m d s i = Some m'"
        using r ih by (subst strcpy_loop.simps) (fastforce simp: Let_def add.assoc split: if_splits)
    qed
    then show "strcpy_loop tr m d s i = Some m'" by blast
  next
    fix m'
    assume a: "strcpy_loop tr m d s i = Some m'"
    show "ece391_strcpy tr m (d + i) (s + i) = Some m'"
      by (rule strcpy_loop.raw_induct[where P = "\<lambda>tr m d s i m'. ece391_strcpy tr m (d + i) (s + i) = Some m'", OF _ a])
        (subst ece391_strcpy.simps, auto simp: Let_def add.assoc split: if_splits)
  qed
  from this[of 0] show ?thesis by (simp add: strcpy_def)
qed

lemma ece391_strrev_eq: "ece391_strrev tr m s = strrev tr m s"
  by (simp add: ece391_strrev_def strrev_def ece391_strlen_eq Let_def strrev_loop.simps split: option.split)

lemma ece391_itoa_eq: "ece391_itoa tr m val buf radix = itoa tr m val buf radix"
proof -
  have "ece391_itoa_loop tr m v p radix = itoa_loop tr m v p radix" for m v p
  proof (rule option_eqI)
    fix m'
    assume a: "ece391_itoa_loop tr m v p radix = Some m'"
    show "itoa_loop tr m v p radix = Some m'"
      by (rule ece391_itoa_loop.raw_induct[where P = "\<lambda>tr m v p r m'. itoa_loop tr m v p r = Some m'", OF _ a])
        (subst itoa_loop.simps, auto simp: Let_def split: if_splits)
  next
    fix m'
    assume a: "itoa_loop tr m v p radix = Some m'"
    show "ece391_itoa_loop tr m v p radix = Some m'"
      by (rule itoa_loop.raw_induct[where P = "\<lambda>tr m v p r m'. ece391_itoa_loop tr m v p r = Some m'", OF _ a])
        (subst ece391_itoa_loop.simps, auto simp: Let_def split: if_splits)
  qed
  then show ?thesis by (simp add: ece391_itoa_def itoa_def ece391_strrev_eq split: option.split)
qed

lemma ece391_strncmp_zero: "ece391_strncmp s1 s2 n = 0 \<longleftrightarrow> strncmp s1 s2 n = 0"
proof -
  have "ece391_strncmp_loop s1 s2 (n - i) i = 0 \<longleftrightarrow> strncmp_loop s1 s2 n i = 0" if "i < n" for i
    using that
  proof (induction s1 s2 n i rule: strncmp_loop.induct)
    case (1 s1 s2 n i)
    have e: "ucast x = (ucast y :: u32) \<longleftrightarrow> x = y" for x y :: byte
    proof -
      have "unat (ucast z :: u32) = unat z" for z :: byte
      proof -
        have "unat z < 2 ^ 8" using unsigned_less[of z, where ?'a = nat] by simp
        then show ?thesis by (simp add: unsigned_ucast_eq take_bit_nat_eq_self)
      qed
      then show ?thesis by (metis word_unat_eq_iff)
    qed
    have u: "unat (i + 1) = Suc (unat i)" by (rule unat_Suc_less[OF 1(2)])
    have d: "n - i - 1 = n - (i + 1)" by simp
    have l: "n - i - 1 = 0 \<longleftrightarrow> \<not> i + 1 < n" 
    proof -
      have "n - i - 1 = 0 \<longleftrightarrow> n = i + 1" by (auto simp: algebra_simps)
      also have "\<dots> \<longleftrightarrow> unat n = Suc (unat i)" using u by (metis word_unat_eq_iff)
      finally show ?thesis using 1(2) u by (auto simp: word_less_nat_alt)
    qed
    show ?case
    proof (cases "s1 i = s2 i \<and> s1 i \<noteq> 0 \<and> i + 1 < n")
      case True
      then have "ece391_strncmp_loop s1 s2 (n - i) i = ece391_strncmp_loop s1 s2 (n - (i + 1)) (i + 1)"
        using l unfolding d by (subst ece391_strncmp_loop.simps) (simp only: d if_True if_False simp_thms, metis)
      moreover have "strncmp_loop s1 s2 n i = strncmp_loop s1 s2 n (i + 1)"
        using True 1(2) by (subst strncmp_loop.simps) (simp, metis)
      moreover have "s2 i \<noteq> 0" using True by metis
      ultimately show ?thesis using 1 True by simp
    next
      case False
      have z: "strncmp_loop s1 s2 n (i + 1) = 0" if "\<not> i + 1 < n"
        using that by (subst strncmp_loop.simps) simp
      consider (diff) "s1 i \<noteq> s2 i" | (nul) "s1 i = s2 i" "s2 i = 0" | (last) "s1 i = s2 i" "s2 i \<noteq> 0" "\<not> i + 1 < n"
        using False by metis
      then show ?thesis
      proof cases
        case diff
        then have "ece391_strncmp_loop s1 s2 (n - i) i = ucast (s1 i) - ucast (s2 i)"
          by (subst ece391_strncmp_loop.simps) simp
        moreover have "strncmp_loop s1 s2 n i \<noteq> 0"
          using diff 1(2) by (subst strncmp_loop.simps) simp
        ultimately show ?thesis using diff e by simp
      next
        case nul
        have "ece391_strncmp_loop s1 s2 (n - i) i = 0" using nul by (subst ece391_strncmp_loop.simps) simp
        moreover have "strncmp_loop s1 s2 n i = 0" using nul 1(2) by (subst strncmp_loop.simps) simp
        ultimately show ?thesis by simp
      next
        case last
        have "ece391_strncmp_loop s1 s2 (n - i) i = 0"
          using last l by (subst ece391_strncmp_loop.simps) simp
        moreover have "strncmp_loop s1 s2 n i = 0"
          unfolding strncmp_loop.simps[of s1 s2 n i] z[OF last(3)] using last by simp
        ultimately show ?thesis by simp
      qed
    qed
  qed
  from this[of 0] have "0 < n \<Longrightarrow> ece391_strncmp_loop s1 s2 n 0 = 0 \<longleftrightarrow> strncmp_loop s1 s2 n 0 = 0" by simp
  moreover have "0 < n" if "n \<noteq> 0" using that by (simp add: word_neq_0_conv)
  moreover have "strncmp_loop s1 s2 0 0 = 0" by (subst strncmp_loop.simps) simp
  ultimately show ?thesis by (cases "n = 0") (simp_all add: ece391_strncmp_def strncmp_def)
qed


end
