(* ===== verification/User_Programs.thy ===== *)
theory User_Programs
  imports User_Library "HOL-Library.Stream"
begin

text \<open>
  The user programs of \<open>src/syscalls\<close>. A program runs on the kernel: its state is that of the whole
  machine, and every system call goes through the kernel's dispatcher. What each call meets outside
  its arguments is an endless supply of call contexts. A program's string literals lie in its
  image, at the addresses \<open>L\<close>; a local array is at an address that is an argument.
\<close>

section \<open>System call wrappers\<close>

type_synonym 'a world = "'a keyboard_state_scheme call_context stream \<times> 'a keyboard_state_scheme"

type_synonym literals = "byte list \<Rightarrow> addr"

text \<open>\<open>DO_CALL\<close> of \<open>ece391syscall.S\<close>: the call number and three arguments in registers, the result in
  \<open>EAX\<close>. A call that does not come back to the program (None) ends the run.\<close>

definition DO_CALL :: "u32 \<Rightarrow> u32 \<Rightarrow> u32 \<Rightarrow> u32 \<Rightarrow> 'a world \<Rightarrow> (u32 \<times> 'a world) option" where
  "DO_CALL number ebx ecx edx w =
     (case handle_syscall (shd (fst w)) number ebx ecx edx (snd w) of
        Some (Return v, s) \<Rightarrow> Some (v, (stl (fst w), s))
      | _ \<Rightarrow> None)"

definition ece391_read :: "u32 \<Rightarrow> addr \<Rightarrow> u32 \<Rightarrow> 'a world \<Rightarrow> (u32 \<times> 'a world) option" where
  "ece391_read fd buf nbytes = DO_CALL 3 fd buf nbytes"

definition ece391_write :: "u32 \<Rightarrow> addr \<Rightarrow> u32 \<Rightarrow> 'a world \<Rightarrow> (u32 \<times> 'a world) option" where
  "ece391_write fd buf nbytes = DO_CALL 4 fd buf nbytes"

definition ece391_open :: "addr \<Rightarrow> 'a world \<Rightarrow> (u32 \<times> 'a world) option" where
  "ece391_open filename = DO_CALL 5 filename 0 0"

definition ece391_close :: "u32 \<Rightarrow> 'a world \<Rightarrow> (u32 \<times> 'a world) option" where
  "ece391_close fd = DO_CALL 6 fd 0 0"

definition ece391_getargs :: "addr \<Rightarrow> u32 \<Rightarrow> 'a world \<Rightarrow> (u32 \<times> 'a world) option" where
  "ece391_getargs buf nbytes = DO_CALL 7 buf nbytes 0"

definition ece391_vidmap :: "addr \<Rightarrow> 'a world \<Rightarrow> (u32 \<times> 'a world) option" where
  "ece391_vidmap screen_start = DO_CALL 8 screen_start 0 0"

text \<open>
  \<open>execute\<close> returns when the new program halts. \<open>child\<close> is that program from its entry point on,
  up to the status \<open>_start\<close> halts with.
\<close>

definition ece391_execute ::
  "(u32 \<Rightarrow> 'a world \<Rightarrow> (u32 \<times> 'a world) option) \<Rightarrow> addr \<Rightarrow> 'a world \<Rightarrow> (u32 \<times> 'a world) option" where
  "ece391_execute child command w =
     (case handle_syscall (shd (fst w)) 2 command 0 0 (snd w) of
        Some (Return v, s) \<Rightarrow> Some (v, (stl (fst w), s))
      | Some (Iret entry_point esp, s) \<Rightarrow>
          (case child entry_point (stl (fst w), s) of
             None \<Rightarrow> None
           | Some (status, (cs, t)) \<Rightarrow>
               (case handle_syscall (shd cs) 1 status 0 0 t of
                  Some (Resume esp ebp v, u) \<Rightarrow> Some (v, (stl cs, u))
                | _ \<Rightarrow> None))
      | _ \<Rightarrow> None)"

section \<open>The memory of a program\<close>

definition uload :: "addr \<Rightarrow> 'a world \<Rightarrow> byte" where
  "uload a w = load8 (xlate (snd w)) (phys (snd w)) a"

definition ustore :: "addr \<Rightarrow> byte \<Rightarrow> 'a world \<Rightarrow> 'a world" where
  "ustore a b w = (fst w, (snd w)\<lparr>phys := store8 (xlate (snd w)) a b (phys (snd w))\<rparr>)"

definition uptr :: "addr \<Rightarrow> 'a world \<Rightarrow> reader" where
  "uptr a w = ptr (xlate (snd w)) (phys (snd w)) a"

text \<open>A routine of the library that writes memory.\<close>

definition uapply :: "(xlat \<Rightarrow> mem \<Rightarrow> mem option) \<Rightarrow> 'a world \<Rightarrow> 'a world option" where
  "uapply f w = map_option (\<lambda>m. (fst w, (snd w)\<lparr>phys := m\<rparr>)) (f (xlate (snd w)) (phys (snd w)))"

definition ece391_fdputs :: "u32 \<Rightarrow> addr \<Rightarrow> 'a world \<Rightarrow> 'a world option" where
  "ece391_fdputs fd s w =
     (case ece391_strlen (uptr s w) of None \<Rightarrow> None
      | Some n \<Rightarrow> map_option snd (ece391_write fd s n w))"

section \<open>Small programs\<close>

text \<open>A string literal of the program goes to standard output.\<close>

definition fdputs_lit :: "literals \<Rightarrow> byte list \<Rightarrow> 'a world \<Rightarrow> 'a world option" where
  "fdputs_lit L t = ece391_fdputs 1 (L t)"

definition testprint_main :: "literals \<Rightarrow> 'a world \<Rightarrow> (u32 \<times> 'a world) option" where
  "testprint_main L w = do {
     w1 \<leftarrow> fdputs_lit L (ascii ''Hello, if this ran, the program was correct. Yay!'' @ [10]) w;
     Some (0, w1)
   }"

definition hello_main :: "literals \<Rightarrow> addr \<Rightarrow> 'a world \<Rightarrow> (u32 \<times> 'a world) option" where
  "hello_main L buf w = do {
     w1 \<leftarrow> fdputs_lit L (ascii ''Hi, what'' @ [39] @ ascii ''s your name? '') w;
     (cnt, w2) \<leftarrow> ece391_read 0 buf 1023 w1;
     if cnt = - 1 then do {
       w3 \<leftarrow> fdputs_lit L (ascii ''Can'' @ [39] @ ascii ''t read name from keyboard.'' @ [10]) w2;
       Some (3, w3)
     } else do {
       w3 \<leftarrow> fdputs_lit L (ascii ''Hello, '') (ustore (buf + cnt) 0 w2);
       w4 \<leftarrow> ece391_fdputs 1 buf w3;
       Some (0, w4)
     }
   }"

section \<open>cat\<close>

partial_function (option) cat_loop :: "literals \<Rightarrow> addr \<Rightarrow> u32 \<Rightarrow> 'a world \<Rightarrow> (u32 \<times> 'a world) option" where
  "cat_loop L buf fd w = do {
     (cnt, w1) \<leftarrow> ece391_read fd buf 1024 w;
     if cnt = 0 then Some (0, w1)
     else if cnt = - 1 then do {
       w2 \<leftarrow> fdputs_lit L (ascii ''file read failed'' @ [10]) w1;
       Some (3, w2)
     } else do {
       (r, w2) \<leftarrow> ece391_write 1 buf cnt w1;
       if r = - 1 then Some (3, w2) else cat_loop L buf fd w2
     }
   }"

definition cat_main :: "literals \<Rightarrow> addr \<Rightarrow> 'a world \<Rightarrow> (u32 \<times> 'a world) option" where
  "cat_main L buf w = do {
     (r, w1) \<leftarrow> ece391_getargs buf 1024 w;
     if r \<noteq> 0 then do {
       w2 \<leftarrow> fdputs_lit L (ascii ''could not read arguments'' @ [10]) w1;
       Some (3, w2)
     } else do {
       (fd, w2) \<leftarrow> ece391_open buf w1;
       if fd = - 1 then do {
         w3 \<leftarrow> fdputs_lit L (ascii ''file not found'' @ [10]) w2;
         Some (2, w3)
       } else cat_loop L buf fd w2
     }
   }"

section \<open>ls\<close>

partial_function (option) ls_loop :: "literals \<Rightarrow> addr \<Rightarrow> u32 \<Rightarrow> 'a world \<Rightarrow> (u32 \<times> 'a world) option" where
  "ls_loop L buf fd w = do {
     (cnt, w1) \<leftarrow> ece391_read fd buf 32 w;
     if cnt = 0 then Some (0, w1)
     else if cnt = - 1 then do {
       w2 \<leftarrow> fdputs_lit L (ascii ''directory entry read failed'' @ [10]) w1;
       Some (3, w2)
     } else do {
       (r, w2) \<leftarrow> ece391_write 1 buf (cnt + 1) (ustore (buf + cnt) 10 w1);
       if r = - 1 then Some (3, w2) else ls_loop L buf fd w2
     }
   }"

definition ls_main :: "literals \<Rightarrow> addr \<Rightarrow> 'a world \<Rightarrow> (u32 \<times> 'a world) option" where
  "ls_main L buf w = do {
     (fd, w1) \<leftarrow> ece391_open (L (ascii ''.'')) w;
     if fd = - 1 then do {
       w2 \<leftarrow> fdputs_lit L (ascii ''directory open failed'' @ [10]) w1;
       Some (2, w2)
     } else ls_loop L buf fd w1
   }"

section \<open>counter\<close>

partial_function (option) counter_loop :: "literals \<Rightarrow> addr \<Rightarrow> u32 \<Rightarrow> u32 \<Rightarrow> 'a world \<Rightarrow> 'a world option" where
  "counter_loop L buf i limit w =
     (if i < limit then do {
        w1 \<leftarrow> uapply (\<lambda>tr m. ece391_itoa tr m (i + 1) buf 10) w;
        w2 \<leftarrow> ece391_fdputs 1 buf w1;
        w3 \<leftarrow> fdputs_lit L [10] w2;
        counter_loop L buf (i + 1) limit w3
      } else Some w)"

definition counter_max :: "byte \<Rightarrow> u32" where
  "counter_max c = (if c = 48 then 100 else if c = 49 then 10000 else if c = 50 then 100000 else 0)"

definition counter_main :: "literals \<Rightarrow> addr \<Rightarrow> 'a world \<Rightarrow> (u32 \<times> 'a world) option" where
  "counter_main L buf w = do {
     w1 \<leftarrow> fdputs_lit L (ascii ''Enter the Test Number: (0): 100, (1): 10000, (2): 100000'' @ [10]) w;
     (cnt, w2) \<leftarrow> ece391_read 0 buf 1023 w1;
     if cnt = - 1 then do {
       w3 \<leftarrow> fdputs_lit L (ascii ''Can'' @ [39] @ ascii ''t read the number from keyboard.'' @ [10]) w2;
       Some (3, w3)
     } else do {
       let w3 = ustore (buf + cnt) 0 w2;
       n \<leftarrow> ece391_strlen (uptr buf w3);
       if n > 2 \<or> n = 2 \<and> (uload buf w3 < 48 \<or> uload buf w3 > 50) then do {
         w4 \<leftarrow> fdputs_lit L (ascii ''Wrong Choice!'' @ [10]) w3;
         Some (0, w4)
       } else do {
         w4 \<leftarrow> counter_loop L buf 0 (counter_max (uload buf w3)) w3;
         Some (0, w4)
       }
     }
   }"

section \<open>grep\<close>

text \<open>Positions in the line buffer are \<open>int32_t\<close> values between 0 and 1024.\<close>

partial_function (option) grep_line_end :: "addr \<Rightarrow> int \<Rightarrow> int \<Rightarrow> 'a world \<Rightarrow> int option" where
  "grep_line_end data filled line_end w =
     (if line_end < filled \<and> uload (data + word_of_int line_end) w \<noteq> 10
      then grep_line_end data filled (line_end + 1) w else Some line_end)"

text \<open>\<open>pat\<close> and \<open>fname\<close> are the arguments \<open>s\<close> and \<open>fname\<close>, both in the program's memory. The first bytes are
  compared as a \<open>char\<close>, which is signed, with a \<open>uint8_t\<close>: from 128 on they differ.\<close>

definition grep_matches :: "addr \<Rightarrow> addr \<Rightarrow> u32 \<Rightarrow> int \<Rightarrow> 'a world \<Rightarrow> bool" where
  "grep_matches pat data s_len check w \<longleftrightarrow>
     sint (uload pat w) = uint (uload (data + word_of_int check) w) \<and>
     ece391_strncmp (uptr (data + word_of_int check) w) (uptr pat w) s_len = 0"

definition grep_print_line :: "literals \<Rightarrow> addr \<Rightarrow> addr \<Rightarrow> 'a world \<Rightarrow> 'a world option" where
  "grep_print_line L fname found w = do {
     w1 \<leftarrow> ece391_fdputs 1 fname w;
     w2 \<leftarrow> fdputs_lit L (ascii '':'') w1;
     w3 \<leftarrow> ece391_fdputs 1 found w2;
     fdputs_lit L [10] w3
   }"

definition grep_search_line ::
  "literals \<Rightarrow> addr \<Rightarrow> addr \<Rightarrow> addr \<Rightarrow> u32 \<Rightarrow> int \<Rightarrow> int \<Rightarrow> 'a world \<Rightarrow> 'a world option" where
  "grep_search_line L pat fname data s_len line_start line_end w =
     (case find (\<lambda>check. grep_matches pat data s_len check w) [line_start..line_end - 1] of
        None \<Rightarrow> Some w
      | Some check \<Rightarrow> grep_print_line L fname (data + word_of_int line_start) w)"

text \<open>The inner loop returns the new \<open>filled\<close>.\<close>

partial_function (option) grep_lines ::
  "literals \<Rightarrow> addr \<Rightarrow> addr \<Rightarrow> addr \<Rightarrow> u32 \<Rightarrow> u32 \<Rightarrow> int \<Rightarrow> int \<Rightarrow> 'a world \<Rightarrow> (int \<times> 'a world) option" where
  "grep_lines L pat fname data s_len cnt filled line_start w = do {
     line_end \<leftarrow> grep_line_end data filled line_start w;
     if uload (data + word_of_int line_end) w \<noteq> 10 \<and> cnt \<noteq> 0 \<and> line_start \<noteq> 0 then do {
       w1 \<leftarrow> uapply (\<lambda>tr m. ece391_strcpy tr m data (data + word_of_int line_start))
              (ustore (data + word_of_int line_end) 0 w);
       Some (filled - line_start, w1)
     } else do {
       w1 \<leftarrow> grep_search_line L pat fname data s_len line_start line_end
              (ustore (data + word_of_int line_end) 0 w);
       if line_end + 1 \<ge> filled then Some (0, w1)
       else grep_lines L pat fname data s_len cnt filled (line_end + 1) w1
     }
   }"

partial_function (option) grep_file_loop ::
  "literals \<Rightarrow> addr \<Rightarrow> addr \<Rightarrow> addr \<Rightarrow> u32 \<Rightarrow> u32 \<Rightarrow> int \<Rightarrow> 'a world \<Rightarrow> (u32 \<times> 'a world) option" where
  "grep_file_loop L pat fname data s_len fd filled w = do {
     (cnt, w1) \<leftarrow> ece391_read fd (data + word_of_int filled) (word_of_int (1024 - filled)) w;
     if cnt = - 1 then do {
       w2 \<leftarrow> fdputs_lit L (ascii ''file read failed'' @ [10]) w1;
       Some (- 1, w2)
     } else do {
       (last1, w2) \<leftarrow> grep_lines L pat fname data s_len cnt (filled + sint cnt) 0 w1;
       if cnt = 0 then do {
         (r, w3) \<leftarrow> ece391_close fd w2;
         if r = - 1 then do {
           w4 \<leftarrow> fdputs_lit L (ascii ''file close failed'' @ [10]) w3;
           Some (- 1, w4)
         } else Some (0, w3)
       } else grep_file_loop L pat fname data s_len fd last1 w2
     }
   }"

definition do_one_file :: "literals \<Rightarrow> addr \<Rightarrow> addr \<Rightarrow> addr \<Rightarrow> 'a world \<Rightarrow> (u32 \<times> 'a world) option" where
  "do_one_file L pat fname data w = do {
     s_len \<leftarrow> ece391_strlen (uptr pat w);
     (fd, w1) \<leftarrow> ece391_open fname w;
     if fd = - 1 then do {
       w2 \<leftarrow> fdputs_lit L (ascii ''file open failed'' @ [10]) w1;
       Some (- 1, w2)
     } else grep_file_loop L pat fname data s_len fd 0 w1
   }"

text \<open>\<open>main\<close>: \<open>search\<close> and \<open>buf\<close> are its arrays, \<open>data\<close> the one of \<open>do_one_file\<close>.\<close>

partial_function (option) grep_loop ::
  "literals \<Rightarrow> addr \<Rightarrow> addr \<Rightarrow> addr \<Rightarrow> u32 \<Rightarrow> 'a world \<Rightarrow> (u32 \<times> 'a world) option" where
  "grep_loop L search buf data fd w = do {
     (cnt, w1) \<leftarrow> ece391_read fd buf 32 w;
     if cnt = 0 then Some (0, w1)
     else if cnt = - 1 then do {
       w2 \<leftarrow> fdputs_lit L (ascii ''directory entry read failed'' @ [10]) w1;
       Some (3, w2)
     } else if uload buf w1 = 46 then grep_loop L search buf data fd w1
     else do {
       (r, w2) \<leftarrow> do_one_file L search buf data (ustore (buf + cnt) 0 w1);
       if r \<noteq> 0 then Some (3, w2) else grep_loop L search buf data fd w2
     }
   }"

definition grep_main :: "literals \<Rightarrow> addr \<Rightarrow> addr \<Rightarrow> addr \<Rightarrow> 'a world \<Rightarrow> (u32 \<times> 'a world) option" where
  "grep_main L search buf data w = do {
     (r, w1) \<leftarrow> ece391_getargs search 1024 w;
     if r \<noteq> 0 then do {
       w2 \<leftarrow> fdputs_lit L (ascii ''could not read argument'' @ [10]) w1;
       Some (3, w2)
     } else do {
       (fd, w2) \<leftarrow> ece391_open (L (ascii ''.'')) w1;
       if fd = - 1 then do {
         w3 \<leftarrow> fdputs_lit L (ascii ''directory open failed'' @ [10]) w2;
         Some (2, w3)
       } else grep_loop L search buf data fd w2
     }
   }"

section \<open>pingpong\<close>

definition ustores :: "addr \<Rightarrow> byte list \<Rightarrow> 'a world \<Rightarrow> 'a world" where
  "ustores a bs w = (fst w, (snd w)\<lparr>phys := write_bytes (xlate (snd w)) a bs (phys (snd w))\<rparr>)"

text \<open>The columns 2 to 77 are blanked, the character goes to column \<open>j\<close>, and a tick passes.\<close>

definition pingpong_frame ::
  "addr \<Rightarrow> addr \<Rightarrow> u32 \<Rightarrow> byte \<Rightarrow> nat \<Rightarrow> 'a world \<Rightarrow> 'a world option" where
  "pingpong_frame buf garbage rtc_fd curchar j w = do {
     w1 \<leftarrow> ece391_fdputs 1 buf (ustore (buf + of_nat j) curchar (ustores (buf + 2) (replicate 76 32) w));
     (r, w2) \<leftarrow> ece391_read rtc_fd garbage 4 w1;
     Some w2
   }"

fun pingpong_frames ::
  "addr \<Rightarrow> addr \<Rightarrow> u32 \<Rightarrow> byte \<Rightarrow> nat list \<Rightarrow> 'a world \<Rightarrow> 'a world option" where
  "pingpong_frames buf garbage rtc_fd curchar [] w = Some w"
| "pingpong_frames buf garbage rtc_fd curchar (j # js) w =
     (case pingpong_frame buf garbage rtc_fd curchar j w of None \<Rightarrow> None
      | Some w1 \<Rightarrow> pingpong_frames buf garbage rtc_fd curchar js w1)"

definition pingpong_next :: "byte \<Rightarrow> byte" where
  "pingpong_next curchar = (if curchar = 90 then 65 else curchar + 1)"

text \<open>One round trip, with the character of the next one; \<open>main\<close> repeats it for ever.\<close>

definition pingpong_round :: "addr \<Rightarrow> addr \<Rightarrow> u32 \<Rightarrow> byte \<times> 'a world \<Rightarrow> (byte \<times> 'a world) option" where
  "pingpong_round buf garbage rtc_fd = (\<lambda>(curchar, w). do {
     w1 \<leftarrow> pingpong_frames buf garbage rtc_fd curchar [2..<78] w;
     w2 \<leftarrow> pingpong_frames buf garbage rtc_fd curchar (rev [2..<78]) w1;
     Some (pingpong_next curchar, w2)
   })"

definition pingpong_start ::
  "literals \<Rightarrow> addr \<Rightarrow> addr \<Rightarrow> 'a world \<Rightarrow> (u32 \<times> byte \<times> 'a world) option" where
  "pingpong_start L buf ret_val w = do {
     let w1 = ustores buf ([32, 124] @ replicate 76 32 @ [124, 10, 0]) w;
     (rtc_fd, w2) \<leftarrow> ece391_open (L (ascii ''rtc'')) w1;
     (r, w3) \<leftarrow> ece391_write rtc_fd ret_val 4 (ustores ret_val (word_bytes 32) w2);
     Some (rtc_fd, 65, ustores ret_val (word_bytes r) w3)
   }"

section \<open>shell\<close>

partial_function (option) shell_loop ::
  "(u32 \<Rightarrow> 'a world \<Rightarrow> (u32 \<times> 'a world) option) \<Rightarrow> literals \<Rightarrow> addr \<Rightarrow> 'a world \<Rightarrow> (u32 \<times> 'a world) option" where
  "shell_loop child L buf w = do {
     w1 \<leftarrow> fdputs_lit L (ascii ''391OS> '') w;
     (cnt0, w2) \<leftarrow> ece391_read 0 buf 1023 w1;
     if cnt0 = - 1 then do {
       w3 \<leftarrow> fdputs_lit L (ascii ''read from keyboard failed'' @ [10]) w2;
       Some (3, w3)
     } else do {
       let cnt = (if sint cnt0 > 0 \<and> uload (buf + cnt0 - 1) w2 = 10 then cnt0 - 1 else cnt0);
       let w3 = ustore (buf + cnt) 0 w2;
       c \<leftarrow> ece391_strcmp (uptr buf w3) (uptr (L (ascii ''exit'')) w3);
       if c = 0 then Some (0, w3)
       else if uload buf w3 = 0 then shell_loop child L buf w3
       else do {
         (rval, w4) \<leftarrow> ece391_execute child buf w3;
         w5 \<leftarrow> (if rval = - 1 then fdputs_lit L (ascii ''no such command'' @ [10]) w4
                else if rval = 256 then fdputs_lit L (ascii ''program terminated by exception'' @ [10]) w4
                else if rval \<noteq> 0 then fdputs_lit L (ascii ''program terminated abnormally'' @ [10]) w4
                else Some w4);
         shell_loop child L buf w5
       }
     }
   }"

definition shell_main ::
  "(u32 \<Rightarrow> 'a world \<Rightarrow> (u32 \<times> 'a world) option) \<Rightarrow> literals \<Rightarrow> addr \<Rightarrow> 'a world \<Rightarrow> (u32 \<times> 'a world) option" where
  "shell_main child L buf w = do {
     w1 \<leftarrow> fdputs_lit L (ascii ''Starting 391 Shell'' @ [10]) w;
     shell_loop child L buf w1
   }"

end
