(* ===== verification/User_Tests.thy ===== *)
theory User_Tests
  imports User_Programs
begin

text \<open>
  The error tests of \<open>src/syscalls/ece391syserr.c\<close>, which the authors run on the kernel: each calls
  the system in a wrong way and prints whether every call failed. A test returns 0 when it passes
  and 2 when it fails; \<open>buf\<close> is the array of the test.
\<close>

section \<open>Tests\<close>

definition NEG_FD :: u32 where "NEG_FD = - 1073741823"
definition BIG_FD :: u32 where "BIG_FD = 1073741823"
definition BIG_NUM :: u32 where "BIG_NUM = 1073741823"
definition NEG_NUM :: u32 where "NEG_NUM = - 1073741823"

text \<open>\<open>if (-1 != call) { fail = 2; print message }\<close>\<close>

definition expect_failure ::
  "literals \<Rightarrow> byte list \<Rightarrow> u32 \<times> 'a world \<Rightarrow> u32 \<Rightarrow> (u32 \<times> 'a world) option" where
  "expect_failure L msg rw fail =
     (if fst rw \<noteq> - 1 then do { w1 \<leftarrow> fdputs_lit L msg (snd rw); Some (2, w1) }
      else Some (fail, snd rw))"

definition report :: "literals \<Rightarrow> byte list \<Rightarrow> u32 \<Rightarrow> 'a world \<Rightarrow> (u32 \<times> 'a world) option" where
  "report L name fail w = do {
     w1 \<leftarrow> fdputs_lit L (name @ ascii (if fail \<noteq> 0 then '': FAIL'' else '': PASS'') @ [10]) w;
     Some (fail, w1)
   }"

text \<open>Tests 1 and 2 make the same calls, with a negative and with a large descriptor.\<close>

definition err_fd :: "literals \<Rightarrow> byte list \<Rightarrow> u32 \<Rightarrow> addr \<Rightarrow> 'a world \<Rightarrow> (u32 \<times> 'a world) option" where
  "err_fd L name fd buf w = do {
     r1 \<leftarrow> ece391_read fd buf 31 w;
     (f1, w1) \<leftarrow> expect_failure L (ascii ''read fail'' @ [10]) r1 0;
     r2 \<leftarrow> ece391_write fd buf 31 w1;
     (f2, w2) \<leftarrow> expect_failure L (ascii ''write fail'' @ [10]) r2 f1;
     r3 \<leftarrow> ece391_close fd w2;
     (f3, w3) \<leftarrow> expect_failure L (ascii ''close fail'' @ [10]) r3 f2;
     report L name f3 w3
   }"

definition err_neg_fd :: "literals \<Rightarrow> addr \<Rightarrow> 'a world \<Rightarrow> (u32 \<times> 'a world) option" where
  "err_neg_fd L = err_fd L (ascii ''err_neg_fd'') NEG_FD"

definition err_big_fd :: "literals \<Rightarrow> addr \<Rightarrow> 'a world \<Rightarrow> (u32 \<times> 'a world) option" where
  "err_big_fd L = err_fd L (ascii ''err_big_fd'') BIG_FD"

fun open_lots :: "literals \<Rightarrow> nat \<Rightarrow> nat \<Rightarrow> 'a world \<Rightarrow> (nat \<times> 'a world) option" where
  "open_lots L 0 cnt w = Some (cnt, w)"
| "open_lots L (Suc n) cnt w =
     (case ece391_open (L (ascii ''.'')) w of None \<Rightarrow> None
      | Some (r, w1) \<Rightarrow> open_lots L n (if r = - 1 then cnt + 1 else cnt) w1)"

fun close_fds :: "nat list \<Rightarrow> 'a world \<Rightarrow> 'a world option" where
  "close_fds [] w = Some w"
| "close_fds (i # fds) w =
     (case ece391_close (of_nat i) w of None \<Rightarrow> None | Some (r, w1) \<Rightarrow> close_fds fds w1)"

definition err_open_lots :: "literals \<Rightarrow> 'a world \<Rightarrow> (u32 \<times> 'a world) option" where
  "err_open_lots L w = do {
     (cnt, w1) \<leftarrow> open_lots L 7 0 w;
     w2 \<leftarrow> close_fds [2..<8] w1;
     report L (ascii ''err_open_lots'') (if cnt = 1 then 0 else 2) w2
   }"

definition err_open :: "literals \<Rightarrow> 'a world \<Rightarrow> (u32 \<times> 'a world) option" where
  "err_open L w = do {
     r1 \<leftarrow> ece391_open (L (ascii ''helloo'')) w;
     (f1, w1) \<leftarrow> expect_failure L ([39] @ ascii ''helloo'' @ [39] @ ascii '' fail'' @ [10]) r1 0;
     r2 \<leftarrow> ece391_open (L (ascii ''shel'')) w1;
     (f2, w2) \<leftarrow> expect_failure L ([39] @ ascii ''shel'' @ [39] @ ascii '' fail'' @ [10]) r2 f1;
     r3 \<leftarrow> ece391_open (L []) w2;
     (f3, w3) \<leftarrow> expect_failure L (ascii ''empty string fail'' @ [10]) r3 f2;
     report L (ascii ''err_open'') f3 w3
   }"

fun expect_all ::
  "literals \<Rightarrow> byte list \<Rightarrow> (nat \<Rightarrow> 'a world \<Rightarrow> (u32 \<times> 'a world) option) \<Rightarrow> nat list \<Rightarrow> u32 \<Rightarrow> 'a world
   \<Rightarrow> (u32 \<times> 'a world) option" where
  "expect_all L msg call [] fail w = Some (fail, w)"
| "expect_all L msg call (i # fds) fail w =
     (case call i w of None \<Rightarrow> None
      | Some r \<Rightarrow> (case expect_failure L msg r fail of None \<Rightarrow> None
                  | Some (f, w1) \<Rightarrow> expect_all L msg call fds f w1))"

definition err_unopened :: "literals \<Rightarrow> addr \<Rightarrow> 'a world \<Rightarrow> (u32 \<times> 'a world) option" where
  "err_unopened L buf w = do {
     (f1, w1) \<leftarrow> expect_all L (ascii ''close unopened or invalid fd fail'' @ [10])
        (\<lambda>i. ece391_close (of_nat i)) [0..<8] 0 w;
     (f2, w2) \<leftarrow> expect_all L (ascii ''read from unopened fd fail'' @ [10])
        (\<lambda>i. ece391_read (of_nat i) buf 31) [2..<8] f1 w1;
     (f3, w3) \<leftarrow> expect_all L (ascii ''write to unopened fd fail'' @ [10])
        (\<lambda>i. ece391_write (of_nat i) buf 31) [2..<8] f2 w2;
     report L (ascii ''err_unopened'') f3 w3
   }"

definition err_vidmap :: "literals \<Rightarrow> 'a world \<Rightarrow> (u32 \<times> 'a world) option" where
  "err_vidmap L w = do {
     r1 \<leftarrow> ece391_vidmap 0 w;
     (f1, w1) \<leftarrow> expect_failure L (ascii ''Null pointer fail'' @ [10]) r1 0;
     r2 \<leftarrow> ece391_vidmap 0x400000 w1;
     (f2, w2) \<leftarrow> expect_failure L (ascii ''Kernel pointer fail fail'' @ [10]) r2 f1;
     report L (ascii ''err_vidmap'') f2 w2
   }"

definition err_stdin_out :: "literals \<Rightarrow> addr \<Rightarrow> 'a world \<Rightarrow> (u32 \<times> 'a world) option" where
  "err_stdin_out L buf w = do {
     r1 \<leftarrow> ece391_write 0 buf 31 w;
     (f1, w1) \<leftarrow> expect_failure L (ascii ''write to stdin fail'' @ [10]) r1 0;
     r2 \<leftarrow> ece391_read 1 buf 31 w1;
     (f2, w2) \<leftarrow> expect_failure L (ascii ''read from stdout fail'' @ [10]) r2 f1;
     report L (ascii ''err_stdin_out'') f2 w2
   }"

text \<open>\<open>call_sys\<close> loads \<open>EAX\<close> only: the other registers hold anything.\<close>

definition call_sys :: "u32 \<times> u32 \<times> u32 \<Rightarrow> u32 \<Rightarrow> 'a world \<Rightarrow> (u32 \<times> 'a world) option" where
  "call_sys regs num = (case regs of (ebx, ecx, edx) \<Rightarrow> DO_CALL num ebx ecx edx)"

definition err_syscall_num :: "literals \<Rightarrow> u32 \<times> u32 \<times> u32 \<Rightarrow> 'a world \<Rightarrow> (u32 \<times> 'a world) option" where
  "err_syscall_num L regs w = do {
     r1 \<leftarrow> call_sys regs BIG_NUM w;
     (f1, w1) \<leftarrow> expect_failure L (ascii ''syscall 0 fail'' @ [10]) r1 0;
     r2 \<leftarrow> call_sys regs NEG_NUM w1;
     (f2, w2) \<leftarrow> expect_failure L (ascii ''big num syscall fail'' @ [10]) r2 f1;
     r3 \<leftarrow> call_sys regs 0 w2;
     (f3, w3) \<leftarrow> expect_failure L (ascii ''neg num syscall fail'' @ [10]) r3 f2;
     report L (ascii ''err_syscall_num'') f3 w3
   }"

section \<open>main\<close>

definition syserr_all :: "literals \<Rightarrow> u32 \<times> u32 \<times> u32 \<Rightarrow> addr \<Rightarrow> 'a world \<Rightarrow> (u32 \<times> 'a world) option" where
  "syserr_all L regs buf w = do {
     (f1, w1) \<leftarrow> err_neg_fd L buf w;
     (f2, w2) \<leftarrow> err_big_fd L buf w1;
     (f3, w3) \<leftarrow> err_open_lots L w2;
     (f4, w4) \<leftarrow> err_open L w3;
     (f5, w5) \<leftarrow> err_unopened L buf w4;
     (f6, w6) \<leftarrow> err_vidmap L w5;
     (f7, w7) \<leftarrow> err_stdin_out L buf w6;
     (f8, w8) \<leftarrow> err_syscall_num L regs w7;
     let fail = f1 + f2 + f3 + f4 + f5 + f6 + f7 + f8;
     w9 \<leftarrow> fdputs_lit L ([10] @ ascii (if fail \<noteq> 0 then ''Overall Tests: FAIL'' else ''Overall Tests: PASS'') @ [10]) w8;
     Some (fail, w9)
   }"

definition syserr_select ::
  "literals \<Rightarrow> u32 \<times> u32 \<times> u32 \<Rightarrow> addr \<Rightarrow> byte \<Rightarrow> 'a world \<Rightarrow> (u32 \<times> 'a world) option" where
  "syserr_select L regs buf c w =
     (if c = 48 then syserr_all L regs buf w
      else if c = 49 then err_neg_fd L buf w
      else if c = 50 then err_big_fd L buf w
      else if c = 51 then err_open_lots L w
      else if c = 52 then err_open L w
      else if c = 53 then err_unopened L buf w
      else if c = 54 then err_vidmap L w
      else if c = 55 then err_stdin_out L buf w
      else if c = 56 then err_syscall_num L regs w
      else do {
        w1 \<leftarrow> fdputs_lit L (ascii ''Invalid test number. Choose from tests 1-8 or 0'') w;
        Some (0, w1)
      })"

definition syserr_main ::
  "literals \<Rightarrow> u32 \<times> u32 \<times> u32 \<Rightarrow> addr \<Rightarrow> addr \<Rightarrow> 'a world \<Rightarrow> (u32 \<times> 'a world) option" where
  "syserr_main L regs sel buf w = do {
     w1 \<leftarrow> fdputs_lit L (ascii ''Choose from tests 1-8. 0 to run all: '') w;
     (cnt, w2) \<leftarrow> ece391_read 0 sel 127 w1;
     if cnt = - 1 then do {
       w3 \<leftarrow> fdputs_lit L (ascii ''Can'' @ [39] @ ascii ''t read test #'' @ [10]) w2;
       Some (2, w3)
     } else syserr_select L regs buf (uload sel w2) w2
   }"

end
