(* ===== verification/User_Runs.thy ===== *)
theory User_Runs
  imports User_Tests
begin

text \<open>
  Runs of user programs on the kernel, from any state the kernel can be in while the program runs:
  what a program prints reaches its own terminal and no other, the memory of programs and of the
  file system image stays as it was, and the kernel's invariant holds after every call. On top of
  this the runs of whole programs are described.
\<close>

section \<open>Where things are\<close>

text \<open>Physical frames that hold text pages, and addresses of the program's 4 MB window.\<close>

definition display_byte :: "addr \<Rightarrow> bool" where
  "display_byte p \<longleftrightarrow> 0xB8 \<le> unat p div 4096 \<and> unat p div 4096 < 0xBC"

definition in_window :: "addr \<Rightarrow> nat \<Rightarrow> bool" where
  "in_window a n \<longleftrightarrow> 0x8000000 \<le> unat a \<and> unat a + n \<le> 0x8400000"

definition kernel_byte :: "addr \<Rightarrow> bool" where
  "kernel_byte p \<longleftrightarrow> 0x400000 \<le> unat p \<and> unat p < 0x800000"

lemma kernel_not_display: "kernel_byte p \<Longrightarrow> \<not> display_byte p"
  by (auto simp: kernel_byte_def display_byte_def)

lemma term_frame_display: "cur < 3 \<Longrightarrow> t < 3 \<Longrightarrow> unat p div 4096 = term_frame cur t \<Longrightarrow> display_byte p"
  by (auto simp: display_byte_def term_frame_def split: if_splits)

lemma window_unat: "in_window a n \<Longrightarrow> i < n \<Longrightarrow> unat (a + of_nat i) = unat a + i"
  by (intro unat_add_of_nat32) (simp add: in_window_def)

text \<open>The window of the running process is a 4 MB page above the kernel's.\<close>

definition mapped :: "'a paging_state_scheme \<Rightarrow> bool" where
  "mapped s \<longleftrightarrow> paging_inv s \<and> 2 \<le> user_frame s"

lemma window_phys:
  assumes m: "mapped s" and w: "in_window a n" "i < n"
  shows "unat (xlate s (a + of_nat i)) = user_frame s * 0x400000 + (unat a + i - 0x8000000)"
proof -
  have u: "unat (a + of_nat i) = unat a + i" using w by (rule window_unat)
  have "0x8000000 \<le> unat (a + of_nat i)" "unat (a + of_nat i) < 0x8400000" using w u by (auto simp: in_window_def)
  from walk_user[OF _ this, of s] m obtain pa where "walk s (a + of_nat i) = Some (pa, True)"
    "unat pa = user_frame s * 0x400000 + (unat (a + of_nat i) - 0x8000000)" by (auto simp: mapped_def)
  then show ?thesis using u by (simp add: xlate_def translate_def)
qed

lemma window_off:
  assumes "mapped s" "in_window a n" "p \<in> xlate s ` region a n"
  shows "\<not> display_byte p" "\<not> kernel_byte p"
proof -
  obtain i where i: "i < n" "p = xlate s (a + of_nat i)" using assms(3) by (auto simp: region_def)
  have "0x800000 \<le> unat p" using window_phys[OF assms(1,2) i(1)] assms(1) i(2) by (simp add: mapped_def)
  then show "\<not> display_byte p" "\<not> kernel_byte p"
    by (auto simp: display_byte_def kernel_byte_def)
qed

lemma program_window_inj:
  assumes "mapped s" "in_window a n"
  shows "inj_on (xlate s) (region a n)"
proof (rule inj_onI)
  fix x y assume "x \<in> region a n" "y \<in> region a n" and eq: "xlate s x = xlate s y"
  then obtain i j where ij: "i < n" "x = a + of_nat i" "j < n" "y = a + of_nat j" by (auto simp: region_def)
  then have "unat a + i - 0x8000000 = unat a + j - 0x8000000"
    using window_phys[OF assms ij(1)] window_phys[OF assms ij(3)] eq by simp
  then have "i = j" using assms(2) unfolding in_window_def by linarith
  then show "x = y" using ij by simp
qed

lemma window_nonzero: "in_window a n \<Longrightarrow> a \<noteq> 0"
  by (auto simp: in_window_def)

section \<open>A process that runs\<close>

text \<open>Descriptors 0 and 1 are the terminal.\<close>

definition std_fds :: "'a kernel_state_scheme \<Rightarrow> bool" where
  "std_fds s \<longleftrightarrow> (\<forall>i < 2. inode (cur_fd s i) \<noteq> - 1 \<and> file_table_ptr (cur_fd s i) = Some terminal_jumptable)"

definition ready :: "stacks \<Rightarrow> nat \<Rightarrow> 'a keyboard_state_scheme \<Rightarrow> bool" where
  "ready st T s \<longleftrightarrow> kernel_ok st T s \<and> std_fds s"

lemma ready_facts:
  assumes "ready st T s"
  shows "mapped s" "disp_ok s" "T < 3" "terminal_id (pcbs s (get_pcb_pointer (current_pid s))) = T"
    "file_descriptors s = get_pcb_pointer (current_pid s)" "current_terminal s < 3"
    "paging_inv s" "video_map (current_terminal s) s" "cursor_ok T s"
proof -
  have k: "alive st T s" "disp_ok s" using assms by (auto simp: ready_def kernel_ok_def)
  then obtain p ps where st: "T < 3" "st T = p # ps" "current_pid s = int p"
    by (cases "st T") (auto simp: alive_def runs_def)
  then have ch: "chain (pcbs s) T (p # ps)" using k(1) by (force simp: alive_def tables_but_def)
  show "terminal_id (pcbs s (get_pcb_pointer (current_pid s))) = T" using ch st(3) by (simp add: Let_def)
  show "T < 3" "disp_ok s" "file_descriptors s = get_pcb_pointer (current_pid s)"
    using k st by (auto simp: alive_def runs_def)
  then show t: "current_terminal s < 3" "paging_inv s" "video_map (current_terminal s) s" "cursor_ok T s"
    by (auto simp: disp_ok_def terminals_ok_def)
  have "user_frame s = nat (2 + current_pid s)" using k(1) by (simp add: alive_def runs_def)
  then show "mapped s" using t(2) st(3) by (simp add: mapped_def)
qed

lemma kernel_ok_calm:
  assumes "kernel_ok st T s" "quiet s s'" "settled s s'" "disp_ok s'"
  shows "kernel_ok st T s'"
  using kernel_ok_settled[OF assms(1,3) alive_quiet[OF assms(2)] assms(4)] assms(1) by (simp add: kernel_ok_def)

section \<open>What a run changes\<close>

text \<open>
  The program printed \<open>bs\<close>: its terminal took the characters, the other terminals are as before, and
  so is all memory but the text pages and the addresses \<open>X\<close>.
\<close>

definition ran :: "stacks \<Rightarrow> nat \<Rightarrow> addr set \<Rightarrow> byte list \<Rightarrow> 'a keyboard_state_scheme \<Rightarrow> 'a keyboard_state_scheme \<Rightarrow> bool" where
  "ran st T X bs s s' \<longleftrightarrow>
     ready st T s' \<and> (\<forall>p. \<not> display_byte p \<and> p \<notin> X \<longrightarrow> phys s' p = phys s p) \<and> xlate s' = xlate s \<and>
     current_pid s' = current_pid s \<and> fs_img_start s' = fs_img_start s \<and>
     terminal_view T s' = fold tty_put bs (terminal_view T s) \<and>
     (\<forall>u < 3. u \<noteq> T \<longrightarrow> terminal_view u s' = terminal_view u s)"

definition shown :: "stacks \<Rightarrow> nat \<Rightarrow> byte list \<Rightarrow> 'a keyboard_state_scheme \<Rightarrow> 'a keyboard_state_scheme \<Rightarrow> bool" where
  "shown st T bs s s' \<longleftrightarrow> ran st T {} bs s s' \<and> pcbs s' = pcbs s"

lemma ran_trans: "ran st T X bs s s' \<Longrightarrow> ran st T X cs s' s'' \<Longrightarrow> ran st T X (bs @ cs) s s''"
  by (simp add: ran_def)

lemma ran_refl: "ready st T s \<Longrightarrow> ran st T X [] s s"
  by (simp add: ran_def)

lemma ran_mono: "ran st T X bs s s' \<Longrightarrow> X \<subseteq> Y \<Longrightarrow> ran st T Y bs s s'"
  by (auto simp: ran_def)

lemma ran_ready: "ran st T X bs s s' \<Longrightarrow> ready st T s'"
  by (simp add: ran_def)

lemma shown_ran: "shown st T bs s s' \<Longrightarrow> ran st T X bs s s'"
  by (auto simp: shown_def intro: ran_mono)

lemma shown_trans: "shown st T bs s s' \<Longrightarrow> shown st T cs s' s'' \<Longrightarrow> shown st T (bs @ cs) s s''"
  using ran_trans by (auto simp: shown_def)

lemma shown_refl: "ready st T s \<Longrightarrow> shown st T [] s s"
  by (simp add: shown_def ran_refl)

lemma shown_fds:
  assumes "shown st T bs s s'" "ready st T s"
  shows "cur_fd s' = cur_fd s" "in_use s' = in_use s" "args (pcbs s' a) = args (pcbs s a)"
proof -
  have "file_descriptors s' = file_descriptors s"
    using assms ready_facts(5)[of st T s] ready_facts(5)[of st T s'] by (simp add: shown_def ran_def)
  then show "cur_fd s' = cur_fd s" "args (pcbs s' a) = args (pcbs s a)"
    using assms(1) by (simp_all add: shown_def cur_fd_def fun_eq_iff)
  then show "in_use s' = in_use s" by (simp add: in_use_def)
qed

lemma ran_load:
  assumes "ran st T X bs s s'" "\<not> display_byte (xlate s a)" "xlate s a \<notin> X"
  shows "load8 (xlate s') (phys s') a = load8 (xlate s) (phys s) a"
  using assms by (simp add: ran_def load8_def)

lemma ran_window:
  assumes "ran st T X bs s s'" "mapped s" "in_window a n" "xlate s ` region a n \<inter> X = {}" "i < n"
  shows "load8 (xlate s') (phys s') (a + of_nat i) = load8 (xlate s) (phys s) (a + of_nat i)"
proof -
  have "xlate s (a + of_nat i) \<in> xlate s ` region a n" using assms(5) by (auto simp: region_def)
  then show ?thesis using ran_load[OF assms(1)] window_off(1)[OF assms(2,3)] assms(4) by blast
qed

section \<open>Printing\<close>

lemma write_shown:
  fixes s :: "'a keyboard_state_scheme"
  assumes r: "ready st T s" and w: "in_window buf n"
  defines "bs \<equiv> filter (\<lambda>b. b \<noteq> 0) (bytes_at (xlate s) (phys s) buf n)"
  shows "\<exists>s'. terminal_write 1 buf (of_nat n) s = (of_nat (length bs), s') \<and> shown st T bs s s'"
proof -
  note f = ready_facts[OF r]
  let ?f = "term_frame (current_terminal s)"
  have away: "\<forall>i < n. unat (xlate s (buf + of_nat i)) div 4096 \<noteq> ?f T"
  proof (intro allI impI)
    fix i assume "i < n"
    then have "\<not> display_byte (xlate s (buf + of_nat i))"
      using window_off(1)[OF f(1) w] by (simp add: region_def)
    then show "unat (xlate s (buf + of_nat i)) div 4096 \<noteq> ?f T" using term_frame_display[OF f(6,3)] by metis
  qed
  have n: "n < 2 ^ 31" using w by (simp add: in_window_def)
  let ?u = "fold (\<lambda>c. tputc c T) bs (cli s)"
  let ?s' = "update_cursor (sti ?u)"
  note res = terminal_write_result[of s n buf, unfolded f(4), OF f(7,8,3,9) n away, folded bs_def]
  have fields: "pcbs ?u = pcbs s" "file_descriptors ?u = file_descriptors s" "current_pid ?u = current_pid s"
    "current_terminal ?u = current_terminal s"
    using console_frame_keyboard[OF res(3)] by (simp_all add: cli_def)
  have fs: "fs_img_start ?u = fs_img_start s"
    using same_tables_trans[OF same_tables_upd(3) console_frame_tables[OF res(3)]] by (simp add: same_tables_def)
  have sn: "snd (terminal_write 1 buf (of_nat n) s) = ?s'" using res(1) by simp
  have d: "disp_ok ?s'" using disp_ok_terminal_write[OF f(2)] f(3,4) sn by metis
  have q: "quiet s ?s'" using quiet_terminal_write[of s 1 buf "of_nat n"] sn by simp
  have e: "same_extra s ?s'" using same_extra_write[of s terminal_jumptable 1 buf "of_nat n"] sn by simp
  have k: "kernel_ok st T ?s'"
    using kernel_ok_calm[OF _ q settled_extra[OF e] d] r by (simp add: ready_def)
  have fields': "pcbs ?s' = pcbs s" "file_descriptors ?s' = file_descriptors s" "current_pid ?s' = current_pid s"
    "current_terminal ?s' = current_terminal s" "fs_img_start ?s' = fs_img_start s"
    "current_terminal (sti ?u) = current_terminal s"
    using fields fs by (simp_all add: update_cursor_def Let_def outb_def sti_def)
  have fr: "phys ?u p = phys s p" if "\<not> display_byte p" for p
    using res(2) that term_frame_display[OF f(6,3), of p] by (auto simp: tty_frame_def)
  have x: "xlate ?s' = xlate s" using res(2) by (simp add: tty_frame_def)
  have views: "terminal_view T ?s' = fold tty_put bs (terminal_view T s)"
    "\<forall>t < 3. t \<noteq> T \<longrightarrow> terminal_view t ?s' = terminal_view t s"
    using res(4) tty_frame_other[OF res(2) _ f(3)] by (auto simp: terminal_view_def fields'(4,6))
  have "std_fds ?s'" using r fields' by (simp add: std_fds_def cur_fd_def ready_def)
  then have "shown st T bs s ?s'" using k fields' fr x views by (simp add: shown_def ran_def ready_def)
  then show ?thesis using res(1) by blast
qed

section \<open>System calls of a running process\<close>

lemma DO_CALL_return:
  assumes "handle_syscall (shd cs) n a b c s = Some (Return v, s')"
  shows "DO_CALL n a b c (cs, s) = Some (v, (stl cs, s'))"
  using assms by (simp add: DO_CALL_def)

text \<open>The calls by number.\<close>

lemma handle_numbers:
  "handle_syscall ctx 3 a b c s = returning (read_handler ctx a b c s)"
  "handle_syscall ctx 4 a b c s = returning (write_handler a b c s)"
  "handle_syscall ctx 5 a b c s = returning (open_handler (ctx_dentry ctx) (user_string a s) s)"
  "handle_syscall ctx 6 a b c s = returning (close_handler a s)"
  "handle_syscall ctx 7 a b c s = returning (getargs_handler a b s)"
  "handle_syscall ctx 8 a b c s = Some (case vidmap_handler a s of (v, s') \<Rightarrow> (Return v, s'))"
  by (simp_all add: handle_syscall_def mp3_syscall_table_def)

lemma user_calls:
  "read_handler (shd cs) fd a n s = Some (v, s') \<Longrightarrow> ece391_read fd a n (cs, s) = Some (v, (stl cs, s'))"
  "write_handler fd a n s = Some (v, s') \<Longrightarrow> ece391_write fd a n (cs, s) = Some (v, (stl cs, s'))"
  "open_handler (ctx_dentry (shd cs)) (user_string a s) s = Some (v, s') \<Longrightarrow> ece391_open a (cs, s) = Some (v, (stl cs, s'))"
  "close_handler fd s = Some (v, s') \<Longrightarrow> ece391_close fd (cs, s) = Some (v, (stl cs, s'))"
  "getargs_handler a n s = Some (v, s') \<Longrightarrow> ece391_getargs a n (cs, s) = Some (v, (stl cs, s'))"
  "vidmap_handler a s = (v, s') \<Longrightarrow> ece391_vidmap a (cs, s) = Some (v, (stl cs, s'))"
  by (simp_all add: ece391_read_def ece391_write_def ece391_open_def ece391_close_def ece391_getargs_def
      ece391_vidmap_def DO_CALL_def handle_numbers returning_def)

lemma std_in_use:
  assumes "std_fds s" "i < 2"
  shows "check_valid_fd (of_nat i) s = 0" "fd_table (of_nat i) s = Some terminal_jumptable"
proof -
  have "i < 8" using assms(2) by simp
  then have "nat (sint (of_nat i :: u32)) = i" using sint_small by simp
  moreover have "i \<in> in_use s" using assms by (simp add: std_fds_def in_use_def)
  ultimately show "check_valid_fd (of_nat i) s = 0" "fd_table (of_nat i) s = Some terminal_jumptable"
    using assms by (auto simp: check_valid_fd_in_use fd_table_def std_fds_def)
qed

lemma user_write:
  assumes "ready st T s" "in_window buf n"
  defines "bs \<equiv> filter (\<lambda>b. b \<noteq> 0) (bytes_at (xlate s) (phys s) buf n)"
  shows "\<exists>s'. ece391_write 1 buf (of_nat n) (cs, s) = Some (of_nat (length bs), (stl cs, s')) \<and> shown st T bs s s'"
proof -
  have "check_valid_fd 1 s = 0" "fd_table 1 s = Some terminal_jumptable"
    using std_in_use[of s 1] assms(1) by (simp_all add: ready_def)
  then have "write_handler 1 buf (of_nat n) s = Some (terminal_write 1 buf (of_nat n) s)"
    by (simp add: write_handler_def)
  then show ?thesis using write_shown[OF assms(1,2), folded bs_def] user_calls(2) by metis
qed


section \<open>String literals\<close>

text \<open>The texts \<open>ts\<close> of the program lie in its window, at their addresses.\<close>

definition literals_in :: "literals \<Rightarrow> byte list set \<Rightarrow> 'a keyboard_state_scheme \<Rightarrow> bool" where
  "literals_in L ts s \<longleftrightarrow>
     (\<forall>t \<in> ts. in_window (L t) (length t + 1) \<and> is_cstr (ptr (xlate s) (phys s) (L t)) t)"

lemma is_cstr_bytes:
  assumes "is_cstr (ptr tr m a) t"
  shows "bytes_at tr m a (length t) = t" "0 \<notin> set t"
  using assms by (auto simp: is_cstr_def ptr_def in_set_conv_nth intro: nth_equalityI)

lemma is_cstr_load:
  assumes "is_cstr (ptr tr m a) t" "\<And>i. i < length t + 1 \<Longrightarrow> load8 tr m' (a + of_nat i) = load8 tr m (a + of_nat i)"
  shows "is_cstr (ptr tr m' a) t"
  using assms by (simp add: is_cstr_def ptr_def)

lemma literals_ran:
  assumes "ran st T X bs s s'" "mapped s" "literals_in L ts s"
    and "\<forall>t \<in> ts. xlate s ` region (L t) (length t + 1) \<inter> X = {}"
  shows "literals_in L ts s'"
  unfolding literals_in_def
proof (intro ballI conjI)
  fix t assume t: "t \<in> ts"
  then show w: "in_window (L t) (length t + 1)" using assms(3) by (simp add: literals_in_def)
  have x: "xlate s' = xlate s" using assms(1) by (simp add: ran_def)
  have "is_cstr (ptr (xlate s) (phys s) (L t)) t" using assms(3) t by (simp add: literals_in_def)
  then show "is_cstr (ptr (xlate s') (phys s') (L t)) t"
    unfolding x by (rule is_cstr_load) (use ran_window[OF assms(1,2) w] assms(4) t x in simp)
qed

text \<open>A string of the program reaches its terminal.\<close>

lemma fdputs_prints:
  assumes r: "ready st T s" and str: "is_cstr (ptr (xlate s) (phys s) a) t" and w: "in_window a (length t)"
  shows "\<exists>s'. ece391_fdputs 1 a (cs, s) = Some (stl cs, s') \<and> shown st T t s s'"
proof -
  note b = is_cstr_bytes[OF str]
  have bs: "filter (\<lambda>b. b \<noteq> 0) (bytes_at (xlate s) (phys s) a (length t)) = t"
    using b by (auto simp: filter_id_conv)
  have "ece391_strlen (uptr a (cs, s)) = Some (of_nat (length t))"
    using strlen_is_cstr[OF str] by (simp add: ece391_strlen_eq uptr_def)
  then show ?thesis using user_write[OF r w, of cs] by (auto simp: ece391_fdputs_def bs)
qed

lemma lit_prints:
  assumes "ready st T s" "literals_in L ts s" "t \<in> ts"
  shows "\<exists>s'. fdputs_lit L t (cs, s) = Some (stl cs, s') \<and> shown st T t s s'"
proof -
  have w: "in_window (L t) (length t)" "is_cstr (ptr (xlate s) (phys s) (L t)) t"
    using assms(2,3) by (auto simp: literals_in_def in_window_def)
  show ?thesis unfolding fdputs_lit_def by (rule fdputs_prints[OF assms(1) w(2,1)])
qed


section \<open>Opening by name\<close>

text \<open>The directory of the file system image lies in the kernel's page.\<close>

definition directory_in_kernel :: "'a kernel_state_scheme \<Rightarrow> bool" where
  "directory_in_kernel s \<longleftrightarrow>
     (\<forall>i < 63. \<forall>k < 64. kernel_byte (xlate s (dentry_addr (fs_img_start s) i + of_nat k)))"

abbreviation name_of :: "'a kernel_state_scheme \<Rightarrow> nat \<Rightarrow> byte list" where
  "name_of s \<equiv> entry_name (xlate s) (phys s) (fs_img_start s)"

abbreviation type_of :: "'a kernel_state_scheme \<Rightarrow> nat \<Rightarrow> u32" where
  "type_of s \<equiv> entry_type (xlate s) (phys s) (fs_img_start s)"

abbreviation inode_of :: "'a kernel_state_scheme \<Rightarrow> nat \<Rightarrow> u32" where
  "inode_of s \<equiv> entry_inode (xlate s) (phys s) (fs_img_start s)"

text \<open>Nothing a program does changes the directory.\<close>

definition outside_kernel :: "addr set \<Rightarrow> bool" where
  "outside_kernel X \<longleftrightarrow> (\<forall>p \<in> X. \<not> kernel_byte p)"

lemma ran_kernel_load:
  assumes "ran st T X bs s s'" "outside_kernel X" "kernel_byte (xlate s a)"
  shows "load8 (xlate s') (phys s') a = load8 (xlate s) (phys s) a"
  using ran_load[OF assms(1)] kernel_not_display[OF assms(3)] assms(2,3) by (auto simp: outside_kernel_def)

lemma ran_directory:
  assumes r: "ran st T X bs s s'" "outside_kernel X" and d: "directory_in_kernel s"
  shows "directory_in_kernel s'"
    "i < 63 \<Longrightarrow> name_of s' i = name_of s i \<and> type_of s' i = type_of s i \<and> inode_of s' i = inode_of s i"
proof -
  have x: "xlate s' = xlate s" "fs_img_start s' = fs_img_start s" using r(1) by (simp_all add: ran_def)
  show "directory_in_kernel s'" using d x by (simp add: directory_in_kernel_def)
  assume i: "i < 63"
  define a where "a = dentry_addr (fs_img_start s) i"
  have l: "load8 (xlate s') (phys s') (a + of_nat k) = load8 (xlate s) (phys s) (a + of_nat k)" if "k < 64" for k
    using ran_kernel_load[OF r] d i that by (simp add: directory_in_kernel_def a_def)
  have "read_bytes (ptr (xlate s') (phys s') a) 32 = read_bytes (ptr (xlate s) (phys s) a) 32"
    using l by (auto simp: read_bytes_ptr intro!: nth_equalityI)
  then have n: "name_of s' i = name_of s i" by (simp add: entry_name_def x cstr_def flip: a_def)
  have w: "load32 (xlate s') (phys s') (a + of_nat k) = load32 (xlate s) (phys s) (a + of_nat k)" if "k \<le> 60" for k
  proof (rule load32_cong, rule nth_equalityI)
    fix j assume "j < length (bytes_at (xlate s') (phys s') (a + of_nat k) 4)"
    then show "bytes_at (xlate s') (phys s') (a + of_nat k) 4 ! j = bytes_at (xlate s) (phys s) (a + of_nat k) 4 ! j"
      using l[of "k + j"] that by (simp add: add.assoc)
  qed simp
  then have "type_of s' i = type_of s i" "inode_of s' i = inode_of s i"
    using w[of 32] w[of 36] by (simp_all add: entry_type_def entry_inode_def x flip: a_def)
  with n show "name_of s' i = name_of s i \<and> type_of s' i = type_of s i \<and> inode_of s' i = inode_of s i" by simp
qed

lemma cstr_lit: "0 \<notin> set t \<Longrightarrow> length t \<le> n \<Longrightarrow> n < 2 ^ 32 \<Longrightarrow> cstr (lit t) n = t"
proof -
  assume t: "0 \<notin> set t" "length t \<le> n" "n < 2 ^ 32"
  have "is_cstr (lit t) t"
    using t by (auto simp: is_cstr_def lit_def unat_of_nat32 in_set_conv_nth)
  then show "cstr (lit t) n = t" using is_cstr_cstr t(2) by (metis take_all)
qed

text \<open>What \<open>open\<close> does with a name: three bytes \<open>rtc\<close> open the clock, a first byte \<open>.\<close> a directory,
  anything else a regular file.\<close>

lemma open_by_name:
  assumes str: "is_cstr f name" "length name < 2 ^ 31"
  shows "open_handler d (Some f) s =
    (if take 3 name = ascii ''rtc'' then Some (rtc_open s)
     else Some (case find (\<lambda>i. name_of s i = take 32 name) [0..<63] of
       None \<Rightarrow> (- 1, s)
     | Some i \<Rightarrow>
         if take 1 name = ascii ''.''
         then (if type_of s i = 1 then open_fd directory_jumptable (inode_of s i) 0 0 s else (- 1, s))
         else (if type_of s i = 2 then open_fd file_jumptable (inode_of s i) 0 0 s else (- 1, s))))"
proof -
  have rtc: "strncmp (lit (ascii ''rtc'')) f 3 = 0 \<longleftrightarrow> take 3 name = ascii ''rtc''"
    using is_cstr_cstr[OF str(1), of 3] cstr_lit[of "ascii ''rtc''" 3] by (auto simp: strncmp_0 ascii_def)
  have dot: "strncmp (lit (ascii ''.'')) f 1 = 0 \<longleftrightarrow> take 1 name = ascii ''.''"
    using is_cstr_cstr[OF str(1), of 1] cstr_lit[of "ascii ''.''" 1] by (auto simp: strncmp_0 ascii_def)
  have look: "read_dentry_by_name tr m fs (Some f) d =
     Some (case find (\<lambda>i. entry_name tr m fs i = take 32 name) [0..<63] of
        None \<Rightarrow> (- 1, d) | Some i \<Rightarrow> (0, found_dentry tr m fs i d))" for tr m fs
    by (rule read_dentry_by_name_find[OF str])
  show ?thesis
    by (simp add: open_handler_def rtc dot directory_open_def file_open_def look found_dentry_def split: option.split)
qed


lemma user_open_name:
  assumes "is_cstr (ptr (xlate s) (phys s) a) name" "in_window a (length name)"
    and "open_handler (ctx_dentry (shd cs)) (Some (ptr (xlate s) (phys s) a)) s = Some (v, s')"
  shows "ece391_open a (cs, s) = Some (v, (stl cs, s'))"
  using assms window_nonzero[OF assms(2)] by (intro user_calls(3)) (simp add: user_string_def)

text \<open>A descriptor that changes, with the process otherwise undisturbed.\<close>

lemma ran_upd_fd:
  fixes s :: "'a keyboard_state_scheme"
  assumes r: "ready st T s" and i: "2 \<le> i" and g: "\<And>f. typed_fd i f \<Longrightarrow> typed_fd i (g f)"
  shows "ran st T X [] s (upd_fd i g s)"
proof -
  have d: "disp_ok (upd_fd i g s)" using ready_facts(2)[OF r] by simp
  have "kernel_ok st T (upd_fd i g s)"
    using kernel_ok_calm[OF _ quiet_upd_fd[OF g] settled_extra d] r by (simp add: ready_def)
  moreover have "std_fds (upd_fd i g s)" using r i by (auto simp: ready_def std_fds_def)
  moreover have "terminal_view u (upd_fd i g s) = terminal_view u s" for u
    by (simp add: terminal_view_def upd_fd_def upd_pcb_def tty_of_def cell_def cong: if_cong)
  ultimately show ?thesis by (simp add: ran_def ready_def)
qed

lemma open_fd_ran:
  assumes "ready st T s" "open_fd ops ino pos flgs s = (v, s')" "ops \<noteq> terminal_jumptable"
  shows "ran st T X [] s s'"
proof (cases rule: first_index_cases[of "\<lambda>i. inode (cur_fd s i) = - 1" 2 8])
  case 1
  then show ?thesis using assms ran_refl by (simp add: open_fd_def get_free_fd_def)
next
  case (2 i)
  then have "s' = upd_fd i (\<lambda>_. \<lparr>file_table_ptr = Some ops, inode = ino, file_pos = pos, flags = flgs\<rparr>) s"
    using assms(2) by (simp add: open_fd_def get_free_fd_def Let_def)
  then show ?thesis using ran_upd_fd[OF assms(1) 2(2)] assms(3) by (simp add: typed_fd_def)
qed

text \<open>With the descriptors below \<open>k\<close> in use, \<open>open\<close> takes \<open>k\<close>.\<close>

lemma open_fd_next:
  assumes "in_use s = {..<k}" "2 \<le> k" "k \<le> 8" "ino \<noteq> - 1"
  shows "\<exists>s'. open_fd ops ino pos flgs s = (if k = 8 then - 1 else of_nat k, s') \<and>
    in_use s' = (if k = 8 then {..<8} else {..<Suc k}) \<and> (k = 8 \<longrightarrow> s' = s) \<and>
    (k < 8 \<longrightarrow> s' = upd_fd k (\<lambda>_. \<lparr>file_table_ptr = Some ops, inode = ino, file_pos = pos, flags = flgs\<rparr>) s)"
proof -
  have used: "inode (cur_fd s i) = - 1 \<longleftrightarrow> k \<le> i" if "i < 8" for i
    using assms(1) that unfolding in_use_def set_eq_iff mem_Collect_eq lessThan_iff by (metis not_le)
  show ?thesis
  proof (cases "k = 8")
    case True
    then have "get_free_fd s = - 1" using used by (auto simp: get_free_fd_def first_index_None)
    then show ?thesis using True assms(1) by (simp add: open_fd_def)
  next
    case False
    then have k: "k < 8" using assms(3) by simp
    have "get_free_fd s = int k" using used k assms(2) by (auto simp: get_free_fd_def first_index_Some)
    then have o: "open_fd ops ino pos flgs s =
        (of_nat k, upd_fd k (\<lambda>_. \<lparr>file_table_ptr = Some ops, inode = ino, file_pos = pos, flags = flgs\<rparr>) s)"
      by (simp add: open_fd_def)
    have "in_use (upd_fd k (\<lambda>_. \<lparr>file_table_ptr = Some ops, inode = ino, file_pos = pos, flags = flgs\<rparr>) s) = insert k (in_use s)"
      using k assms(4) by (auto simp: in_use_def)
    then show ?thesis using o k assms(1) by (auto simp: lessThan_Suc)
  qed
qed

lemma close_invalid: "\<not> (\<exists>i \<in> in_use s. fd = of_nat i) \<Longrightarrow>
   read_handler ctx fd a n s = Some (- 1, s) \<and> write_handler fd a n s = Some (- 1, s) \<and> close_handler fd s = Some (- 1, s)"
  by (simp add: read_handler_def write_handler_def close_handler_def check_valid_fd_iff)

lemma close_std:
  assumes "std_fds s" "i < 2"
  shows "close_handler (of_nat i) s = Some (- 1, s)"
  using std_in_use[OF assms] by (simp add: close_handler_def terminal_close_def)

end
