(* ===== verification/User_Image.thy ===== *)
theory User_Image
  imports User_Runs
begin

text \<open>
  A concrete machine on which the results about programs are applied: process 0 runs on terminal 0
  with its standard descriptors and the argument \<open>a\<close>; the file system image at 5 MB has the regular
  file \<open>a\<close> of four bytes and the directory \<open>.\<close>; the string literals \<open>ts\<close> of the program lie 64 bytes
  apart from \<open>0x8001000\<close> on.
\<close>

definition user_image :: "nat \<Rightarrow> byte" where
  "user_image n =
     (if n = 4 then 1 else if n = 64 then 97 else if n = 96 then 2 else if n = 128 then 46 else if n = 160 then 1
      else if n = 4096 then 4 else if n = 8192 then 127 else if n = 8193 then 69 else if n = 8194 then 76
      else if n = 8195 then 70 else 0)"

definition text_byte :: "byte list list \<Rightarrow> nat \<Rightarrow> byte" where
  "text_byte ts n =
     (if n div 64 < length ts \<and> n mod 64 < length (ts ! (n div 64)) then ts ! (n div 64) ! (n mod 64) else 0)"

definition user_mem :: "byte list list \<Rightarrow> mem" where
  "user_mem ts p =
     (if 0x500000 \<le> unat p \<and> unat p < 0x600000 then user_image (unat p - 0x500000)
      else if 0x801000 \<le> unat p then text_byte ts (unat p - 0x801000) else 0)"

definition user_lits :: "byte list list \<Rightarrow> literals" where
  "user_lits ts t = 0x8001000 + of_nat (64 * length (takeWhile (\<lambda>x. x \<noteq> t) ts))"

definition user_pcb :: pcb where
  "user_pcb = fresh_pcb\<lparr>
     pcb_fds := (\<lambda>i. if i < 2 then \<lparr>file_table_ptr = Some terminal_jumptable, inode = - 2, file_pos = 0, flags = 0\<rparr> else free_fd),
     args := (\<lambda>i. if i = 0 then 97 else 0)\<rparr>"

definition user_machine :: "byte list list \<Rightarrow> keyboard_state" where
  "user_machine ts = fresh_system\<lparr>pcbs := (\<lambda>_. user_pcb), phys := user_mem ts\<rparr>"

section \<open>The process\<close>

lemma user_machine_quiet: "quiet fresh_system (user_machine ts)"
proof -
  have "keeps fresh_pcb user_pcb" by (auto simp: keeps_def user_pcb_def fds_typed_def free_fd_def)
  moreover have "pcbs fresh_system = (\<lambda>_. fresh_pcb)" by (simp add: fresh_system_def fresh_keyboard_tables)
  ultimately show ?thesis by (simp add: quiet_def user_machine_def)
qed

lemma user_machine_kernel_ok: "kernel_ok fresh_stacks 0 (user_machine ts)"
proof (rule kernel_ok_calm[OF fresh_system_kernel_ok user_machine_quiet])
  show "disp_ok (user_machine ts)" using fresh_system_kernel_ok by (simp add: kernel_ok_def user_machine_def)
  show "settled fresh_system (user_machine ts)"
    by (rule settled_extra) (simp add: same_extra_def user_machine_def)
qed

lemma user_machine_fields [simp]:
  "fs_img_start (user_machine ts) = 0x500000" "phys (user_machine ts) = user_mem ts" "pcbs (user_machine ts) = (\<lambda>_. user_pcb)"
  "current_pid (user_machine ts) = 0"
  by (simp_all add: user_machine_def fresh_system_def fresh_keyboard_tables)
    (simp add: fresh_keyboard_def two_terminals_def rtc_state.defs kernel_state.defs)

lemma user_machine_fds: "cur_fd (user_machine ts) i = pcb_fds user_pcb i"
  by (simp add: cur_fd_def)

lemma user_machine_ready: "ready fresh_stacks 0 (user_machine ts)"
  using user_machine_kernel_ok by (simp add: ready_def std_fds_def user_machine_fds user_pcb_def)

lemma user_machine_in_use: "in_use (user_machine ts) = {..<2}"
  by (auto simp: in_use_def user_machine_fds user_pcb_def free_fd_def)

lemma user_machine_frame: "user_frame (user_machine ts) = 2"
  using user_machine_kernel_ok[of ts] by (simp add: kernel_ok_def alive_def runs_def fresh_stacks_def)

section \<open>The file system image\<close>

lemma user_xlate: "0x400000 \<le> unat a \<Longrightarrow> unat a < 0x800000 \<Longrightarrow> xlate (user_machine ts) a = a"
  by (rule xlate_kernel) (rule ready_facts(7)[OF user_machine_ready])

lemma user_load:
  assumes "n < 0x100000"
  shows "load8 (xlate (user_machine ts)) (user_mem ts) (0x500000 + of_nat n) = user_image n"
proof -
  have u: "unat (0x500000 + of_nat n :: u32) = 0x500000 + n" using assms by (simp add: unat_add_of_nat32)
  then show ?thesis using assms user_xlate[of "0x500000 + of_nat n" ts] by (simp add: load8_def user_mem_def)
qed

lemma user_dentry:
  "i < 63 \<Longrightarrow> k < 64 \<Longrightarrow>
   load8 (xlate (user_machine ts)) (user_mem ts) (dentry_addr 0x500000 i + of_nat k) = user_image (64 * i + 64 + k)"
  using user_load[of "64 * i + 64 + k" ts] by (simp add: dentry_addr_def add.assoc)

lemma user_names:
  assumes i: "i < 63"
  shows "entry_name (xlate (user_machine ts)) (user_mem ts) 0x500000 i = (if i = 0 then [97] else if i = 1 then [46] else [])"
proof -
  have b: "ptr (xlate (user_machine ts)) (user_mem ts) (dentry_addr 0x500000 i) (of_nat k) =
      (if k \<noteq> 0 then 0 else if i = 0 then 97 else if i = 1 then 46 else 0)" if "k < 32" for k
    using user_dentry[OF i, of k ts] that i by (auto simp: ptr_def user_image_def)
  show ?thesis using b[of 0] b[of 1] cstr_Suc[of _ 31] cstr_Suc[of _ 30]
    by (cases "i = 0"; cases "i = 1") (simp_all add: entry_name_def)
qed

lemma user_fields:
  assumes p: "i < 63"
  shows "entry_type (xlate (user_machine ts)) (user_mem ts) 0x500000 i = (if i = 0 then 2 else if i = 1 then 1 else 0)"
    "entry_inode (xlate (user_machine ts)) (user_mem ts) 0x500000 i = 0"
proof -
  note l = user_dentry[OF p, of _ ts]
  show "entry_type (xlate (user_machine ts)) (user_mem ts) 0x500000 i = (if i = 0 then 2 else if i = 1 then 1 else 0)"
    "entry_inode (xlate (user_machine ts)) (user_mem ts) 0x500000 i = 0"
    using l[of 32] l[of 33] l[of 34] l[of 35] l[of 36] l[of 37] l[of 38] l[of 39] p
    by (auto simp: entry_type_def entry_inode_def load32_def add.assoc user_image_def) presburger+
qed

lemma user_directory: "directory_in_kernel (user_machine ts)"
  unfolding directory_in_kernel_def
proof (intro allI impI)
  fix i k :: nat assume "i < 63" "k < 64"
  then have u: "unat (dentry_addr 0x500000 i + of_nat k) = 0x500000 + (64 * i + 64 + k)"
    using unat_add_of_nat32[of "0x500000" "64 * i + 64 + k"] by (simp add: dentry_addr_def add.assoc)
  show "kernel_byte (xlate (user_machine ts) (dentry_addr (fs_img_start (user_machine ts)) i + of_nat k))"
    using u \<open>i < 63\<close> \<open>k < 64\<close> user_xlate[of "dentry_addr 0x500000 i + of_nat k" ts] by (simp add: kernel_byte_def)
qed

section \<open>The literals\<close>

lemma length_takeWhile_neq: "t \<in> set ts \<Longrightarrow> length (takeWhile (\<lambda>x. x \<noteq> t) ts) < length ts"
  by (induction ts) auto

lemma user_literals:
  assumes ts: "length ts \<le> 1000" "\<forall>t \<in> set ts. length t < 64 \<and> 0 \<notin> set t"
  shows "literals_in (user_lits ts) (set ts) (user_machine ts)"
  unfolding literals_in_def
proof (intro ballI conjI)
  fix t assume t: "t \<in> set ts"
  define k where "k = length (takeWhile (\<lambda>x. x \<noteq> t) ts)"
  have k: "k < length ts" "ts ! k = t"
    using t nth_length_takeWhile[of "\<lambda>x. x \<noteq> t" ts] length_takeWhile_neq[OF t] by (auto simp: k_def)
  have len: "length t < 64" "0 \<notin> set t" using ts(2) t by auto
  have a: "user_lits ts t = 0x8001000 + of_nat (64 * k)" by (simp add: user_lits_def k_def)
  have u: "unat (user_lits ts t) = 0x8001000 + 64 * k"
    unfolding a using k(1) ts(1) by (subst unat_add_of_nat32) simp_all
  then show w: "in_window (user_lits ts t) (length t + 1)" using k(1) ts(1) len(1) by (simp add: in_window_def)
  have m: "mapped (user_machine ts)" by (rule ready_facts(1)[OF user_machine_ready])
  have l: "load8 (xlate (user_machine ts)) (user_mem ts) (user_lits ts t + of_nat i) = (if i < length t then t ! i else 0)"
    if "i < length t + 1" for i
  proof -
    have p: "unat (xlate (user_machine ts) (user_lits ts t + of_nat i)) = 0x801000 + (64 * k + i)"
      using window_phys[OF m w that] user_machine_frame u by simp
    have "(64 * k + i) div 64 = k" "(64 * k + i) mod 64 = i" using that len(1) by simp_all
    then show ?thesis using p k by (simp add: load8_def user_mem_def text_byte_def)
  qed
  show "is_cstr (ptr (xlate (user_machine ts)) (phys (user_machine ts)) (user_lits ts t)) t"
    using l len by (auto simp: is_cstr_def ptr_def in_set_conv_nth)
qed

end
