(* ===== verification/Test_Runs.thy ===== *)
theory Test_Runs
  imports User_Image
begin

text \<open>
  The kernel passes the error tests of \<open>ece391syserr.c\<close>: run by any process that holds only its
  standard descriptors, over a file system with a directory \<open>.\<close> and none of the misspelled names as
  a regular file, every test returns 0 and prints PASS.
\<close>

section \<open>The environment of the tests\<close>

definition pass_line :: "byte list \<Rightarrow> byte list" where
  "pass_line name = name @ ascii '': PASS'' @ [10]"

definition test_names :: "byte list list" where
  "test_names = map ascii [''err_neg_fd'', ''err_big_fd'', ''err_open_lots'', ''err_open'', ''err_unopened'',
     ''err_vidmap'', ''err_stdin_out'', ''err_syscall_num'']"

definition overall_line :: "byte list" where
  "overall_line = [10] @ ascii ''Overall Tests: PASS'' @ [10]"

text \<open>The string literals a passing run reads.\<close>

definition syserr_list :: "byte list list" where
  "syserr_list = map ascii [''.'', ''helloo'', ''shel''] @ [[]] @ map pass_line test_names @ [overall_line]"

definition syserr_texts :: "byte list set" where
  "syserr_texts = set syserr_list"

text \<open>What the tests take for granted about the file system.\<close>

definition test_files :: "'a kernel_state_scheme \<Rightarrow> bool" where
  "test_files s \<longleftrightarrow>
     directory_in_kernel s \<and>
     (\<exists>i. find (\<lambda>i. name_of s i = ascii ''.'') [0..<63] = Some i \<and> type_of s i = 1 \<and> inode_of s i \<noteq> - 1) \<and>
     (\<forall>i < 63. name_of s i \<in> {ascii ''helloo'', ascii ''shel'', []} \<longrightarrow> type_of s i \<noteq> 2)"

definition test_ready :: "stacks \<Rightarrow> nat \<Rightarrow> literals \<Rightarrow> 'a keyboard_state_scheme \<Rightarrow> bool" where
  "test_ready st T L s \<longleftrightarrow>
     ready st T s \<and> literals_in L syserr_texts s \<and> test_files s \<and> in_use s = {..<2}"

text \<open>A test passes: it returns 0, prints its line, and leaves everything as the next test needs it.\<close>

definition test_passes :: "stacks \<Rightarrow> nat \<Rightarrow> literals \<Rightarrow> byte list \<Rightarrow> ('a world \<Rightarrow> (u32 \<times> 'a world) option) \<Rightarrow> bool" where
  "test_passes st T L name test \<longleftrightarrow>
     (\<forall>cs s. test_ready st T L s \<longrightarrow>
        (\<exists>cs' s'. test (cs, s) = Some (0, (cs', s')) \<and> ran st T {} (pass_line name) s s' \<and> in_use s' = {..<2}))"

lemma find_cong_upt: "(\<And>i. i < n \<Longrightarrow> P i = Q i) \<Longrightarrow> find P [0..<n] = find Q [0..<n]"
  by (rule find_cong) auto

lemma test_files_ran:
  assumes r: "ran st T {} bs s s'" and f: "test_files s"
  shows "test_files s'"
proof -
  have o: "outside_kernel {}" by (simp add: outside_kernel_def)
  have d: "directory_in_kernel s" using f by (simp add: test_files_def)
  note same = ran_directory[OF r o d]
  have "find (\<lambda>i. name_of s' i = t) [0..<63] = find (\<lambda>i. name_of s i = t) [0..<63]" for t
    by (rule find_cong_upt) (use same(2) in simp)
  moreover obtain i where i: "find (\<lambda>i. name_of s i = ascii ''.'') [0..<63] = Some i" "type_of s i = 1" "inode_of s i \<noteq> - 1"
    using f by (auto simp: test_files_def)
  moreover have "i < 63" using i(1) by (auto simp: find_Some_iff)
  moreover have "\<forall>i < 63. name_of s' i \<in> {ascii ''helloo'', ascii ''shel'', []} \<longrightarrow> type_of s' i \<noteq> 2"
    using f same(2) by (simp add: test_files_def)
  ultimately show ?thesis using same by (auto simp: test_files_def)
qed

lemma test_ready_ran:
  assumes r: "ran st T {} bs s s'" and t: "test_ready st T L s" and u: "in_use s' = {..<2}"
  shows "test_ready st T L s'"
proof -
  have "ready st T s" "literals_in L syserr_texts s" "test_files s" using t by (simp_all add: test_ready_def)
  then show ?thesis
    using literals_ran[OF r ready_facts(1)] test_files_ran[OF r] ran_ready[OF r] u by (simp add: test_ready_def)
qed

lemma ascii_app: "ascii (xs @ ys) = ascii xs @ ascii ys"
  by (simp add: ascii_def)

lemma report_passes:
  assumes "test_ready st T L s" "name \<in> set test_names"
  shows "\<exists>cs' s'. report L name 0 (cs, s) = Some (0, (cs', s')) \<and> ran st T {} (pass_line name) s s' \<and> in_use s' = {..<2}"
proof -
  have r: "ready st T s" "literals_in L syserr_texts s" "in_use s = {..<2}" using assms(1) by (simp_all add: test_ready_def)
  have "pass_line name \<in> syserr_texts" using assms(2) by (simp add: syserr_texts_def syserr_list_def)
  then obtain s' where s': "fdputs_lit L (pass_line name) (cs, s) = Some (stl cs, s')" "shown st T (pass_line name) s s'"
    using lit_prints[OF r(1,2)] by blast
  then have "report L name 0 (cs, s) = Some (0, (stl cs, s'))" by (simp add: report_def pass_line_def)
  then show ?thesis using shown_ran[OF s'(2)] shown_fds(2)[OF s'(2) r(1)] r(3) by blast
qed

lemma expect_failure_ok [simp]: "expect_failure L msg (- 1, w) fail = Some (fail, w)"
  by (simp add: expect_failure_def)

section \<open>Each test\<close>

text \<open>Descriptors that are no descriptors.\<close>

lemma not_fd:
  assumes "in_use s = {..<2}" "\<forall>i < 8. fd \<noteq> of_nat i"
  shows "ece391_read fd a n (cs, s) = Some (- 1, (stl cs, s))" "ece391_write fd a n (cs, s) = Some (- 1, (stl cs, s))"
    "ece391_close fd (cs, s) = Some (- 1, (stl cs, s))"
proof -
  have "\<not> (\<exists>i \<in> in_use s. fd = of_nat i)" using assms by auto
  note c = close_invalid[OF this]
  show "ece391_read fd a n (cs, s) = Some (- 1, (stl cs, s))" "ece391_write fd a n (cs, s) = Some (- 1, (stl cs, s))"
    "ece391_close fd (cs, s) = Some (- 1, (stl cs, s))"
    using c by (simp_all add: user_calls(1,2,4))
qed

lemma small_fds: "(\<forall>i < 8. P i) \<longleftrightarrow> P 0 \<and> P 1 \<and> P 2 \<and> P 3 \<and> P 4 \<and> P 5 \<and> P 6 \<and> P (7 :: nat)"
  by (simp add: numeral_eq_Suc All_less_Suc2)

lemma err_fd_passes:
  assumes "name \<in> set test_names" "\<forall>i < 8. fd \<noteq> of_nat i"
  shows "test_passes st T L name (err_fd L name fd buf)"
  unfolding test_passes_def
proof (intro allI impI)
  fix cs and s :: "'a keyboard_state_scheme"
  assume t: "test_ready st T L s"
  then have u: "in_use s = {..<2}" by (simp add: test_ready_def)
  have "err_fd L name fd buf (cs, s) = report L name 0 (stl (stl (stl cs)), s)"
    by (simp add: err_fd_def not_fd[OF u assms(2)])
  then show "\<exists>cs' s'. err_fd L name fd buf (cs, s) = Some (0, cs', s') \<and> ran st T {} (pass_line name) s s' \<and> in_use s' = {..<2}"
    using report_passes[OF t assms(1)] by simp
qed

lemma err_neg_fd_passes: "test_passes st T L (ascii ''err_neg_fd'') (err_neg_fd L buf)"
  unfolding err_neg_fd_def by (rule err_fd_passes) (simp_all add: test_names_def small_fds NEG_FD_def)

lemma err_big_fd_passes: "test_passes st T L (ascii ''err_big_fd'') (err_big_fd L buf)"
  unfolding err_big_fd_def by (rule err_fd_passes) (simp_all add: test_names_def small_fds BIG_FD_def)

lemma err_vidmap_passes: "test_passes st T L (ascii ''err_vidmap'') (err_vidmap L)"
  unfolding test_passes_def
proof (intro allI impI)
  fix cs and s :: "'a keyboard_state_scheme"
  assume t: "test_ready st T L s"
  have v: "ece391_vidmap 0 (cs, s) = Some (- 1, (stl cs, s))" "ece391_vidmap 0x400000 (cs, s) = Some (- 1, (stl cs, s))" for cs
    by (rule user_calls(6), simp add: vidmap_handler_def)+
  have "err_vidmap L (cs, s) = report L (ascii ''err_vidmap'') 0 (stl (stl cs), s)"
    by (simp add: err_vidmap_def v)
  then show "\<exists>cs' s'. err_vidmap L (cs, s) = Some (0, cs', s') \<and> ran st T {} (pass_line (ascii ''err_vidmap'')) s s' \<and> in_use s' = {..<2}"
    using report_passes[OF t] by (simp add: test_names_def)
qed

lemma err_stdin_out_passes: "test_passes st T L (ascii ''err_stdin_out'') (err_stdin_out L buf)"
  unfolding test_passes_def
proof (intro allI impI)
  fix cs and s :: "'a keyboard_state_scheme"
  assume t: "test_ready st T L s"
  then have "std_fds s" by (simp add: test_ready_def ready_def)
  from std_in_use[OF this, of 0] std_in_use[OF this, of 1]
  have v: "ece391_write 0 buf 31 (cs, s) = Some (- 1, (stl cs, s))" "ece391_read 1 buf 31 (cs, s) = Some (- 1, (stl cs, s))" for cs
    by (intro user_calls(1,2); simp add: read_handler_def write_handler_def terminal_write_def terminal_read_def)+
  have "err_stdin_out L buf (cs, s) = report L (ascii ''err_stdin_out'') 0 (stl (stl cs), s)"
    by (simp add: err_stdin_out_def v)
  then show "\<exists>cs' s'. err_stdin_out L buf (cs, s) = Some (0, cs', s') \<and>
      ran st T {} (pass_line (ascii ''err_stdin_out'')) s s' \<and> in_use s' = {..<2}"
    using report_passes[OF t] by (simp add: test_names_def)
qed

lemma err_syscall_num_passes: "test_passes st T L (ascii ''err_syscall_num'') (err_syscall_num L regs)"
  unfolding test_passes_def
proof (intro allI impI)
  fix cs and s :: "'a keyboard_state_scheme"
  assume t: "test_ready st T L s"
  have v: "call_sys regs num (cs, s) = Some (- 1, (stl cs, s))" if "num < 1 \<or> num > 10" for num cs
    using that by (cases regs) (auto simp: call_sys_def DO_CALL_def handle_syscall_def)
  have "err_syscall_num L regs (cs, s) = report L (ascii ''err_syscall_num'') 0 (stl (stl (stl cs)), s)"
    by (simp add: err_syscall_num_def v BIG_NUM_def NEG_NUM_def)
  then show "\<exists>cs' s'. err_syscall_num L regs (cs, s) = Some (0, cs', s') \<and>
      ran st T {} (pass_line (ascii ''err_syscall_num'')) s s' \<and> in_use s' = {..<2}"
    using report_passes[OF t] by (simp add: test_names_def)
qed


section \<open>Opening files\<close>

lemma literal_string:
  assumes "literals_in L ts s" "t \<in> ts"
  shows "is_cstr (ptr (xlate s) (phys s) (L t)) t" "in_window (L t) (length t)"
  using assms by (auto simp: literals_in_def in_window_def)

text \<open>A name that is no regular file.\<close>

lemma open_missing:
  assumes "test_ready st T L s" "t \<in> {ascii ''helloo'', ascii ''shel'', []}"
  shows "ece391_open (L t) (cs, s) = Some (- 1, (stl cs, s))"
proof -
  have t: "t \<in> syserr_texts" "length t < 2 ^ 31" "take 3 t \<noteq> ascii ''rtc''" "take 1 t \<noteq> ascii ''.''" "take 32 t = t"
    using assms(2) by (auto simp: syserr_texts_def syserr_list_def ascii_def)
  have l: "literals_in L syserr_texts s" and f: "test_files s" using assms(1) by (simp_all add: test_ready_def)
  note str = literal_string[OF l t(1)]
  have "type_of s i \<noteq> 2" if "find (\<lambda>i. name_of s i = t) [0..<63] = Some i" for i
    using that f assms(2) by (auto simp: test_files_def find_Some_iff)
  then have "open_handler (ctx_dentry (shd cs)) (Some (ptr (xlate s) (phys s) (L t))) s = Some (- 1, s)"
    unfolding open_by_name[OF str(1) t(2)] t(5) using t(3,4) by (auto split: option.split)
  then show ?thesis by (rule user_open_name[OF str])
qed

lemma err_open_passes: "test_passes st T L (ascii ''err_open'') (err_open L)"
  unfolding test_passes_def
proof (intro allI impI)
  fix cs and s :: "'a keyboard_state_scheme"
  assume t: "test_ready st T L s"
  have "err_open L (cs, s) = report L (ascii ''err_open'') 0 (stl (stl (stl cs)), s)"
    by (simp add: err_open_def open_missing[OF t])
  then show "\<exists>cs' s'. err_open L (cs, s) = Some (0, cs', s') \<and> ran st T {} (pass_line (ascii ''err_open'')) s s' \<and> in_use s' = {..<2}"
    using report_passes[OF t] by (simp add: test_names_def)
qed

text \<open>What opening and closing directories leaves of the environment.\<close>

definition test_open :: "stacks \<Rightarrow> nat \<Rightarrow> literals \<Rightarrow> nat set \<Rightarrow> 'a keyboard_state_scheme \<Rightarrow> bool" where
  "test_open st T L ds s \<longleftrightarrow>
     ready st T s \<and> literals_in L syserr_texts s \<and> test_files s \<and> in_use s = ds \<and>
     (\<forall>i \<in> ds. 2 \<le> i \<longrightarrow> file_table_ptr (cur_fd s i) = Some directory_jumptable)"

lemma test_open_ran:
  assumes r: "ran st T {} bs s s'" and t: "ready st T s" "literals_in L syserr_texts s" "test_files s"
    and ds: "in_use s' = ds" "\<forall>i \<in> ds. 2 \<le> i \<longrightarrow> file_table_ptr (cur_fd s' i) = Some directory_jumptable"
  shows "test_open st T L ds s'"
  using literals_ran[OF r ready_facts(1)[OF t(1)] t(2)] test_files_ran[OF r t(3)] ran_ready[OF r] ds
  by (simp add: test_open_def)

lemma open_directory:
  assumes t: "test_open st T L {..<k} s" and k: "2 \<le> k" "k \<le> 8"
  shows "\<exists>s'. ece391_open (L (ascii ''.'')) (cs, s) = Some (if k = 8 then - 1 else of_nat k, (stl cs, s')) \<and>
    ran st T {} [] s s' \<and> test_open st T L {..<min 8 (Suc k)} s'"
proof -
  have l: "literals_in L syserr_texts s" and f: "test_files s" and r: "ready st T s" and u: "in_use s = {..<k}"
    using t by (simp_all add: test_open_def)
  have "ascii ''.'' \<in> syserr_texts" by (simp add: syserr_texts_def syserr_list_def)
  note str = literal_string[OF l this]
  obtain i where i: "find (\<lambda>i. name_of s i = ascii ''.'') [0..<63] = Some i" "type_of s i = 1" "inode_of s i \<noteq> - 1"
    using f by (auto simp: test_files_def)
  have c: "take 32 (ascii ''.'') = ascii ''.''" "take 3 (ascii ''.'') \<noteq> ascii ''rtc''" "length (ascii ''.'') < 2 ^ 31"
    "take 1 (ascii ''.'') = ascii ''.''"
    by (simp_all add: ascii_def)
  have o: "open_handler d (Some (ptr (xlate s) (phys s) (L (ascii ''.'')))) s =
      Some (open_fd directory_jumptable (inode_of s i) 0 0 s)" for d
    unfolding open_by_name[OF str(1) c(3)] c(1,4) using c(2) i by simp
  obtain s' where s': "open_fd directory_jumptable (inode_of s i) 0 0 s = (if k = 8 then - 1 else of_nat k, s')"
    "in_use s' = (if k = 8 then {..<8} else {..<Suc k})" "k = 8 \<longrightarrow> s' = s"
    "k < 8 \<longrightarrow> s' = upd_fd k (\<lambda>_. \<lparr>file_table_ptr = Some directory_jumptable, inode = inode_of s i, file_pos = 0, flags = 0\<rparr>) s"
    using open_fd_next[OF u k i(3)] by blast
  have ran: "ran st T {} [] s s'" by (rule open_fd_ran[OF r s'(1)]) simp
  have "\<forall>j \<in> {..<min 8 (Suc k)}. 2 \<le> j \<longrightarrow> file_table_ptr (cur_fd s' j) = Some directory_jumptable"
    using s'(3,4) t k(2) by (cases "k = 8") (auto simp: test_open_def min_def less_Suc_eq)
  moreover have "in_use s' = {..<min 8 (Suc k)}" using s'(2) k(2) by auto
  ultimately have "test_open st T L {..<min 8 (Suc k)} s'" using test_open_ran[OF ran r l f] by blast
  then show ?thesis using user_open_name[OF str, of cs] o s'(1) ran by auto
qed

lemma open_lots_rest:
  assumes "test_open st T L {..<k} s" "2 \<le> k" "k \<le> 8" "n \<le> 7"
  shows "\<exists>cs' s'. open_lots L n cnt (cs, s) = Some (cnt + (n - (8 - k)), (cs', s')) \<and>
    ran st T {} [] s s' \<and> test_open st T L {..<min 8 (k + n)} s'"
  using assms
proof (induction n arbitrary: k cnt cs s)
  case 0
  then have "ran st T {} [] s s" by (intro ran_refl) (simp add: test_open_def)
  then show ?case using 0 by (auto simp: min_def)
next
  case (Suc n)
  obtain s1 where o: "ece391_open (L (ascii ''.'')) (cs, s) = Some (if k = 8 then - 1 else of_nat k, (stl cs, s1))"
    "ran st T {} [] s s1" "test_open st T L {..<min 8 (Suc k)} s1"
    using open_directory[OF Suc.prems(1-3)] by blast
  have ne: "(of_nat k :: u32) \<noteq> - 1" if "k \<noteq> 8"
    using that Suc.prems(3) directory_fd.minus_one_no_fd[of k] by simp
  have p: "2 \<le> min 8 (Suc k)" "min 8 (Suc k) \<le> 8" "n \<le> 7" using Suc.prems by auto
  obtain cs' s' where s': "open_lots L n (if k = 8 then cnt + 1 else cnt) (stl cs, s1) =
        Some ((if k = 8 then cnt + 1 else cnt) + (n - (8 - min 8 (Suc k))), (cs', s'))"
    "ran st T {} [] s1 s'" "test_open st T L {..<min 8 (min 8 (Suc k) + n)} s'"
    using Suc.IH[OF o(3) p] by blast
  have "(if k = 8 then cnt + 1 else cnt) + (n - (8 - min 8 (Suc k))) = cnt + (Suc n - (8 - k))"
    using Suc.prems(3) by (auto simp: min_def)
  moreover have "min 8 (min 8 (Suc k) + n) = min 8 (k + Suc n)" using Suc.prems(3) by (auto simp: min_def)
  moreover have "open_lots L (Suc n) cnt (cs, s) = open_lots L n (if k = 8 then cnt + 1 else cnt) (stl cs, s1)"
    using o(1) ne by simp
  ultimately show ?case using s' ran_trans[OF o(2) s'(2)] by (intro exI[of _ cs'] exI[of _ s']) simp
qed


lemma close_directory:
  assumes t: "test_open st T L ds s" and i: "i \<in> ds" "2 \<le> i"
  shows "\<exists>s'. ece391_close (of_nat i) (cs, s) = Some (0, (stl cs, s')) \<and> ran st T {} [] s s' \<and> test_open st T L (ds - {i}) s'"
proof -
  have l: "literals_in L syserr_texts s" and f: "test_files s" and r: "ready st T s" and u: "in_use s = ds"
    and ops: "\<forall>j \<in> ds. 2 \<le> j \<longrightarrow> file_table_ptr (cur_fd s j) = Some directory_jumptable"
    using t by (simp_all add: test_open_def)
  let ?s' = "upd_fd i (\<lambda>f. f\<lparr>inode := - 1\<rparr>) s"
  have i8: "i < 8" using i(1) u by (auto simp: in_use_def)
  then have n: "nat (sint (of_nat i :: u32)) = i" using sint_small by simp
  have v: "check_valid_fd (of_nat i) s = 0" using i(1) u by (auto simp: check_valid_fd_in_use)
  have "close_handler (of_nat i) s = Some (0, ?s')"
    using ops i v by (simp add: close_handler_def fd_table_def n directory_close_def)
  moreover have ran: "ran st T {} [] s ?s'" by (rule ran_upd_fd[OF r i(2)]) (simp add: typed_fd_def)
  moreover have "in_use ?s' = ds - {i}" using u by (auto simp: in_use_def)
  then have "test_open st T L (ds - {i}) ?s'" using test_open_ran[OF ran r l f] ops by simp
  ultimately show ?thesis using user_calls(4) by blast
qed

lemma close_directories:
  assumes "test_open st T L ds s" "set is \<subseteq> ds" "\<forall>i \<in> set is. 2 \<le> i" "distinct is"
  shows "\<exists>cs' s'. close_fds is (cs, s) = Some (cs', s') \<and> ran st T {} [] s s' \<and> test_open st T L (ds - set is) s'"
  using assms
proof (induction "is" arbitrary: ds cs s)
  case Nil
  then have "ran st T {} [] s s" by (intro ran_refl) (simp add: test_open_def)
  then show ?case using Nil by simp
next
  case (Cons i "is")
  obtain s1 where s1: "ece391_close (of_nat i) (cs, s) = Some (0, (stl cs, s1))" "ran st T {} [] s s1"
    "test_open st T L (ds - {i}) s1"
    using close_directory[OF Cons.prems(1), of i cs] Cons.prems(2,3) by auto
  have "set is \<subseteq> ds - {i}" "\<forall>i \<in> set is. 2 \<le> i" "distinct is" using Cons.prems by auto
  from Cons.IH[OF s1(3) this, of "stl cs"] obtain cs' s' where s': "close_fds is (stl cs, s1) = Some (cs', s')"
    "ran st T {} [] s1 s'" "test_open st T L (ds - {i} - set is) s'" by blast
  moreover have "ds - {i} - set is = ds - set (i # is)" by auto
  ultimately show ?case using s1(1) ran_trans[OF s1(2) s'(2)] by simp
qed

lemma err_open_lots_passes: "test_passes st T L (ascii ''err_open_lots'') (err_open_lots L)"
  unfolding test_passes_def
proof (intro allI impI)
  fix cs and s :: "'a keyboard_state_scheme"
  assume t: "test_ready st T L s"
  then have "test_open st T L {..<2} s" by (auto simp: test_open_def test_ready_def)
  from open_lots_rest[OF this, of 7 0 cs] obtain cs1 s1 where s1: "open_lots L 7 0 (cs, s) = Some (1, (cs1, s1))"
    "ran st T {} [] s s1" "test_open st T L {..<8} s1" by auto
  have "set [2..<8] \<subseteq> {..<8 :: nat}" "\<forall>i \<in> set [2..<8]. 2 \<le> i" "distinct [2..<8]" by auto
  from close_directories[OF s1(3) this, of cs1] obtain cs2 s2 where s2: "close_fds [2..<8] (cs1, s1) = Some (cs2, s2)"
    "ran st T {} [] s1 s2" "test_open st T L ({..<8} - set [2..<8]) s2" by blast
  have "{..<8} - set [2..<8] = {..<2 :: nat}" by auto
  then have t2: "test_ready st T L s2" using s2(3) by (simp add: test_ready_def test_open_def)
  have "ascii ''err_open_lots'' \<in> set test_names" by (simp add: test_names_def)
  from report_passes[OF t2 this] obtain cs' s' where s': "report L (ascii ''err_open_lots'') 0 (cs2, s2) = Some (0, (cs', s'))"
    "ran st T {} (pass_line (ascii ''err_open_lots'')) s2 s'" "in_use s' = {..<2}"
    by blast
  have "err_open_lots L (cs, s) = Some (0, (cs', s'))"
    unfolding err_open_lots_def using s1(1) s2(1) s'(1) by (simp del: open_lots.simps close_fds.simps upt.simps)
  moreover have "ran st T {} (pass_line (ascii ''err_open_lots'')) s s'"
    using ran_trans[OF ran_trans[OF s1(2) s2(2)] s'(2)] by simp
  ultimately show "\<exists>cs' s'. err_open_lots L (cs, s) = Some (0, cs', s') \<and>
      ran st T {} (pass_line (ascii ''err_open_lots'')) s s' \<and> in_use s' = {..<2}"
    using s'(3) by blast
qed

text \<open>A call that fails for each descriptor of a list.\<close>

lemma expect_all_fails:
  assumes "\<And>i cs. i \<in> set is \<Longrightarrow> call i (cs, s) = Some (- 1, (stl cs, s))"
  shows "\<exists>cs'. expect_all L msg call is fail (cs, s) = Some (fail, (cs', s))"
  using assms by (induction "is" arbitrary: cs) auto

lemma err_unopened_passes: "test_passes st T L (ascii ''err_unopened'') (err_unopened L buf)"
  unfolding test_passes_def
proof (intro allI impI)
  fix cs and s :: "'a keyboard_state_scheme"
  assume t: "test_ready st T L s"
  then have u: "in_use s = {..<2}" and std: "std_fds s" by (simp_all add: test_ready_def ready_def)
  have inv: "\<not> (\<exists>j \<in> in_use s. of_nat i = (of_nat j :: u32))" if "2 \<le> i" "i < 8" for i
  proof
    assume "\<exists>j \<in> in_use s. of_nat i = (of_nat j :: u32)"
    then obtain j where j: "j < 2" "(of_nat i :: u32) = of_nat j" using u by auto
    then have "int i = int j" using sint_small[of i] sint_small[of j] that by simp
    then show False using j that by simp
  qed
  have cl: "ece391_close (of_nat i) (cs, s) = Some (- 1, (stl cs, s))" if "i < 8" for i cs
    using close_std[OF std, of i] close_invalid[OF inv[of i]] that by (intro user_calls(4)) (cases "i < 2"; simp)
  have rw: "ece391_read (of_nat i) buf 31 (cs, s) = Some (- 1, (stl cs, s))"
    "ece391_write (of_nat i) buf 31 (cs, s) = Some (- 1, (stl cs, s))" if "2 \<le> i" "i < 8" for i cs
    using close_invalid[OF inv[OF that]] by (simp_all add: user_calls(1,2))
  obtain cs1 where a1: "expect_all L (ascii ''close unopened or invalid fd fail'' @ [10]) (\<lambda>i. ece391_close (of_nat i)) [0..<8] 0 (cs, s) =
      Some (0, (cs1, s))" using expect_all_fails[of "[0..<8]"] cl by (metis atLeastLessThan_iff set_upt)
  obtain cs2 where a2: "expect_all L (ascii ''read from unopened fd fail'' @ [10]) (\<lambda>i. ece391_read (of_nat i) buf 31) [2..<8] 0 (cs1, s) =
      Some (0, (cs2, s))" using expect_all_fails[of "[2..<8]"] rw(1) by (metis atLeastLessThan_iff set_upt)
  obtain cs3 where a3: "expect_all L (ascii ''write to unopened fd fail'' @ [10]) (\<lambda>i. ece391_write (of_nat i) buf 31) [2..<8] 0 (cs2, s) =
      Some (0, (cs3, s))" using expect_all_fails[of "[2..<8]"] rw(2) by (metis atLeastLessThan_iff set_upt)
  have "err_unopened L buf (cs, s) = report L (ascii ''err_unopened'') 0 (cs3, s)"
    by (simp only: err_unopened_def a1 a2 a3 Option.bind.simps prod.case)
  then show "\<exists>cs' s'. err_unopened L buf (cs, s) = Some (0, cs', s') \<and> ran st T {} (pass_line (ascii ''err_unopened'')) s s' \<and> in_use s' = {..<2}"
    using report_passes[OF t] by (simp add: test_names_def)
qed


section \<open>Properties\<close>

lemma test_passes_then:
  assumes "test_passes st T L name test" "test_ready st T L s"
  obtains cs' s' where "test (cs, s) = Some (0, (cs', s'))" "ran st T {} (pass_line name) s s'" "test_ready st T L s'"
  using assms test_ready_ran unfolding test_passes_def by metis

lemma syserr_all_passes:
  assumes t: "test_ready st T L s"
  shows "\<exists>cs' s'. syserr_all L regs buf (cs, s) = Some (0, (cs', s')) \<and>
    ran st T {} (concat (map pass_line test_names) @ overall_line) s s' \<and> in_use s' = {..<2}"
proof -
  obtain c1 s1 where 1: "err_neg_fd L buf (cs, s) = Some (0, (c1, s1))"
    "ran st T {} (pass_line (ascii ''err_neg_fd'')) s s1" "test_ready st T L s1"
    by (rule test_passes_then[OF err_neg_fd_passes t])
  obtain c2 s2 where 2: "err_big_fd L buf (c1, s1) = Some (0, (c2, s2))"
    "ran st T {} (pass_line (ascii ''err_big_fd'')) s1 s2" "test_ready st T L s2"
    by (rule test_passes_then[OF err_big_fd_passes 1(3)])
  obtain c3 s3 where 3: "err_open_lots L (c2, s2) = Some (0, (c3, s3))"
    "ran st T {} (pass_line (ascii ''err_open_lots'')) s2 s3" "test_ready st T L s3"
    by (rule test_passes_then[OF err_open_lots_passes 2(3)])
  obtain c4 s4 where 4: "err_open L (c3, s3) = Some (0, (c4, s4))"
    "ran st T {} (pass_line (ascii ''err_open'')) s3 s4" "test_ready st T L s4"
    by (rule test_passes_then[OF err_open_passes 3(3)])
  obtain c5 s5 where 5: "err_unopened L buf (c4, s4) = Some (0, (c5, s5))"
    "ran st T {} (pass_line (ascii ''err_unopened'')) s4 s5" "test_ready st T L s5"
    by (rule test_passes_then[OF err_unopened_passes 4(3)])
  obtain c6 s6 where 6: "err_vidmap L (c5, s5) = Some (0, (c6, s6))"
    "ran st T {} (pass_line (ascii ''err_vidmap'')) s5 s6" "test_ready st T L s6"
    by (rule test_passes_then[OF err_vidmap_passes 5(3)])
  obtain c7 s7 where 7: "err_stdin_out L buf (c6, s6) = Some (0, (c7, s7))"
    "ran st T {} (pass_line (ascii ''err_stdin_out'')) s6 s7" "test_ready st T L s7"
    by (rule test_passes_then[OF err_stdin_out_passes 6(3)])
  obtain c8 s8 where 8: "err_syscall_num L regs (c7, s7) = Some (0, (c8, s8))"
    "ran st T {} (pass_line (ascii ''err_syscall_num'')) s7 s8" "test_ready st T L s8"
    by (rule test_passes_then[OF err_syscall_num_passes 7(3)])
  have r8: "ready st T s8" "literals_in L syserr_texts s8" "in_use s8 = {..<2}" using 8(3) by (simp_all add: test_ready_def)
  have "overall_line \<in> syserr_texts" by (simp add: syserr_texts_def syserr_list_def)
  then obtain s9 where 9: "fdputs_lit L overall_line (c8, s8) = Some (stl c8, s9)" "shown st T overall_line s8 s9"
    using lit_prints[OF r8(1,2)] by blast
  have "syserr_all L regs buf (cs, s) = Some (0, (stl c8, s9))"
    using 9(1) by (simp add: syserr_all_def 1(1) 2(1) 3(1) 4(1) 5(1) 6(1) 7(1) 8(1) overall_line_def)
  moreover have "ran st T {} (concat (map pass_line test_names) @ overall_line) s s9"
    using ran_trans[OF ran_trans[OF ran_trans[OF ran_trans[OF ran_trans[OF ran_trans[OF ran_trans[OF ran_trans[OF
      1(2) 2(2)] 3(2)] 4(2)] 5(2)] 6(2)] 7(2)] 8(2)] shown_ran[OF 9(2)]]
    by (simp add: test_names_def)
  ultimately show ?thesis using shown_fds(2)[OF 9(2) r8(1)] r8(3) by blast
qed

text \<open>C4: the kernel passes its authors' error tests: \<open>syserr\<close> with choice 0, run by any process that
  holds only its standard descriptors, in any state of the kernel's invariant and whatever its system
  calls meet, ends with status 0; on its terminal appear the eight PASS lines and the overall one and
  nothing else, no other terminal changes, and the six descriptors the tests opened are free again.\<close>

theorem syserr_tests_pass:
  assumes "test_ready st T L s"
  shows "\<exists>cs' s'. syserr_select L regs buf 48 (cs, s) = Some (0, (cs', s')) \<and>
    terminal_view T s' = fold tty_put (concat (map pass_line test_names) @ overall_line) (terminal_view T s) \<and>
    (\<forall>u < 3. u \<noteq> T \<longrightarrow> terminal_view u s' = terminal_view u s) \<and>
    in_use s' = {..<2} \<and> kernel_ok st T s'"
proof -
  obtain cs' s' where "syserr_all L regs buf (cs, s) = Some (0, (cs', s'))"
    "ran st T {} (concat (map pass_line test_names) @ overall_line) s s'" "in_use s' = {..<2}"
    using syserr_all_passes[OF assms] by blast
  then show ?thesis
    by (intro exI[of _ cs'] exI[of _ s']) (simp add: syserr_select_def ran_def ready_def)
qed

lemma syserr_machine_ready: "test_ready fresh_stacks 0 (user_lits syserr_list) (user_machine syserr_list)"
proof -
  have ts: "length syserr_list \<le> 1000" "\<forall>t \<in> set syserr_list. length t < 64 \<and> 0 \<notin> set t"
    by (simp_all add: syserr_list_def pass_line_def overall_line_def test_names_def ascii_def)
  have "find (\<lambda>i. name_of (user_machine syserr_list) i = ascii ''.'') [0..<63] = Some 1"
    by (subst find_cong_upt[where Q = "\<lambda>i. i = 1"]) (auto simp: user_names ascii_def upt_rec)
  then have "test_files (user_machine syserr_list)"
    by (auto simp: test_files_def user_directory user_fields user_names ascii_def)
  then show ?thesis
    using user_literals[OF ts] user_machine_ready user_machine_in_use by (simp add: test_ready_def syserr_texts_def)
qed

lemma syserr_tests_pass_witness:
  "\<exists>cs' s'. syserr_select (user_lits syserr_list) (0, 0, 0) 0x8002000 48
      (sconst \<lparr>ctx_frame = fresh_frame, ctx_regs = (0, 0), ctx_dentry = loc_dentry fresh_frame, ctx_stack = (\<lambda>_. 0), ctx_interrupts = []\<rparr>,
       user_machine syserr_list) = Some (0, (cs', s')) \<and> in_use s' = {..<2}"
  using syserr_tests_pass[OF syserr_machine_ready] by blast

end
