(* ===== verification/Blink.thy ===== *)
theory Blink
  imports User_Programs
begin

text \<open>
  The blinking characters of the \<open>fish\<close> program (\<open>src/fish/blink.S\<close>, with the allocator of
  \<open>src/fish/fish.c\<close>): a linked list of structures that live in the static array \<open>blink_array\<close>. A
  pointer into the array is the index of the element, \<open>NULL\<close> is None; a slot of the array is free when
  its location is 0. The characters go to the video page of the process, in the machine's memory.

  \<open>blinkers\<close> relates the linked structures to a list without pointers, on which the four requests
  and the clock tick are plain list functions; the simulation lemmas show that the code follows them.
\<close>

section \<open>State\<close>

record mp1_blink_struct =
  location :: u16
  on_char :: byte
  off_char :: byte
  on_length :: u16
  off_length :: u16
  countdown :: u16
  status :: u16
  next_blink :: "nat option"

record 'a fish_state =
  blink_array :: "nat \<Rightarrow> mp1_blink_struct"
  mp1_list_head :: "nat option"
  vmem_base_addr :: addr
  machine :: "'a world"

definition cells :: nat where
  "cells = 80 * 25"

lemma cells_2000: "cells = 2000"
  by (simp add: cells_def)

text \<open>A structure whose bytes are all 0.\<close>

definition blink_zero :: mp1_blink_struct where
  "blink_zero = \<lparr>location = 0, on_char = 0, off_char = 0, on_length = 0, off_length = 0,
     countdown = 0, status = 0, next_blink = None\<rparr>"

section \<open>Memory of the list\<close>

function mp1_malloc_loop :: "(nat \<Rightarrow> mp1_blink_struct) \<Rightarrow> nat \<Rightarrow> nat option" where
  "mp1_malloc_loop arr i =
     (if i < cells then if location (arr i) = 0 then Some i else mp1_malloc_loop arr (i + 1) else None)"
  by pat_completeness auto
termination by (relation "measure (\<lambda>(arr, i). cells - i)") auto

declare mp1_malloc_loop.simps [simp del]

definition mp1_malloc :: "'a fish_state \<Rightarrow> nat option" where
  "mp1_malloc s = mp1_malloc_loop (blink_array s) 0"

definition mp1_free :: "nat \<Rightarrow> 'a fish_state \<Rightarrow> 'a fish_state" where
  "mp1_free i s = s\<lparr>blink_array := (blink_array s)(i := blink_zero)\<rparr>"

text \<open>\<open>main\<close> clears the whole array.\<close>

definition clear_blinks :: "'a fish_state \<Rightarrow> 'a fish_state" where
  "clear_blinks s = s\<lparr>blink_array := (\<lambda>i. if i < cells then blink_zero else blink_array s i)\<rparr>"

section \<open>The clock tick\<close>

definition mp1_poke :: "addr \<Rightarrow> byte \<Rightarrow> 'a fish_state \<Rightarrow> 'a fish_state" where
  "mp1_poke eax cl s = s\<lparr>machine := ustore (vmem_base_addr s + eax) cl (machine s)\<rparr>"

definition cell_offset :: "mp1_blink_struct \<Rightarrow> addr" where
  "cell_offset b = push_bit 1 (ucast (location b))"

text \<open>One element: the countdown is read as a signed word.\<close>

definition blink_tick :: "nat \<Rightarrow> 'a fish_state \<Rightarrow> 'a fish_state" where
  "blink_tick i s =
     (let b = (blink_array s i)\<lparr>countdown := countdown (blink_array s i) - 1\<rparr>;
          s1 = s\<lparr>blink_array := (blink_array s)(i := b)\<rparr>
      in if 0 < sint (countdown b) then s1
         else if status b AND 1 \<noteq> 0 then
           mp1_poke (cell_offset b) (off_char b)
             (s1\<lparr>blink_array := (blink_array s1)(i := b\<lparr>countdown := off_length b, status := status b XOR 1\<rparr>)\<rparr>)
         else
           mp1_poke (cell_offset b) (on_char b)
             (s1\<lparr>blink_array := (blink_array s1)(i := b\<lparr>countdown := on_length b, status := status b XOR 1\<rparr>)\<rparr>))"

partial_function (option) tasklet_loop :: "nat option \<Rightarrow> 'a fish_state \<Rightarrow> 'a fish_state option" where
  "tasklet_loop ebx s =
     (case ebx of
        None \<Rightarrow> Some s
      | Some i \<Rightarrow> tasklet_loop (next_blink (blink_array (blink_tick i s) i)) (blink_tick i s))"

definition mp1_rtc_tasklet :: "'a fish_state \<Rightarrow> 'a fish_state option" where
  "mp1_rtc_tasklet s = tasklet_loop (mp1_list_head s) s"

section \<open>Requests\<close>

partial_function (option) find_loop :: "(nat \<Rightarrow> mp1_blink_struct) \<Rightarrow> u16 \<Rightarrow> nat option \<Rightarrow> nat option option" where
  "find_loop arr ax ebx =
     (case ebx of
        None \<Rightarrow> Some None
      | Some i \<Rightarrow> if location (arr i) = ax then Some (Some i) else find_loop arr ax (next_blink (arr i)))"

text \<open>The location is the low half of the argument.\<close>

definition mp1_find_helper :: "u32 \<Rightarrow> 'a fish_state \<Rightarrow> nat option option" where
  "mp1_find_helper arg s = find_loop (blink_array s) (ucast arg) (mp1_list_head s)"

definition mp1_ioctl_add :: "mp1_blink_struct \<Rightarrow> 'a fish_state \<Rightarrow> u32 \<times> 'a fish_state" where
  "mp1_ioctl_add user s =
     (if 80 * 25 \<le> location user then (- 1, s)
      else let temp = user\<lparr>status := 1, countdown := on_length user\<rparr>
      in case mp1_malloc s of
           None \<Rightarrow> (- 1, s)
         | Some i \<Rightarrow>
             (0, mp1_poke (cell_offset temp) (on_char temp)
                   (s\<lparr>blink_array := (blink_array s)(i := temp\<lparr>next_blink := mp1_list_head s\<rparr>),
                      mp1_list_head := Some i\<rparr>)))"

text \<open>\<open>EDX\<close> of the search for the predecessor: the address of a pointer, the head or a \<open>NEXT\<close> field.\<close>

datatype link = Head | Next nat

definition follow :: "'a fish_state \<Rightarrow> link \<Rightarrow> nat option" where
  "follow s l = (case l of Head \<Rightarrow> mp1_list_head s | Next j \<Rightarrow> next_blink (blink_array s j))"

definition set_link :: "link \<Rightarrow> nat option \<Rightarrow> 'a fish_state \<Rightarrow> 'a fish_state" where
  "set_link l p s =
     (case l of
        Head \<Rightarrow> s\<lparr>mp1_list_head := p\<rparr>
      | Next j \<Rightarrow> s\<lparr>blink_array := (blink_array s)(j := (blink_array s j)\<lparr>next_blink := p\<rparr>)\<rparr>)"

partial_function (option) remove_find_prev :: "'a fish_state \<Rightarrow> nat \<Rightarrow> link \<Rightarrow> link option" where
  "remove_find_prev s eax edx =
     (case follow s edx of
        None \<Rightarrow> None
      | Some j \<Rightarrow> if j = eax then Some edx else remove_find_prev s eax (Next j))"

definition mp1_ioctl_remove :: "u32 \<Rightarrow> 'a fish_state \<Rightarrow> (u32 \<times> 'a fish_state) option" where
  "mp1_ioctl_remove arg s =
     (case mp1_find_helper arg s of
        None \<Rightarrow> None
      | Some None \<Rightarrow> Some (- 1, s)
      | Some (Some i) \<Rightarrow>
          (case remove_find_prev s i Head of
             None \<Rightarrow> None
           | Some l \<Rightarrow> Some (0, mp1_free i (set_link l (next_blink (blink_array s i)) s))))"

text \<open>\<open>find\<close> copies the structure into the caller's.\<close>

definition mp1_ioctl_find ::
  "mp1_blink_struct \<Rightarrow> 'a fish_state \<Rightarrow> (u32 \<times> mp1_blink_struct) option" where
  "mp1_ioctl_find user s =
     (case mp1_find_helper (ucast (location user)) s of
        None \<Rightarrow> None
      | Some None \<Rightarrow> Some (- 1, user)
      | Some (Some i) \<Rightarrow> Some (0, blink_array s i))"

text \<open>
  \<open>testb\<close> clears the overflow flag and sets the sign flag to the top bit of its result; \<open>cmovl\<close>
  moves when the two differ.
\<close>

definition sync_char :: "mp1_blink_struct \<Rightarrow> byte" where
  "sync_char b = (if bit ((ucast (status b) :: byte) AND 1) 7 then on_char b else off_char b)"

definition mp1_ioctl_sync :: "u32 \<Rightarrow> 'a fish_state \<Rightarrow> (u32 \<times> 'a fish_state) option" where
  "mp1_ioctl_sync arg s =
     (case mp1_find_helper (drop_bit 16 arg) s of
        None \<Rightarrow> None
      | Some None \<Rightarrow> Some (- 1, s)
      | Some (Some esi) \<Rightarrow>
          (case mp1_find_helper (arg AND 0xFFFF) s of
             None \<Rightarrow> None
           | Some None \<Rightarrow> Some (- 1, s)
           | Some (Some edi) \<Rightarrow>
               let a = blink_array s esi;
                   b = (blink_array s edi)\<lparr>on_length := on_length a, off_length := off_length a,
                         countdown := countdown a, status := status a\<rparr>
               in Some (0, mp1_poke (cell_offset b) (sync_char b)
                    (s\<lparr>blink_array := (blink_array s)(edi := b)\<rparr>))))"

text \<open>
  The jump through \<open>call_table\<close>. \<open>user\<close> is the structure the argument of \<open>RTC_ADD\<close> and \<open>RTC_FIND\<close> points
  to; \<open>beyond\<close> stands for what a command past the table jumps to.
\<close>

definition mp1_ioctl ::
  "(u32 \<Rightarrow> u32 \<Rightarrow> mp1_blink_struct \<Rightarrow> 'a fish_state \<Rightarrow> (u32 \<times> mp1_blink_struct \<times> 'a fish_state) option) \<Rightarrow>
   u32 \<Rightarrow> u32 \<Rightarrow> mp1_blink_struct \<Rightarrow> 'a fish_state \<Rightarrow> (u32 \<times> mp1_blink_struct \<times> 'a fish_state) option" where
  "mp1_ioctl beyond arg cmd user s =
     (if cmd = 0 then (case mp1_ioctl_add user s of (r, s1) \<Rightarrow> Some (r, user, s1))
      else if cmd = 1 then map_option (\<lambda>(r, s1). (r, user, s1)) (mp1_ioctl_remove arg s)
      else if cmd = 2 then map_option (\<lambda>(r, u). (r, u, s)) (mp1_ioctl_find user s)
      else if cmd = 3 then map_option (\<lambda>(r, s1). (r, user, s1)) (mp1_ioctl_sync arg s)
      else beyond arg cmd user s)"

section \<open>The list without pointers\<close>

definition entry :: "mp1_blink_struct \<Rightarrow> mp1_blink_struct" where
  "entry b = b\<lparr>next_blink := None\<rparr>"

primrec linked :: "(nat \<Rightarrow> mp1_blink_struct) \<Rightarrow> nat option \<Rightarrow> nat list \<Rightarrow> bool" where
  "linked arr p [] \<longleftrightarrow> p = None"
| "linked arr p (i # ps) \<longleftrightarrow> p = Some i \<and> linked arr (next_blink (arr i)) ps"

definition used :: "(nat \<Rightarrow> mp1_blink_struct) \<Rightarrow> nat set" where
  "used arr = {i. i < cells \<and> location (arr i) \<noteq> 0}"

definition chain :: "(nat \<Rightarrow> mp1_blink_struct) \<Rightarrow> nat option \<Rightarrow> nat list \<Rightarrow> bool" where
  "chain arr p ps \<longleftrightarrow> linked arr p ps \<and> distinct ps \<and> set ps = used arr"

definition blinkers :: "'a fish_state \<Rightarrow> mp1_blink_struct list \<Rightarrow> bool" where
  "blinkers s bs \<longleftrightarrow>
     (\<exists>ps. chain (blink_array s) (mp1_list_head s) ps \<and> bs = map (\<lambda>i. entry (blink_array s i)) ps)"

text \<open>What a list of characters at offsets leaves on the page.\<close>

definition draw :: "addr \<Rightarrow> (addr \<times> byte) list \<Rightarrow> 'a world \<Rightarrow> 'a world" where
  "draw base xs w = fold (\<lambda>(off, c). ustore (base + off) c) xs w"

definition tick_entry :: "mp1_blink_struct \<Rightarrow> mp1_blink_struct" where
  "tick_entry b =
     (if 0 < sint (countdown b - 1) then b\<lparr>countdown := countdown b - 1\<rparr>
      else b\<lparr>countdown := (if status b AND 1 \<noteq> 0 then off_length b else on_length b), status := status b XOR 1\<rparr>)"

definition tick_draws :: "mp1_blink_struct \<Rightarrow> (addr \<times> byte) list" where
  "tick_draws b =
     (if 0 < sint (countdown b - 1) then []
      else [(cell_offset b, if status b AND 1 \<noteq> 0 then off_char b else on_char b)])"

definition list_add :: "mp1_blink_struct \<Rightarrow> mp1_blink_struct list \<Rightarrow> u32 \<times> mp1_blink_struct list \<times> (addr \<times> byte) list" where
  "list_add b bs =
     (if 2000 \<le> location b \<or> 2000 \<le> length bs then (- 1, bs, [])
      else (0, entry (b\<lparr>status := 1, countdown := on_length b\<rparr>) # bs, [(cell_offset b, on_char b)]))"

fun list_remove :: "u16 \<Rightarrow> mp1_blink_struct list \<Rightarrow> u32 \<times> mp1_blink_struct list" where
  "list_remove l [] = (- 1, [])"
| "list_remove l (b # bs) =
     (if location b = l then (0, bs) else (case list_remove l bs of (r, cs) \<Rightarrow> (r, b # cs)))"

definition list_find :: "u16 \<Rightarrow> mp1_blink_struct list \<Rightarrow> mp1_blink_struct option" where
  "list_find l bs = List.find (\<lambda>b. location b = l) bs"

text \<open>The first entry at \<open>l\<close> is replaced.\<close>

fun list_set :: "u16 \<Rightarrow> (mp1_blink_struct \<Rightarrow> mp1_blink_struct) \<Rightarrow> mp1_blink_struct list \<Rightarrow> mp1_blink_struct list" where
  "list_set l f [] = []"
| "list_set l f (b # bs) = (if location b = l then f b # bs else b # list_set l f bs)"

definition in_step :: "mp1_blink_struct \<Rightarrow> mp1_blink_struct \<Rightarrow> mp1_blink_struct" where
  "in_step a b = b\<lparr>on_length := on_length a, off_length := off_length a, countdown := countdown a, status := status a\<rparr>"

definition list_sync :: "u16 \<Rightarrow> u16 \<Rightarrow> mp1_blink_struct list \<Rightarrow> u32 \<times> mp1_blink_struct list \<times> (addr \<times> byte) list" where
  "list_sync l k bs =
     (case (list_find l bs, list_find k bs) of
        (Some a, Some b) \<Rightarrow> (0, list_set k (in_step a) bs, [(cell_offset b, off_char b)])
      | _ \<Rightarrow> (- 1, bs, []))"

section \<open>Chains\<close>

lemma linked_cong: "(\<And>i. i \<in> set ps \<Longrightarrow> next_blink (arr i) = next_blink (brr i)) \<Longrightarrow> linked arr p ps = linked brr p ps"
  by (induction ps arbitrary: p) auto

lemma linked_append:
  "linked arr p (xs @ i # ys) \<Longrightarrow> linked arr (Some i) (i # ys)"
  by (induction xs arbitrary: p) auto

lemma linked_update: "i \<notin> set ps \<Longrightarrow> linked (arr(i := b)) p ps = linked arr p ps"
  by (rule linked_cong) auto

text \<open>Taking an element out: the link before it skips it.\<close>

lemma linked_skip:
  assumes "linked arr p (xs @ i # ys)" "distinct (xs @ i # ys)" "xs \<noteq> []"
  shows "linked ((arr(last xs := (arr (last xs))\<lparr>next_blink := next_blink (arr i)\<rparr>))(i := b)) p (xs @ ys)"
  using assms
proof (induction xs arbitrary: p)
  case (Cons x xs)
  let ?arr = "(arr(last (x # xs) := (arr (last (x # xs)))\<lparr>next_blink := next_blink (arr i)\<rparr>))(i := b)"
  show ?case
  proof (cases xs)
    case Nil
    have "linked (arr(x := (arr x)\<lparr>next_blink := next_blink (arr i)\<rparr>, i := b)) (next_blink (arr i)) ys = linked arr (next_blink (arr i)) ys"
      by (rule linked_cong) (use Cons.prems(2) Nil in auto)
    then show ?thesis using Cons.prems Nil by (auto simp: fun_upd_def)
  next
    case (Cons y zs)
    then have "last xs \<in> set xs" by simp
    then have "last xs \<noteq> x" "x \<noteq> i" using Cons.prems(2) by auto
    then show ?thesis using Cons.IH[of "next_blink (arr x)"] Cons.prems Cons by auto
  qed
qed simp

lemma find_split:
  assumes "List.find P xs = Some x"
  obtains ys zs where "xs = ys @ x # zs" "P x" "\<forall>y\<in>set ys. \<not> P y"
proof -
  obtain k where k: "k < length xs" "P (xs ! k)" "x = xs ! k" "\<forall>j<k. \<not> P (xs ! j)"
    using assms by (auto simp: find_Some_iff)
  then have "xs = take k xs @ x # drop (Suc k) xs" by (simp add: id_take_nth_drop)
  moreover have "\<forall>y\<in>set (take k xs). \<not> P y" using k by (auto simp: in_set_conv_nth)
  ultimately show thesis using that k(2,3) by blast
qed

lemma find_loop_linked:
  "linked arr p ps \<Longrightarrow> find_loop arr l p = Some (List.find (\<lambda>i. location (arr i) = l) ps)"
proof (induction ps arbitrary: p)
  case Nil
  then show ?case by (simp add: find_loop.simps)
next
  case (Cons i ps)
  then show ?case by (subst find_loop.simps) simp
qed

lemma remove_find_prev_linked:
  "linked (blink_array s) (follow s l) (xs @ i # ys) \<Longrightarrow> i \<notin> set xs \<Longrightarrow>
   remove_find_prev s i l = Some (if xs = [] then l else Next (last xs))"
proof (induction xs arbitrary: l)
  case Nil
  then show ?case by (subst remove_find_prev.simps) simp
next
  case (Cons x xs)
  then have "remove_find_prev s i (Next x) = Some (if xs = [] then Next x else Next (last xs))"
    using Cons.IH[of "Next x"] by (simp add: follow_def)
  then show ?case using Cons.prems by (subst remove_find_prev.simps) simp
qed

lemma tick_entry_fields [simp]:
  "next_blink (tick_entry b) = next_blink b" "location (tick_entry b) = location b"
  "entry (tick_entry b) = tick_entry (entry b)" "tick_draws (entry b) = tick_draws b"
  by (simp_all add: tick_entry_def entry_def tick_draws_def cell_offset_def)

lemma entry_fields [simp]:
  "location (entry b) = location b" "on_char (entry b) = on_char b" "off_char (entry b) = off_char b"
  "next_blink (entry b) = None" "cell_offset (entry b) = cell_offset b"
  by (simp_all add: entry_def cell_offset_def)

lemma draw_simps [simp]:
  "draw base [] w = w" "draw base ((off, c) # xs) w = draw base xs (ustore (base + off) c w)"
  "draw base (xs @ ys) w = draw base ys (draw base xs w)"
  by (simp_all add: draw_def)

lemma blink_tick_entry:
  "blink_tick i s =
     s\<lparr>blink_array := (blink_array s)(i := tick_entry (blink_array s i)),
       machine := draw (vmem_base_addr s) (tick_draws (blink_array s i)) (machine s)\<rparr>"
  by (simp add: blink_tick_def tick_entry_def tick_draws_def mp1_poke_def Let_def cell_offset_def)

lemma tasklet_loop_linked:
  "linked (blink_array s) p ps \<Longrightarrow> distinct ps \<Longrightarrow>
   tasklet_loop p s =
     Some (s\<lparr>blink_array := (\<lambda>i. if i \<in> set ps then tick_entry (blink_array s i) else blink_array s i),
             machine := draw (vmem_base_addr s) (concat (map (\<lambda>i. tick_draws (blink_array s i)) ps)) (machine s)\<rparr>)"
proof (induction ps arbitrary: p s)
  case Nil
  then show ?case by (simp add: tasklet_loop.simps)
next
  case (Cons i ps)
  let ?s = "blink_tick i s"
  have arr: "blink_array ?s j = (if j = i then tick_entry (blink_array s i) else blink_array s j)" for j
    by (simp add: blink_tick_entry)
  have l: "linked (blink_array ?s) (next_blink (blink_array s i)) ps"
    using Cons.prems linked_cong[of ps "blink_array ?s" "blink_array s"] arr by simp
  have m: "map (\<lambda>j. tick_draws (blink_array ?s j)) ps = map (\<lambda>j. tick_draws (blink_array s j)) ps"
    using Cons.prems(2) arr by auto
  have "tasklet_loop p s = tasklet_loop (next_blink (blink_array s i)) ?s"
    using Cons.prems(1) by (subst tasklet_loop.simps) (simp add: arr)
  also have "\<dots> = Some (?s\<lparr>blink_array := (\<lambda>j. if j \<in> set ps then tick_entry (blink_array ?s j) else blink_array ?s j),
      machine := draw (vmem_base_addr ?s) (concat (map (\<lambda>j. tick_draws (blink_array s j)) ps)) (machine ?s)\<rparr>)"
    using Cons.IH[OF l] Cons.prems(2) m by simp
  also have "(\<lambda>j. if j \<in> set ps then tick_entry (blink_array ?s j) else blink_array ?s j) =
      (\<lambda>j. if j \<in> set (i # ps) then tick_entry (blink_array s j) else blink_array s j)"
    using Cons.prems(2) arr by auto
  finally show ?case by (simp add: blink_tick_entry)
qed

section \<open>The requests follow the list\<close>

text \<open>The state follows the list \<open>bs\<close>, and the characters \<open>ds\<close> were put on the page on the way.\<close>

definition follows :: "'a fish_state \<Rightarrow> 'a fish_state \<Rightarrow> mp1_blink_struct list \<Rightarrow> (addr \<times> byte) list \<Rightarrow> bool" where
  "follows s s' bs ds \<longleftrightarrow>
     blinkers s' bs \<and> machine s' = draw (vmem_base_addr s) ds (machine s) \<and> vmem_base_addr s' = vmem_base_addr s"

lemma follows_same: "blinkers s bs \<Longrightarrow> follows s s bs []"
  by (simp add: follows_def)

lemma malloc_loop_none: "mp1_malloc_loop arr i = None \<longleftrightarrow> (\<forall>j. i \<le> j \<and> j < cells \<longrightarrow> location (arr j) \<noteq> 0)"
proof (induction arr i rule: mp1_malloc_loop.induct)
  case (1 arr i)
  have "i \<le> j \<longleftrightarrow> j = i \<or> i + 1 \<le> j" for j by auto
  then have "(\<forall>j. i \<le> j \<and> j < cells \<longrightarrow> location (arr j) \<noteq> 0) \<longleftrightarrow>
      (i < cells \<longrightarrow> location (arr i) \<noteq> 0) \<and> (\<forall>j. i + 1 \<le> j \<and> j < cells \<longrightarrow> location (arr j) \<noteq> 0)"
    by (simp only:) blast
  then show ?case using 1 by (subst mp1_malloc_loop.simps) (simp split: if_splits; fastforce)
qed

lemma malloc_loop_some: "mp1_malloc_loop arr i = Some k \<Longrightarrow> k < cells \<and> location (arr k) = 0"
  by (induction arr i rule: mp1_malloc_loop.induct)
    (subst (asm) (2) mp1_malloc_loop.simps, auto split: if_splits)

lemma used_finite: "used arr \<subseteq> {..<cells}" "finite (used arr)"
  by (auto simp: used_def intro: finite_subset[of _ "{..<cells}"])

lemma chain_length:
  assumes "chain arr p ps"
  shows "length ps \<le> 2000" "2000 \<le> length ps \<longleftrightarrow> mp1_malloc_loop arr 0 = None"
proof -
  have n: "length ps = card (used arr)" using assms by (metis chain_def distinct_card)
  show "length ps \<le> 2000" using n card_mono[OF _ used_finite(1)[of arr]] by (simp add: cells_2000)
  have "2000 \<le> length ps \<longleftrightarrow> used arr = {..<cells}"
    using n card_subset_eq[OF _ used_finite(1)[of arr]] card_mono[OF _ used_finite(1)[of arr]] cells_2000
    by (metis card_lessThan finite_lessThan le_antisym order_refl)
  also have "\<dots> \<longleftrightarrow> (\<forall>j<cells. location (arr j) \<noteq> 0)" by (auto simp: used_def set_eq_iff)
  also have "\<dots> \<longleftrightarrow> mp1_malloc_loop arr 0 = None" unfolding malloc_loop_none by simp
  finally show "2000 \<le> length ps \<longleftrightarrow> mp1_malloc_loop arr 0 = None" .
qed

lemma chain_used: "chain arr p ps \<Longrightarrow> i \<in> set ps \<Longrightarrow> i < 2000 \<and> location (arr i) \<noteq> 0"
  by (auto simp: chain_def used_def cells_2000)

lemma add_follows:
  assumes b: "blinkers s bs" and u: "location u \<noteq> 0" and a: "list_add u bs = (r, bs', ds)"
  shows "\<exists>s'. mp1_ioctl_add u s = (r, s') \<and> follows s s' bs' ds"
proof -
  obtain ps where c: "chain (blink_array s) (mp1_list_head s) ps" "bs = map (\<lambda>i. entry (blink_array s i)) ps"
    using b by (auto simp: blinkers_def)
  consider "2000 \<le> location u" | "mp1_malloc s = None" "\<not> 2000 \<le> location u"
    | i where "mp1_malloc s = Some i" "\<not> 2000 \<le> location u" by (cases "mp1_malloc s") auto
  then show ?thesis
  proof cases
    case 1
    then show ?thesis using a follows_same[OF b] by (auto simp: list_add_def mp1_ioctl_add_def)
  next
    case 2
    then have "2000 \<le> length bs" using chain_length(2)[OF c(1)] c(2) by (simp add: mp1_malloc_def)
    then show ?thesis using a 2 follows_same[OF b] by (auto simp: list_add_def mp1_ioctl_add_def)
  next
    case 3
    let ?t = "u\<lparr>status := 1, countdown := on_length u\<rparr>"
    let ?arr = "(blink_array s)(i := ?t\<lparr>next_blink := mp1_list_head s\<rparr>)"
    have i: "i < cells" "location (blink_array s i) = 0" using malloc_loop_some 3 by (auto simp: mp1_malloc_def)
    then have n: "i \<notin> set ps" using chain_used[OF c(1)] by auto
    have "\<not> 2000 \<le> length bs" using chain_length(2)[OF c(1)] c(2) 3 by (simp add: mp1_malloc_def)
    then have r: "r = 0" "bs' = entry ?t # bs" "ds = [(cell_offset u, on_char u)]"
      using a 3 by (simp_all add: list_add_def)
    have "used ?arr = insert i (used (blink_array s))" using i u by (auto simp: used_def)
    then have "chain ?arr (Some i) (i # ps)" using c(1) n by (auto simp: chain_def linked_update)
    moreover have "map (\<lambda>j. entry (?arr j)) (i # ps) = bs'" using n c(2) r(2) by (auto simp: entry_def)
    ultimately show ?thesis using 3 r
      by (auto simp: mp1_ioctl_add_def follows_def blinkers_def mp1_poke_def cell_offset_def Let_def)
  qed
qed

lemma find_entries:
  "List.find (\<lambda>b. location b = l) (map (\<lambda>i. entry (arr i)) ps) =
     map_option (\<lambda>i. entry (arr i)) (List.find (\<lambda>i. location (arr i) = l) ps)"
  by (induction ps) auto

lemma find_helper_follows:
  assumes "chain (blink_array s) (mp1_list_head s) ps"
  shows "mp1_find_helper arg s = Some (List.find (\<lambda>i. location (blink_array s i) = ucast arg) ps)"
  using assms by (simp add: mp1_find_helper_def chain_def find_loop_linked)

lemma list_remove_split:
  "\<forall>b\<in>set xs. location b \<noteq> l \<Longrightarrow> location b = l \<Longrightarrow> list_remove l (xs @ b # ys) = (0, xs @ ys)"
  by (induction xs) auto

lemma list_remove_none: "\<forall>b\<in>set xs. location b \<noteq> l \<Longrightarrow> list_remove l xs = (- 1, xs)"
  by (induction xs) auto

lemma list_set_split:
  "\<forall>b\<in>set xs. location b \<noteq> l \<Longrightarrow> location b = l \<Longrightarrow> list_set l f (xs @ b # ys) = xs @ f b # ys"
  by (induction xs) auto

lemma remove_follows:
  assumes b: "blinkers s bs" and a: "list_remove (ucast arg) bs = (r, bs')"
  shows "\<exists>s'. mp1_ioctl_remove arg s = Some (r, s') \<and> follows s s' bs' []"
proof -
  obtain ps where c: "chain (blink_array s) (mp1_list_head s) ps" "bs = map (\<lambda>i. entry (blink_array s i)) ps"
    using b by (auto simp: blinkers_def)
  let ?P = "\<lambda>i. location (blink_array s i) = ucast arg"
  show ?thesis
  proof (cases "List.find ?P ps")
    case None
    then have "list_remove (ucast arg) bs = (- 1, bs)"
      using c(2) by (intro list_remove_none) (auto simp: find_None_iff)
    then show ?thesis using None a find_helper_follows[OF c(1), of arg] follows_same[OF b]
      by (auto simp: mp1_ioctl_remove_def)
  next
    case (Some i)
    then obtain xs ys where p: "ps = xs @ i # ys" "?P i" "\<forall>j\<in>set xs. \<not> ?P j" by (rule find_split)
    let ?l = "if xs = [] then Head else Next (last xs)"
    let ?s' = "mp1_free i (set_link ?l (next_blink (blink_array s i)) s)"
    have d: "linked (blink_array s) (mp1_list_head s) (xs @ i # ys)" "distinct (xs @ i # ys)" "set (xs @ i # ys) = used (blink_array s)"
      using c(1) p(1) by (auto simp: chain_def)
    have "remove_find_prev s i Head = Some ?l"
      using remove_find_prev_linked[of s Head xs i ys] d by (auto simp: follow_def)
    then have r: "mp1_ioctl_remove arg s = Some (0, ?s')"
      using find_helper_follows[OF c(1), of arg] Some by (simp add: mp1_ioctl_remove_def)
    have k: "linked (blink_array ?s') (mp1_list_head ?s') (xs @ ys)"
    proof (cases "xs = []")
      case True
      then show ?thesis using d linked_update by (auto simp: mp1_free_def set_link_def)
    next
      case False
      then show ?thesis using linked_skip[OF d(1,2) False] by (simp add: mp1_free_def set_link_def)
    qed
    have e: "j \<noteq> i \<Longrightarrow> entry (blink_array ?s' j) = entry (blink_array s j) \<and> location (blink_array ?s' j) = location (blink_array s j)" for j
      by (auto simp: mp1_free_def set_link_def entry_def)
    have z: "location (blink_array ?s' i) = 0" by (simp add: mp1_free_def blink_zero_def)
    have "used (blink_array ?s') = used (blink_array s) - {i}"
      using e z by (auto simp: used_def) metis+
    then have u: "used (blink_array ?s') = set (xs @ ys)" using d(2,3) by auto
    have "map (\<lambda>j. entry (blink_array ?s' j)) (xs @ ys) = map (\<lambda>j. entry (blink_array s j)) (xs @ ys)"
    proof (intro map_cong refl)
      fix j assume "j \<in> set (xs @ ys)"
      then have "j \<noteq> i" using d(2) by auto
      then show "entry (blink_array ?s' j) = entry (blink_array s j)" using e by blast
    qed
    moreover have "list_remove (ucast arg) bs = (0, map (\<lambda>j. entry (blink_array s j)) (xs @ ys))"
      using p c(2) list_remove_split[of "map (\<lambda>j. entry (blink_array s j)) xs"] by simp
    ultimately have "blinkers ?s' bs'" "r = 0"
      using a k u d(2) by (auto simp: blinkers_def chain_def intro!: exI[of _ "xs @ ys"])
    then show ?thesis using r by (auto simp: follows_def mp1_free_def set_link_def)
  qed
qed

lemma list_set_none: "\<forall>b\<in>set xs. location b \<noteq> l \<Longrightarrow> list_set l f xs = xs"
  by (induction xs) auto

lemma sync_char_off: "sync_char b = off_char b"
  by (simp add: sync_char_def bit_simps)

text \<open>An element changes and keeps its place in the list.\<close>

lemma chain_element:
  assumes c: "chain arr p ps" and i: "i \<in> set ps" and b: "location b = location (arr i)" "next_blink b = next_blink (arr i)"
  shows "chain (arr(i := b)) p ps"
proof -
  have "linked (arr(i := b)) p ps = linked arr p ps" by (rule linked_cong) (use b in auto)
  moreover have "used (arr(i := b)) = used arr" using b by (auto simp: used_def)
  ultimately show ?thesis using c by (simp add: chain_def)
qed

lemma sync_follows:
  assumes b: "blinkers s bs" and a: "list_sync (ucast (drop_bit 16 arg)) (ucast arg) bs = (r, bs', ds)"
  shows "\<exists>s'. mp1_ioctl_sync arg s = Some (r, s') \<and> follows s s' bs' ds"
proof -
  obtain ps where c: "chain (blink_array s) (mp1_list_head s) ps" "bs = map (\<lambda>i. entry (blink_array s i)) ps"
    using b by (auto simp: blinkers_def)
  let ?P = "\<lambda>l i. location (blink_array s i) = l"
  have mask: "(0xFFFF :: u32) = mask 16" by (simp add: mask_eq_exp_minus_1)
  have low: "ucast (arg AND 0xFFFF) = (ucast arg :: u16)"
    unfolding mask by (rule bit_word_eqI, unfold bit_unsigned_iff bit_and_iff bit_mask_iff) auto
  note h = find_helper_follows[OF c(1), of "drop_bit 16 arg"] find_helper_follows[OF c(1), of "arg AND 0xFFFF", unfolded low]
  have f: "list_find l bs = map_option (\<lambda>i. entry (blink_array s i)) (List.find (?P l) ps)" for l
    using c(2) by (simp add: list_find_def find_entries)
  consider "List.find (?P (ucast (drop_bit 16 arg))) ps = None"
    | i where "List.find (?P (ucast (drop_bit 16 arg))) ps = Some i" "List.find (?P (ucast arg)) ps = None"
    | i j where "List.find (?P (ucast (drop_bit 16 arg))) ps = Some i" "List.find (?P (ucast arg)) ps = Some j"
    by (cases "List.find (?P (ucast (drop_bit 16 arg))) ps"; cases "List.find (?P (ucast arg)) ps") auto
  then show ?thesis
  proof cases
    case 1
    then show ?thesis using a h f follows_same[OF b] by (auto simp: list_sync_def mp1_ioctl_sync_def)
  next
    case 2
    then show ?thesis using a h f follows_same[OF b] by (auto simp: list_sync_def mp1_ioctl_sync_def)
  next
    case 3
    let ?a = "blink_array s i" and ?b = "blink_array s j"
    let ?arr = "(blink_array s)(j := in_step ?a ?b)"
    obtain xs ys where p: "ps = xs @ j # ys" "?P (ucast arg) j" "\<forall>k\<in>set xs. \<not> ?P (ucast arg) k"
      using 3(2) by (rule find_split)
    have d: "j \<notin> set xs" "j \<notin> set ys" using c(1) p(1) by (auto simp: chain_def)
    have r: "r = 0" "bs' = list_set (ucast arg) (in_step (entry ?a)) bs" "ds = [(cell_offset ?b, off_char ?b)]"
      using a 3 f by (auto simp: list_sync_def)
    have "chain ?arr (mp1_list_head s) ps" using p(1) by (intro chain_element[OF c(1)]) (auto simp: in_step_def)
    moreover have "map (\<lambda>k. entry (?arr k)) ps = bs'"
      using p d c(2) r(2) list_set_split[of "map (\<lambda>k. entry (blink_array s k)) xs"]
      by (simp add: entry_def in_step_def map_idI)
    ultimately show ?thesis using 3 r h
      by (auto simp: mp1_ioctl_sync_def follows_def blinkers_def mp1_poke_def cell_offset_def Let_def sync_char_off in_step_def)
  qed
qed

lemma find_follows:
  assumes b: "blinkers s bs"
  shows "(case list_find (location u) bs of
      None \<Rightarrow> mp1_ioctl_find u s = Some (- 1, u)
    | Some e \<Rightarrow> \<exists>v. mp1_ioctl_find u s = Some (0, v) \<and> entry v = e)"
proof -
  obtain ps where c: "chain (blink_array s) (mp1_list_head s) ps" "bs = map (\<lambda>i. entry (blink_array s i)) ps"
    using b by (auto simp: blinkers_def)
  have "ucast (ucast (location u) :: u32) = location u" by (rule bit_word_eqI) (auto simp: bit_simps)
  then show ?thesis using find_helper_follows[OF c(1), of "ucast (location u)"] c(2)
    by (auto simp: mp1_ioctl_find_def list_find_def find_entries split: option.splits)
qed

lemma entry_entries: "blinkers s bs \<Longrightarrow> b \<in> set bs \<Longrightarrow> entry b = b"
  by (auto simp: blinkers_def entry_def)

section \<open>Properties\<close>

text \<open>A request on the list: its result, the caller's structure, the list and the characters drawn.\<close>

definition list_ioctl ::
  "u32 \<Rightarrow> u32 \<Rightarrow> mp1_blink_struct \<Rightarrow> mp1_blink_struct list \<Rightarrow>
   u32 \<times> mp1_blink_struct \<times> mp1_blink_struct list \<times> (addr \<times> byte) list" where
  "list_ioctl arg cmd u bs =
     (if cmd = 0 then (case list_add u bs of (r, cs, ds) \<Rightarrow> (r, u, cs, ds))
      else if cmd = 1 then (case list_remove (ucast arg) bs of (r, cs) \<Rightarrow> (r, u, cs, []))
      else if cmd = 2 then (case list_find (location u) bs of None \<Rightarrow> (- 1, u, bs, []) | Some b \<Rightarrow> (0, b, bs, []))
      else (case list_sync (ucast (drop_bit 16 arg)) (ucast arg) bs of (r, cs, ds) \<Rightarrow> (r, u, cs, ds)))"

text \<open>C18: 
  The requests on the linked structures do what they do on the list: every request comes back, with
  the list's result, and draws the list's characters. The elements stay a chain without repetition
  of exactly the slots in use. A character at location 0 is excluded (see \<open>corner_blinker_hangs\<close>).
\<close>

theorem blink_requests_refine:
  assumes b: "blinkers s bs" and cmd: "cmd < 4" and u: "cmd = 0 \<Longrightarrow> location u \<noteq> 0"
    and l: "list_ioctl arg cmd u bs = (r, u', bs', ds)"
  shows "\<exists>v s'. mp1_ioctl beyond arg cmd u s = Some (r, v, s') \<and> entry v = entry u' \<and> follows s s' bs' ds"
proof -
  have "unat cmd < 4" using cmd by (simp add: word_less_nat_alt)
  then have "unat cmd = 0 \<or> unat cmd = 1 \<or> unat cmd = 2 \<or> unat cmd = 3" by arith
  then have "cmd = 0 \<or> cmd = 1 \<or> cmd = 2 \<or> cmd = 3" by (auto simp: word_unat_eq_iff)
  then consider "cmd = 0" | "cmd = 1" | "cmd = 2" | "cmd = 3" by blast
  then show ?thesis
  proof cases
    case 1
    obtain x y z where a: "list_add u bs = (x, y, z)" by (cases "list_add u bs") auto
    from add_follows[OF b u[OF 1] a] show ?thesis using 1 l a by (auto simp: mp1_ioctl_def list_ioctl_def)
  next
    case 2
    obtain x y where a: "list_remove (ucast arg) bs = (x, y)" by (cases "list_remove (ucast arg) bs") auto
    from remove_follows[OF b a] show ?thesis using 2 l a by (auto simp: mp1_ioctl_def list_ioctl_def)
  next
    case 3
    from find_follows[OF b, of u] show ?thesis using 3 l follows_same[OF b] entry_entries[OF b]
      by (auto simp: mp1_ioctl_def list_ioctl_def list_find_def find_Some_iff entry_def split: option.splits)
  next
    case 4
    obtain x y z where a: "list_sync (ucast (drop_bit 16 arg)) (ucast arg) bs = (x, y, z)"
      by (cases "list_sync (ucast (drop_bit 16 arg)) (ucast arg) bs") auto
    from sync_follows[OF b a] show ?thesis using 4 l a by (auto simp: mp1_ioctl_def list_ioctl_def)
  qed
qed

lemma tick_follows:
  assumes "blinkers s bs"
  shows "\<exists>s'. mp1_rtc_tasklet s = Some s' \<and> follows s s' (map tick_entry bs) (concat (map tick_draws bs))"
proof -
  obtain ps where c: "chain (blink_array s) (mp1_list_head s) ps" "bs = map (\<lambda>i. entry (blink_array s i)) ps"
    using assms by (auto simp: blinkers_def)
  let ?arr = "\<lambda>i. if i \<in> set ps then tick_entry (blink_array s i) else blink_array s i"
  have "linked ?arr (mp1_list_head s) ps" "used ?arr = used (blink_array s)"
    using c(1) linked_cong[of ps ?arr "blink_array s"] by (auto simp: chain_def used_def)
  then have "chain ?arr (mp1_list_head s) ps" using c(1) by (simp add: chain_def)
  moreover have "map (\<lambda>i. entry (?arr i)) ps = map tick_entry bs" using c(2) by simp
  moreover have "map (\<lambda>i. tick_draws (blink_array s i)) ps = map tick_draws bs" using c(2) by simp
  ultimately show ?thesis using tasklet_loop_linked[of s "mp1_list_head s" ps] c(1)
    by (auto simp: mp1_rtc_tasklet_def follows_def blinkers_def chain_def)
qed

text \<open>The empty list, and a machine for the witnesses.\<close>

lemma blinkers_clear: "mp1_list_head s = None \<Longrightarrow> blinkers (clear_blinks s) []"
  by (auto simp: blinkers_def chain_def used_def clear_blinks_def blink_zero_def)

definition fish_start :: "'a world \<Rightarrow> 'a fish_state" where
  "fish_start w = clear_blinks \<lparr>blink_array = (\<lambda>_. blink_zero), mp1_list_head = None, vmem_base_addr = 0xB8000, machine = w\<rparr>"

definition bubble :: mp1_blink_struct where
  "bubble = \<lparr>location = 540, on_char = 73, off_char = 77, on_length = 7, off_length = 6,
     countdown = 0, status = 0, next_blink = None\<rparr>"

lemma fish_start_blinkers: "blinkers (fish_start w) []"
  unfolding fish_start_def by (rule blinkers_clear) simp

theorem blink_requests_refine_witness:
  "\<forall>w. \<exists>v s'. mp1_ioctl (\<lambda>_ _ _ _. None) 0 0 bubble (fish_start w) = Some (0, v, s') \<and> entry v = bubble \<and>
     follows (fish_start w) s' [bubble\<lparr>status := 1, countdown := 7\<rparr>] [(1080, 73)]"
proof
  fix w
  have "list_ioctl 0 0 bubble [] = (0, bubble, [bubble\<lparr>status := 1, countdown := 7\<rparr>], [(1080, 73)])"
    by (simp add: list_ioctl_def list_add_def bubble_def entry_def cell_offset_def)
  from blink_requests_refine[OF fish_start_blinkers _ _ this]
  show "\<exists>v s'. mp1_ioctl (\<lambda>_ _ _ _. None) 0 0 bubble (fish_start w) = Some (0, v, s') \<and> entry v = bubble \<and>
     follows (fish_start w) s' [bubble\<lparr>status := 1, countdown := 7\<rparr>] [(1080, 73)]"
    by (simp add: bubble_def entry_def)
qed

lemma bubble_added:
  "\<exists>s. mp1_ioctl_add bubble (fish_start w) = (0, s) \<and> follows (fish_start w) s [bubble\<lparr>status := 1, countdown := 7\<rparr>] [(1080, 73)]"
  by (rule add_follows[OF fish_start_blinkers]) (simp_all add: bubble_def list_add_def entry_def cell_offset_def)

section \<open>A character in the corner\<close>

lemma malloc_loop_cong:
  "(\<And>j. location (arr j) = location (brr j)) \<Longrightarrow> mp1_malloc_loop arr i = mp1_malloc_loop brr i"
  by (induction arr i rule: mp1_malloc_loop.induct) (subst (1 2) mp1_malloc_loop.simps, simp)

lemma self_loop_hangs:
  assumes "tasklet_loop p s = Some s'" "p = Some i"
  shows "next_blink (blink_array s i) \<noteq> Some i"
proof -
  have "p = Some i \<longrightarrow> next_blink (blink_array s i) \<noteq> Some i"
    by (rule tasklet_loop.raw_induct[where P = "\<lambda>p s s'. p = Some i \<longrightarrow> next_blink (blink_array s i) \<noteq> Some i", OF _ assms(1)])
      (intro impI notI, simp add: blink_tick_entry, fastforce)
  then show ?thesis using assms(2) by blast
qed

text \<open>C33: 
  A slot whose character is at location 0 counts as free. The next character added takes the same
  slot, whose \<open>NEXT\<close> then points to itself: the clock tick never ends.
\<close>

theorem corner_blinker_hangs:
  assumes b: "blinkers s bs" "length bs < 2000" and u: "location u = 0" and v: "location v < 2000"
  shows "\<exists>s1 s2. mp1_ioctl_add u s = (0, s1) \<and> mp1_ioctl_add v s1 = (0, s2) \<and> mp1_rtc_tasklet s2 = None"
proof -
  obtain ps where c: "chain (blink_array s) (mp1_list_head s) ps" "length bs = length ps"
    using b(1) by (auto simp: blinkers_def)
  then obtain i where i: "mp1_malloc s = Some i" using chain_length(2)[OF c(1)] b(2)
    by (fastforce simp: mp1_malloc_def)
  then have z: "location (blink_array s i) = 0" using malloc_loop_some by (auto simp: mp1_malloc_def)
  obtain s1 where s1: "mp1_ioctl_add u s = (0, s1)" using i u by (auto simp: mp1_ioctl_add_def Let_def)
  then have a: "blink_array s1 = (blink_array s)(i := u\<lparr>status := 1, countdown := on_length u, next_blink := mp1_list_head s\<rparr>)"
      "mp1_list_head s1 = Some i"
    using i u by (auto simp: mp1_ioctl_add_def Let_def mp1_poke_def)
  have m: "mp1_malloc s1 = Some i"
    using malloc_loop_cong[of "blink_array s1" "blink_array s" 0] i u z a by (simp add: mp1_malloc_def)
  obtain s2 where s2: "mp1_ioctl_add v s1 = (0, s2)" using m v by (auto simp: mp1_ioctl_add_def Let_def not_le[symmetric])
  have "mp1_list_head s2 = Some i" "next_blink (blink_array s2 i) = Some i"
    using s2 v a unfolding mp1_ioctl_add_def m by (auto simp: Let_def mp1_poke_def not_le[symmetric])
  then have "mp1_rtc_tasklet s2 = None" using self_loop_hangs[of "Some i" s2 _ i]
    by (cases "mp1_rtc_tasklet s2") (auto simp: mp1_rtc_tasklet_def)
  then show ?thesis using s1 s2 by blast
qed

theorem corner_blinker_hangs_witness:
  "\<forall>w. \<exists>s1 s2. mp1_ioctl_add (bubble\<lparr>location := 0\<rparr>) (fish_start w) = (0, s1) \<and> mp1_ioctl_add bubble s1 = (0, s2) \<and>
     mp1_rtc_tasklet s2 = None"
  by (intro allI corner_blinker_hangs[OF fish_start_blinkers]) (simp_all add: bubble_def)

section \<open>What the page shows\<close>

definition face :: "mp1_blink_struct \<Rightarrow> byte" where
  "face b = (if status b AND 1 \<noteq> 0 then on_char b else off_char b)"

definition page_byte :: "'a fish_state \<Rightarrow> mp1_blink_struct \<Rightarrow> byte" where
  "page_byte s b = uload (vmem_base_addr s + cell_offset b) (machine s)"

text \<open>The page of the process: no two of its bytes are the same byte of memory.\<close>

definition page_apart :: "'a fish_state \<Rightarrow> bool" where
  "page_apart s \<longleftrightarrow> inj_on (xlate (snd (machine s))) (region (vmem_base_addr s) 4000)"

definition page_shows :: "'a fish_state \<Rightarrow> bool" where
  "page_shows s \<longleftrightarrow> page_apart s \<and>
     (\<exists>bs. blinkers s bs \<and> distinct (map location bs) \<and> (\<forall>b\<in>set bs. location b < 2000 \<and> page_byte s b = face b))"

text \<open>A location no character has.\<close>

definition free_location :: "u16 \<Rightarrow> 'a fish_state \<Rightarrow> bool" where
  "free_location l s \<longleftrightarrow> l \<noteq> 0 \<and> (\<forall>i<cells. location (blink_array s i) \<noteq> l)"

inductive blink_step :: "'a fish_state \<Rightarrow> 'a fish_state \<Rightarrow> bool" where
  tick: "mp1_rtc_tasklet s = Some s' \<Longrightarrow> blink_step s s'"
| add: "free_location (location u) s \<Longrightarrow> mp1_ioctl_add u s = (r, s') \<Longrightarrow> blink_step s s'"
| remove: "mp1_ioctl_remove arg s = Some (r, s') \<Longrightarrow> blink_step s s'"

inductive_cases blink_stepE: "blink_step s s'"

lemma cell_offset_nat: "location b < 2000 \<Longrightarrow> cell_offset b = of_nat (2 * unat (location b)) \<and> 2 * unat (location b) < 4000"
  by (simp add: cell_offset_def word_less_nat_alt push_bit_eq_mult)

lemma unat_cell_offset:
  assumes "location b < 2000"
  shows "unat (cell_offset b) = 2 * unat (location b)"
proof -
  have "2 * unat (location b) < 2 ^ 32" using cell_offset_nat[OF assms] by simp
  then show ?thesis unfolding conjunct1[OF cell_offset_nat[OF assms]] by (rule unat_of_nat32)
qed

lemma cell_in_page: "location b < 2000 \<Longrightarrow> base + cell_offset b \<in> region base 4000"
  unfolding region_def by (metis (no_types, lifting) cell_offset_nat image_eqI lessThan_iff)

lemma cell_apart:
  assumes "page_apart s" "location a < 2000" "location b < 2000"
  shows "xlate (snd (machine s)) (vmem_base_addr s + cell_offset a) = xlate (snd (machine s)) (vmem_base_addr s + cell_offset b) \<longleftrightarrow>
    location a = location b"
proof -
  have r: "vmem_base_addr s + cell_offset a \<in> region (vmem_base_addr s) 4000"
      "vmem_base_addr s + cell_offset b \<in> region (vmem_base_addr s) 4000"
    using cell_in_page assms(2,3) by blast+
  have "cell_offset a = cell_offset b \<longleftrightarrow> location a = location b"
    using unat_cell_offset[OF assms(2)] unat_cell_offset[OF assms(3)] by (metis mult_left_cancel word_unat_eq_iff zero_neq_numeral)
  then show ?thesis using inj_on_eq_iff[OF assms(1)[unfolded page_apart_def] r] by simp
qed

lemma xlate_ustore [simp]: "xlate (snd (ustore a c w)) = xlate (snd w)"
  by (simp add: ustore_def)

lemma xlate_draw [simp]: "xlate (snd (draw base ds w)) = xlate (snd w)"
proof (induction ds arbitrary: w)
  case (Cons d ds)
  then show ?case by (cases d) (simp del: split_paired_All)
qed simp

lemma uload_ustore: "uload a (ustore b c w) = (if xlate (snd w) a = xlate (snd w) b then c else uload a w)"
  by (simp add: uload_def ustore_def load8_store8)

lemma follows_apart: "follows s s' bs ds \<Longrightarrow> page_apart s' = page_apart s"
  by (simp add: follows_def page_apart_def)

lemma page_byte_follows: "follows s s' bs ds \<Longrightarrow> page_byte s' b = uload (vmem_base_addr s + cell_offset b) (draw (vmem_base_addr s) ds (machine s))"
  by (simp add: follows_def page_byte_def)

text \<open>Drawing one entry, seen from a cell of the page.\<close>

lemma uload_draw_cell:
  assumes "page_apart s" "location a < 2000" "location b < 2000" "xlate (snd w) = xlate (snd (machine s))"
  shows "uload (vmem_base_addr s + cell_offset b) (ustore (vmem_base_addr s + cell_offset a) c w) =
    (if location b = location a then c else uload (vmem_base_addr s + cell_offset b) w)"
  using cell_apart[OF assms(1,3,2)] assms(4) by (simp add: uload_ustore)

lemma face_tick: "face (tick_entry b) = (if tick_draws b = [] then face b else snd (hd (tick_draws b)))"
proof -
  have "(status b XOR 1) AND 1 \<noteq> 0 \<longleftrightarrow> status b AND 1 = 0"
  proof -
    have "bit ((status b XOR 1) AND 1) 0 \<longleftrightarrow> \<not> bit (status b AND 1) 0" by (simp add: bit_simps)
    moreover have "(x AND 1 = 0) = (\<not> bit (x AND 1) 0)" for x :: u16 by (simp add: and_one_eq odd_iff_mod_2_eq_one bit_simps)
    ultimately show ?thesis by blast
  qed
  then show ?thesis by (auto simp: face_def tick_entry_def tick_draws_def)
qed

lemma draw_ticks:
  assumes "page_apart s" "\<forall>a\<in>set bs. location a < 2000" "location b < 2000" "xlate (snd w) = xlate (snd (machine s))"
    "distinct (map location bs)"
  shows "uload (vmem_base_addr s + cell_offset b) (draw (vmem_base_addr s) (concat (map tick_draws bs)) w) =
    (case List.find (\<lambda>a. location a = location b) bs of
       Some a \<Rightarrow> if tick_draws a = [] then uload (vmem_base_addr s + cell_offset b) w else snd (hd (tick_draws a))
     | None \<Rightarrow> uload (vmem_base_addr s + cell_offset b) w)"
  using assms(2,4,5)
proof (induction bs arbitrary: w)
  case (Cons a bs)
  let ?w = "draw (vmem_base_addr s) (tick_draws a) w"
  have IH: "uload (vmem_base_addr s + cell_offset b) (draw (vmem_base_addr s) (concat (map tick_draws bs)) ?w) =
    (case List.find (\<lambda>a. location a = location b) bs of
       Some a \<Rightarrow> if tick_draws a = [] then uload (vmem_base_addr s + cell_offset b) ?w else snd (hd (tick_draws a))
     | None \<Rightarrow> uload (vmem_base_addr s + cell_offset b) ?w)"
    using Cons.IH[of ?w] Cons.prems by simp
  have w: "uload (vmem_base_addr s + cell_offset b) ?w =
      (if location b = location a \<and> tick_draws a \<noteq> [] then snd (hd (tick_draws a)) else uload (vmem_base_addr s + cell_offset b) w)"
    using uload_draw_cell[OF assms(1) _ assms(3) Cons.prems(2), of a] Cons.prems(1) by (simp add: tick_draws_def)
  have "List.find (\<lambda>a. location a = location b) bs = None" if "location a = location b"
    using Cons.prems(3) that by (simp add: find_None_iff) (metis imageI)
  then show ?case using IH w by (auto split: option.splits)
qed simp

lemma find_distinct:
  "distinct (map location bs) \<Longrightarrow> b \<in> set bs \<Longrightarrow> List.find (\<lambda>a. location a = location b) bs = Some b"
  by (induction bs) force+

lemma list_remove_keeps:
  "list_remove l bs = (r, cs) \<Longrightarrow> set cs \<subseteq> set bs \<and> (distinct (map location bs) \<longrightarrow> distinct (map location cs))"
proof (induction bs arbitrary: r cs)
  case (Cons b bs)
  show ?case
  proof (cases "location b = l")
    case False
    obtain r' ds where "list_remove l bs = (r', ds)" by (cases "list_remove l bs") auto
    then show ?thesis using Cons.IH[of r' ds] Cons.prems False by (fastforce simp: image_iff)
  qed (use Cons.prems in auto)
qed simp

lemma page_shows_follows:
  assumes a: "page_apart s" and f: "follows s s' bs' ds" and d: "distinct (map location bs')"
    and p: "\<And>b. b \<in> set bs' \<Longrightarrow> location b < 2000 \<and>
      uload (vmem_base_addr s + cell_offset b) (draw (vmem_base_addr s) ds (machine s)) = face b"
  shows "page_shows s'"
  using p d f page_byte_follows[OF f] a follows_apart[OF f] by (auto simp: page_shows_def follows_def)

lemma tick_page:
  assumes "page_shows s" "mp1_rtc_tasklet s = Some s'"
  shows "page_shows s'"
proof -
  obtain bs where b: "page_apart s" "blinkers s bs" "distinct (map location bs)"
      "\<forall>b\<in>set bs. location b < 2000 \<and> page_byte s b = face b"
    using assms(1) by (auto simp: page_shows_def)
  have f: "follows s s' (map tick_entry bs) (concat (map tick_draws bs))"
    using tick_follows[OF b(2)] assms(2) by auto
  show ?thesis
  proof (rule page_shows_follows[OF b(1) f])
    show "distinct (map location (map tick_entry bs))" using b(3) by (simp add: comp_def)
    fix e assume "e \<in> set (map tick_entry bs)"
    then obtain a where e: "a \<in> set bs" "e = tick_entry a" by auto
    then have o: "location e = location a" "location e < 2000" "cell_offset e = cell_offset a"
      using b(4) by (simp_all add: cell_offset_def)
    show "location e < 2000 \<and>
      uload (vmem_base_addr s + cell_offset e) (draw (vmem_base_addr s) (concat (map tick_draws bs)) (machine s)) = face e"
      using draw_ticks[OF b(1) _ o(2) refl b(3)] find_distinct[OF b(3) e(1)] b(4) e o face_tick[of a]
      by (simp add: page_byte_def)
  qed
qed

lemma add_page:
  assumes "page_shows s" "free_location (location u) s" "mp1_ioctl_add u s = (r, s')"
  shows "page_shows s'"
proof -
  obtain bs where b: "page_apart s" "blinkers s bs" "distinct (map location bs)"
      "\<forall>b\<in>set bs. location b < 2000 \<and> page_byte s b = face b"
    using assms(1) by (auto simp: page_shows_def)
  obtain r' bs' ds where l: "list_add u bs = (r', bs', ds)" by (cases "list_add u bs") auto
  then have f: "follows s s' bs' ds" using add_follows[OF b(2) _ l] assms(2,3) by (auto simp: free_location_def)
  let ?e = "entry (u\<lparr>status := 1, countdown := on_length u\<rparr>)"
  have e: "location ?e = location u" "cell_offset ?e = cell_offset u" "face ?e = on_char u"
    by (simp_all add: entry_def cell_offset_def face_def)
  have n: "location b \<noteq> location u" if "b \<in> set bs" for b
    using that b(2) assms(2) by (auto simp: blinkers_def chain_def used_def free_location_def)
  consider "bs' = bs" "ds = []" | "\<not> 2000 \<le> location u" "bs' = ?e # bs" "ds = [(cell_offset u, on_char u)]"
    using l by (auto simp: list_add_def split: if_splits)
  then show ?thesis
  proof cases
    case 1
    then show ?thesis using page_shows_follows[OF b(1) f] b(3,4) by (simp add: page_byte_def)
  next
    case 2
    show ?thesis
    proof (rule page_shows_follows[OF b(1) f])
      show "distinct (map location bs')" using 2(2) b(3) n e(1) by force
      fix x assume x: "x \<in> set bs'"
      have u: "location u < 2000" using 2(1) by (simp add: not_le)
      have "uload (vmem_base_addr s + cell_offset x) (ustore (vmem_base_addr s + cell_offset u) (on_char u) (machine s)) =
          (if location x = location u then on_char u else page_byte s x)" if "location x < 2000"
        using uload_draw_cell[OF b(1) u that refl] by (simp add: page_byte_def)
      then show "location x < 2000 \<and> uload (vmem_base_addr s + cell_offset x) (draw (vmem_base_addr s) ds (machine s)) = face x"
        using x 2(2,3) b(4) n e u by auto
    qed
  qed
qed

lemma remove_page:
  assumes "page_shows s" "mp1_ioctl_remove arg s = Some (r, s')"
  shows "page_shows s'"
proof -
  obtain bs where b: "page_apart s" "blinkers s bs" "distinct (map location bs)"
      "\<forall>b\<in>set bs. location b < 2000 \<and> page_byte s b = face b"
    using assms(1) by (auto simp: page_shows_def)
  obtain r' bs' where l: "list_remove (ucast arg) bs = (r', bs')" by (cases "list_remove (ucast arg) bs") auto
  then have f: "follows s s' bs' []" using remove_follows[OF b(2) l] assms(2) by auto
  show ?thesis using page_shows_follows[OF b(1) f] list_remove_keeps[OF l] b(3,4) by (auto simp: page_byte_def)
qed

lemma blink_steps_page: "blink_step\<^sup>*\<^sup>* s s' \<Longrightarrow> page_shows s \<Longrightarrow> page_shows s'"
proof (induction rule: rtranclp_induct)
  case (step t u)
  from step(2) step(3)[OF step(4)] show ?case by (cases rule: blink_stepE) (auto intro: tick_page add_page remove_page)
qed

text \<open>C16: 
  Whatever characters are added at free locations and removed, and however often the clock ticks, the
  page shows each character's current face, and the next tick comes back.
\<close>

theorem page_shows_blinkers:
  assumes "page_apart s" "mp1_list_head s = None" "blink_step\<^sup>*\<^sup>* (clear_blinks s) t"
  shows "page_shows t \<and> mp1_rtc_tasklet t \<noteq> None"
proof -
  have "page_apart (clear_blinks s)" using assms(1) by (simp add: page_apart_def clear_blinks_def)
  then have "page_shows (clear_blinks s)" using blinkers_clear[OF assms(2)] by (auto simp: page_shows_def)
  then have "page_shows t" using blink_steps_page assms(3) by blast
  then show ?thesis using tick_follows by (fastforce simp: page_shows_def)
qed

theorem page_shows_blinkers_witness:
  "\<forall>cs. \<exists>t u. mp1_ioctl_add bubble (fish_start (cs, power_up)) = (0, t) \<and> mp1_rtc_tasklet t = Some u \<and> page_shows u"
proof
  fix cs :: "boot_state call_context stream"
  let ?w = "(cs, power_up)"
  let ?s = "\<lparr>blink_array = (\<lambda>_. blink_zero), mp1_list_head = None, vmem_base_addr = 0xB8000, machine = ?w\<rparr>"
  obtain t where t: "mp1_ioctl_add bubble (fish_start ?w) = (0, t)"
      "follows (fish_start ?w) t [bubble\<lparr>status := 1, countdown := 7\<rparr>] [(1080, 73)]"
    using bubble_added[of ?w] by metis
  have "blinkers t [bubble\<lparr>status := 1, countdown := 7\<rparr>]" using t(2) by (simp add: follows_def)
  then obtain u where u: "mp1_rtc_tasklet t = Some u" using tick_follows[of t] by metis
  have "free_location (location bubble) (clear_blinks ?s)"
    by (simp add: free_location_def bubble_def clear_blinks_def blink_zero_def)
  then have "blink_step (clear_blinks ?s) t" using t(1) by (simp add: fish_start_def blink_step.add)
  then have steps: "blink_step\<^sup>*\<^sup>* (clear_blinks ?s) u" by (rule converse_rtranclp_into_rtranclp) (use blink_step.tick[OF u] in blast)
  have "xlate power_up = (\<lambda>x. x)" by (rule xlate_unmapped) (simp add: power_up_def)
  then have "page_apart ?s" by (simp add: page_apart_def)
  from page_shows_blinkers[OF this _ steps] t(1) u
  show "\<exists>t u. mp1_ioctl_add bubble (fish_start ?w) = (0, t) \<and> mp1_rtc_tasklet t = Some u \<and> page_shows u" by auto
qed

text \<open>
  The fourth request: the second character takes over the phase of the first, and the page shows the
  face for off whatever that phase is.
\<close>

lemma sync_shows_off:
  assumes "blinkers s bs" "list_find (ucast (drop_bit 16 arg)) bs = Some a" "list_find (ucast arg) bs = Some b"
    "status a AND 1 \<noteq> 0" "mp1_ioctl_sync arg s = Some (r, s')"
  shows "face (in_step a b) = on_char b" "page_byte s' b = off_char b"
proof -
  show "face (in_step a b) = on_char b" using assms(4) by (simp add: face_def in_step_def)
  have "list_sync (ucast (drop_bit 16 arg)) (ucast arg) bs = (0, list_set (ucast arg) (in_step a) bs, [(cell_offset b, off_char b)])"
    using assms(2,3) by (simp add: list_sync_def)
  from sync_follows[OF assms(1) this] assms(5) page_byte_follows show "page_byte s' b = off_char b"
    by (fastforce simp: uload_ustore)
qed

end
