(* ===== verification/Fish.thy ===== *)
theory Fish
  imports Blink
begin

text \<open>
  The \<open>fish\<close> program (\<open>src/fish/fish.c\<close>): it maps the video page, reads two pictures line by line, has
  every position where either has a character blink between the two, and drives the blinking from the
  real-time clock. Local variables a system call writes are in the program's memory, at addresses
  that are arguments; \<open>NULL\<close> as a result is the word 0. The fields of the local structure that are
  never set are whatever \<open>junk\<close> holds.
\<close>

section \<open>The program's own memory routines\<close>

text \<open>\<open>ece391_memset\<close> and \<open>ece391_memcpy\<close>; the index is an \<open>int\<close>, and the sizes here are far from its end.\<close>

function ece391_memset_loop :: "xlat \<Rightarrow> addr \<Rightarrow> byte \<Rightarrow> int \<Rightarrow> int \<Rightarrow> mem \<Rightarrow> mem" where
  "ece391_memset_loop tr dst c n i m =
     (if i < n then ece391_memset_loop tr dst c n (i + 1) (store8 tr (dst + word_of_int i) c m) else m)"
  by pat_completeness auto
termination by (relation "measure (\<lambda>(tr, dst, c, n, i, m). nat (n - i))") auto

declare ece391_memset_loop.simps [simp del]

definition ece391_memset :: "xlat \<Rightarrow> addr \<Rightarrow> byte \<Rightarrow> int \<Rightarrow> mem \<Rightarrow> mem" where
  "ece391_memset tr dst c n = ece391_memset_loop tr dst c n 0"

function ece391_memcpy_loop :: "xlat \<Rightarrow> addr \<Rightarrow> addr \<Rightarrow> int \<Rightarrow> int \<Rightarrow> mem \<Rightarrow> mem" where
  "ece391_memcpy_loop tr dst src n i m =
     (if i < n then ece391_memcpy_loop tr dst src n (i + 1)
        (store8 tr (dst + word_of_int i) (load8 tr m (src + word_of_int i)) m)
      else m)"
  by pat_completeness auto
termination by (relation "measure (\<lambda>(tr, dst, src, n, i, m). nat (n - i))") auto

declare ece391_memcpy_loop.simps [simp del]

definition ece391_memcpy :: "xlat \<Rightarrow> addr \<Rightarrow> addr \<Rightarrow> int \<Rightarrow> mem \<Rightarrow> u32 \<times> mem" where
  "ece391_memcpy tr dst src n m = (0, ece391_memcpy_loop tr dst src n 0 m)"

section \<open>The program\<close>

text \<open>A system call on the machine of the program's state.\<close>

definition on_machine :: "('a world \<Rightarrow> (u32 \<times> 'a world) option) \<Rightarrow> 'a fish_state \<Rightarrow> (u32 \<times> 'a fish_state) option" where
  "on_machine f s = map_option (\<lambda>(r, w). (r, s\<lparr>machine := w\<rparr>)) (f (machine s))"

definition peek :: "addr \<Rightarrow> 'a fish_state \<Rightarrow> byte" where
  "peek a s = uload a (machine s)"

definition assign :: "addr \<Rightarrow> byte list \<Rightarrow> 'a fish_state \<Rightarrow> 'a fish_state" where
  "assign a bs s = s\<lparr>machine := ustores a bs (machine s)\<rparr>"

text \<open>The kernel stores the page's address in the variable \<open>vmem_base_addr\<close>, which lies at \<open>vmem\<close>.\<close>

definition mp1_set_video_mode :: "addr \<Rightarrow> 'a fish_state \<Rightarrow> (u32 \<times> 'a fish_state) option" where
  "mp1_set_video_mode vmem s = do {
     (r, s1) \<leftarrow> on_machine (ece391_vidmap vmem) s;
     let base = load32 (xlate (snd (machine s1))) (phys (snd (machine s1))) vmem;
     if r = - 1 then Some (0, s1) else Some (base, s1\<lparr>vmem_base_addr := base\<rparr>)
   }"

text \<open>One character of a line, unless the line has ended: the end of the file ends the line.\<close>

definition next_char :: "u32 \<Rightarrow> addr \<Rightarrow> bool \<Rightarrow> 'a fish_state \<Rightarrow> (bool \<times> 'a fish_state) option" where
  "next_char fd c eof s =
     (if peek c s \<noteq> 10 then do {
        (num_bytes, s1) \<leftarrow> on_machine (ece391_read fd c 1) s;
        if num_bytes = 0 then Some (True, assign c [10] s1) else Some (eof, s1)
      } else Some (eof, s))"

type_synonym 'a ioctl =
  "u32 \<Rightarrow> u32 \<Rightarrow> mp1_blink_struct \<Rightarrow> 'a fish_state \<Rightarrow> (u32 \<times> mp1_blink_struct \<times> 'a fish_state) option"

record frame_env =
  fd0 :: u32
  fd1 :: u32
  c0_at :: addr
  c1_at :: addr
  struct_at :: addr
  junk :: mp1_blink_struct

definition frame_blink :: "frame_env \<Rightarrow> u32 \<Rightarrow> u32 \<Rightarrow> 'a fish_state \<Rightarrow> mp1_blink_struct" where
  "frame_blink e line_no column s =
     (junk e)\<lparr>on_length := 15, off_length := 15,
        on_char := (if peek (c0_at e) s = 10 then 32 else peek (c0_at e) s),
        off_char := (if peek (c1_at e) s = 10 then 32 else peek (c1_at e) s),
        location := ucast (line_no * 80 + column + 40)\<rparr>"

partial_function (option) frame_row ::
  "'a ioctl \<Rightarrow> frame_env \<Rightarrow> u32 \<Rightarrow> u32 \<Rightarrow> bool \<Rightarrow> bool \<Rightarrow> 'a fish_state \<Rightarrow> (bool \<times> bool \<times> 'a fish_state) option" where
  "frame_row beyond e line_no column eof0 eof1 s = do {
     (end0, s1) \<leftarrow> next_char (fd0 e) (c0_at e) eof0 s;
     (end1, s2) \<leftarrow> next_char (fd1 e) (c1_at e) eof1 s1;
     let c0 = peek (c0_at e) s2;
     let c1 = peek (c1_at e) s2;
     if c0 = 10 \<and> c1 = 10 then Some (end0, end1, s2)
     else if c0 \<noteq> 32 \<and> c0 \<noteq> 10 \<or> c1 \<noteq> 32 \<and> c1 \<noteq> 10 then do {
       (r, u, s3) \<leftarrow> mp1_ioctl beyond (struct_at e) 0 (frame_blink e line_no column s2) s2;
       frame_row beyond e line_no (column + 1) end0 end1 s3
     } else frame_row beyond e line_no (column + 1) end0 end1 s2
   }"

text \<open>After a line: a file that has ended is closed (again, on every further line) and stays at its end.\<close>

definition row_end :: "u32 \<Rightarrow> addr \<Rightarrow> bool \<Rightarrow> 'a fish_state \<Rightarrow> 'a fish_state option" where
  "row_end fd c eof s =
     (if eof then map_option snd (on_machine (ece391_close fd) (assign c [10] s)) else Some (assign c [48] s))"

partial_function (option) frame_rows ::
  "'a ioctl \<Rightarrow> frame_env \<Rightarrow> u32 \<Rightarrow> bool \<Rightarrow> bool \<Rightarrow> 'a fish_state \<Rightarrow> 'a fish_state option" where
  "frame_rows beyond e line_no eof0 eof1 s =
     (if eof0 \<and> eof1 then Some s
      else do {
        (end0, end1, s1) \<leftarrow> frame_row beyond e line_no 0 eof0 eof1 s;
        s2 \<leftarrow> row_end (fd0 e) (c0_at e) end0 s1;
        s3 \<leftarrow> row_end (fd1 e) (c1_at e) end1 s2;
        frame_rows beyond e (line_no + 1) end0 end1 s3
      })"

text \<open>\<open>Some status\<close> when the program halts here. The descriptors in \<open>e\<close> are those the two calls give.\<close>

definition add_frames ::
  "'a ioctl \<Rightarrow> addr \<Rightarrow> addr \<Rightarrow> frame_env \<Rightarrow> 'a fish_state \<Rightarrow> (u32 option \<times> 'a fish_state) option" where
  "add_frames beyond f0 f1 e s = do {
     let s1 = assign (c1_at e) [48] (assign (c0_at e) [48] s);
     (d0, s2) \<leftarrow> on_machine (ece391_open f0) s1;
     if sint d0 < 0 then Some (Some (- 1), s2)
     else do {
       (d1, s3) \<leftarrow> on_machine (ece391_open f1) s2;
       if sint d1 < 0 then Some (Some (- 1), s3)
       else map_option (Pair None) (frame_rows beyond (e\<lparr>fd0 := d0, fd1 := d1\<rparr>) 0 False False s3)
     }
   }"

text \<open>\<open>WAIT\<close> rounds of the clock.\<close>

fun wait_rounds :: "nat \<Rightarrow> u32 \<Rightarrow> addr \<Rightarrow> 'a fish_state \<Rightarrow> 'a fish_state option" where
  "wait_rounds 0 rtc_fd garbage s = Some s"
| "wait_rounds (Suc n) rtc_fd garbage s = do {
     (r, s1) \<leftarrow> on_machine (ece391_read rtc_fd garbage 4) s;
     s2 \<leftarrow> mp1_rtc_tasklet s1;
     wait_rounds n rtc_fd garbage s2
   }"

definition WAIT :: nat where
  "WAIT = 100"

record fish_env =
  vmem_at :: addr
  file0_at :: addr
  file1_at :: addr
  ret_val_at :: addr
  garbage_at :: addr
  blink_at :: addr
  main_junk :: mp1_blink_struct

definition fish_blink :: "fish_env \<Rightarrow> mp1_blink_struct" where
  "fish_blink f = (main_junk f)\<lparr>on_char := 73, off_char := 77, on_length := 7, off_length := 6, location := 6 * 80 + 60\<rparr>"

text \<open>The part of \<open>main\<close> after the pictures.\<close>

definition fish_blinking :: "'a ioctl \<Rightarrow> fish_env \<Rightarrow> u32 \<Rightarrow> 'a fish_state \<Rightarrow> (u32 \<times> 'a fish_state) option" where
  "fish_blinking beyond f rtc_fd s = do {
     (r, s1) \<leftarrow> on_machine (ece391_write rtc_fd (ret_val_at f) 4) (assign (ret_val_at f) (word_bytes 32) s);
     s2 \<leftarrow> wait_rounds WAIT rtc_fd (garbage_at f) (assign (ret_val_at f) (word_bytes r) s1);
     (r3, u3, s3) \<leftarrow> mp1_ioctl beyond (blink_at f) 0 (fish_blink f) s2;
     s4 \<leftarrow> wait_rounds WAIT rtc_fd (garbage_at f) s3;
     (r5, u5, s5) \<leftarrow> mp1_ioctl beyond (push_bit 16 40 OR (6 * 80 + 60)) 3 u3 s4;
     s6 \<leftarrow> wait_rounds WAIT rtc_fd (garbage_at f) s5;
     (r7, u7, s7) \<leftarrow> mp1_ioctl beyond (6 * 80 + 60) 1 u5 s6;
     s8 \<leftarrow> wait_rounds WAIT rtc_fd (garbage_at f) s7;
     (r9, s9) \<leftarrow> on_machine (ece391_close rtc_fd) s8;
     Some (0, s9)
   }"

definition fish_main ::
  "'a ioctl \<Rightarrow> literals \<Rightarrow> fish_env \<Rightarrow> frame_env \<Rightarrow> 'a fish_state \<Rightarrow> (u32 \<times> 'a fish_state) option" where
  "fish_main beyond L f e s = do {
     (page, s1) \<leftarrow> mp1_set_video_mode (vmem_at f) (clear_blinks s);
     if page = 0 then Some (- 1, s1)
     else do {
       (rtc_fd, s2) \<leftarrow> on_machine (ece391_open (L (ascii ''rtc''))) s1;
       (halted, s3) \<leftarrow> add_frames beyond (file0_at f) (file1_at f) e s2;
       (case halted of
          Some st \<Rightarrow> Some (st, s3)
        | None \<Rightarrow> fish_blinking beyond f rtc_fd s3)
     }
   }"

section \<open>Structures and their bytes\<close>

text \<open>
  The 16 bytes of a packed structure; \<open>enc\<close> gives the word a pointer is. Two structures with the same
  bytes are the same, clearing 16 bytes gives the empty structure, and copying 16 bytes between
  objects that do not overlap copies the structure: the typed array stands for the bytes.
\<close>

definition half_word :: "u16 \<Rightarrow> byte list" where
  "half_word w = [ucast w, ucast (drop_bit 8 w)]"

definition struct_bytes :: "(nat option \<Rightarrow> u32) \<Rightarrow> mp1_blink_struct \<Rightarrow> byte list" where
  "struct_bytes enc b =
     half_word (location b) @ [on_char b, off_char b] @ half_word (on_length b) @ half_word (off_length b) @
     half_word (countdown b) @ half_word (status b) @ word_bytes (enc (next_blink b))"

lemma half_word_inj: "half_word v = half_word w \<longleftrightarrow> v = w"
proof
  assume e: "half_word v = half_word w"
  show "v = w"
  proof (rule bit_word_eqI)
    fix n assume n: "n < LENGTH(16)"
    have "bit (ucast v :: byte) k = bit (ucast w :: byte) k"
      "bit (ucast (drop_bit 8 v) :: byte) k = bit (ucast (drop_bit 8 w) :: byte) k" for k
      using e by (simp_all add: half_word_def)
    from this(1)[of n] this(2)[of "n - 8"] n show "bit v n = bit w n" by (cases "n < 8") (auto simp: bit_simps)
  qed
qed simp

lemma word_bytes_inj: "word_bytes v = word_bytes w \<longleftrightarrow> v = w"
proof
  assume e: "word_bytes v = word_bytes w"
  show "v = w"
  proof (rule bit_word_eqI)
    fix n assume n: "n < LENGTH(32)"
    have "bit (ucast (drop_bit (8 * j) v) :: byte) k = bit (ucast (drop_bit (8 * j) w) :: byte) k" if "j < 4" for j k
    proof -
      have "j = 0 \<or> j = 1 \<or> j = 2 \<or> j = 3" using that by arith
      then show ?thesis using e by (auto simp: word_bytes_def)
    qed
    from this[of "n div 8" "n mod 8"] n show "bit v n = bit w n" by (auto simp: bit_simps)
  qed
qed simp

lemma struct_bytes_inj: "inj enc \<Longrightarrow> struct_bytes enc b = struct_bytes enc c \<longleftrightarrow> b = c"
proof
  assume i: "inj enc" and e: "struct_bytes enc b = struct_bytes enc c"
  have l: "length (half_word w) = 2" for w by (simp add: half_word_def)
  have "half_word (location b) = half_word (location c) \<and> on_char b = on_char c \<and> off_char b = off_char c \<and>
      half_word (on_length b) = half_word (on_length c) \<and> half_word (off_length b) = half_word (off_length c) \<and>
      half_word (countdown b) = half_word (countdown c) \<and> half_word (status b) = half_word (status c) \<and>
      word_bytes (enc (next_blink b)) = word_bytes (enc (next_blink c))"
    using e by (simp add: struct_bytes_def l)
  then show "b = c" using i by (simp add: half_word_inj word_bytes_inj inj_eq)
qed simp

lemma memset_loop_fill:
  "ece391_memset_loop tr dst c n i m = write_bytes tr (dst + word_of_int i) (replicate (nat (n - i)) c) m"
proof (induction tr dst c n i m rule: ece391_memset_loop.induct)
  case (1 tr dst c n i m)
  show ?case
  proof (cases "i < n")
    case True
    then have "nat (n - i) = Suc (nat (n - (i + 1)))" by simp
    then show ?thesis using 1 True by (subst ece391_memset_loop.simps) (simp add: add.assoc)
  next
    case False
    then show ?thesis by (subst ece391_memset_loop.simps) simp
  qed
qed

lemma memset_clears:
  assumes "enc None = 0"
  shows "ece391_memset tr dst 0 16 m = write_bytes tr dst (struct_bytes enc blink_zero) m"
proof -
  have "struct_bytes enc blink_zero = replicate 16 0"
    by (simp add: struct_bytes_def blink_zero_def half_word_def word_bytes_def assms numeral_eq_Suc)
  then show ?thesis by (simp add: ece391_memset_def memset_loop_fill)
qed

lemma memcpy_loop_copy:
  assumes "tr ` region dst (nat n) \<inter> tr ` region src (nat n) = {}" "0 \<le> i"
  shows "ece391_memcpy_loop tr dst src n i m =
    write_bytes tr (dst + word_of_int i) (bytes_at tr m (src + word_of_int i) (nat (n - i))) m"
  using assms
proof (induction tr dst src n i m rule: ece391_memcpy_loop.induct)
  case (1 tr dst src n i m)
  show ?case
  proof (cases "i < n")
    case True
    let ?m = "store8 tr (dst + word_of_int i) (load8 tr m (src + word_of_int i)) m"
    have n: "nat (n - i) = Suc (nat (n - (i + 1)))" using True by simp
    have l: "load8 tr ?m (src + word_of_int i + 1 + of_nat j) = load8 tr m (src + word_of_int i + 1 + of_nat j)"
      if "j < nat (n - (i + 1))" for j
    proof -
      have "src + word_of_int i + 1 + of_nat j = src + of_nat (nat i + 1 + j)" "nat i + 1 + j < nat n"
        using "1.prems"(2) that by (simp_all add: add.assoc)
      then have "src + word_of_int i + 1 + of_nat j \<in> region src (nat n)" unfolding region_def by blast
      moreover have "dst + word_of_int i \<in> region dst (nat n)"
        unfolding region_def by (rule image_eqI[where x = "nat i"]) (use "1.prems"(2) True in simp_all)
      ultimately have "tr (src + word_of_int i + 1 + of_nat j) \<noteq> tr (dst + word_of_int i)" using "1.prems"(1) by blast
      then show ?thesis by (simp add: load8_store8)
    qed
    have rest: "bytes_at tr ?m (src + word_of_int i + 1) (nat (n - (i + 1))) = bytes_at tr m (src + word_of_int i + 1) (nat (n - (i + 1)))"
      unfolding bytes_at_def using l by (intro map_cong) auto
    have cons: "bytes_at tr m a (Suc k) = load8 tr m a # bytes_at tr m (a + 1) k" for a k
      by (simp add: bytes_at_def upt_conv_Cons map_Suc_upt[symmetric] add.assoc del: upt_Suc)
    show ?thesis using "1.IH"[OF True] "1.prems" True rest
      by (subst ece391_memcpy_loop.simps) (simp add: n cons add.assoc)
  next
    case False
    then show ?thesis by (subst ece391_memcpy_loop.simps) (simp add: bytes_at_def)
  qed
qed

lemma memcpy_copies_struct:
  assumes "bytes_at tr m src 16 = struct_bytes enc b" "tr ` region dst 16 \<inter> tr ` region src 16 = {}"
  shows "ece391_memcpy tr dst src 16 m = (0, write_bytes tr dst (struct_bytes enc b) m)"
  using memcpy_loop_copy[of tr dst 16 src 0 m] assms by (simp add: ece391_memcpy_def)

end
