(* ===== verification/File_Runs.thy ===== *)
theory File_Runs
  imports User_Image
begin

text \<open>
  Runs of \<open>cat\<close> and \<open>ls\<close> (\<open>ece391cat.c\<close>, \<open>ece391ls.c\<close>) on the kernel: what the file system image
  holds is what appears on the program's terminal.
\<close>

section \<open>Files stay\<close>

lemma load32_agree:
  assumes "\<forall>p \<in> tr ` region a 4. m' p = m p"
  shows "load32 tr m' a = load32 tr m a"
proof (rule load32_cong, rule nth_equalityI)
  fix i assume "i < length (bytes_at tr m' a 4)"
  then have i: "i < 4" by simp
  then have "tr (a + of_nat i) \<in> tr ` region a 4" by (auto simp: region_def)
  then have "m' (tr (a + of_nat i)) = m (tr (a + of_nat i))" using assms by blast
  then show "bytes_at tr m' a 4 ! i = bytes_at tr m a 4 ! i" using i by (simp add: load8_def)
qed simp

lemma footprint_agree:
  assumes ag: "\<forall>p \<in> file_footprint tr m fs ino. m' p = m p"
  shows "file_size tr m' fs ino = file_size tr m fs ino" "file_content tr m' fs ino = file_content tr m fs ino"
    "file_footprint tr m' fs ino = file_footprint tr m fs ino" "size_ok tr m' fs ino = size_ok tr m fs ino"
proof -
  have n: "n_inodes tr m' fs = n_inodes tr m fs" and sz: "file_size tr m' fs ino = file_size tr m fs ino"
    unfolding n_inodes_def file_size_def using ag by (auto simp: file_footprint_def intro!: load32_agree arg_cong[of _ _ unat])
  have b: "byte_addr tr m' fs ino p = byte_addr tr m fs ino p" if "p < file_size tr m fs ino" for p
  proof -
    have "load32 tr m' (inode_addr fs ino + 4 + 4 * of_nat (p div 4096)) = load32 tr m (inode_addr fs ino + 4 + 4 * of_nat (p div 4096))"
      by (rule load32_agree) (use ag that in \<open>unfold file_footprint_def, blast\<close>)
    then show ?thesis by (simp add: byte_addr_def data_block_addr_def n)
  qed
  have d: "load8 tr m' (byte_addr tr m fs ino p) = load8 tr m (byte_addr tr m fs ino p)" if "p < file_size tr m fs ino" for p
    using ag that by (auto simp: file_footprint_def load8_def)
  show "file_size tr m' fs ino = file_size tr m fs ino" by (rule sz)
  show "size_ok tr m' fs ino = size_ok tr m fs ino" by (simp add: size_ok_def sz)
  show "file_content tr m' fs ino = file_content tr m fs ino" by (simp add: file_content_def sz b d)
  show "file_footprint tr m' fs ino = file_footprint tr m fs ino" by (simp add: file_footprint_def sz b)
qed

text \<open>The file with inode \<open>ino\<close> lies in the kernel's page.\<close>

definition file_in_kernel :: "'a kernel_state_scheme \<Rightarrow> u32 \<Rightarrow> bool" where
  "file_in_kernel s ino \<longleftrightarrow>
     size_ok (xlate s) (phys s) (fs_img_start s) ino \<and>
     (\<forall>p \<in> file_footprint (xlate s) (phys s) (fs_img_start s) ino. kernel_byte p)"

abbreviation content_of :: "'a kernel_state_scheme \<Rightarrow> u32 \<Rightarrow> byte list" where
  "content_of s ino \<equiv> file_content (xlate s) (phys s) (fs_img_start s) ino"

lemma ran_file:
  assumes r: "ran st T X bs s s'" "outside_kernel X" and f: "file_in_kernel s ino"
  shows "file_in_kernel s' ino" "content_of s' ino = content_of s ino"
proof -
  have x: "xlate s' = xlate s" "fs_img_start s' = fs_img_start s" using r(1) by (simp_all add: ran_def)
  have ag: "\<forall>p \<in> file_footprint (xlate s) (phys s) (fs_img_start s) ino. phys s' p = phys s p"
    using r f kernel_not_display by (auto simp: ran_def file_in_kernel_def outside_kernel_def)
  note a = footprint_agree[OF ag]
  show "file_in_kernel s' ino" "content_of s' ino = content_of s ino"
    using f a by (simp_all add: file_in_kernel_def x)
qed

section \<open>Writing to the program's own memory\<close>

lemma terminal_view_phys:
  assumes ct: "current_terminal s < 3" "t < 3" and m: "\<And>p. display_byte p \<Longrightarrow> m p = phys s p"
  shows "terminal_view t (s\<lparr>phys := m\<rparr>) = terminal_view t s"
proof -
  let ?f = "term_frame (current_terminal s) t"
  have f: "0xB8 \<le> ?f" "?f < 0xBC" using ct by (auto simp: term_frame_def)
  have "display_byte (of_nat (?f * 4096 + k))" if "k < 4096" for k
  proof -
    have "unat (of_nat (?f * 4096 + k) :: u32) = ?f * 4096 + k" using f that by (intro unat_of_nat32) simp
    then have "unat (of_nat (?f * 4096 + k) :: u32) div 4096 = ?f" using that by simp
    then show ?thesis using f by (simp add: display_byte_def)
  qed
  then have e: "phys (s\<lparr>phys := m\<rparr>) (of_nat (?f * 4096 + k)) = phys s (of_nat (?f * 4096 + k))" if "k < 4096" for k
    using m that by (simp del: of_nat_add of_nat_mult)
  have "cell ?f i (s\<lparr>phys := m\<rparr>) = cell ?f i s" if "i < 2000" for i
    unfolding cell_def using that by (intro prod_eqI) (simp_all only: fst_conv snd_conv, (rule e, simp)+)
  then show ?thesis by (simp add: terminal_view_def tty_of_def cong: if_cong)
qed

lemma ran_store:
  fixes s :: "'a keyboard_state_scheme"
  assumes r: "ready st T s" and w: "in_window a n" and bs: "length bs \<le> n"
  shows "ran st T (xlate s ` region a n) [] s (s\<lparr>phys := write_bytes (xlate s) a bs (phys s)\<rparr>)"
proof -
  note f = ready_facts[OF r]
  let ?m = "write_bytes (xlate s) a bs (phys s)"
  have other: "?m p = phys s p" if "p \<notin> xlate s ` region a n" for p
    using that region_mono[OF bs, of a] by (intro write_bytes_other) blast
  have v: "terminal_view t (s\<lparr>phys := ?m\<rparr>) = terminal_view t s" if "t < 3" for t
    by (rule terminal_view_phys[OF f(6) that]) (use other window_off(1)[OF f(1) w] in blast)
  have "kernel_ok st T (s\<lparr>phys := ?m\<rparr>)"
    by (rule kernel_ok_calm[of st T s]) (use r f(2) in \<open>simp_all add: ready_def settled_extra\<close>)
  then have "ready st T (s\<lparr>phys := ?m\<rparr>)" using r by (simp add: ready_def std_fds_def)
  then show ?thesis using other v f(3) by (simp add: ran_def)
qed

lemma window_outside: "mapped s \<Longrightarrow> in_window a n \<Longrightarrow> outside_kernel (xlate s ` region a n)"
  unfolding outside_kernel_def using window_off(2) by blast


section \<open>Reading\<close>

text \<open>Descriptor \<open>k\<close> of the process is the file \<open>ino\<close>, read up to \<open>pos\<close>.\<close>

definition reading :: "stacks \<Rightarrow> nat \<Rightarrow> nat \<Rightarrow> u32 \<Rightarrow> nat \<Rightarrow> 'a keyboard_state_scheme \<Rightarrow> bool" where
  "reading st T k ino pos s \<longleftrightarrow>
     ready st T s \<and> 2 \<le> k \<and> k < 8 \<and> file_table_ptr (cur_fd s k) = Some file_jumptable \<and>
     inode (cur_fd s k) = ino \<and> ino \<noteq> - 1 \<and> file_pos (cur_fd s k) = of_nat pos \<and>
     file_in_kernel s ino \<and> pos \<le> length (content_of s ino)"

lemma reading_step:
  fixes s :: "'a keyboard_state_scheme"
  assumes rd: "reading st T k ino pos s" and w: "in_window buf n" "0 < n"
  defines "bs \<equiv> take n (drop pos (content_of s ino))"
  shows "\<exists>s'. ece391_read (of_nat k) buf (of_nat n) (cs, s) = Some (of_nat (length bs), (stl cs, s')) \<and>
    ran st T (xlate s ` region buf n) [] s s' \<and> bytes_at (xlate s') (phys s') buf (length bs) = bs \<and>
    reading st T k ino (pos + length bs) s' \<and> content_of s' ino = content_of s ino \<and>
    (\<forall>j. j \<noteq> k \<longrightarrow> cur_fd s' j = cur_fd s j)"
proof -
  have r: "ready st T s" and k: "2 \<le> k" "k < 8" and ops: "file_table_ptr (cur_fd s k) = Some file_jumptable"
    and ino: "inode (cur_fd s k) = ino" "ino \<noteq> - 1" and p: "file_pos (cur_fd s k) = of_nat pos"
    and f: "file_in_kernel s ino" and len: "pos \<le> length (content_of s ino)"
    using rd by (simp_all add: reading_def)
  note m = ready_facts(1)[OF r]
  let ?X = "xlate s ` region buf n"
  have use: "k \<in> in_use s" using k ino by (simp add: in_use_def)
  have n31: "n < 2 ^ 31" using w(1) by (simp add: in_window_def)
  have readable: "readable s k buf n"
    using use window_nonzero[OF w(1)] program_window_inj[OF m w(1)] n31 f ino window_off(2)[OF m w(1)]
    by (auto simp: readable_def file_in_kernel_def)
  have pos: "unat (file_pos (cur_fd s k)) = pos"
  proof -
    have "pos < 2 ^ 32" using len unat_lt32 by (simp add: file_size_def) (meson le_less_trans)
    then show ?thesis by (simp add: p unat_of_nat32)
  qed
  let ?s' = "upd_fd k (\<lambda>f. f\<lparr>file_pos := file_pos f + of_nat (length bs)\<rparr>)
        (s\<lparr>phys := write_bytes (xlate s) buf bs (phys s)\<rparr>)"
  have res: "file_read (of_nat k) buf (of_nat n) s = (of_nat (length bs), ?s')"
    using file_read_result[OF readable w(2) order_refl] by (simp add: pos ino bs_def)
  have n: "nat (sint (of_nat k :: u32)) = k" using sint_small[OF k(2)] by simp
  have "read_handler (shd cs) (of_nat k) buf (of_nat n) s = Some (of_nat (length bs), ?s')"
    using use ops res by (auto simp: read_handler_def check_valid_fd_in_use fd_table_def n)
  note call = user_calls(1)[OF this]
  have bl: "length bs \<le> n" by (simp add: bs_def)
  note st = ran_store[OF r w(1) bl]
  have "ran st T ?X [] (s\<lparr>phys := write_bytes (xlate s) buf bs (phys s)\<rparr>) ?s'"
    by (rule ran_upd_fd[OF ran_ready[OF st] k(1)]) (simp add: typed_fd_def)
  from ran_trans[OF st this] have ran: "ran st T ?X [] s ?s'" by simp
  note keep = ran_file[OF ran window_outside[OF m w(1)] f]
  have "inj_on (xlate s) (region buf (length bs))"
    by (rule inj_on_subset[OF program_window_inj[OF m w(1)] region_mono[OF bl]])
  then have "bytes_at (xlate ?s') (phys ?s') buf (length bs) = bs"
    using bl n31 by (simp add: bytes_at_write_bytes)
  moreover have "reading st T k ino (pos + length bs) ?s'"
    using ran_ready[OF ran] k ops ino p keep len unfolding reading_def by (auto simp: bs_def)
  moreover have "\<forall>j. j \<noteq> k \<longrightarrow> cur_fd ?s' j = cur_fd s j" by simp
  ultimately show ?thesis using call ran keep(2) by blast
qed

lemma count_not_minus_one: "m < 2 ^ 31 \<Longrightarrow> (of_nat m :: u32) \<noteq> - 1"
proof
  assume m: "m < 2 ^ 31" and "(of_nat m :: u32) = - 1"
  then have "sint (of_nat m :: u32) = - 1" by simp
  then show False using sint_of_nat32[OF m] by simp
qed

lemma count_not_zero: "0 < m \<Longrightarrow> m < 2 ^ 31 \<Longrightarrow> (of_nat m :: u32) \<noteq> 0"
  using sint_of_nat32[of m] by (metis of_nat_0_less_iff less_irrefl sint_0)

lemma take_drop_rest: "take n (drop p xs) @ drop (p + length (take n (drop p xs))) xs = drop p xs"
proof -
  have "drop (p + length (take n (drop p xs))) xs = drop (length (take n (drop p xs))) (drop p xs)"
    by (simp add: add.commute)
  also have "\<dots> = drop n (drop p xs)" by (cases "n \<le> length (drop p xs)") simp_all
  finally show ?thesis by (simp only: append_take_drop_id)
qed

section \<open>cat\<close>

lemma cat_loop_shows:
  assumes "reading st T k ino pos s" "in_window buf 1024" "X = xlate s ` region buf 1024"
  shows "\<exists>cs' s'. cat_loop L buf (of_nat k) (cs, s) = Some (0, (cs', s')) \<and>
    ran st T X (filter (\<lambda>b. b \<noteq> 0) (drop pos (content_of s ino))) s s'"
  using assms
proof (induction "length (content_of s ino) - pos" arbitrary: pos s cs rule: less_induct)
  case less
  define bs where "bs = take 1024 (drop pos (content_of s ino))"
  obtain s1 where s1: "ece391_read (of_nat k) buf (of_nat 1024) (cs, s) = Some (of_nat (length bs), (stl cs, s1))"
    "ran st T X [] s s1" "bytes_at (xlate s1) (phys s1) buf (length bs) = bs"
    "reading st T k ino (pos + length bs) s1" "content_of s1 ino = content_of s ino"
    using reading_step[OF less.prems(1,2), of cs] less.prems(3) by (auto simp: bs_def)
  have bl: "length bs \<le> 1024" by (simp add: bs_def)
  show ?case
  proof (cases "bs = []")
    case True
    then have "drop pos (content_of s ino) = []" by (simp add: bs_def)
    moreover have "cat_loop L buf (of_nat k) (cs, s) = Some (0, (stl cs, s1))"
      using s1(1) True by (subst cat_loop.simps) simp
    ultimately show ?thesis using s1(2) by auto
  next
    case False
    have ne: "(of_nat (length bs) :: u32) \<noteq> 0" "(of_nat m :: u32) \<noteq> - 1" if "m \<le> length bs" for m
      using count_not_zero[of "length bs"] count_not_minus_one[of m] False bl that by auto
    have w: "in_window buf (length bs)" using less.prems(2) bl by (simp add: in_window_def)
    let ?out = "filter (\<lambda>b. b \<noteq> 0) bs"
    obtain s2 where s2: "ece391_write 1 buf (of_nat (length bs)) (stl cs, s1) = Some (of_nat (length ?out), (stl (stl cs), s2))"
      "shown st T ?out s1 s2"
      using user_write[OF ran_ready[OF s1(2)] w, of "stl cs"] by (auto simp: s1(3))
    have o: "outside_kernel X" using window_outside[OF ready_facts(1) less.prems(2)] less.prems(1,3) by (auto simp: reading_def)
    have f1: "file_in_kernel s1 ino" using s1(4) by (simp add: reading_def)
    note keep = ran_file[OF shown_ran[OF s2(2)] o f1]
    have rd2: "reading st T k ino (pos + length bs) s2"
      using s1(4) shown_fds(1)[OF s2(2) ran_ready[OF s1(2)]] ran_ready[OF shown_ran[OF s2(2), where X = X]] keep
      by (simp add: reading_def)
    have x: "xlate s2 = xlate s" using s1(2) shown_ran[OF s2(2), where X = X] by (simp add: ran_def)
    have "length (content_of s2 ino) - (pos + length bs) < length (content_of s ino) - pos"
      using keep(2) s1(5) False by (simp add: bs_def)
    from less.hyps[OF this rd2 less.prems(2), of "stl (stl cs)"] obtain cs' s' where
      s': "cat_loop L buf (of_nat k) (stl (stl cs), s2) = Some (0, (cs', s'))"
      "ran st T X (filter (\<lambda>b. b \<noteq> 0) (drop (pos + length bs) (content_of s2 ino))) s2 s'"
      using less.prems(3) x by auto
    have "cat_loop L buf (of_nat k) (cs, s) = Some (0, (cs', s'))"
      using s1(1) s2(1) s'(1) ne[OF order_refl] ne(2)[OF length_filter_le] by (subst cat_loop.simps) simp
    moreover have "bs @ drop (pos + length bs) (content_of s ino) = drop pos (content_of s ino)"
      unfolding bs_def by (rule take_drop_rest)
    then have "filter (\<lambda>b. b \<noteq> 0) (drop pos (content_of s ino)) =
        ?out @ filter (\<lambda>b. b \<noteq> 0) (drop (pos + length bs) (content_of s2 ino))"
      using keep(2) s1(5) by (metis filter_append)
    ultimately show ?thesis using ran_trans[OF ran_trans[OF s1(2) shown_ran[OF s2(2)]] s'(2)] by auto
  qed
qed


subsection \<open>The argument\<close>

abbreviation args_of :: "'a kernel_state_scheme \<Rightarrow> reader" where
  "args_of s \<equiv> args (pcbs s (get_pcb_pointer (current_pid s)))"

lemma user_getargs:
  fixes s :: "'a keyboard_state_scheme"
  assumes r: "ready st T s" and a: "is_cstr (args_of s) name" "length name < n" and w: "in_window buf n"
  shows "\<exists>s'. ece391_getargs buf (of_nat n) (cs, s) = Some (0, (stl cs, s')) \<and> ran st T (xlate s ` region buf n) [] s s' \<and>
    is_cstr (ptr (xlate s') (phys s') buf) name \<and> in_use s' = in_use s"
proof -
  note m = ready_facts(1)[OF r]
  have n: "n < 2 ^ 31" using w by (simp add: in_window_def)
  define bs where "bs = name @ replicate (n - length name) 0"
  have out: "strncpy_out (args_of s) n = bs" and bl: "length bs = n"
    using is_cstr_cstr[OF a(1), of n] a(2) by (simp_all add: strncpy_out_cstr bs_def)
  let ?s' = "s\<lparr>phys := write_bytes (xlate s) buf bs (phys s)\<rparr>"
  have "\<not> (of_nat n :: u32) \<le> of_nat (length name)" using a(2) n by (simp add: word_le_nat_alt unat_of_nat32)
  then have "getargs_handler buf (of_nat n) s = Some (0, ?s')"
    using strlen_is_cstr[OF a(1)] window_nonzero[OF w] n out
    by (simp add: getargs_handler_def Let_def unat_of_nat32)
  note call = user_calls(5)[OF this]
  have "bytes_at (xlate s) (phys ?s') buf n = bs"
    using bytes_at_write_bytes[of "xlate s" buf bs "phys s"] program_window_inj[OF m w] bl n by simp
  then have l: "load8 (xlate s) (phys ?s') (buf + of_nat i) = bs ! i" if "i < n" for i
    using that by (metis nth_bytes_at)
  have "is_cstr (ptr (xlate s) (phys ?s') buf) name"
    using a l unfolding is_cstr_def ptr_def by (simp add: bs_def nth_append)
  moreover have "ran st T (xlate s ` region buf n) [] s ?s'" by (rule ran_store[OF r w]) (simp add: bl)
  ultimately show ?thesis using call by (auto simp: in_use_def)
qed

subsection \<open>Opening a regular file\<close>

lemma open_fd_free:
  assumes "\<not> {2..<8} \<subseteq> in_use s"
  shows "\<exists>k. 2 \<le> k \<and> k < 8 \<and> k \<notin> in_use s \<and> open_fd ops ino pos flgs s =
    (of_nat k, upd_fd k (\<lambda>_. \<lparr>file_table_ptr = Some ops, inode = ino, file_pos = pos, flags = flgs\<rparr>) s)"
proof (cases rule: first_index_cases[of "\<lambda>i. inode (cur_fd s i) = - 1" 2 8])
  case 1
  then show ?thesis using assms by (auto simp: in_use_def)
next
  case (2 i)
  then show ?thesis by (auto simp: open_fd_def get_free_fd_def Let_def in_use_def)
qed

lemma user_open_file:
  fixes s :: "'a keyboard_state_scheme"
  assumes r: "ready st T s" and str: "is_cstr (ptr (xlate s) (phys s) a) name" "in_window a (length name)"
    and nm: "take 3 name \<noteq> ascii ''rtc''" "take 1 name \<noteq> ascii ''.''"
    and look: "find (\<lambda>i. name_of s i = take 32 name) [0..<63] = Some i" "type_of s i = 2" "inode_of s i \<noteq> - 1"
    and f: "file_in_kernel s (inode_of s i)" and free: "\<not> {2..<8} \<subseteq> in_use s"
  shows "\<exists>k s'. ece391_open a (cs, s) = Some (of_nat k, (stl cs, s')) \<and> k < 8 \<and> ran st T X [] s s' \<and>
    reading st T k (inode_of s i) 0 s' \<and> content_of s' (inode_of s i) = content_of s (inode_of s i) \<and>
    k \<notin> in_use s \<and> (\<forall>j. j \<noteq> k \<longrightarrow> cur_fd s' j = cur_fd s j)"
proof -
  have len: "length name < 2 ^ 31" using str(2) by (simp add: in_window_def)
  obtain k where k: "2 \<le> k" "k < 8" "open_fd file_jumptable (inode_of s i) 0 0 s =
      (of_nat k, upd_fd k (\<lambda>_. \<lparr>file_table_ptr = Some file_jumptable, inode = inode_of s i, file_pos = 0, flags = 0\<rparr>) s)"
      "k \<notin> in_use s"
    using open_fd_free[OF free] by blast
  let ?s' = "upd_fd k (\<lambda>_. \<lparr>file_table_ptr = Some file_jumptable, inode = inode_of s i, file_pos = 0, flags = 0\<rparr>) s"
  have "open_handler (ctx_dentry (shd cs)) (Some (ptr (xlate s) (phys s) a)) s = Some (of_nat k, ?s')"
    unfolding open_by_name[OF str(1) len] using nm look k(3) by simp
  note call = user_open_name[OF str this]
  have ran: "ran st T X [] s ?s'" for X by (rule ran_upd_fd[OF r k(1)]) (simp add: typed_fd_def)
  have "outside_kernel {}" by (simp add: outside_kernel_def)
  note keep = ran_file[OF ran this f]
  have "reading st T k (inode_of s i) 0 ?s'" using ran_ready[OF ran] k look(3) keep(1) by (simp add: reading_def)
  moreover have "\<forall>j. j \<noteq> k \<longrightarrow> cur_fd ?s' j = cur_fd s j" by simp
  ultimately show ?thesis using call k(2,4) ran keep(2) by blast
qed

text \<open>C3: \<open>cat\<close> shows the file: run with a file's name as argument in any state of the kernel's invariant
  with a descriptor free, it returns 0, its terminal has taken the file's bytes other than NUL in
  order, whatever the file's length, and nothing else changed in memory than the text pages and its
  own buffer; the other terminals are as before.\<close>

theorem cat_shows_file:
  fixes s :: "'a keyboard_state_scheme"
  assumes r: "ready st T s" and a: "is_cstr (args_of s) name" "length name < 1024"
    and nm: "take 3 name \<noteq> ascii ''rtc''" "take 1 name \<noteq> ascii ''.''"
    and look: "find (\<lambda>i. name_of s i = take 32 name) [0..<63] = Some i" "type_of s i = 2" "inode_of s i \<noteq> - 1"
    and d: "directory_in_kernel s" and f: "file_in_kernel s (inode_of s i)" and free: "\<not> {2..<8} \<subseteq> in_use s"
    and w: "in_window buf 1024"
  shows "\<exists>cs' s'. cat_main L buf (cs, s) = Some (0, (cs', s')) \<and>
    terminal_view T s' = fold tty_put (filter (\<lambda>b. b \<noteq> 0) (content_of s (inode_of s i))) (terminal_view T s) \<and>
    (\<forall>u < 3. u \<noteq> T \<longrightarrow> terminal_view u s' = terminal_view u s) \<and>
    (\<forall>p. \<not> display_byte p \<and> p \<notin> xlate s ` region buf 1024 \<longrightarrow> phys s' p = phys s p) \<and> kernel_ok st T s'"
proof -
  let ?X = "xlate s ` region buf 1024"
  have o: "outside_kernel ?X" by (rule window_outside[OF ready_facts(1)[OF r] w])
  obtain s1 where 1: "ece391_getargs buf (of_nat 1024) (cs, s) = Some (0, (stl cs, s1))" "ran st T ?X [] s s1"
    "is_cstr (ptr (xlate s1) (phys s1) buf) name" "in_use s1 = in_use s"
    using user_getargs[OF r a w] by blast
  have i: "i < 63" using look(1) by (auto simp: find_Some_iff)
  note dir = ran_directory[OF 1(2) o d]
  have "find (\<lambda>i. name_of s1 i = take 32 name) [0..<63] = find (\<lambda>i. name_of s i = take 32 name) [0..<63]"
    by (rule find_cong) (use dir(2) in auto)
  then have look1: "find (\<lambda>i. name_of s1 i = take 32 name) [0..<63] = Some i" "type_of s1 i = 2"
    "inode_of s1 i = inode_of s i" using look dir(2)[OF i] by simp_all
  note f1 = ran_file[OF 1(2) o f]
  have w1: "in_window buf (length name)" using w a(2) by (simp add: in_window_def)
  obtain k s2 where 2: "ece391_open buf (stl cs, s1) = Some (of_nat k, (stl (stl cs), s2))" "k < 8"
    "ran st T ?X [] s1 s2" "reading st T k (inode_of s i) 0 s2" "content_of s2 (inode_of s i) = content_of s (inode_of s i)"
    using user_open_file[OF ran_ready[OF 1(2)] 1(3) w1 nm look1(1,2), of "stl cs" ?X] look(3) f1 free 1(4)
    by (auto simp: look1(3))
  have "?X = xlate s2 ` region buf 1024" using 1(2) 2(3) by (simp add: ran_def)
  from cat_loop_shows[OF 2(4) w this, of L "stl (stl cs)"] obtain cs' s' where 3: "cat_loop L buf (of_nat k) (stl (stl cs), s2) = Some (0, (cs', s'))"
    "ran st T ?X (filter (\<lambda>b. b \<noteq> 0) (content_of s (inode_of s i))) s2 s'"
    by (auto simp: 2(5))
  have "(of_nat k :: u32) \<noteq> - 1" using 2(2) by (intro count_not_minus_one) simp
  then have "cat_main L buf (cs, s) = Some (0, (cs', s'))"
    using 1(1) 2(1) 3(1) by (simp add: cat_main_def)
  moreover have "ran st T ?X (filter (\<lambda>b. b \<noteq> 0) (content_of s (inode_of s i))) s s'"
    using ran_trans[OF ran_trans[OF 1(2) 2(3)] 3(2)] by simp
  ultimately show ?thesis by (intro exI[of _ cs'] exI[of _ s']) (simp add: ran_def ready_def)
qed


lemma user_load32:
  assumes "n + 3 < 0x100000"
  shows "load32 (xlate (user_machine ts)) (user_mem ts) (0x500000 + of_nat n) =
    (ucast (user_image n) OR push_bit 8 (ucast (user_image (n + 1))) OR
     push_bit 16 (ucast (user_image (n + 2))) OR push_bit 24 (ucast (user_image (n + 3))))"
  using user_load[of n ts] user_load[of "n + 1" ts] user_load[of "n + 2" ts] user_load[of "n + 3" ts] assms
  by (simp add: load32_def add.assoc)

lemma user_file:
  "file_size (xlate (user_machine ts)) (user_mem ts) 0x500000 0 = 4"
  "content_of (user_machine ts) 0 = [127, 69, 76, 70]" "file_in_kernel (user_machine ts) 0"
proof -
  have w: "load32 (xlate (user_machine ts)) (user_mem ts) 0x500004 = 1"
    "load32 (xlate (user_machine ts)) (user_mem ts) 0x501000 = 4"
    "load32 (xlate (user_machine ts)) (user_mem ts) 0x501004 = 0"
    using user_load32[of 4 ts] user_load32[of 4096 ts] user_load32[of 4100 ts] by (simp_all add: user_image_def)
  show sz: "file_size (xlate (user_machine ts)) (user_mem ts) 0x500000 0 = 4"
    by (simp add: file_size_def inode_addr_def w)
  have b: "byte_addr (xlate (user_machine ts)) (user_mem ts) 0x500000 0 p = 0x502000 + of_nat p" if "p < 4" for p
    using that by (simp add: byte_addr_def data_block_addr_def n_inodes_def inode_addr_def w)
  have "content_of (user_machine ts) 0 =
      map (\<lambda>p. load8 (xlate (user_machine ts)) (user_mem ts) (0x502000 + of_nat p)) [0..<4]"
    by (simp add: file_content_def sz b)
  also have "\<dots> = map (\<lambda>p. user_image (8192 + p)) [0..<4]"
    using user_load[of "8192 + _" ts] by (intro map_cong) (simp_all add: add.assoc[symmetric])
  finally show "content_of (user_machine ts) 0 = [127, 69, 76, 70]" by (simp add: upt_rec user_image_def)
  have k: "kernel_byte (xlate (user_machine ts) (0x500000 + of_nat n))" if "n < 0x100000" for n
  proof -
    have "unat (0x500000 + of_nat n :: u32) = 0x500000 + n" using that by (simp add: unat_add_of_nat32)
    then show ?thesis using user_xlate[of "0x500000 + of_nat n" ts] that by (simp add: kernel_byte_def)
  qed
  have r: "kernel_byte p" if p: "p \<in> xlate (user_machine ts) ` region (0x500000 + of_nat n) 4" and n: "n + 4 < 0x100000" for p n
  proof -
    obtain j where "j < 4" "p = xlate (user_machine ts) (0x500000 + (of_nat n + of_nat j))"
      using p by (auto simp: region_def add.assoc)
    then show ?thesis using k[of "n + j"] n by simp
  qed
  have d: "p div 4096 = 0" if "p < 4" for p :: nat using that by simp
  show "file_in_kernel (user_machine ts) 0"
    using r[of _ 4] r[of _ 4096] r[of _ 4100] k[of "8192 + _"] d
    by (auto simp: file_in_kernel_def size_ok_def sz file_footprint_def b inode_addr_def add.assoc[symmetric])
qed

lemma user_args: "is_cstr (args_of (user_machine ts)) [97]"
  by (simp add: is_cstr_def user_pcb_def)

definition still_context :: "'s call_context" where
  "still_context = \<lparr>ctx_frame = fresh_frame, ctx_regs = (0, 0), ctx_dentry = \<lparr>file_name = replicate 32 0, file_type = 0, inode_num = 0\<rparr>,
     ctx_stack = (\<lambda>_. 0), ctx_interrupts = []\<rparr>"

lemma user_free: "\<not> {2..<8} \<subseteq> in_use (user_machine ts)"
proof -
  have "2 \<in> {2..<8 :: nat}" "2 \<notin> in_use (user_machine ts)" by (simp_all add: user_machine_in_use)
  then show ?thesis by blast
qed

lemma cat_shows_file_witness:
  "\<exists>cs' s'. cat_main (user_lits []) 0x8002000 (sconst still_context, user_machine []) = Some (0, (cs', s')) \<and>
     terminal_view 0 s' = fold tty_put [127, 69, 76, 70] (terminal_view 0 (user_machine []))"
proof -
  have find: "find (\<lambda>i. name_of (user_machine []) i = take 32 [97]) [0..<63] = Some 0"
    by (simp add: user_names upt_conv_Cons)
  have ino: "inode_of (user_machine []) 0 = 0" by (simp add: user_fields)
  note cat = cat_shows_file[OF user_machine_ready user_args _ _ _ find _ _ user_directory _ user_free, unfolded ino, OF _ _ _ _ _ user_file(3)]
  show ?thesis using cat[of "0x8002000" "user_lits []" "sconst still_context"]
    by (auto simp: user_fields user_file(2)[of "[]", simplified] ascii_def in_window_def)
qed


section \<open>ls\<close>

text \<open>Descriptor \<open>k\<close> is a directory, listed up to entry \<open>p\<close>.\<close>

definition listing :: "stacks \<Rightarrow> nat \<Rightarrow> nat \<Rightarrow> nat \<Rightarrow> 'a keyboard_state_scheme \<Rightarrow> bool" where
  "listing st T k p s \<longleftrightarrow>
     ready st T s \<and> 2 \<le> k \<and> k < 8 \<and> file_table_ptr (cur_fd s k) = Some directory_jumptable \<and>
     inode (cur_fd s k) \<noteq> - 1 \<and> file_pos (cur_fd s k) = of_nat p \<and>
     directory_in_kernel s \<and> (\<forall>j < 63. type_of s j < 2 ^ 24)"

text \<open>A local \<open>dentry_t\<close> has 32 bytes for the name.\<close>

definition dentry_contexts :: "'s call_context stream \<Rightarrow> bool" where
  "dentry_contexts cs \<longleftrightarrow> (\<forall>c \<in> sset cs. length (file_name (ctx_dentry c)) = 32)"

lemma dentry_contexts_stl: "dentry_contexts cs \<Longrightarrow> dentry_contexts (stl cs)"
  by (simp add: dentry_contexts_def stl_sset)

lemma dentry_contexts_shd: "dentry_contexts cs \<Longrightarrow> length (file_name (ctx_dentry (shd cs))) = 32"
  by (simp add: dentry_contexts_def shd_sset)

lemma length_entry_name: "length (entry_name tr m fs i) \<le> 32"
  by (simp add: entry_name_def length_cstr_le)

lemma listing_step:
  fixes s :: "'a keyboard_state_scheme"
  assumes l: "listing st T k p s" and p: "p < 63" and w: "in_window buf 33" and c: "dentry_contexts cs"
  defines "nm \<equiv> name_of s p"
  shows "\<exists>s'. ece391_read (of_nat k) buf 32 (cs, s) = Some (of_nat (length nm), (stl cs, s')) \<and>
    ran st T (xlate s ` region buf 33) [] s s' \<and> bytes_at (xlate s') (phys s') buf (length nm) = nm \<and>
    listing st T k (Suc p) s' \<and> (\<forall>j < 63. name_of s' j = name_of s j)"
proof -
  have r: "ready st T s" and k: "2 \<le> k" "k < 8" and ops: "file_table_ptr (cur_fd s k) = Some directory_jumptable"
    and ino: "inode (cur_fd s k) \<noteq> - 1" and pos: "file_pos (cur_fd s k) = of_nat p" and d: "directory_in_kernel s"
    and ty: "\<forall>j < 63. type_of s j < 2 ^ 24"
    using l by (simp_all add: listing_def)
  note m = ready_facts(1)[OF r]
  let ?X = "xlate s ` region buf 33"
  have nm: "length nm \<le> 32" "take 32 nm = nm" by (simp_all add: nm_def length_entry_name)
  let ?s' = "upd_fd k (\<lambda>f. f\<lparr>file_pos := file_pos f + 1\<rparr>) (s\<lparr>phys := write_bytes (xlate s) buf nm (phys s)\<rparr>)"
  have use: "k \<in> in_use s" using k ino by (simp add: in_use_def)
  have "directory_read (of_nat k) buf (of_nat 32) (ctx_dentry (shd cs)) (ctx_stack (shd cs)) s = Some (of_nat (length nm), ?s')"
    using directory_read_entry[OF use p pos _ window_nonzero[OF w] dentry_contexts_shd[OF c], of 32] ty p nm
    by (simp add: nm_def min_def)
  moreover have "nat (sint (of_nat k :: u32)) = k" using sint_small[OF k(2)] by simp
  ultimately have "read_handler (shd cs) (of_nat k) buf 32 s = Some (of_nat (length nm), ?s')"
    using use ops by (auto simp: read_handler_def check_valid_fd_in_use fd_table_def)
  note call = user_calls(1)[OF this]
  have bl: "length nm \<le> 33" using nm(1) by simp
  note st = ran_store[OF r w bl]
  have "ran st T ?X [] (s\<lparr>phys := write_bytes (xlate s) buf nm (phys s)\<rparr>) ?s'"
    by (rule ran_upd_fd[OF ran_ready[OF st] k(1)]) (simp add: typed_fd_def)
  from ran_trans[OF st this] have ran: "ran st T ?X [] s ?s'" by simp
  note dir = ran_directory[OF ran window_outside[OF m w] d]
  have "inj_on (xlate s) (region buf (length nm))" by (rule inj_on_subset[OF program_window_inj[OF m w] region_mono[OF bl]])
  then have "bytes_at (xlate ?s') (phys ?s') buf (length nm) = nm" using nm(1) by (simp add: bytes_at_write_bytes)
  moreover have "type_of ?s' j < 2 ^ 24" if "j < 63" for j using dir(2)[OF that] ty that by metis
  then have "listing st T k (Suc p) ?s'"
    using ran_ready[OF ran] k ops ino pos dir(1) by (simp add: listing_def)
  ultimately show ?thesis using call ran dir(2) by blast
qed

definition listing_text :: "'a kernel_state_scheme \<Rightarrow> nat \<Rightarrow> nat \<Rightarrow> byte list" where
  "listing_text s p e = concat (map (\<lambda>j. name_of s j @ [10]) [p..<e])"

lemma name_nonzero: "b \<in> set (entry_name tr m fs i) \<Longrightarrow> b \<noteq> 0"
  by (auto simp: entry_name_def dest: cstr_nonzero)

text \<open>One name and its newline.\<close>

lemma line_shown:
  fixes s :: "'a keyboard_state_scheme"
  assumes r: "ready st T s" and w: "in_window buf 33" and nm: "length nm \<le> 32" "0 \<notin> set nm"
    and b: "bytes_at (xlate s) (phys s) buf (length nm) = nm"
  shows "\<exists>s' n. ece391_write 1 buf (of_nat (length nm) + 1) (ustore (buf + of_nat (length nm)) 10 (cs, s)) = Some (n, (stl cs, s')) \<and>
    n \<noteq> - 1 \<and> ran st T (xlate s ` region buf 33) (nm @ [10]) s s' \<and> cur_fd s' = cur_fd s"
proof -
  note m = ready_facts(1)[OF r]
  let ?a = "buf + of_nat (length nm)" and ?X = "xlate s ` region buf 33"
  let ?s1 = "s\<lparr>phys := write_bytes (xlate s) ?a [10] (phys s)\<rparr>"
  have u: "unat ?a = unat buf + length nm" using window_unat[OF w, of "length nm"] nm(1) by simp
  then have w1: "in_window ?a 1" using w nm(1) by (simp add: in_window_def)
  have in33: "?a \<in> region buf 33" using nm(1) by (auto simp: region_def)
  have "region ?a 1 = {?a}" by (auto simp: region_def)
  then have X: "xlate s ` region ?a 1 \<subseteq> ?X" using in33 by auto
  have ran1: "ran st T ?X [] s ?s1" by (rule ran_mono[OF ran_store[OF r w1] X]) simp
  have l: "load8 (xlate s) (phys ?s1) (buf + of_nat i) = (nm @ [10]) ! i" if "i < length nm + 1" for i
  proof (cases "i = length nm")
    case True
    then show ?thesis by (simp add: mem_simps)
  next
    case False
    then have i: "i < length nm" using that by simp
    have "xlate s (buf + of_nat i) \<noteq> xlate s ?a"
      using inj_on_region[OF program_window_inj[OF m w], of i "length nm"] i nm(1) by simp
    then have "load8 (xlate s) (phys ?s1) (buf + of_nat i) = load8 (xlate s) (phys s) (buf + of_nat i)"
      by (simp add: mem_simps)
    also have "\<dots> = nm ! i" using b i by (metis nth_bytes_at)
    finally show ?thesis using i by (simp add: nth_append)
  qed
  have bs: "bytes_at (xlate ?s1) (phys ?s1) buf (length nm + 1) = nm @ [10]"
    by (rule nth_equalityI) (use l in simp_all)
  have f: "filter (\<lambda>b. b \<noteq> 0) (nm @ [10]) = nm @ [10]" using nm(2) by (auto simp: filter_id_conv)
  have w2: "in_window buf (length nm + 1)" using w nm(1) by (simp add: in_window_def)
  obtain s' where s': "ece391_write 1 buf (of_nat (length nm + 1)) (cs, ?s1) = Some (of_nat (length (nm @ [10])), (stl cs, s'))"
    "shown st T (nm @ [10]) ?s1 s'"
    using user_write[OF ran_ready[OF ran1] w2, of cs, unfolded bs f] by blast
  have "ustore ?a 10 (cs, s) = (cs, ?s1)" by (simp add: ustore_def)
  moreover have "(of_nat (length (nm @ [10])) :: u32) \<noteq> - 1" by (rule count_not_minus_one) (use nm(1) in simp)
  moreover have "cur_fd s' = cur_fd s" using shown_fds(1)[OF s'(2) ran_ready[OF ran1]] by simp
  moreover have "(of_nat (length nm + 1) :: u32) = of_nat (length nm) + 1" by simp
  ultimately show ?thesis using s'(1) ran_trans[OF ran1 shown_ran[OF s'(2)]] by (metis append_Nil)
qed

lemma ls_loop_shows:
  assumes "listing st T k p s" "in_window buf 33" "dentry_contexts cs" "X = xlate s ` region buf 33"
    and "p \<le> e" "e < 63" "name_of s e = []" "\<forall>j < e. name_of s j \<noteq> []"
  shows "\<exists>cs' s'. ls_loop L buf (of_nat k) (cs, s) = Some (0, (cs', s')) \<and> ran st T X (listing_text s p e) s s'"
  using assms
proof (induction "e - p" arbitrary: p s cs)
  case 0
  then have p: "p < 63" "name_of s p = []" "listing_text s p e = []" by (simp_all add: listing_text_def)
  obtain s1 where "ece391_read (of_nat k) buf 32 (cs, s) = Some (of_nat (length (name_of s p)), (stl cs, s1))" "ran st T X [] s s1"
    using listing_step[OF 0(2) p(1) 0(3,4)] 0(5) by blast
  then show ?case using p by (intro exI[of _ "stl cs"] exI[of _ s1]) (subst ls_loop.simps, simp)
next
  case (Suc d)
  then have p: "p < e" "p < 63" "name_of s p \<noteq> []" by simp_all
  let ?nm = "name_of s p"
  obtain s1 where s1: "ece391_read (of_nat k) buf 32 (cs, s) = Some (of_nat (length ?nm), (stl cs, s1))"
    "ran st T X [] s s1" "bytes_at (xlate s1) (phys s1) buf (length ?nm) = ?nm" "listing st T k (Suc p) s1"
    "\<forall>j < 63. name_of s1 j = name_of s j"
    using listing_step[OF Suc.prems(1) p(2) Suc.prems(2,3)] Suc.prems(4) by blast
  have x1: "xlate s1 = xlate s" using s1(2) by (simp add: ran_def)
  have nm: "length ?nm \<le> 32" "0 \<notin> set ?nm" using length_entry_name name_nonzero by blast+
  obtain s2 n where s2: "ece391_write 1 buf (of_nat (length ?nm) + 1) (ustore (buf + of_nat (length ?nm)) 10 (stl cs, s1)) = Some (n, (stl (stl cs), s2))"
    "n \<noteq> - 1" "ran st T X (?nm @ [10]) s1 s2" "cur_fd s2 = cur_fd s1"
    using line_shown[OF ran_ready[OF s1(2)] Suc.prems(2) nm s1(3), of "stl cs"] Suc.prems(4) x1 by auto
  have o: "outside_kernel X" using window_outside[OF ready_facts(1) Suc.prems(2)] Suc.prems(1,4) by (auto simp: listing_def)
  have d1: "directory_in_kernel s1" using s1(4) by (simp add: listing_def)
  note dir = ran_directory[OF s2(3) o d1]
  have "type_of s2 j < 2 ^ 24" if "j < 63" for j using dir(2)[OF that] s1(4) that by (simp add: listing_def)
  then have l2: "listing st T k (Suc p) s2" using s1(4) s2(4) ran_ready[OF s2(3)] dir(1) by (simp add: listing_def)
  have names: "name_of s2 j = name_of s j" if "j < 63" for j using dir(2)[OF that] s1(5) that by simp
  have x2: "xlate s2 = xlate s" using s2(3) x1 by (simp add: ran_def)
  have "d = e - Suc p" "X = xlate s2 ` region buf 33" "Suc p \<le> e" "name_of s2 e = []" "\<forall>j < e. name_of s2 j \<noteq> []"
    using Suc.hyps(2) Suc.prems names x2 by simp_all
  from Suc.hyps(1)[OF this(1) l2 Suc.prems(2) dentry_contexts_stl[OF dentry_contexts_stl[OF Suc.prems(3)]] this(2,3) Suc.prems(6) this(4,5)]
  obtain cs' s' where s': "ls_loop L buf (of_nat k) (stl (stl cs), s2) = Some (0, (cs', s'))"
    "ran st T X (listing_text s2 (Suc p) e) s2 s'" by blast
  have "listing_text s2 (Suc p) e = listing_text s (Suc p) e"
    unfolding listing_text_def using names Suc.prems(6) by (intro arg_cong[of _ _ concat] map_cong) auto
  moreover have "listing_text s p e = ?nm @ [10] @ listing_text s (Suc p) e"
    using p(1) by (simp add: listing_text_def upt_conv_Cons)
  moreover have "(of_nat (length ?nm) :: u32) \<noteq> 0" "(of_nat (length ?nm) :: u32) \<noteq> - 1"
    using count_not_zero[of "length ?nm"] count_not_minus_one[of "length ?nm"] p(3) nm(1) by simp_all
  ultimately show ?case
    using s1(1) s2(1,2) s'(1) ran_trans[OF ran_trans[OF s1(2) s2(3)] s'(2)]
    by (intro exI[of _ cs'] exI[of _ s']) (subst ls_loop.simps, simp)
qed


text \<open>C6: \<open>ls\<close> lists the directory: with a descriptor free it returns 0 after printing, one to a
  line, the names of the entries of the file system image from the first on up to the first that has
  no name, in order; no other terminal changes, and no other memory than the text pages and its
  buffer.\<close>

theorem ls_lists_directory:
  fixes s :: "'a keyboard_state_scheme"
  assumes r: "ready st T s" and lit: "literals_in L {ascii ''.''} s" and c: "dentry_contexts cs"
    and look: "find (\<lambda>i. name_of s i = ascii ''.'') [0..<63] = Some i" "type_of s i = 1" "inode_of s i \<noteq> - 1"
    and d: "directory_in_kernel s" "\<forall>j < 63. type_of s j < 2 ^ 24" and free: "\<not> {2..<8} \<subseteq> in_use s"
    and w: "in_window buf 33" and e: "e < 63" "name_of s e = []" "\<forall>j < e. name_of s j \<noteq> []"
  shows "\<exists>cs' s'. ls_main L buf (cs, s) = Some (0, (cs', s')) \<and>
    terminal_view T s' = fold tty_put (concat (map (\<lambda>j. name_of s j @ [10]) [0..<e])) (terminal_view T s) \<and>
    (\<forall>u < 3. u \<noteq> T \<longrightarrow> terminal_view u s' = terminal_view u s) \<and>
    (\<forall>p. \<not> display_byte p \<and> p \<notin> xlate s ` region buf 33 \<longrightarrow> phys s' p = phys s p) \<and> kernel_ok st T s'"
proof -
  let ?X = "xlate s ` region buf 33"
  have str: "is_cstr (ptr (xlate s) (phys s) (L (ascii ''.''))) (ascii ''.'')" "in_window (L (ascii ''.'')) (length (ascii ''.''))"
    using lit by (auto simp: literals_in_def in_window_def)
  have t: "take 32 (ascii ''.'') = ascii ''.''" "take 3 (ascii ''.'') \<noteq> ascii ''rtc''" "take 1 (ascii ''.'') = ascii ''.''"
    "length (ascii ''.'') < 2 ^ 31" by (simp_all add: ascii_def)
  obtain k where k: "2 \<le> k" "k < 8" "open_fd directory_jumptable (inode_of s i) 0 0 s =
      (of_nat k, upd_fd k (\<lambda>_. \<lparr>file_table_ptr = Some directory_jumptable, inode = inode_of s i, file_pos = 0, flags = 0\<rparr>) s)"
    using open_fd_free[OF free] by blast
  let ?s1 = "upd_fd k (\<lambda>_. \<lparr>file_table_ptr = Some directory_jumptable, inode = inode_of s i, file_pos = 0, flags = 0\<rparr>) s"
  have "open_handler (ctx_dentry (shd cs)) (Some (ptr (xlate s) (phys s) (L (ascii ''.'')))) s = Some (of_nat k, ?s1)"
    unfolding open_by_name[OF str(1) t(4)] t(1,3) using t(2) look k(3) by simp
  note opened = user_open_name[OF str this]
  have ran: "ran st T ?X [] s ?s1" by (rule ran_upd_fd[OF r k(1)]) (simp add: typed_fd_def)
  have l1: "listing st T k 0 ?s1"
    using ran_ready[OF ran] k look(3) ran_directory(1)[OF ran window_outside[OF ready_facts(1)[OF r] w] d(1)] d(2)
    by (simp add: listing_def)
  have x1: "?X = xlate ?s1 ` region buf 33" "name_of ?s1 e = []" "\<forall>j < e. name_of ?s1 j \<noteq> []" using e by simp_all
  from ls_loop_shows[OF l1 w dentry_contexts_stl[OF c] x1(1) le0 e(1) x1(2,3), of L]
  obtain cs' s' where ls: "ls_loop L buf (of_nat k) (stl cs, ?s1) = Some (0, (cs', s'))"
    "ran st T ?X (listing_text ?s1 0 e) ?s1 s'" by blast
  have "listing_text ?s1 0 e = concat (map (\<lambda>j. name_of s j @ [10]) [0..<e])" by (simp add: listing_text_def)
  moreover have "(of_nat k :: u32) \<noteq> - 1" using k(2) by (intro count_not_minus_one) simp
  then have "ls_main L buf (cs, s) = Some (0, (cs', s'))" using opened ls(1) by (simp add: ls_main_def)
  ultimately show ?thesis using ran_trans[OF ran ls(2)]
    by (intro exI[of _ cs'] exI[of _ s']) (simp add: ran_def ready_def)
qed

lemma ls_lists_directory_witness:
  "\<exists>cs' s'. ls_main (user_lits [[46]]) 0x8002000 (sconst still_context, user_machine [[46]]) = Some (0, (cs', s')) \<and>
     terminal_view 0 s' = fold tty_put [97, 10, 46, 10] (terminal_view 0 (user_machine [[46]]))"
proof -
  let ?m = "user_machine [[46]]"
  have dot: "ascii ''.'' = [46]" by (simp add: ascii_def)
  have lit: "literals_in (user_lits [[46]]) {ascii ''.''} ?m" using user_literals[of "[[46]]"] by (simp add: dot)
  have find: "find (\<lambda>i. name_of ?m i = ascii ''.'') [0..<63] = Some 1"
    by (simp add: user_names upt_conv_Cons dot)
  have c: "dentry_contexts (sconst still_context)" by (simp add: dentry_contexts_def still_context_def)
  have names: "name_of ?m 2 = []" "\<forall>j < 2. name_of ?m j \<noteq> []" by (simp_all add: user_names)
  have ty: "\<forall>j < 63. type_of ?m j < 2 ^ 24" and t1: "type_of ?m 1 = 1" and i1: "inode_of ?m 1 \<noteq> - 1"
    by (simp_all add: user_fields)
  have w: "in_window 0x8002000 33" by (simp add: in_window_def)
  have listed: "concat (map (\<lambda>j. name_of ?m j @ [10]) [0..<2]) = [97, 10, 46, 10]" by (simp add: user_names upt_rec)
  show ?thesis
    using ls_lists_directory[OF user_machine_ready lit c find t1 i1 user_directory ty user_free w _ names, unfolded listed] by simp blast
qed

end
