(* ===== verification/Fish_Runs.thy ===== *)
theory Fish_Runs
  imports Fish File_Runs
begin

text \<open>
  A run of the picture loader of \<open>fish\<close> on the kernel: the two files are read one byte at a time
  through the kernel, and the characters that blink afterwards are those of the pictures.
\<close>

section \<open>The pictures as lists of lines\<close>

definition glyph :: "byte \<Rightarrow> byte" where
  "glyph c = (if c = 10 then 32 else c)"

definition picture_blink :: "mp1_blink_struct \<Rightarrow> u32 \<Rightarrow> u32 \<Rightarrow> byte \<Rightarrow> byte \<Rightarrow> mp1_blink_struct" where
  "picture_blink j line_no column a b =
     j\<lparr>on_length := 15, off_length := 15, on_char := a, off_char := b, location := ucast (line_no * 80 + column + 40)\<rparr>"

text \<open>The characters of one pair of lines: the shorter line is padded with blanks, and nothing is put where both are blank.\<close>

definition first_of :: "byte list \<Rightarrow> byte" where
  "first_of l = (case l of [] \<Rightarrow> 32 | a # _ \<Rightarrow> a)"

function row_cells :: "mp1_blink_struct \<Rightarrow> u32 \<Rightarrow> u32 \<Rightarrow> byte list \<Rightarrow> byte list \<Rightarrow> mp1_blink_struct list" where
  "row_cells j line_no column l0 l1 =
     (if l0 = [] \<and> l1 = [] then []
      else (if first_of l0 \<noteq> 32 \<or> first_of l1 \<noteq> 32
            then [picture_blink j line_no column (first_of l0) (first_of l1)] else []) @
           row_cells j line_no (column + 1) (tl l0) (tl l1))"
  by pat_completeness auto
termination by (relation "measure (\<lambda>(j, n, c, l0, l1). length l0 + length l1)") (auto simp: neq_Nil_conv add_mono_thms_linordered_field)

declare row_cells.simps [simp del]

text \<open>A file from the reading position on: its line, whether the file ends with it, what follows.\<close>

definition line_of :: "byte list \<Rightarrow> byte list" where
  "line_of bs = takeWhile (\<lambda>b. b \<noteq> 10) bs"

definition ends :: "byte list \<Rightarrow> bool" where
  "ends bs \<longleftrightarrow> 10 \<notin> set bs"

definition below :: "byte list \<Rightarrow> byte list" where
  "below bs = tl (dropWhile (\<lambda>b. b \<noteq> 10) bs)"

text \<open>None is a file that was read to its end.\<close>

definition row_line :: "byte list option \<Rightarrow> byte list" where
  "row_line p = (case p of None \<Rightarrow> [] | Some bs \<Rightarrow> line_of bs)"

definition row_next :: "byte list option \<Rightarrow> byte list option" where
  "row_next p = (case p of None \<Rightarrow> None | Some bs \<Rightarrow> if ends bs then None else Some (below bs))"

lemma line_simps [simp]:
  "line_of [] = []" "line_of (b # bs) = (if b = 10 then [] else b # line_of bs)"
  "ends []" "ends (b # bs) = (b \<noteq> 10 \<and> ends bs)"
  "below (b # bs) = (if b = 10 then bs else below bs)"
  by (auto simp: line_of_def ends_def below_def)

lemma below_shorter: "\<not> ends bs \<Longrightarrow> length (below bs) < length bs"
  by (induction bs) auto

definition file_left :: "byte list option \<Rightarrow> nat" where
  "file_left p = (case p of None \<Rightarrow> 0 | Some bs \<Rightarrow> Suc (length bs))"

lemma file_left_next: "file_left (row_next p) \<le> file_left p" "p \<noteq> None \<Longrightarrow> file_left (row_next p) < file_left p"
  using below_shorter by (auto simp: file_left_def row_next_def split: option.split) (fastforce dest: less_imp_le)

function picture :: "mp1_blink_struct \<Rightarrow> u32 \<Rightarrow> byte list option \<Rightarrow> byte list option \<Rightarrow> mp1_blink_struct list" where
  "picture j line_no p0 p1 =
     (if p0 = None \<and> p1 = None then []
      else row_cells j line_no 0 (row_line p0) (row_line p1) @ picture j (line_no + 1) (row_next p0) (row_next p1))"
  by pat_completeness auto
termination
proof (relation "measure (\<lambda>(j, n, p0, p1). file_left p0 + file_left p1)")
  fix j :: mp1_blink_struct and n :: u32 and p0 p1 :: "byte list option"
  assume "\<not> (p0 = None \<and> p1 = None)"
  then have "file_left (row_next p0) + file_left (row_next p1) < file_left p0 + file_left p1"
    using file_left_next[of p0] file_left_next[of p1] by fastforce
  then show "((j, n + 1, row_next p0, row_next p1), j, n, p0, p1) \<in> measure (\<lambda>(j, n, p0, p1). file_left p0 + file_left p1)"
    by simp
qed simp

declare picture.simps [simp del]

text \<open>The characters are added one after the other.\<close>

definition add_all :: "mp1_blink_struct list \<Rightarrow> mp1_blink_struct list \<Rightarrow> mp1_blink_struct list" where
  "add_all bs cs = foldl (\<lambda>bs c. fst (snd (list_add c bs))) bs cs"

lemma add_all_simps [simp]:
  "add_all bs [] = bs" "add_all bs (c # cs) = add_all (fst (snd (list_add c bs))) cs"
  "add_all bs (cs @ ds) = add_all (add_all bs cs) ds"
  by (simp_all add: add_all_def)

section \<open>What the loader leaves alone\<close>

abbreviation kern :: "'a fish_state \<Rightarrow> 'a keyboard_state_scheme" where
  "kern s \<equiv> snd (machine s)"

text \<open>All memory but the text pages and \<open>X\<close>, and all descriptors but \<open>K\<close>.\<close>

definition kept :: "stacks \<Rightarrow> nat \<Rightarrow> addr set \<Rightarrow> nat set \<Rightarrow> 'a fish_state \<Rightarrow> 'a fish_state \<Rightarrow> bool" where
  "kept st T X K s s' \<longleftrightarrow>
     ready st T (kern s') \<and> (\<forall>p. \<not> display_byte p \<and> p \<notin> X \<longrightarrow> phys (kern s') p = phys (kern s) p) \<and>
     xlate (kern s') = xlate (kern s) \<and> fs_img_start (kern s') = fs_img_start (kern s) \<and>
     vmem_base_addr s' = vmem_base_addr s \<and> (\<forall>j. j \<notin> K \<longrightarrow> cur_fd (kern s') j = cur_fd (kern s) j)"

lemma kept_trans:
  "kept st T X K s t \<Longrightarrow> kept st T X' K' t u \<Longrightarrow> X \<subseteq> Y \<Longrightarrow> X' \<subseteq> Y \<Longrightarrow> K \<subseteq> J \<Longrightarrow> K' \<subseteq> J \<Longrightarrow> kept st T Y J s u"
  unfolding kept_def by (elim conjE, intro conjI allI impI) (simp | (metis subsetD))+

lemma kept_refl: "ready st T (kern s) \<Longrightarrow> kept st T X K s s"
  by (simp add: kept_def)

lemma kept_ready: "kept st T X K s s' \<Longrightarrow> ready st T (kern s')"
  by (simp add: kept_def)

lemma kept_ran:
  "ran st T X bs (kern s) m \<Longrightarrow> (\<And>j. j \<notin> K \<Longrightarrow> cur_fd m j = cur_fd (kern s) j) \<Longrightarrow>
   kept st T X K s (s\<lparr>machine := (cs, m)\<rparr>)"
  by (simp add: kept_def ran_def)

lemma kept_reading:
  assumes "kept st T X K s s'" "outside_kernel X" "k \<notin> K" "reading st T k ino pos (kern s)"
  shows "reading st T k ino pos (kern s')" "content_of (kern s') ino = content_of (kern s) ino"
proof -
  have f: "file_in_kernel (kern s) ino" using assms(4) by (simp add: reading_def)
  have x: "xlate (kern s') = xlate (kern s)" "fs_img_start (kern s') = fs_img_start (kern s)" "cur_fd (kern s') k = cur_fd (kern s) k"
    using assms(1,3) by (simp_all add: kept_def)
  have ag: "\<forall>p \<in> file_footprint (xlate (kern s)) (phys (kern s)) (fs_img_start (kern s)) ino. phys (kern s') p = phys (kern s) p"
    using assms(1,2) f kernel_not_display by (auto simp: kept_def file_in_kernel_def outside_kernel_def)
  note a = footprint_agree[OF ag]
  show c: "content_of (kern s') ino = content_of (kern s) ino" using a by (simp add: x)
  have "file_in_kernel (kern s') ino" using f a by (simp add: file_in_kernel_def x)
  then show "reading st T k ino pos (kern s')" using assms(4) kept_ready[OF assms(1)] c by (simp add: reading_def x)
qed

lemma kept_peek:
  assumes "kept st T X K s s'" "ready st T (kern s)" "in_window a 1" "xlate (kern s) a \<notin> X"
  shows "peek a s' = peek a s"
proof -
  have "a = a + of_nat 0" by simp
  then have "xlate (kern s) a \<in> xlate (kern s) ` region a 1" unfolding region_def by blast
  then have "\<not> display_byte (xlate (kern s) a)" using window_off(1)[OF ready_facts(1)[OF assms(2)] assms(3)] by blast
  then show ?thesis using assms(1,4) by (simp add: kept_def peek_def uload_def load8_def)
qed

lemma blinkers_machine [simp]: "blinkers (s\<lparr>machine := w\<rparr>) bs = blinkers s bs"
  by (simp add: blinkers_def)

lemma region_1: "region a 1 = {a}"
  by (auto simp: region_def)

text \<open>Assigning a local variable.\<close>

lemma assign_kept:
  assumes "ready st T (kern s)" "in_window a 1"
  shows "kept st T {xlate (kern s) a} {} s (assign a [b] s)" "peek a (assign a [b] s) = b"
    "blinkers (assign a [b] s) bs = blinkers s bs" "cur_fd (kern (assign a [b] s)) = cur_fd (kern s)"
proof -
  let ?m = "(kern s)\<lparr>phys := write_bytes (xlate (kern s)) a [b] (phys (kern s))\<rparr>"
  have a: "assign a [b] s = s\<lparr>machine := (fst (machine s), ?m)\<rparr>" by (simp add: assign_def ustores_def)
  have "ran st T (xlate (kern s) ` region a 1) [] (kern s) ?m" by (rule ran_store[OF assms]) simp
  then have r: "ran st T {xlate (kern s) a} [] (kern s) ?m" by (simp only: region_1 image_insert image_empty)
  show "kept st T {xlate (kern s) a} {} s (assign a [b] s)" unfolding a by (rule kept_ran[OF r]) (simp add: cur_fd_def)
  show "peek a (assign a [b] s) = b" by (simp add: a peek_def uload_def load8_store8)
  show "blinkers (assign a [b] s) bs = blinkers s bs" "cur_fd (kern (assign a [b] s)) = cur_fd (kern s)"
    by (simp_all add: a cur_fd_def)
qed

section \<open>One file of the two\<close>

text \<open>Descriptor \<open>k\<close> is open on the file \<open>ino\<close> and what is left to read is \<open>rest\<close>.\<close>

definition feeds :: "stacks \<Rightarrow> nat \<Rightarrow> nat \<Rightarrow> u32 \<Rightarrow> byte list \<Rightarrow> 'a keyboard_state_scheme \<Rightarrow> bool" where
  "feeds st T k ino rest m \<longleftrightarrow> (\<exists>pos. reading st T k ino pos m \<and> drop pos (content_of m ino) = rest)"

definition closable :: "nat \<Rightarrow> 'a kernel_state_scheme \<Rightarrow> bool" where
  "closable k m \<longleftrightarrow> 2 \<le> k \<and> k < 8 \<and> (inode (cur_fd m k) = - 1 \<or> file_table_ptr (cur_fd m k) = Some file_jumptable)"

text \<open>
  The variable \<open>c\<close> of the file in the middle of a line: \<open>l\<close> is left of the line, \<open>p\<close> is the file after
  it. The line has ended when \<open>c\<close> is a newline.
\<close>

definition in_line ::
  "stacks \<Rightarrow> nat \<Rightarrow> nat \<Rightarrow> u32 \<Rightarrow> addr \<Rightarrow> bool \<Rightarrow> byte list \<Rightarrow> byte list option \<Rightarrow> 'a fish_state \<Rightarrow> bool" where
  "in_line st T k ino c eof l p s \<longleftrightarrow>
     closable k (kern s) \<and>
     (if peek c s = 10 then l = [] \<and> (case p of None \<Rightarrow> eof | Some rest \<Rightarrow> \<not> eof \<and> feeds st T k ino rest (kern s))
      else \<not> eof \<and> (\<exists>rest. feeds st T k ino rest (kern s) \<and> l = line_of rest \<and> p = row_next (Some rest)))"

lemma feeds_closable: "feeds st T k ino rest m \<Longrightarrow> closable k m"
  by (auto simp: feeds_def reading_def closable_def)

lemma kept_feeds:
  assumes "kept st T X K s s'" "outside_kernel X" "k \<notin> K" "feeds st T k ino rest (kern s)"
  shows "feeds st T k ino rest (kern s')"
proof -
  obtain pos where "reading st T k ino pos (kern s)" "drop pos (content_of (kern s) ino) = rest"
    using assms(4) by (auto simp: feeds_def)
  with kept_reading[OF assms(1-3) this(1)] show ?thesis unfolding feeds_def by metis
qed

lemma kept_in_line:
  assumes k: "kept st T X K s s'" "ready st T (kern s)" "outside_kernel X" "k \<notin> K"
    and c: "in_window c 1" "xlate (kern s) c \<notin> X" and l: "in_line st T k ino c eof l p s"
  shows "in_line st T k ino c eof l p s'"
proof -
  have "cur_fd (kern s') k = cur_fd (kern s) k" using k(1,4) by (simp add: kept_def)
  then have "closable k (kern s')" using l by (simp add: in_line_def closable_def)
  then show ?thesis using l kept_feeds[OF k(1,3,4)] kept_peek[OF k(1,2) c]
    by (auto simp: in_line_def split: option.splits if_splits)
qed

text \<open>One byte through the kernel.\<close>

lemma feeds_read:
  assumes f: "feeds st T k ino rest (kern s)" and w: "in_window c 1"
  shows "\<exists>s'. on_machine (ece391_read (of_nat k) c 1) s = Some (if rest = [] then 0 else 1, s') \<and>
    kept st T {xlate (kern s) c} {k} s s' \<and> feeds st T k ino (tl rest) (kern s') \<and>
    (rest \<noteq> [] \<longrightarrow> peek c s' = hd rest) \<and> (\<forall>bs. blinkers s' bs = blinkers s bs)"
proof -
  obtain pos where p: "reading st T k ino pos (kern s)" "drop pos (content_of (kern s) ino) = rest"
    using f by (auto simp: feeds_def)
  let ?bs = "take 1 rest"
  obtain cs where cs: "machine s = (cs, kern s)" by (cases "machine s") simp
  obtain m where m: "ece391_read (of_nat k) c 1 (cs, kern s) = Some (of_nat (length ?bs), (stl cs, m))"
      "ran st T (xlate (kern s) ` region c 1) [] (kern s) m" "bytes_at (xlate m) (phys m) c (length ?bs) = ?bs"
      "reading st T k ino (pos + length ?bs) m" "content_of m ino = content_of (kern s) ino"
      "\<forall>j. j \<noteq> k \<longrightarrow> cur_fd m j = cur_fd (kern s) j"
    using reading_step[OF p(1) w, of cs] by (auto simp: p(2))
  let ?s' = "s\<lparr>machine := (stl cs, m)\<rparr>"
  have n: "of_nat (length ?bs) = (if rest = [] then 0 else 1 :: u32)" by (cases rest) simp_all
  have "on_machine (ece391_read (of_nat k) c 1) s = Some (if rest = [] then 0 else 1, ?s')"
    unfolding on_machine_def m(1)[folded cs] n by simp
  moreover have "ran st T {xlate (kern s) c} [] (kern s) m" using m(2) by (simp only: region_1 image_insert image_empty)
  then have "kept st T {xlate (kern s) c} {k} s ?s'" by (rule kept_ran) (use m(6) in simp)
  moreover have "drop (pos + length ?bs) (content_of (kern s) ino) = drop (length ?bs) rest"
    unfolding p(2)[symmetric] by (simp add: add.commute)
  then have "drop (pos + length ?bs) (content_of (kern s) ino) = tl rest" by (cases rest) simp_all
  then have "feeds st T k ino (tl rest) (kern ?s')" using m(4,5) by (auto simp: feeds_def)
  moreover have "rest \<noteq> [] \<Longrightarrow> peek c ?s' = hd rest"
    using m(3) by (cases rest) (auto simp: bytes_at_def peek_def uload_def)
  ultimately show ?thesis by (intro exI[of _ ?s']) simp
qed

lemma window_1_outside: "ready st T m \<Longrightarrow> in_window c 1 \<Longrightarrow> outside_kernel {xlate m c}"
  using window_outside[OF ready_facts(1), of st T m c 1] by (simp only: region_1 image_insert image_empty)

lemma next_char_line:
  assumes r: "ready st T (kern s)" and w: "in_window c 1" and l: "in_line st T k ino c eof l p s"
  shows "\<exists>eof' s'. next_char (of_nat k) c eof s = Some (eof', s') \<and> kept st T {xlate (kern s) c} {k} s s' \<and>
    in_line st T k ino c eof' (tl l) p s' \<and> (peek c s' = 10 \<longleftrightarrow> l = []) \<and> glyph (peek c s') = first_of l \<and>
    (\<forall>bs. blinkers s' bs = blinkers s bs)"
proof (cases "peek c s = 10")
  case True
  then have "l = []" "next_char (of_nat k) c eof s = Some (eof, s)" using l by (simp_all add: in_line_def next_char_def)
  then show ?thesis using True l kept_refl[OF r] by (auto simp: glyph_def first_of_def)
next
  case False
  then obtain rest where f: "feeds st T k ino rest (kern s)" "l = line_of rest" "p = row_next (Some rest)" "\<not> eof"
    using l by (auto simp: in_line_def)
  obtain s1 where s1: "on_machine (ece391_read (of_nat k) c 1) s = Some (if rest = [] then 0 else 1, s1)"
    "kept st T {xlate (kern s) c} {k} s s1" "feeds st T k ino (tl rest) (kern s1)" "rest \<noteq> [] \<longrightarrow> peek c s1 = hd rest"
    "\<forall>bs. blinkers s1 bs = blinkers s bs"
    using feeds_read[OF f(1) w] by blast
  show ?thesis
  proof (cases rest)
    case Nil
    let ?s' = "assign c [10] s1"
    note a = assign_kept[OF kept_ready[OF s1(2)] w, of 10]
    have x: "xlate (kern s1) = xlate (kern s)" using s1(2) by (simp add: kept_def)
    have "next_char (of_nat k) c eof s = Some (True, ?s')" using False s1(1) Nil by (simp add: next_char_def)
    moreover have "kept st T {xlate (kern s) c} {k} s ?s'" by (rule kept_trans[OF s1(2) a(1)]) (auto simp: x)
    moreover have "closable k (kern ?s')" using feeds_closable[OF s1(3)] a(4) by (simp add: closable_def)
    then have "in_line st T k ino c True (tl l) p ?s'" using a(2) f Nil by (simp add: in_line_def row_next_def)
    ultimately show ?thesis using a(2,3) s1(5) f(2) Nil by (auto simp: glyph_def first_of_def)
  next
    case (Cons b bs)
    have "next_char (of_nat k) c eof s = Some (eof, s1)" using False s1(1) Cons by (simp add: next_char_def)
    moreover have "in_line st T k ino c eof (tl l) p s1"
      using s1(3,4) f Cons feeds_closable[OF s1(3)] by (auto simp: in_line_def row_next_def)
    ultimately show ?thesis using s1 f(2) Cons by (auto simp: glyph_def first_of_def)
  qed
qed

section \<open>The page\<close>

text \<open>The cells of the page are text memory.\<close>

definition page_mapped :: "'a fish_state \<Rightarrow> bool" where
  "page_mapped s \<longleftrightarrow> (\<forall>p \<in> region (vmem_base_addr s) 4000. display_byte (xlate (kern s) p))"

lemma kept_page: "kept st T X K s s' \<Longrightarrow> page_mapped s' = page_mapped s"
  by (simp add: kept_def page_mapped_def)

text \<open>A character on the page: only text memory changes.\<close>

lemma ready_display:
  fixes s :: "'a keyboard_state_scheme"
  assumes "ready st T s"
  shows "ready st T (s\<lparr>phys := m\<rparr>)"
proof -
  have "kernel_ok st T (s\<lparr>phys := m\<rparr>)"
    by (rule kernel_ok_calm[of st T s]) (use assms ready_facts(2)[OF assms] in \<open>simp_all add: ready_def settled_extra\<close>)
  then show ?thesis using assms by (simp add: ready_def std_fds_def)
qed

lemma draw_kept:
  assumes "ready st T (kern s)" "page_mapped s" "\<forall>(off, c) \<in> set ds. \<exists>b. location b < 2000 \<and> off = cell_offset b"
    "machine s' = draw (vmem_base_addr s) ds (machine s)" "vmem_base_addr s' = vmem_base_addr s"
  shows "kept st T {} {} s s'"
  using assms
proof (induction ds arbitrary: s)
  case Nil
  then show ?case by (simp add: kept_def)
next
  case (Cons d ds)
  obtain off c where d: "d = (off, c)" by (cases d)
  then obtain b where b: "location b < 2000" "off = cell_offset b" using Cons.prems(3) by auto
  define a where "a = vmem_base_addr s + off"
  let ?s1 = "s\<lparr>machine := ustore a c (machine s)\<rparr>"
  have sys': "kern ?s1 = (kern s)\<lparr>phys := store8 (xlate (kern s)) a c (phys (kern s))\<rparr>" by (simp add: ustore_def)
  have p: "display_byte (xlate (kern s) a)"
    using Cons.prems(2) cell_in_page[OF b(1)] b(2) by (simp add: page_mapped_def a_def)
  have "kept st T {} {} s ?s1"
    using ready_display[OF Cons.prems(1)] p unfolding kept_def sys' by (auto simp: store8_def cur_fd_def)
  moreover have "kept st T {} {} ?s1 s'"
  proof (rule Cons.IH)
    show "ready st T (kern ?s1)" unfolding sys' by (rule ready_display[OF Cons.prems(1)])
    show "page_mapped ?s1" using Cons.prems(2) unfolding page_mapped_def sys' by simp
  qed (use Cons.prems(3-5) d in \<open>auto simp: a_def\<close>)
  ultimately show ?case by (rule kept_trans) simp_all
qed

lemma add_request:
  assumes r: "ready st T (kern s)" and b: "blinkers s bs" and pg: "page_mapped s" and u: "location u \<noteq> 0"
  shows "\<exists>v w s'. mp1_ioctl beyond arg 0 u s = Some (v, w, s') \<and> kept st T {} {} s s' \<and>
    blinkers s' (fst (snd (list_add u bs)))"
proof -
  obtain v bs' ds where l: "list_add u bs = (v, bs', ds)" by (cases "list_add u bs") auto
  from add_follows[OF b u l] obtain s' where s': "mp1_ioctl_add u s = (v, s')" "follows s s' bs' ds" by blast
  have "\<forall>(off, c) \<in> set ds. \<exists>b. location b < 2000 \<and> off = cell_offset b"
    using l by (auto simp: list_add_def not_le split: if_splits)
  then have "kept st T {} {} s s'" using draw_kept[OF r pg] s'(2) by (simp add: follows_def)
  then show ?thesis using s' l by (auto simp: mp1_ioctl_def follows_def)
qed

section \<open>Lines\<close>

text \<open>Both files with their variables, side by side.\<close>

definition two_lines ::
  "stacks \<Rightarrow> nat \<Rightarrow> frame_env \<Rightarrow> nat \<Rightarrow> nat \<Rightarrow> u32 \<Rightarrow> u32 \<Rightarrow> bool \<Rightarrow> bool \<Rightarrow>
   byte list \<Rightarrow> byte list \<Rightarrow> byte list option \<Rightarrow> byte list option \<Rightarrow> 'a fish_state \<Rightarrow> bool" where
  "two_lines st T e k0 k1 ino0 ino1 eof0 eof1 l0 l1 p0 p1 s \<longleftrightarrow>
     ready st T (kern s) \<and> page_mapped s \<and> k0 \<noteq> k1 \<and> fd0 e = of_nat k0 \<and> fd1 e = of_nat k1 \<and>
     in_window (c0_at e) 1 \<and> in_window (c1_at e) 1 \<and> xlate (kern s) (c0_at e) \<noteq> xlate (kern s) (c1_at e) \<and>
     in_line st T k0 ino0 (c0_at e) eof0 l0 p0 s \<and> in_line st T k1 ino1 (c1_at e) eof1 l1 p1 s"

definition vars :: "frame_env \<Rightarrow> 'a fish_state \<Rightarrow> addr set" where
  "vars e s = {xlate (kern s) (c0_at e), xlate (kern s) (c1_at e)}"

lemma kept_vars: "kept st T X K s s' \<Longrightarrow> vars e s' = vars e s"
  by (simp add: kept_def vars_def)

lemma vars_outside: "ready st T (kern s) \<Longrightarrow> in_window (c0_at e) 1 \<Longrightarrow> in_window (c1_at e) 1 \<Longrightarrow> outside_kernel (vars e s)"
  using window_1_outside[of st T "kern s" "c0_at e"] window_1_outside[of st T "kern s" "c1_at e"]
  by (auto simp: outside_kernel_def vars_def)

text \<open>A step at the first file leaves the second alone, and the other way round.\<close>

lemma two_lines_first:
  assumes t: "two_lines st T e k0 k1 ino0 ino1 eof0 eof1 l0 l1 p0 p1 s"
    and k: "kept st T {xlate (kern s) (c0_at e)} {k0} s s'" and l: "in_line st T k0 ino0 (c0_at e) eof l p s'"
  shows "two_lines st T e k0 k1 ino0 ino1 eof eof1 l l1 p p1 s'"
proof -
  have "in_line st T k1 ino1 (c1_at e) eof1 l1 p1 s'"
    using t kept_in_line[OF k _ window_1_outside, where c = "c1_at e"] by (auto simp: two_lines_def)
  then show ?thesis using t l kept_ready[OF k] kept_page[OF k] k by (simp add: two_lines_def kept_def)
qed

lemma two_lines_second:
  assumes t: "two_lines st T e k0 k1 ino0 ino1 eof0 eof1 l0 l1 p0 p1 s"
    and k: "kept st T {xlate (kern s) (c1_at e)} {k1} s s'" and l: "in_line st T k1 ino1 (c1_at e) eof l p s'"
  shows "two_lines st T e k0 k1 ino0 ino1 eof0 eof l0 l p0 p s'"
proof -
  have "in_line st T k0 ino0 (c0_at e) eof0 l0 p0 s'"
    using t kept_in_line[OF k _ window_1_outside, where c = "c0_at e"] by (auto simp: two_lines_def)
  then show ?thesis using t l kept_ready[OF k] kept_page[OF k] k by (simp add: two_lines_def kept_def)
qed

lemma two_lines_same:
  assumes t: "two_lines st T e k0 k1 ino0 ino1 eof0 eof1 l0 l1 p0 p1 s" and k: "kept st T {} {} s s'"
  shows "two_lines st T e k0 k1 ino0 ino1 eof0 eof1 l0 l1 p0 p1 s'"
proof -
  have o: "outside_kernel {}" by (simp add: outside_kernel_def)
  have "in_line st T k0 ino0 (c0_at e) eof0 l0 p0 s'" "in_line st T k1 ino1 (c1_at e) eof1 l1 p1 s'"
    using t kept_in_line[OF k _ o] by (auto simp: two_lines_def)
  then show ?thesis using t kept_ready[OF k] kept_page[OF k] k by (simp add: two_lines_def kept_def)
qed

text \<open>One column: a byte of each line.\<close>

lemma column_read:
  assumes t: "two_lines st T e k0 k1 ino0 ino1 eof0 eof1 l0 l1 p0 p1 s"
  shows "\<exists>end0 end1 s1 s2. next_char (fd0 e) (c0_at e) eof0 s = Some (end0, s1) \<and>
    next_char (fd1 e) (c1_at e) eof1 s1 = Some (end1, s2) \<and> kept st T (vars e s) {k0, k1} s s2 \<and>
    two_lines st T e k0 k1 ino0 ino1 end0 end1 (tl l0) (tl l1) p0 p1 s2 \<and>
    (peek (c0_at e) s2 = 10 \<longleftrightarrow> l0 = []) \<and> (peek (c1_at e) s2 = 10 \<longleftrightarrow> l1 = []) \<and>
    glyph (peek (c0_at e) s2) = first_of l0 \<and> glyph (peek (c1_at e) s2) = first_of l1 \<and>
    (\<forall>bs. blinkers s2 bs = blinkers s bs)"
proof -
  have t': "ready st T (kern s)" "in_window (c0_at e) 1" "in_line st T k0 ino0 (c0_at e) eof0 l0 p0 s" "fd0 e = of_nat k0"
    "in_window (c1_at e) 1" "fd1 e = of_nat k1"
    using t by (simp_all add: two_lines_def)
  obtain end0 s1 where s1: "next_char (fd0 e) (c0_at e) eof0 s = Some (end0, s1)"
      "kept st T {xlate (kern s) (c0_at e)} {k0} s s1" "in_line st T k0 ino0 (c0_at e) end0 (tl l0) p0 s1"
      "peek (c0_at e) s1 = 10 \<longleftrightarrow> l0 = []" "glyph (peek (c0_at e) s1) = first_of l0" "\<forall>bs. blinkers s1 bs = blinkers s bs"
    using next_char_line[OF t'(1-3)] t'(4) by auto
  note t1 = two_lines_first[OF t s1(2,3)]
  have x: "xlate (kern s1) = xlate (kern s)" using s1(2) by (simp add: kept_def)
  obtain end1 s2 where s2: "next_char (fd1 e) (c1_at e) eof1 s1 = Some (end1, s2)"
      "kept st T {xlate (kern s1) (c1_at e)} {k1} s1 s2" "in_line st T k1 ino1 (c1_at e) end1 (tl l1) p1 s2"
      "peek (c1_at e) s2 = 10 \<longleftrightarrow> l1 = []" "glyph (peek (c1_at e) s2) = first_of l1" "\<forall>bs. blinkers s2 bs = blinkers s1 bs"
    using next_char_line[OF kept_ready[OF s1(2)] t'(5), of k1 ino1 eof1 l1 p1] t1 t'(6) by (auto simp: two_lines_def)
  note t2 = two_lines_second[OF t1 s2(2,3)]
  have "peek (c0_at e) s2 = peek (c0_at e) s1"
    using kept_peek[OF s2(2) kept_ready[OF s1(2)] t'(2)] t1 by (simp add: two_lines_def)
  moreover have "kept st T (vars e s) {k0, k1} s s2"
    by (rule kept_trans[OF s1(2) s2(2)]) (auto simp: vars_def x)
  ultimately show ?thesis using s1 s2 t2 by (intro exI[of _ end0] exI[of _ end1] exI[of _ s1] exI[of _ s2]) simp
qed

text \<open>A whole line of both files.\<close>

lemma frame_row_runs:
  fixes s :: "'a fish_state"
  assumes "two_lines st T e k0 k1 ino0 ino1 eof0 eof1 l0 l1 p0 p1 s" "blinkers s bs"
    "\<forall>b \<in> set (row_cells (junk e) n col0 l0 l1). location b \<noteq> 0"
  shows "\<exists>s'. frame_row beyond e n col0 eof0 eof1 s = Some (p0 = None, p1 = None, s') \<and> kept st T (vars e s) {k0, k1} s s' \<and>
    two_lines st T e k0 k1 ino0 ino1 (p0 = None) (p1 = None) [] [] p0 p1 s' \<and>
    peek (c0_at e) s' = 10 \<and> peek (c1_at e) s' = 10 \<and> blinkers s' (add_all bs (row_cells (junk e) n col0 l0 l1))"
  using assms
proof (induction "length l0 + length l1" arbitrary: l0 l1 col0 eof0 eof1 s bs rule: less_induct)
  case less
  obtain end0 end1 s1 s2 where c: "next_char (fd0 e) (c0_at e) eof0 s = Some (end0, s1)"
    "next_char (fd1 e) (c1_at e) eof1 s1 = Some (end1, s2)" "kept st T (vars e s) {k0, k1} s s2"
    "two_lines st T e k0 k1 ino0 ino1 end0 end1 (tl l0) (tl l1) p0 p1 s2"
    "peek (c0_at e) s2 = 10 \<longleftrightarrow> l0 = []" "peek (c1_at e) s2 = 10 \<longleftrightarrow> l1 = []"
    "glyph (peek (c0_at e) s2) = first_of l0" "glyph (peek (c1_at e) s2) = first_of l1" "blinkers s2 bs"
    using column_read[OF less.prems(1)] less.prems(2) by auto
  show ?case
  proof (cases "l0 = [] \<and> l1 = []")
    case True
    then have "end0 = (p0 = None)" "end1 = (p1 = None)"
      using c(4-6) by (auto simp: two_lines_def in_line_def split: option.splits)
    moreover have "frame_row beyond e n col0 eof0 eof1 s = Some (end0, end1, s2)"
      using c(1,2,5,6) True by (subst frame_row.simps) (simp add: Let_def)
    ultimately show ?thesis using True c by (intro exI[of _ s2]) (simp add: row_cells.simps)
  next
    case False
    define b where "b = frame_blink e n col0 s2"
    have b: "b = picture_blink (junk e) n col0 (first_of l0) (first_of l1)"
      using c(7,8) by (simp add: b_def frame_blink_def picture_blink_def glyph_def)
    let ?draws = "first_of l0 \<noteq> 32 \<or> first_of l1 \<noteq> 32"
    let ?bs = "if ?draws then fst (snd (list_add b bs)) else bs"
    have rows: "row_cells (junk e) n col0 l0 l1 = (if ?draws then [b] else []) @ row_cells (junk e) n (col0 + 1) (tl l0) (tl l1)"
      using False by (subst row_cells.simps) (auto simp: b)
    obtain s3 where s3: "kept st T {} {} s2 s3" "blinkers s3 ?bs"
      "frame_row beyond e n col0 eof0 eof1 s = frame_row beyond e n (col0 + 1) end0 end1 s3"
    proof (cases ?draws)
      case True
      then have "location b \<noteq> 0" using less.prems(3) rows by simp
      then obtain v w s3 where a: "mp1_ioctl beyond (struct_at e) 0 b s2 = Some (v, w, s3)" "kept st T {} {} s2 s3"
          "blinkers s3 (fst (snd (list_add b bs)))"
        using add_request[OF _ c(9), of st T b beyond "struct_at e"] c(4) by (auto simp: two_lines_def)
      have "frame_row beyond e n col0 eof0 eof1 s = frame_row beyond e n (col0 + 1) end0 end1 s3"
        using c(1,2,5-8) False True a(1) by (subst frame_row.simps) (auto simp: Let_def glyph_def b_def split: if_splits)
      then show ?thesis using that a(2,3) True by simp
    next
      case no: False
      have "frame_row beyond e n col0 eof0 eof1 s = frame_row beyond e n (col0 + 1) end0 end1 s2"
        using c(1,2,5-8) False no by (subst frame_row.simps) (auto simp: Let_def glyph_def split: if_splits)
      moreover have "kept st T {} {} s2 s2" using c(4) by (simp add: two_lines_def kept_refl)
      ultimately show ?thesis using that c(9) no by simp
    qed
    have "length (tl l0) + length (tl l1) < length l0 + length l1"
      using False by (cases l0; cases l1) auto
    from less.hyps[OF this two_lines_same[OF c(4) s3(1)] s3(2), of "col0 + 1"] less.prems(3) rows
    obtain s' where s': "frame_row beyond e n (col0 + 1) end0 end1 s3 = Some (p0 = None, p1 = None, s')"
      "kept st T (vars e s3) {k0, k1} s3 s'" "two_lines st T e k0 k1 ino0 ino1 (p0 = None) (p1 = None) [] [] p0 p1 s'"
      "peek (c0_at e) s' = 10" "peek (c1_at e) s' = 10"
      "blinkers s' (add_all ?bs (row_cells (junk e) n (col0 + 1) (tl l0) (tl l1)))"
      by auto
    have "kept st T (vars e s) {k0, k1} s s3" by (rule kept_trans[OF c(3) s3(1)]) auto
    then have "kept st T (vars e s) {k0, k1} s s'"
      by (rule kept_trans[OF _ s'(2)]) (use kept_vars[OF c(3)] kept_vars[OF s3(1)] in auto)
    moreover have "blinkers s' (add_all bs (row_cells (junk e) n col0 l0 l1))" using s'(6) rows by (auto split: if_splits)
    ultimately show ?thesis using s' s3(3) by (intro exI[of _ s']) simp
  qed
qed

section \<open>All lines\<close>

text \<open>Closing a file, or trying to close it again.\<close>

lemma close_closable:
  assumes r: "ready st T (kern s)" and k: "closable k (kern s)"
  shows "\<exists>v s'. on_machine (ece391_close (of_nat k)) s = Some (v, s') \<and> kept st T {} {k} s s' \<and> closable k (kern s') \<and>
    (\<forall>bs. blinkers s' bs = blinkers s bs)"
proof -
  obtain cs where cs: "machine s = (cs, kern s)" by (cases "machine s") simp
  have k8: "2 \<le> k" "k < 8" using k by (simp_all add: closable_def)
  have n: "nat (sint (of_nat k :: u32)) = k" using sint_small[OF k8(2)] by simp
  have call: "on_machine (ece391_close (of_nat k)) s = Some (v, s\<lparr>machine := (stl cs, m)\<rparr>)"
    if "close_handler (of_nat k) (kern s) = Some (v, m)" for v m
    using user_calls(4)[OF that, of cs, folded cs] by (simp add: on_machine_def)
  show ?thesis
  proof (cases "inode (cur_fd (kern s) k) = - 1")
    case True
    have "(of_nat i :: u32) \<noteq> of_nat k" if "i \<in> in_use (kern s)" for i
    proof
      assume e: "(of_nat i :: u32) = of_nat k"
      have "i < 8" using that by (simp add: in_use_def)
      then have "unat (of_nat i :: u32) = i" "unat (of_nat k :: u32) = k" using k8(2) by (intro unat_of_nat32; simp)+
      then have "i = k" using e by metis
      then show False using that True by (simp add: in_use_def)
    qed
    then have "close_handler (of_nat k) (kern s) = Some (- 1, kern s)"
      using close_invalid[of "kern s" "of_nat k"] by metis
    from call[OF this] show ?thesis using kept_ran[OF ran_refl[OF r]] k by fastforce
  next
    case False
    let ?m = "upd_fd k (\<lambda>f. f\<lparr>inode := - 1\<rparr>) (kern s)"
    have v: "check_valid_fd (of_nat k) (kern s) = 0" using False k8 by (auto simp: check_valid_fd_in_use in_use_def)
    have "close_handler (of_nat k) (kern s) = Some (0, ?m)"
      using k False v by (simp add: close_handler_def fd_table_def n file_close_def closable_def)
    note c = call[OF this]
    have "ran st T {} [] (kern s) ?m" by (rule ran_upd_fd[OF r k8(1)]) (simp add: typed_fd_def)
    then have "kept st T {} {k} s (s\<lparr>machine := (stl cs, ?m)\<rparr>)" by (rule kept_ran) simp
    then show ?thesis using c k8 by (fastforce simp: closable_def)
  qed
qed

lemma row_end_runs:
  assumes r: "ready st T (kern s)" and w: "in_window c 1" and l: "in_line st T k ino c (p = None) [] p s" "peek c s = 10"
  shows "\<exists>s'. row_end (of_nat k) c (p = None) s = Some s' \<and> kept st T {xlate (kern s) c} {k} s s' \<and>
    in_line st T k ino c (p = None) (row_line p) (row_next p) s' \<and> (\<forall>bs. blinkers s' bs = blinkers s bs)"
proof (cases p)
  case None
  let ?s1 = "assign c [10] s"
  note a = assign_kept[OF r w, of 10]
  have "closable k (kern ?s1)" using l(1) a(4) by (simp add: in_line_def closable_def)
  then obtain v s' where c: "on_machine (ece391_close (of_nat k)) ?s1 = Some (v, s')" "kept st T {} {k} ?s1 s'"
      "closable k (kern s')" "\<forall>bs. blinkers s' bs = blinkers ?s1 bs"
    using close_closable[OF kept_ready[OF a(1)]] by blast
  have "kept st T {xlate (kern s) c} {k} s s'" by (rule kept_trans[OF a(1) c(2)]) auto
  moreover have "peek c s' = 10" using kept_peek[OF c(2) kept_ready[OF a(1)] w] a(2) by simp
  ultimately show ?thesis using None c a(3) by (auto simp: row_end_def in_line_def row_line_def row_next_def)
next
  case (Some rest)
  note a = assign_kept[OF r w, of 48]
  have "feeds st T k ino rest (kern s)" using l Some by (simp add: in_line_def)
  then have "feeds st T k ino rest (kern (assign c [48] s))"
    using kept_feeds[OF a(1) window_1_outside[OF r w]] by blast
  then have "in_line st T k ino c False (line_of rest) (row_next p) (assign c [48] s)"
    using a(2) feeds_closable Some by (auto simp: in_line_def)
  moreover have "kept st T {xlate (kern s) c} {k} s (assign c [48] s)" by (rule kept_trans[OF a(1) kept_refl[OF kept_ready[OF a(1)], of "{}" "{}"]]) auto
  ultimately show ?thesis using Some a(3) by (auto simp: row_end_def row_line_def)
qed

lemma frame_rows_runs:
  fixes s :: "'a fish_state"
  assumes "two_lines st T e k0 k1 ino0 ino1 (p0 = None) (p1 = None) (row_line p0) (row_line p1) (row_next p0) (row_next p1) s"
    "blinkers s bs" "\<forall>b \<in> set (picture (junk e) n p0 p1). location b \<noteq> 0"
  shows "\<exists>s'. frame_rows beyond e n (p0 = None) (p1 = None) s = Some s' \<and> kept st T (vars e s) {k0, k1} s s' \<and>
    blinkers s' (add_all bs (picture (junk e) n p0 p1))"
  using assms
proof (induction "file_left p0 + file_left p1" arbitrary: p0 p1 n s bs rule: less_induct)
  case less
  show ?case
  proof (cases "p0 = None \<and> p1 = None")
    case True
    then have "frame_rows beyond e n (p0 = None) (p1 = None) s = Some s" by (subst frame_rows.simps) simp
    moreover have "kept st T (vars e s) {k0, k1} s s" using less.prems(1) by (intro kept_refl) (simp add: two_lines_def)
    ultimately show ?thesis using True less.prems(2) by (intro exI[of _ s]) (simp add: picture.simps)
  next
    case False
    let ?row = "row_cells (junk e) n 0 (row_line p0) (row_line p1)"
    let ?rest = "picture (junk e) (n + 1) (row_next p0) (row_next p1)"
    have pic: "picture (junk e) n p0 p1 = ?row @ ?rest" using False picture.simps by metis
    obtain s1 where s1: "frame_row beyond e n 0 (p0 = None) (p1 = None) s = Some (row_next p0 = None, row_next p1 = None, s1)"
      "kept st T (vars e s) {k0, k1} s s1"
      "two_lines st T e k0 k1 ino0 ino1 (row_next p0 = None) (row_next p1 = None) [] [] (row_next p0) (row_next p1) s1"
      "peek (c0_at e) s1 = 10" "peek (c1_at e) s1 = 10" "blinkers s1 (add_all bs ?row)"
      using frame_row_runs[OF less.prems(1,2), of n 0] less.prems(3) pic by auto
    have t1: "ready st T (kern s1)" "in_window (c0_at e) 1" "in_window (c1_at e) 1" "fd0 e = of_nat k0" "fd1 e = of_nat k1"
      "in_line st T k0 ino0 (c0_at e) (row_next p0 = None) [] (row_next p0) s1"
      using s1(3) by (simp_all add: two_lines_def)
    obtain s2 where s2: "row_end (of_nat k0) (c0_at e) (row_next p0 = None) s1 = Some s2"
        "kept st T {xlate (kern s1) (c0_at e)} {k0} s1 s2"
        "in_line st T k0 ino0 (c0_at e) (row_next p0 = None) (row_line (row_next p0)) (row_next (row_next p0)) s2"
        "\<forall>bs. blinkers s2 bs = blinkers s1 bs"
      using row_end_runs[OF t1(1,2,6) s1(4)] by auto
    note t2 = two_lines_first[OF s1(3) s2(2,3)]
    have l2: "ready st T (kern s2)" "in_line st T k1 ino1 (c1_at e) (row_next p1 = None) [] (row_next p1) s2"
      using t2 by (simp_all add: two_lines_def)
    have "xlate (kern s1) (c1_at e) \<noteq> xlate (kern s1) (c0_at e)" using s1(3) by (metis two_lines_def)
    then have c2: "peek (c1_at e) s2 = 10" using kept_peek[OF s2(2) t1(1,3)] s1(5) by simp
    obtain s3 where s3: "row_end (of_nat k1) (c1_at e) (row_next p1 = None) s2 = Some s3"
        "kept st T {xlate (kern s2) (c1_at e)} {k1} s2 s3"
        "in_line st T k1 ino1 (c1_at e) (row_next p1 = None) (row_line (row_next p1)) (row_next (row_next p1)) s3"
        "\<forall>bs. blinkers s3 bs = blinkers s2 bs"
      using row_end_runs[OF l2(1) t1(3) l2(2) c2] by auto
    note t3 = two_lines_second[OF t2 s3(2,3)]
    have m: "file_left (row_next p0) + file_left (row_next p1) < file_left p0 + file_left p1"
      using file_left_next[of p0] file_left_next[of p1] False by fastforce
    have x: "xlate (kern s1) = xlate (kern s)" "xlate (kern s2) = xlate (kern s)" using s1(2) s2(2) by (simp_all add: kept_def)
    have k2: "kept st T (vars e s) {k0, k1} s s2" by (rule kept_trans[OF s1(2) s2(2)]) (auto simp: vars_def x)
    have k3: "kept st T (vars e s) {k0, k1} s s3" by (rule kept_trans[OF k2 s3(2)]) (auto simp: vars_def x)
    have "blinkers s3 (add_all bs ?row)" using s1(6) s2(4) s3(4) by simp
    from less.hyps[OF m t3 this, of "n + 1"] less.prems(3) pic obtain s' where
      s': "frame_rows beyond e (n + 1) (row_next p0 = None) (row_next p1 = None) s3 = Some s'"
        "kept st T (vars e s3) {k0, k1} s3 s'" "blinkers s' (add_all (add_all bs ?row) ?rest)" by auto
    have "frame_rows beyond e n (p0 = None) (p1 = None) s =
        frame_rows beyond e (n + 1) (row_next p0 = None) (row_next p1 = None) s3"
      using False s1(1) s2(1) s3(1) t1(4,5) by (subst frame_rows.simps) (auto simp: t1(4,5))
    moreover have "kept st T (vars e s) {k0, k1} s s'"
      by (rule kept_trans[OF k3 s'(2)]) (use kept_vars[OF k3] in auto)
    ultimately show ?thesis using s' pic by (intro exI[of _ s']) simp
  qed
qed

section \<open>The loader\<close>

text \<open>The text at \<open>f\<close> is the name of the regular file \<open>i\<close> of the directory.\<close>

definition picture_file :: "addr \<Rightarrow> byte list \<Rightarrow> nat \<Rightarrow> 'a kernel_state_scheme \<Rightarrow> bool" where
  "picture_file f name i m \<longleftrightarrow>
     is_cstr (ptr (xlate m) (phys m) f) name \<and> in_window f (length name + 1) \<and>
     take 3 name \<noteq> ascii ''rtc'' \<and> take 1 name \<noteq> ascii ''.'' \<and>
     find (\<lambda>i. name_of m i = take 32 name) [0..<63] = Some i \<and> type_of m i = 2 \<and> inode_of m i \<noteq> - 1 \<and>
     file_in_kernel m (inode_of m i)"

lemma picture_file_ran:
  assumes r: "ran st T X bs m m'" "outside_kernel X" "mapped m" and d: "directory_in_kernel m"
    and f: "picture_file f name i m" and x: "xlate m ` region f (length name + 1) \<inter> X = {}"
  shows "picture_file f name i m'" "inode_of m' i = inode_of m i"
    "content_of m' (inode_of m i) = content_of m (inode_of m i)" "directory_in_kernel m'"
proof -
  have p: "is_cstr (ptr (xlate m) (phys m) f) name" "in_window f (length name + 1)"
    "find (\<lambda>i. name_of m i = take 32 name) [0..<63] = Some i" "file_in_kernel m (inode_of m i)"
    using f by (simp_all add: picture_file_def)
  have i: "i < 63" using p(3) by (auto simp: find_Some_iff)
  note dir = ran_directory[OF r(1,2) d]
  show "inode_of m' i = inode_of m i" "directory_in_kernel m'" using dir i by simp_all
  note fl = ran_file[OF r(1,2) p(4)]
  show "content_of m' (inode_of m i) = content_of m (inode_of m i)" by (rule fl(2))
  have e: "xlate m' = xlate m" using r(1) by (simp add: ran_def)
  have "is_cstr (ptr (xlate m') (phys m') f) name"
    unfolding e by (rule is_cstr_load[OF p(1)]) (use ran_window[OF r(1,3) p(2) x] e in simp)
  moreover have "find (\<lambda>i. name_of m' i = take 32 name) [0..<63] = find (\<lambda>i. name_of m i = take 32 name) [0..<63]"
    by (rule find_cong) (use dir(2) in auto)
  ultimately show "picture_file f name i m'" using f dir(2)[OF i] fl(1) p(3) by (simp add: picture_file_def)
qed

lemma open_picture:
  assumes r: "ready st T (kern s)" and f: "picture_file f name i (kern s)" and free: "\<not> {2..<8} \<subseteq> in_use (kern s)"
  shows "\<exists>k s'. on_machine (ece391_open f) s = Some (of_nat k, s') \<and> k < 8 \<and> ran st T {} [] (kern s) (kern s') \<and>
    reading st T k (inode_of (kern s) i) 0 (kern s') \<and> content_of (kern s') (inode_of (kern s) i) = content_of (kern s) (inode_of (kern s) i) \<and>
    k \<notin> in_use (kern s) \<and> (\<forall>j. j \<noteq> k \<longrightarrow> cur_fd (kern s') j = cur_fd (kern s) j) \<and>
    vmem_base_addr s' = vmem_base_addr s \<and> (\<forall>bs. blinkers s' bs = blinkers s bs)"
proof -
  obtain cs where cs: "machine s = (cs, kern s)" by (cases "machine s") simp
  have w: "in_window f (length name)" using f by (simp add: picture_file_def in_window_def)
  obtain k m where m: "ece391_open f (cs, kern s) = Some (of_nat k, (stl cs, m))" "k < 8" "ran st T {} [] (kern s) m"
    "reading st T k (inode_of (kern s) i) 0 m" "content_of m (inode_of (kern s) i) = content_of (kern s) (inode_of (kern s) i)"
    "k \<notin> in_use (kern s)" "\<forall>j. j \<noteq> k \<longrightarrow> cur_fd m j = cur_fd (kern s) j"
    using user_open_file[OF r _ w, where i = i and cs = cs and X = "{}"] f free by (auto simp: picture_file_def)
  have "on_machine (ece391_open f) s = Some (of_nat k, s\<lparr>machine := (stl cs, m)\<rparr>)"
    using m(1)[folded cs] by (simp add: on_machine_def)
  then show ?thesis using m by (intro exI[of _ k] exI[of _ "s\<lparr>machine := (stl cs, m)\<rparr>"]) simp
qed

text \<open>Objects of the program that do not overlap do not overlap in physical memory.\<close>

lemma windows_apart:
  assumes m: "mapped m" and a: "in_window a n" and b: "in_window b k" and d: "region a n \<inter> region b k = {}"
  shows "xlate m ` region a n \<inter> xlate m ` region b k = {}"
proof -
  have "xlate m (a + of_nat i) \<noteq> xlate m (b + of_nat j)" if ij: "i < n" "j < k" for i j
  proof
    assume "xlate m (a + of_nat i) = xlate m (b + of_nat j)"
    then have "unat a + i - 0x8000000 = unat b + j - 0x8000000"
      using window_phys[OF m a ij(1)] window_phys[OF m b ij(2)] by simp
    then have "unat a + i = unat b + j" using a b by (auto simp: in_window_def)
    then have "a + of_nat i = b + of_nat j"
      using window_unat[OF a ij(1)] window_unat[OF b ij(2)] by (simp add: word_unat_eq_iff)
    then show False using d ij by (auto simp: region_def)
  qed
  then show ?thesis by (auto simp: region_def)
qed

lemma assign_ran:
  assumes "ready st T (kern s)" "in_window a 1"
  shows "ran st T (xlate (kern s) ` region a 1) [] (kern s) (kern (assign a [b] s))"
  unfolding assign_def ustores_def using ran_store[OF assms, of "[b]"] by simp

lemma sint_fd: "k < 8 \<Longrightarrow> \<not> sint (of_nat k :: u32) < 0"
  using sint_of_nat32[of k] by simp

lemma free_left:
  assumes "Suc n \<le> card ({2..<8 :: nat} - U)" "U' \<subseteq> insert k U"
  shows "n \<le> card ({2..<8} - U')"
proof -
  have "card ({2..<8} - U) - 1 \<le> card ({2..<8} - U - {k})" by (simp add: card_Diff_singleton_if)
  also have "\<dots> \<le> card ({2..<8} - U')" using assms(2) by (intro card_mono) auto
  finally show ?thesis using assms(1) by simp
qed

lemma some_free: "1 \<le> card ({2..<8 :: nat} - U) \<Longrightarrow> \<not> {2..<8} \<subseteq> U"
  by (metis Diff_eq_empty_iff card.empty not_one_le_zero)

text \<open>
  The program's image: the two names and the literal lie in its window, and the variables the calls
  write are apart from them.
\<close>

definition fish_image ::
  "literals \<Rightarrow> fish_env \<Rightarrow> frame_env \<Rightarrow> byte list \<Rightarrow> byte list \<Rightarrow> nat \<Rightarrow> nat \<Rightarrow> 'a keyboard_state_scheme \<Rightarrow> bool" where
  "fish_image L f e n0 n1 i0 i1 m \<longleftrightarrow>
     picture_file (file0_at f) n0 i0 m \<and> picture_file (file1_at f) n1 i1 m \<and> directory_in_kernel m \<and>
     literals_in L {ascii ''rtc''} m \<and>
     in_window (vmem_at f) 4 \<and> vmem_at f \<le> 0x80FFFFF \<and> in_window (c0_at e) 1 \<and> in_window (c1_at e) 1 \<and>
     region (c0_at e) 1 \<inter> region (c1_at e) 1 = {} \<and>
     (\<forall>X \<in> {region (vmem_at f) 4, region (c0_at e) 1, region (c1_at e) 1}.
        X \<inter> region (file0_at f) (length n0 + 1) = {} \<and> X \<inter> region (file1_at f) (length n1 + 1) = {} \<and>
        X \<inter> region (L (ascii ''rtc'')) 4 = {})"

lemma fish_image_ran:
  assumes r: "ran st T (xlate m ` region a n) bs m m'" and m: "mapped m" and w: "in_window a n"
    and f: "fish_image L f e n0 n1 i0 i1 m" and a: "region a n \<in> {region (vmem_at f) 4, region (c0_at e) 1, region (c1_at e) 1, {}}"
  shows "fish_image L f e n0 n1 i0 i1 m'" "inode_of m' i0 = inode_of m i0" "inode_of m' i1 = inode_of m i1"
    "content_of m' (inode_of m i0) = content_of m (inode_of m i0)" "content_of m' (inode_of m i1) = content_of m (inode_of m i1)"
proof -
  have p: "picture_file (file0_at f) n0 i0 m" "picture_file (file1_at f) n1 i1 m" "directory_in_kernel m"
    "literals_in L {ascii ''rtc''} m" using f by (simp_all add: fish_image_def)
  have w0: "in_window (file0_at f) (length n0 + 1)" "in_window (file1_at f) (length n1 + 1)" "in_window (L (ascii ''rtc'')) 4"
    using p by (simp_all add: picture_file_def literals_in_def ascii_def in_window_def)
  have apart: "region a n \<inter> region (file0_at f) (length n0 + 1) = {}" "region a n \<inter> region (file1_at f) (length n1 + 1) = {}"
    "region a n \<inter> region (L (ascii ''rtc'')) 4 = {}"
    using f a unfolding fish_image_def by blast+
  have o: "outside_kernel (xlate m ` region a n)" by (rule window_outside[OF m w])
  have d: "xlate m ` region (file0_at f) (length n0 + 1) \<inter> xlate m ` region a n = {}"
    "xlate m ` region (file1_at f) (length n1 + 1) \<inter> xlate m ` region a n = {}"
    "xlate m ` region (L (ascii ''rtc'')) 4 \<inter> xlate m ` region a n = {}"
    using windows_apart[OF m w w0(1) apart(1)] windows_apart[OF m w w0(2) apart(2)] windows_apart[OF m w w0(3) apart(3)]
    by blast+
  note q0 = picture_file_ran[OF r o m p(3,1) d(1)] and q1 = picture_file_ran[OF r o m p(3,2) d(2)]
  have "literals_in L {ascii ''rtc''} m'" by (rule literals_ran[OF r m p(4)]) (use d(3) in \<open>simp add: ascii_def numeral_eq_Suc\<close>)
  then show "fish_image L f e n0 n1 i0 i1 m'" using f q0(1,4) q1(1) by (simp add: fish_image_def)
  show "inode_of m' i0 = inode_of m i0" "inode_of m' i1 = inode_of m i1" by (rule q0(2), rule q1(2))
  show "content_of m' (inode_of m i0) = content_of m (inode_of m i0)" "content_of m' (inode_of m i1) = content_of m (inode_of m i1)"
    by (rule q0(3), rule q1(3))
qed

text \<open>A step that changes no memory of the program.\<close>

lemma fish_image_still:
  assumes "ran st T {} bs m m'" "mapped m" "fish_image L f e n0 n1 i0 i1 m"
  shows "fish_image L f e n0 n1 i0 i1 m'" "inode_of m' i0 = inode_of m i0" "inode_of m' i1 = inode_of m i1"
    "content_of m' (inode_of m i0) = content_of m (inode_of m i0)" "content_of m' (inode_of m i1) = content_of m (inode_of m i1)"
proof -
  have w: "in_window 0x8000000 0" by (simp add: in_window_def)
  have r: "ran st T (xlate m ` region 0x8000000 0) bs m m'" using assms(1) by (simp add: region_0)
  note fish_image_ran[OF r assms(2) w assms(3)]
  then show "fish_image L f e n0 n1 i0 i1 m'" "inode_of m' i0 = inode_of m i0" "inode_of m' i1 = inode_of m i1"
    "content_of m' (inode_of m i0) = content_of m (inode_of m i0)" "content_of m' (inode_of m i1) = content_of m (inode_of m i1)"
    by (simp_all add: region_0)
qed

text \<open>The page the kernel gives is text memory, and it is not \<open>NULL\<close>.\<close>

lemma video_mode:
  assumes r: "ready st T (kern s)" and f: "in_window (vmem_at f) 4" "vmem_at f \<le> 0x80FFFFF"
  shows "\<exists>page s'. mp1_set_video_mode (vmem_at f) s = Some (page, s') \<and> page \<noteq> 0 \<and> page_mapped s' \<and>
    ran st T (xlate (kern s) ` region (vmem_at f) 4) [] (kern s) (kern s') \<and> in_use (kern s') = in_use (kern s) \<and>
    (\<forall>bs. blinkers s' bs = blinkers s bs)"
proof -
  obtain cs where cs: "machine s = (cs, kern s)" by (cases "machine s") simp
  note k = ready_facts[OF r]
  let ?v = "of_nat ((0xB9 + T) * 4096) :: u32"
  let ?m = "(kern s)\<lparr>phys := store32 (xlate (kern s)) (vmem_at f) ?v (phys (kern s))\<rparr>"
  let ?s' = "s\<lparr>machine := (stl cs, ?m), vmem_base_addr := ?v\<rparr>"
  have v: "of_nat (4096 * (VIDEO_MEM_INDEX + 1 + T)) = ?v" by (simp add: VIDEO_MEM_INDEX_def algebra_simps)
  have lo: "\<not> vmem_at f < 0x8000000" "vmem_at f \<noteq> 0" using f(1) by (auto simp: in_window_def word_less_nat_alt)
  have "vidmap_handler (vmem_at f) (kern s) = (0, ?m)"
    using lo f(2) unfolding vidmap_handler_def k(4) v by (simp add: not_less[symmetric])
  note call = user_calls(6)[OF this, of cs, folded cs]
  have p: "0x8000000 \<le> unat (vmem_at f)" "unat (vmem_at f) + 4 \<le> 0x8400000" using f(1) by (simp_all add: in_window_def)
  have l: "load32 (xlate (kern s)) (store32 (xlate (kern s)) (vmem_at f) ?v (phys (kern s))) (vmem_at f) = ?v"
    by (rule load32_store32_same[OF window_inj[OF k(7) p]])
  have u: "unat ?v = (0xB9 + T) * 4096" using k(3) by (subst unat_of_nat32) simp_all
  then have nz: "?v \<noteq> 0" by (metis add_is_0 mult_is_0 unat_0 zero_neq_numeral)
  have "mp1_set_video_mode (vmem_at f) s = Some (?v, ?s')"
    using call l by (simp add: mp1_set_video_mode_def on_machine_def Let_def)
  moreover have st32: "store32 (xlate (kern s)) (vmem_at f) ?v (phys (kern s)) =
      write_bytes (xlate (kern s)) (vmem_at f) (word_bytes ?v) (phys (kern s))"
    by (simp add: store32_def word_bytes_def add.assoc)
  have "ran st T (xlate (kern s) ` region (vmem_at f) 4) [] (kern s) ?m"
    unfolding st32 by (rule ran_store[OF r f(1)]) simp
  moreover have "page_mapped ?s'"
    unfolding page_mapped_def
  proof
    fix a assume "a \<in> region (vmem_base_addr ?s') 4000"
    then obtain i where i: "i < 4000" "a = ?v + of_nat i" by (auto simp: region_def)
    let ?fr = "term_frame (current_terminal (kern s)) T"
    have "unat (get_field 12 20 (page_table (kern s) (0xB9 + T))) = ?fr"
      using k(3,8) unat_of_nat32[of "0xB9 + T"] by (auto simp: video_map_def term_frame_def)
    then have "translate (kern s) (of_nat ((0xB9 + T) * 4096 + i)) = Some (of_nat (?fr * 4096 + i))"
      using walk_page[OF k(7), of "0xB9 + T" i] i(1) k(3) by simp
    then have x: "xlate (kern s) a = of_nat (?fr * 4096 + i)" using i(2) by (simp add: xlate_def)
    have fr: "0xB8 \<le> ?fr" "?fr < 0xBC" using k(3) by (auto simp: term_frame_def)
    then have "unat (of_nat (?fr * 4096 + i) :: u32) = ?fr * 4096 + i" using i(1) by (intro unat_of_nat32) simp
    then show "display_byte (xlate (kern ?s') a)" using fr i(1) x by (simp add: display_byte_def)
  qed
  moreover have "in_use (kern ?s') = in_use (kern s)" by (simp add: in_use_def cur_fd_def)
  ultimately show ?thesis using nz by (intro exI[of _ ?v] exI[of _ ?s']) (simp add: blinkers_def)
qed

lemma in_use_but: "\<forall>j. j \<noteq> k \<longrightarrow> cur_fd m' j = cur_fd m j \<Longrightarrow> in_use m' \<subseteq> insert k (in_use m)"
  by (auto simp: in_use_def)

lemma page_mapped_ran: "ran st T X bs (kern s) (kern s') \<Longrightarrow> vmem_base_addr s' = vmem_base_addr s \<Longrightarrow> page_mapped s' = page_mapped s"
  by (simp add: page_mapped_def ran_def)

lemma assign_fields: "vmem_base_addr (assign a bs s) = vmem_base_addr s"
  by (simp add: assign_def)

text \<open>Both files open: the reading begins.\<close>

lemma frames_begin:
  fixes s :: "'a fish_state"
  assumes r: "ready st T (kern s)" and f: "fish_image L f e n0 n1 i0 i1 (kern s)" and pg: "page_mapped s" and b: "blinkers s bs"
    and rd: "reading st T k0 ino0 0 (kern s)" "reading st T k1 ino1 0 (kern s)" "k0 \<noteq> k1"
    and c: "peek (c0_at e) s = 48" "peek (c1_at e) s = 48"
    and pic: "pic = picture (junk e) 0 (Some (content_of (kern s) ino0)) (Some (content_of (kern s) ino1))"
      "\<forall>b \<in> set pic. location b \<noteq> 0"
  shows "\<exists>s'. frame_rows beyond (e\<lparr>fd0 := of_nat k0, fd1 := of_nat k1\<rparr>) 0 False False s = Some s' \<and>
    ready st T (kern s') \<and> page_mapped s' \<and> blinkers s' (add_all bs pic)"
proof -
  let ?e = "e\<lparr>fd0 := of_nat k0, fd1 := of_nat k1\<rparr>"
  let ?p0 = "Some (content_of (kern s) ino0)" and ?p1 = "Some (content_of (kern s) ino1)"
  have w: "in_window (c0_at e) 1" "in_window (c1_at e) 1" "region (c0_at e) 1 \<inter> region (c1_at e) 1 = {}"
    using f by (simp_all add: fish_image_def)
  have fe: "feeds st T k0 ino0 (content_of (kern s) ino0) (kern s)" "feeds st T k1 ino1 (content_of (kern s) ino1) (kern s)"
    using rd(1,2) by (auto simp: feeds_def)
  have "xlate (kern s) ` region (c0_at e) 1 \<inter> xlate (kern s) ` region (c1_at e) 1 = {}"
    by (rule windows_apart[OF ready_facts(1)[OF r] w])
  then have "xlate (kern s) (c0_at e) \<noteq> xlate (kern s) (c1_at e)" by (simp add: region_1[simplified])
  moreover have "in_line st T k0 ino0 (c0_at e) False (line_of (content_of (kern s) ino0)) (row_next ?p0) s"
    "in_line st T k1 ino1 (c1_at e) False (line_of (content_of (kern s) ino1)) (row_next ?p1) s"
    using fe[THEN feeds_closable] fe c by (auto simp: in_line_def)
  ultimately have "two_lines st T ?e k0 k1 ino0 ino1 (?p0 = None) (?p1 = None) (row_line ?p0) (row_line ?p1) (row_next ?p0) (row_next ?p1) s"
    using r pg rd(3) w by (simp add: two_lines_def row_line_def)
  from frame_rows_runs[OF this b, of 0 beyond] pic obtain s' where
    s': "frame_rows beyond ?e 0 False False s = Some s'" "kept st T (vars ?e s) {k0, k1} s s'" "blinkers s' (add_all bs pic)" by auto
  then show ?thesis using kept_ready[OF s'(2)] kept_page[OF s'(2)] pg by (intro exI[of _ s']) simp
qed

lemma add_frames_runs:
  fixes s :: "'a fish_state"
  assumes r: "ready st T (kern s)" and f: "fish_image L f e n0 n1 i0 i1 (kern s)" and pg: "page_mapped s" and b: "blinkers s bs"
    and free: "2 \<le> card ({2..<8} - in_use (kern s))"
    and pic: "pic = picture (junk e) 0 (Some (content_of (kern s) (inode_of (kern s) i0))) (Some (content_of (kern s) (inode_of (kern s) i1)))"
      "\<forall>b \<in> set pic. location b \<noteq> 0"
  shows "\<exists>s'. add_frames beyond (file0_at f) (file1_at f) e s = Some (None, s') \<and> ready st T (kern s') \<and>
    page_mapped s' \<and> blinkers s' (add_all bs pic)"
proof -
  have w: "in_window (c0_at e) 1" "in_window (c1_at e) 1" "region (c0_at e) 1 \<inter> region (c1_at e) 1 = {}"
    using f by (simp_all add: fish_image_def)
  define s0 where "s0 = assign (c0_at e) [48] s"
  define s1 where "s1 = assign (c1_at e) [48] s0"
  note a0 = assign_kept[OF r w(1), of 48, folded s0_def] assign_ran[OF r w(1), of 48, folded s0_def]
  note r0 = kept_ready[OF a0(1)]
  note a1 = assign_kept[OF r0 w(2), of 48, folded s1_def] assign_ran[OF r0 w(2), of 48, folded s1_def]
  note r1 = kept_ready[OF a1(1)]
  note m = ready_facts(1)[OF r] ready_facts(1)[OF r0] ready_facts(1)[OF r1]
  have f0: "fish_image L f e n0 n1 i0 i1 (kern s0)" and i0: "inode_of (kern s0) i0 = inode_of (kern s) i0" "inode_of (kern s0) i1 = inode_of (kern s) i1"
    "content_of (kern s0) (inode_of (kern s) i0) = content_of (kern s) (inode_of (kern s) i0)"
    "content_of (kern s0) (inode_of (kern s) i1) = content_of (kern s) (inode_of (kern s) i1)"
    using fish_image_ran[OF a0(5) m(1) w(1) f] by simp_all
  have f1: "fish_image L f e n0 n1 i0 i1 (kern s1)" and i1: "inode_of (kern s1) i0 = inode_of (kern s) i0" "inode_of (kern s1) i1 = inode_of (kern s) i1"
    "content_of (kern s1) (inode_of (kern s) i0) = content_of (kern s) (inode_of (kern s) i0)"
    "content_of (kern s1) (inode_of (kern s) i1) = content_of (kern s) (inode_of (kern s) i1)"
    using fish_image_ran[OF a1(5) m(2) w(2) f0] i0 by simp_all
  have u: "in_use (kern s1) = in_use (kern s)" using a0(4) a1(4) by (simp add: in_use_def)
  have x0: "xlate (kern s0) = xlate (kern s)" using a0(5) by (simp add: ran_def)
  have "xlate (kern s) ` region (c0_at e) 1 \<inter> xlate (kern s) ` region (c1_at e) 1 = {}" by (rule windows_apart[OF m(1) w])
  then have "xlate (kern s0) (c0_at e) \<notin> {xlate (kern s0) (c1_at e)}" by (simp add: region_1[simplified] x0)
  then have c1: "peek (c0_at e) s1 = 48" "peek (c1_at e) s1 = 48" using kept_peek[OF a1(1) r0 w(1)] a0(2) a1(2) by simp_all
  have p0: "picture_file (file0_at f) n0 i0 (kern s1)" using f1 by (simp add: fish_image_def)
  obtain k0 s2 where o0: "on_machine (ece391_open (file0_at f)) s1 = Some (of_nat k0, s2)" "k0 < 8"
    "ran st T {} [] (kern s1) (kern s2)" "reading st T k0 (inode_of (kern s) i0) 0 (kern s2)" "k0 \<notin> in_use (kern s1)"
    "\<forall>j. j \<noteq> k0 \<longrightarrow> cur_fd (kern s2) j = cur_fd (kern s1) j" "vmem_base_addr s2 = vmem_base_addr s1" "blinkers s2 bs"
    using open_picture[OF r1 p0 some_free] free a0(3) a1(3) b by (auto simp: u i1)
  note r2 = ran_ready[OF o0(3)]
  note still = fish_image_still[OF o0(3) m(3) f1, unfolded i1]
  have p1: "picture_file (file1_at f) n1 i1 (kern s2)" using still(1) by (simp add: fish_image_def)
  have "1 \<le> card ({2..<8} - in_use (kern s2))"
    using free_left[OF _ in_use_but[OF o0(6)], of 1] free u by simp
  from open_picture[OF r2 p1 some_free[OF this], unfolded still(3)] o0(8)
  obtain k1 s3 where o1: "on_machine (ece391_open (file1_at f)) s2 = Some (of_nat k1, s3)" "k1 < 8"
    "ran st T {} [] (kern s2) (kern s3)" "reading st T k1 (inode_of (kern s) i1) 0 (kern s3)" "k1 \<notin> in_use (kern s2)"
    "\<forall>j. j \<noteq> k1 \<longrightarrow> cur_fd (kern s3) j = cur_fd (kern s2) j" "vmem_base_addr s3 = vmem_base_addr s2" "blinkers s3 bs"
    by auto
  note r3 = ran_ready[OF o1(3)]
  have "k0 \<in> in_use (kern s2)" using o0(4) by (auto simp: reading_def in_use_def)
  then have ne: "k0 \<noteq> k1" using o1(5) by blast
  have k12: "kept st T {} {k0} s1 s2" using o0(3,6,7) by (simp add: kept_def ran_def)
  have k23: "kept st T {} {k1} s2 s3" using o1(3,6,7) by (simp add: kept_def ran_def)
  have e: "outside_kernel {}" by (simp add: outside_kernel_def)
  have rd0: "reading st T k0 (inode_of (kern s) i0) 0 (kern s3)" by (rule kept_reading[OF k23 e _ o0(4)]) (use ne in simp)
  have c3: "peek (c0_at e) s3 = 48" "peek (c1_at e) s3 = 48"
    using kept_peek[OF k12 r1 w(1)] kept_peek[OF k12 r1 w(2)] kept_peek[OF k23 r2 w(1)] kept_peek[OF k23 r2 w(2)] c1 by simp_all
  note still' = fish_image_still[OF o1(3) ready_facts(1)[OF r2] still(1), unfolded still(2,3)]
  have cont: "content_of (kern s3) (inode_of (kern s) i0) = content_of (kern s) (inode_of (kern s) i0)"
    "content_of (kern s3) (inode_of (kern s) i1) = content_of (kern s) (inode_of (kern s) i1)"
    using still'(4,5) still(4,5) by simp_all
  have "page_mapped s3" using pg kept_page[OF a0(1)] kept_page[OF a1(1)] kept_page[OF k12] kept_page[OF k23] by simp
  from frames_begin[OF r3 still'(1) this o1(8) rd0 o1(4) ne c3, unfolded cont, OF pic, of beyond]
  obtain s4 where s4: "frame_rows beyond (e\<lparr>fd0 := of_nat k0, fd1 := of_nat k1\<rparr>) 0 False False s3 = Some s4"
    "ready st T (kern s4)" "page_mapped s4" "blinkers s4 (add_all bs pic)" by blast
  have "add_frames beyond (file0_at f) (file1_at f) e s = Some (None, s4)"
    using o0(1) o1(1) s4(1) sint_fd[OF o0(2)] sint_fd[OF o1(2)] unfolding s1_def s0_def by (simp add: add_frames_def Let_def)
  then show ?thesis using s4 by blast
qed

lemma open_clock:
  assumes r: "ready st T (kern s)" and l: "literals_in L {ascii ''rtc''} (kern s)" and free: "\<not> {2..<8} \<subseteq> in_use (kern s)"
  shows "\<exists>k s'. on_machine (ece391_open (L (ascii ''rtc''))) s = Some (of_nat k, s') \<and>
    ran st T {} [] (kern s) (kern s') \<and> in_use (kern s') \<subseteq> insert k (in_use (kern s)) \<and>
    vmem_base_addr s' = vmem_base_addr s \<and> (\<forall>bs. blinkers s' bs = blinkers s bs)"
proof -
  obtain cs where cs: "machine s = (cs, kern s)" by (cases "machine s") simp
  have str: "is_cstr (ptr (xlate (kern s)) (phys (kern s)) (L (ascii ''rtc''))) (ascii ''rtc'')"
    "in_window (L (ascii ''rtc'')) (length (ascii ''rtc''))"
    using l by (auto simp: literals_in_def in_window_def)
  obtain k where k: "2 \<le> k" "open_fd rtc_jumptable 0 512 512 (kern s) =
      (of_nat k, upd_fd k (\<lambda>_. \<lparr>file_table_ptr = Some rtc_jumptable, inode = 0, file_pos = 512, flags = 512\<rparr>) (kern s))"
    using open_fd_free[OF free] by blast
  let ?m = "upd_fd k (\<lambda>_. \<lparr>file_table_ptr = Some rtc_jumptable, inode = 0, file_pos = 512, flags = 512\<rparr>) (kern s)"
  have "open_handler (ctx_dentry (shd cs)) (Some (ptr (xlate (kern s)) (phys (kern s)) (L (ascii ''rtc'')))) (kern s) = Some (of_nat k, ?m)"
    by (subst open_by_name[OF str(1)]) (simp_all add: ascii_def rtc_open_def k(2))
  note call = user_open_name[OF str this, folded cs]
  have "ran st T {} [] (kern s) ?m" by (rule ran_upd_fd[OF r k(1)]) (simp add: typed_fd_def)
  moreover have "in_use ?m \<subseteq> insert k (in_use (kern s))" by (rule in_use_but) simp
  moreover have "on_machine (ece391_open (L (ascii ''rtc''))) s = Some (of_nat k, s\<lparr>machine := (stl cs, ?m)\<rparr>)"
    using call by (simp add: on_machine_def)
  ultimately show ?thesis by (intro exI[of _ k] exI[of _ "s\<lparr>machine := (stl cs, ?m)\<rparr>"]) simp
qed

section \<open>Properties\<close>


text \<open>A machine with the picture \<open>a\<close>, used for both frames.\<close>

definition fish_vars :: fish_env where
  "fish_vars = \<lparr>vmem_at = 0x8003000, file0_at = 0x8001000, file1_at = 0x8001000, ret_val_at = 0x8003010,
     garbage_at = 0x8003020, blink_at = 0x8003030, main_junk = blink_zero\<rparr>"

definition fish_frames :: frame_env where
  "fish_frames = \<lparr>fd0 = 0, fd1 = 0, c0_at = 0x8004000, c1_at = 0x8004001, struct_at = 0x8004010, junk = blink_zero\<rparr>"

definition fish_texts :: "byte list list" where
  "fish_texts = [[97], ascii ''rtc'']"

lemma fish_texts_at: "user_lits fish_texts [97] = 0x8001000" "user_lits fish_texts (ascii ''rtc'') = 0x8001040"
  by (simp_all add: user_lits_def fish_texts_def ascii_def)

lemma regions_apart:
  assumes "unat a + n \<le> unat b \<or> unat b + k \<le> unat a" "unat a + n < 2 ^ 32" "unat b + k < 2 ^ 32"
  shows "region a n \<inter> region b k = {}"
proof -
  have "a + of_nat i \<noteq> b + of_nat j" if "i < n" "j < k" for i j
  proof -
    have "unat (a + of_nat i) = unat a + i" "unat (b + of_nat j) = unat b + j"
      using assms(2,3) that by (simp_all add: unat_add_of_nat32)
    moreover have "unat a + i \<noteq> unat b + j" using assms(1) that by linarith
    ultimately show ?thesis by metis
  qed
  then show ?thesis by (auto simp: region_def)
qed

lemma user_picture: "picture_file 0x8001000 [97] 0 (user_machine fish_texts)"
proof -
  have "literals_in (user_lits fish_texts) (set fish_texts) (user_machine fish_texts)"
    by (rule user_literals) (simp_all add: fish_texts_def ascii_def)
  then have "is_cstr (ptr (xlate (user_machine fish_texts)) (phys (user_machine fish_texts)) (user_lits fish_texts [97])) [97]"
    "in_window (user_lits fish_texts [97]) (length [97 :: byte] + 1)"
    unfolding literals_in_def fish_texts_def by (metis list.set_intros(1))+
  moreover have "find (\<lambda>i. name_of (user_machine fish_texts) i = take 32 [97]) [0..<63] = Some 0"
    by (simp add: user_names upt_conv_Cons)
  ultimately show ?thesis using user_file(3)[of fish_texts]
    by (simp add: picture_file_def fish_texts_at user_fields ascii_def)
qed

lemma fish_user_image: "fish_image (user_lits fish_texts) fish_vars fish_frames [97] [97] 0 0 (user_machine fish_texts)"
proof -
  have l: "literals_in (user_lits fish_texts) (set fish_texts) (user_machine fish_texts)"
    by (rule user_literals) (simp_all add: fish_texts_def ascii_def)
  then have "literals_in (user_lits fish_texts) {ascii ''rtc''} (user_machine fish_texts)"
    by (simp add: literals_in_def fish_texts_def)
  moreover have "region 0x8004000 1 \<inter> region 0x8004001 1 = {}" by (rule regions_apart) simp_all
  moreover have "region a n \<inter> region 0x8001000 k = {}" "region a n \<inter> region 0x8001040 k = {}"
    if "0x8003000 \<le> unat a" "unat a < 0x8005000" "n \<le> 4" "k \<le> 4" for a n k
    by (intro regions_apart disjI2; use that in simp)+
  ultimately show ?thesis using user_picture user_directory[of fish_texts]
    by (simp add: fish_image_def fish_vars_def fish_frames_def in_window_def fish_texts_at)
qed

lemma user_picture_cells:
  "picture blink_zero 0 (Some [127, 69, 76, 70]) (Some [127, 69, 76, 70]) =
     map (\<lambda>(l, c). blink_zero\<lparr>on_length := 15, off_length := 15, on_char := c, off_char := c, location := l\<rparr>)
       [(40, 127), (41, 69), (42, 76), (43, 70)]"
  by (simp add: picture.simps row_line_def row_next_def row_cells.simps first_of_def picture_blink_def)


end
