(* ===== verification/Self_Tests.thy ===== *)
theory Self_Tests
  imports User_Image "HOL-Library.Signed_Division"
begin

text \<open>
  The kernel's own tests (\<open>tests.c\<close>). \<open>launch_tests\<close> calls none of them in this version; each is a
  function to be called from it. A test prints its header and returns \<open>PASS\<close> or \<open>FAIL\<close>; a test that
  provokes an exception ends with the vector the processor raises. None is a run that does not come
  back otherwise.
\<close>

section \<open>Outcomes\<close>

datatype 'a outcome = Result 'a | Raised nat

definition PASS :: u32 where "PASS = 1"
definition FAIL :: u32 where "FAIL = 0"

type_synonym ('r, 's) test_run = "('r outcome \<times> 's) option"

text \<open>Where the linker puts the strings, and what \<open>printf\<close> and the local variables use.\<close>

record test_env =
  literal_at :: "byte list \<Rightarrow> addr"
  test_conv_buf :: addr
  file_at :: addr
  local_at :: addr
  local_dentry :: dentry
  local_stack :: reader

text \<open>\<open>TEST_HEADER\<close> in the function \<open>name\<close> at a line of the file.\<close>

definition TEST_HEADER :: "test_env \<Rightarrow> byte list \<Rightarrow> u32 \<Rightarrow> 'a console_state_scheme \<Rightarrow> 'a console_state_scheme option" where
  "TEST_HEADER e name line_no s =
     map_option snd (printf (test_conv_buf e) (ascii ''[TEST %s] Running %s at %s:%d'' @ [10])
       [literal_at e name, literal_at e name, file_at e, line_no] s)"

text \<open>\<open>int $15\<close>: the gate of the vector is used when it is present; without one the processor raises
  segment-not-present (11).\<close>

definition assertion_failure :: "'a boot_state_scheme \<Rightarrow> nat" where
  "assertion_failure s = (if gate_present (idt s 15) mod 2 = 1 then 15 else 11)"

section \<open>Tables and paging\<close>

fun idt_test_loop :: "nat list \<Rightarrow> u32 \<Rightarrow> 'a boot_state_scheme \<Rightarrow> u32 outcome" where
  "idt_test_loop [] result s = Result result"
| "idt_test_loop (i # is) result s =
     (if i = 1 then idt_test_loop is result s
      else if offset_15_00 (idt s i) = 0 \<and> offset_31_16 (idt s i) = 0 then Raised (assertion_failure s)
      else idt_test_loop is result s)"

definition idt_test :: "test_env \<Rightarrow> 'a boot_state_scheme \<Rightarrow> (u32, 'a boot_state_scheme) test_run" where
  "idt_test e s = do {
     s1 \<leftarrow> TEST_HEADER e (ascii ''idt_test'') 37 s;
     Some (idt_test_loop [0..<10] PASS s1, s1)
   }"

text \<open>Division of integers: divisor 0 and a quotient out of range raise the divide error.\<close>

definition divide :: "u32 \<Rightarrow> u32 \<Rightarrow> u32 outcome" where
  "divide a b = (if b = 0 \<or> a = 0x80000000 \<and> b = - 1 then Raised 0 else Result (word_of_int (sint a sdiv sint b)))"

definition div0_test :: "test_env \<Rightarrow> 'a console_state_scheme \<Rightarrow> (u32, 'a console_state_scheme) test_run" where
  "div0_test e s = do {
     s1 \<leftarrow> TEST_HEADER e (ascii ''div0_test'') 58 s;
     Some (divide 1 0, s1)
   }"

text \<open>The kernel reads four bytes at an address: an unmapped page faults.\<close>

definition dereference :: "addr \<Rightarrow> 'a paging_state_scheme \<Rightarrow> u32 outcome" where
  "dereference a s =
     (if \<forall>k < 4. translate s (a + of_nat k) \<noteq> None then Result (load32 (xlate s) (phys s) a) else Raised 14)"

definition dereference_test ::
  "test_env \<Rightarrow> byte list \<Rightarrow> u32 \<Rightarrow> addr \<Rightarrow> 'a console_state_scheme \<Rightarrow> (u32, 'a console_state_scheme) test_run" where
  "dereference_test e name line_no a s = do {
     s1 \<leftarrow> TEST_HEADER e name line_no s;
     Some (case dereference a s1 of Raised v \<Rightarrow> Raised v | Result w \<Rightarrow> Result PASS, s1)
   }"

definition page_fault_test :: "test_env \<Rightarrow> 'a console_state_scheme \<Rightarrow> (u32, 'a console_state_scheme) test_run" where
  "page_fault_test e = dereference_test e (ascii ''page_fault_test'') 66 1"

definition page_dereference_succeed_test :: "test_env \<Rightarrow> 'a console_state_scheme \<Rightarrow> (u32, 'a console_state_scheme) test_run" where
  "page_dereference_succeed_test e = dereference_test e (ascii ''page_dereference_succeed_test'') 76 0xB8000"

definition page_dereference_fail_test :: "test_env \<Rightarrow> 'a console_state_scheme \<Rightarrow> (u32, 'a console_state_scheme) test_run" where
  "page_dereference_fail_test e = dereference_test e (ascii ''page_dereference_fail_test'') 85 1"

section \<open>The clock\<close>

text \<open>\<open>test_interrupts\<close> of \<open>lib.c\<close>: every character of the screen is incremented.\<close>

definition test_interrupts :: "'a console_state_scheme \<Rightarrow> 'a console_state_scheme" where
  "test_interrupts s =
     fold (\<lambda>i t. kstore8 (cell_addr video_mem (int i)) (load8 (xlate t) (phys t) (cell_addr video_mem (int i)) + 1) t) [0..<2000] s"

definition test_rtc :: "test_env \<Rightarrow> 'a console_state_scheme \<Rightarrow> (u32, 'a console_state_scheme) test_run" where
  "test_rtc e s = do {
     s1 \<leftarrow> TEST_HEADER e (ascii ''test_rtc'') 95 s;
     Some (Result PASS, test_interrupts s1)
   }"

text \<open>A newline, the header, and \<open>rtc_write\<close> with a local word.\<close>

definition rtc_write_test ::
  "test_env \<Rightarrow> byte list \<Rightarrow> u32 \<Rightarrow> u32 \<Rightarrow> u32 \<Rightarrow> 'a kernel_state_scheme \<Rightarrow> (u32 \<times> 'a kernel_state_scheme) option" where
  "rtc_write_test e name line_no f nbytes s = do {
     s1 \<leftarrow> TEST_HEADER e name line_no (putc 10 s);
     Some (rtc_write 0 (local_at e) nbytes (s1\<lparr>phys := store32 (xlate s1) (local_at e) f (phys s1)\<rparr>))
   }"

definition test_rtc_freq_fail :: "test_env \<Rightarrow> 'a kernel_state_scheme \<Rightarrow> (u32, 'a kernel_state_scheme) test_run" where
  "test_rtc_freq_fail e s = do {
     (r, s1) \<leftarrow> rtc_write_test e (ascii ''test_rtc_freq_fail'') 104 5 4 s;
     Some (Result (if r = - 1 then PASS else FAIL), s1)
   }"

definition test_rtc_freq_success :: "test_env \<Rightarrow> 'a kernel_state_scheme \<Rightarrow> (u32, 'a kernel_state_scheme) test_run" where
  "test_rtc_freq_success e s = do {
     (r, s1) \<leftarrow> rtc_write_test e (ascii ''test_rtc_freq_success'') 112 2 4 s;
     Some (Result (if r = - 1 then FAIL else PASS), s1)
   }"

definition test_rtc_byte :: "test_env \<Rightarrow> 'a kernel_state_scheme \<Rightarrow> (u32, 'a kernel_state_scheme) test_run" where
  "test_rtc_byte e s = do {
     (r, s1) \<leftarrow> rtc_write_test e (ascii ''test_rtc_byte'') 120 2 3 s;
     Some (Result (if r = - 1 then PASS else FAIL), s1)
   }"

definition test_rtc_open :: "test_env \<Rightarrow> 'a kernel_state_scheme \<Rightarrow> (u32, 'a kernel_state_scheme) test_run" where
  "test_rtc_open e s = do {
     s1 \<leftarrow> TEST_HEADER e (ascii ''test_rtc_open'') 128 (putc 10 s);
     let (r, s2) = rtc_open s1;
     Some (Result (if r \<noteq> 0 then FAIL else PASS), s2)
   }"

definition test_rtc_close :: "test_env \<Rightarrow> 'a kernel_state_scheme \<Rightarrow> (u32, 'a kernel_state_scheme) test_run" where
  "test_rtc_close e s = do {
     s1 \<leftarrow> TEST_HEADER e (ascii ''test_rtc_close'') 136 (putc 10 s);
     let (r, s2) = rtc_close 1 s1;
     Some (Result (if r \<noteq> 0 then FAIL else PASS), s2)
   }"

definition rtc_store_freq :: "test_env \<Rightarrow> u32 \<Rightarrow> 'a kernel_state_scheme \<Rightarrow> 'a kernel_state_scheme" where
  "rtc_store_freq e freq s =
     snd (rtc_write 0 (local_at e) 4 (s\<lparr>phys := store32 (xlate s) (local_at e) freq (phys s)\<rparr>))"

text \<open>\<open>envs\<close> is what the rest of the system does during each wait.\<close>

fun rtc_print_loop ::
  "test_env \<Rightarrow> ('a kernel_state_scheme \<Rightarrow> 'a kernel_state_scheme) list list \<Rightarrow> 'a kernel_state_scheme \<Rightarrow> 'a kernel_state_scheme option" where
  "rtc_print_loop e [] s = Some s"
| "rtc_print_loop e (env # envs) s = do {
     (r, s1) \<leftarrow> rtc_read 0 env s;
     (n, s2) \<leftarrow> printf (test_conv_buf e) (ascii ''1'') [] s1;
     rtc_print_loop e envs s2
   }"

partial_function (option) rtc_frequency_loop ::
  "test_env \<Rightarrow> (nat \<Rightarrow> nat \<Rightarrow> ('a kernel_state_scheme \<Rightarrow> 'a kernel_state_scheme) list) \<Rightarrow> u32 \<Rightarrow> nat \<Rightarrow> 'a kernel_state_scheme \<Rightarrow>
   'a kernel_state_scheme option" where
  "rtc_frequency_loop e envs freq rate s =
     (if freq \<le> 1024 then do {
        s1 \<leftarrow> rtc_print_loop e (map (envs rate) [0..<(rate + 5) * 2]) (rtc_store_freq e freq s);
        (n, s2) \<leftarrow> printf (test_conv_buf e) [10] [] s1;
        rtc_frequency_loop e envs (freq * 2) (rate + 1) s2
      } else Some s)"

definition rtc_frequency_test ::
  "test_env \<Rightarrow> (nat \<Rightarrow> nat \<Rightarrow> ('a kernel_state_scheme \<Rightarrow> 'a kernel_state_scheme) list) \<Rightarrow> 'a kernel_state_scheme \<Rightarrow>
   (u32, 'a kernel_state_scheme) test_run" where
  "rtc_frequency_test e envs s = do {
     s1 \<leftarrow> TEST_HEADER e (ascii ''rtc_frequency_test'') 143 s;
     s2 \<leftarrow> rtc_frequency_loop e envs 2 0 (snd (rtc_open s1));
     Some (Result PASS, snd (rtc_close 1 s2))
   }"

section \<open>Files\<close>

text \<open>The first \<open>n\<close> bytes of a local buffer go to the screen; one test leaves out the NULs.\<close>

definition put_buffer :: "bool \<Rightarrow> addr \<Rightarrow> nat \<Rightarrow> 'a console_state_scheme \<Rightarrow> 'a console_state_scheme" where
  "put_buffer skip_nul buf n s =
     fold (\<lambda>i t. let c = load8 (xlate t) (phys t) (buf + of_nat i) in if skip_nul \<and> c = 0 then t else putc c t) [0..<n] s"

definition test_basic_file_read :: "test_env \<Rightarrow> 'a kernel_state_scheme \<Rightarrow> (u32, 'a kernel_state_scheme) test_run" where
  "test_basic_file_read e s = do {
     s1 \<leftarrow> TEST_HEADER e (ascii ''test_basic_file_read'') 170 s;
     (fd, s2) \<leftarrow> file_open (Some (lit (ascii ''frame0.txt''))) (local_dentry e) s1;
     if fd = - 1 then Some (Result FAIL, s2)
     else do {
       let (bytes_read, s3) = file_read fd (local_at e) 4096 s2;
       if bytes_read = - 1 then Some (Result FAIL, s3)
       else do {
         let s4 = put_buffer False (local_at e) (nat (sint bytes_read)) s3;
         Some (Result PASS, putc 10 (snd (file_close fd s4)))
       }
     }
   }"

partial_function (option) read_pieces ::
  "bool \<Rightarrow> u32 \<Rightarrow> addr \<Rightarrow> u32 \<Rightarrow> 'a kernel_state_scheme \<Rightarrow> (bool \<times> 'a kernel_state_scheme) option" where
  "read_pieces skip_nul fd buf n s =
     (case file_read fd buf n s of (bytes_read, s1) \<Rightarrow>
        if bytes_read = 0 then Some (True, s1)
        else if bytes_read = - 1 then Some (False, s1)
        else read_pieces skip_nul fd buf n (put_buffer skip_nul buf (nat (sint bytes_read)) s1))"

text \<open>Three tests differ in the file, the buffer and the treatment of NULs.\<close>

definition file_test ::
  "test_env \<Rightarrow> byte list \<Rightarrow> u32 \<Rightarrow> byte list \<Rightarrow> u32 \<Rightarrow> bool \<Rightarrow> 'a kernel_state_scheme \<Rightarrow> (u32, 'a kernel_state_scheme) test_run" where
  "file_test e name line_no fname n skip_nul s = do {
     s1 \<leftarrow> TEST_HEADER e name line_no s;
     (fd, s2) \<leftarrow> file_open (Some (lit fname)) (local_dentry e) s1;
     if fd = - 1 then Some (Result FAIL, s2)
     else do {
       (complete, s3) \<leftarrow> read_pieces skip_nul fd (local_at e) n s2;
       if \<not> complete then Some (Result FAIL, s3)
       else Some (Result PASS, putc 10 (snd (file_close fd s3)))
     }
   }"

definition test_fs_strange_buffer :: "test_env \<Rightarrow> 'a kernel_state_scheme \<Rightarrow> (u32, 'a kernel_state_scheme) test_run" where
  "test_fs_strange_buffer e = file_test e (ascii ''test_fs_strange_buffer'') 191 (ascii ''frame0.txt'') 26 False"

definition test_executable_read :: "test_env \<Rightarrow> 'a kernel_state_scheme \<Rightarrow> (u32, 'a kernel_state_scheme) test_run" where
  "test_executable_read e = file_test e (ascii ''test_executable_read'') 215 (ascii ''testprint'') 4096 True"

definition test_long_file_read :: "test_env \<Rightarrow> 'a kernel_state_scheme \<Rightarrow> (u32, 'a kernel_state_scheme) test_run" where
  "test_long_file_read e =
     file_test e (ascii ''test_long_file_read'') 241 (ascii ''verylargetextwithverylongname.tx'') 4096 False"

partial_function (option) read_names ::
  "test_env \<Rightarrow> u32 \<Rightarrow> 'a kernel_state_scheme \<Rightarrow> (bool \<times> 'a kernel_state_scheme) option" where
  "read_names e fd s = do {
     (bytes_read, s1) \<leftarrow> directory_read fd (local_at e) 32 (local_dentry e) (local_stack e) s;
     if bytes_read = 0 then Some (True, s1)
     else if bytes_read = - 1 then Some (False, s1)
     else read_names e fd (putc 10 (put_buffer False (local_at e) (nat (sint bytes_read)) s1))
   }"

definition test_fs_read_dir :: "test_env \<Rightarrow> 'a kernel_state_scheme \<Rightarrow> (u32, 'a kernel_state_scheme) test_run" where
  "test_fs_read_dir e s = do {
     s1 \<leftarrow> TEST_HEADER e (ascii ''test_fs_read_dir'') 266 s;
     (fd, s2) \<leftarrow> directory_open (Some (lit (ascii ''.''))) (local_dentry e) s1;
     if fd = - 1 then Some (Result FAIL, s2)
     else do {
       (complete, s3) \<leftarrow> read_names e fd s2;
       if \<not> complete then Some (Result FAIL, s3) else Some (Result PASS, snd (directory_close fd s3))
     }
   }"

text \<open>Opening, the report, and the assertion that the descriptor is 0.\<close>

definition report_fd ::
  "test_env \<Rightarrow> (u32 \<times> 'a boot_state_scheme) \<Rightarrow> (u32 outcome \<times> 'a boot_state_scheme) option" where
  "report_fd e r = do {
     (n, s) \<leftarrow> printf (test_conv_buf e) (ascii ''cur_fd: %d'' @ [10]) [fst r] (snd r);
     Some (if fst r \<noteq> 0 then Raised (assertion_failure s) else Result (fst r), s)
   }"

definition test_fs_close :: "test_env \<Rightarrow> 'a boot_state_scheme \<Rightarrow> (u32, 'a boot_state_scheme) test_run" where
  "test_fs_close e s = do {
     s1 \<leftarrow> TEST_HEADER e (ascii ''test_fs_close'') 291 s;
     r1 \<leftarrow> directory_open (Some (lit (ascii ''.''))) (local_dentry e) s1;
     (o1, s2) \<leftarrow> report_fd e r1;
     (case o1 of Raised v \<Rightarrow> Some (Raised v, s2)
      | Result fd1 \<Rightarrow> do {
          r2 \<leftarrow> file_open (Some (lit (ascii ''frame0.txt''))) (local_dentry e) (snd (directory_close fd1 s2));
          (o2, s3) \<leftarrow> report_fd e r2;
          (case o2 of Raised v \<Rightarrow> Some (Raised v, s3)
           | Result fd2 \<Rightarrow> do {
               r3 \<leftarrow> directory_open (Some (lit (ascii ''.''))) (local_dentry e) (snd (file_close fd2 s3));
               (o3, s4) \<leftarrow> report_fd e r3;
               (case o3 of Raised v \<Rightarrow> Some (Raised v, s4)
                | Result fd3 \<Rightarrow> Some (Result PASS, snd (directory_close fd3 s4)))
             })
        })
   }"

text \<open>A line, then a call that has to be refused; the next check follows when it was.\<close>

definition refused ::
  "test_env \<Rightarrow> byte list \<Rightarrow> ('a kernel_state_scheme \<Rightarrow> (u32 \<times> 'a kernel_state_scheme) option) \<Rightarrow>
   ('a kernel_state_scheme \<Rightarrow> (u32, 'a kernel_state_scheme) test_run) \<Rightarrow>
   'a kernel_state_scheme \<Rightarrow> (u32, 'a kernel_state_scheme) test_run" where
  "refused e text_line call rest s = do {
     (n, s1) \<leftarrow> printf (test_conv_buf e) (text_line @ [10]) [] s;
     (r, s2) \<leftarrow> call s1;
     if r \<noteq> - 1 then Some (Result FAIL, s2) else rest s2
   }"

definition test_fs_error_checks :: "test_env \<Rightarrow> 'a kernel_state_scheme \<Rightarrow> (u32, 'a kernel_state_scheme) test_run" where
  "test_fs_error_checks e s = do {
     s1 \<leftarrow> TEST_HEADER e (ascii ''test_fs_error_checks'') 309 s;
     (refused e (ascii ''Testing fake file'') (file_open (Some (lit (ascii ''nonsense''))) (local_dentry e))
     (refused e (ascii ''testing way too long file '')
        (file_open (Some (lit (ascii ''thisstringiswaytoolongforanyfiletoactuallybeabletoaccessit''))) (local_dentry e))
     (refused e (ascii ''Testing opening NULL file'') (file_open None (local_dentry e))
     (refused e (ascii ''Testing closing non-open fd'') (\<lambda>s. Some (file_close 0 s))
     (refused e (ascii ''Testing reading non-open fd'') (\<lambda>s. Some (file_read 0 0 0 s))
     (refused e (ascii ''Testing writing non-open fd'') (\<lambda>s. Some (file_write 0 0 0 s))
     (refused e (ascii ''Testing opening NULL dir'') (directory_open None (local_dentry e))
     (refused e (ascii ''Testing reading non-open dir'') (directory_read 0 0 0 (local_dentry e) (local_stack e))
     (refused e (ascii ''Testing closing non-open dir'') (\<lambda>s. Some (directory_close 0 s))
     (refused e (ascii ''Testing writing to dir'') (\<lambda>s. Some (directory_write 0 0 0 s))
     (\<lambda>s. Some (Result PASS, s)))))))))))) s1
   }"

section \<open>The terminal and the system calls\<close>

definition test_terminal_write :: "test_env \<Rightarrow> 'a keyboard_state_scheme \<Rightarrow> (u32, 'a keyboard_state_scheme) test_run" where
  "test_terminal_write e s = do {
     s1 \<leftarrow> TEST_HEADER e (ascii ''test_terminal_write'') 358 (putc 10 (clear s));
     let (ret, s2) = terminal_write 1 (literal_at e (ascii ''391OS> '')) 7 s1;
     Some (Result (if ret = 7 then PASS else FAIL), s2)
   }"

text \<open>\<open>envs\<close> is what happens while the test waits for the line.\<close>

definition test_terminal_read ::
  "test_env \<Rightarrow> ('a keyboard_state_scheme \<Rightarrow> 'a keyboard_state_scheme) list \<Rightarrow> 'a keyboard_state_scheme \<Rightarrow>
   (u32, 'a keyboard_state_scheme) test_run" where
  "test_terminal_read e envs s = do {
     s1 \<leftarrow> TEST_HEADER e (ascii ''test_terminal_read'') 366 s;
     let s2 = snd (terminal_write 1 (literal_at e (ascii ''Welcome to taco bell. Want a baja blast?'' @ [10])) 42 (clear s1));
     (ret, s3) \<leftarrow> terminal_read 0 (local_at e) 128 envs s2;
     let s4 = snd (terminal_write 1 (literal_at e (ascii ''You said: '')) 11 s3);
     Some (Result PASS, snd (terminal_write 1 (local_at e) ret s4))
   }"

fun terminal_scroll_loop ::
  "test_env \<Rightarrow> (nat \<Rightarrow> ('a keyboard_state_scheme \<Rightarrow> 'a keyboard_state_scheme) list) \<Rightarrow> nat list \<Rightarrow>
   'a keyboard_state_scheme \<Rightarrow> 'a keyboard_state_scheme option" where
  "terminal_scroll_loop e envs [] s = Some s"
| "terminal_scroll_loop e envs (i # is) s = do {
     let m = store8 (xlate s) (local_at e + 1) (48 + of_nat (i mod 10)) (store8 (xlate s) (local_at e) (48 + of_nat (i div 10)) (phys s));
     let s1 = snd (terminal_write 1 (local_at e) 2 (s\<lparr>phys := m\<rparr>));
     (r, s2) \<leftarrow> terminal_read 0 (local_at e) 0 (envs i) s1;
     terminal_scroll_loop e envs is s2
   }"

definition test_terminal_scroll ::
  "test_env \<Rightarrow> (nat \<Rightarrow> ('a keyboard_state_scheme \<Rightarrow> 'a keyboard_state_scheme) list) \<Rightarrow> 'a keyboard_state_scheme \<Rightarrow>
   (u32, 'a keyboard_state_scheme) test_run" where
  "test_terminal_scroll e envs s = do {
     s1 \<leftarrow> TEST_HEADER e (ascii ''test_terminal_scroll'') 381 s;
     s2 \<leftarrow> terminal_scroll_loop e envs [0..<50] (clear s1);
     Some (Result PASS, s2)
   }"

definition test_read_syscall ::
  "'a keyboard_state_scheme call_context \<Rightarrow> 'a keyboard_state_scheme \<Rightarrow> (u32, 'a keyboard_state_scheme) test_run" where
  "test_read_syscall ctx s = do { (r, s1) \<leftarrow> read_handler ctx 0 0 0 s; Some (Result PASS, s1) }"

text \<open>A shell that starts does not come back to the test here.\<close>

definition test_execute_syscall ::
  "create_frame \<Rightarrow> u32 \<times> u32 \<Rightarrow> 'a kernel_state_scheme \<Rightarrow> (u32, 'a kernel_state_scheme) test_run" where
  "test_execute_syscall fr regs s =
     (case execute_handler fr regs (lit (ascii ''shell'')) s of
        Some (Return v, s1) \<Rightarrow> Some (Result PASS, s1)
      | _ \<Rightarrow> None)"

text \<open>\<open>TEST_OUTPUT\<close>, which \<open>launch_tests\<close> wraps around the tests it calls: the report of a test that returned.\<close>

definition TEST_OUTPUT ::
  "test_env \<Rightarrow> byte list \<Rightarrow> (u32, 'a console_state_scheme) test_run \<Rightarrow> (u32, 'a console_state_scheme) test_run" where
  "TEST_OUTPUT e name run =
     (case run of
        Some (Result r, s) \<Rightarrow>
          map_option (Pair (Result r) \<circ> snd) (printf (test_conv_buf e) (ascii ''[TEST %s] Result = %s'' @ [10])
            [literal_at e name, literal_at e (ascii (if r \<noteq> 0 then ''PASS'' else ''FAIL''))] s)
      | _ \<Rightarrow> run)"

section \<open>What the tests find\<close>

text \<open>The header of each test prints: the screen and the conversion buffer are usable and the strings are in place.\<close>

definition tests_ready :: "test_env \<Rightarrow> byte list \<Rightarrow> byte list set \<Rightarrow> 'a console_state_scheme \<Rightarrow> bool" where
  "tests_ready e fname names s \<longleftrightarrow>
     screen_ok s \<and> conv_ok s (test_conv_buf e) \<and> paging_inv s \<and> str_behind s (test_conv_buf e) fname (file_at e) \<and>
     (\<forall>name \<in> names. str_behind s (test_conv_buf e) name (literal_at e name))"

definition header_text :: "byte list \<Rightarrow> byte list \<Rightarrow> u32 \<Rightarrow> byte list" where
  "header_text fname name line_no =
     ascii ''[TEST '' @ name @ ascii ''] Running '' @ name @ ascii '' at '' @ fname @ ascii '':'' @ signed_str line_no @ [10]"

lemma is_cstr_unique:
  assumes "is_cstr f xs" "is_cstr f ys"
  shows "xs = ys"
  using is_cstr_cstr[OF assms(1), of "max (length xs) (length ys)"] is_cstr_cstr[OF assms(2), of "max (length xs) (length ys)"]
  by simp

lemma header_printed:
  fixes s :: "'a console_state_scheme"
  assumes "tests_ready e fname names s" "name \<in> names"
  shows "\<exists>s'. TEST_HEADER e name line_no s = Some s' \<and> printed (test_conv_buf e) (header_text fname name line_no) s s' \<and>
    console_frame s s'"
proof -
  let ?fmt = "ascii ''[TEST %s] Running %s at %s:%d'' @ [10]"
  let ?args = "[literal_at e name, literal_at e name, file_at e, line_no]"
  define strs where "strs a = (if a = literal_at e name then name else fname)" for a
  have n: "str_behind s (test_conv_buf e) name (literal_at e name)" "str_behind s (test_conv_buf e) fname (file_at e)"
    using assms by (simp_all add: tests_ready_def)
  have same: "name = fname" if "literal_at e name = file_at e"
    using n that unfolding str_behind_def by (metis is_cstr_unique)
  have fs: "strs (literal_at e name) = name" "strs (file_at e) = fname" using same by (auto simp: strs_def)
  have r: "render strs ?fmt ?args = Some (header_text fname name line_no)"
    by (simp add: ascii_def takes_arg_def render_arg_def header_text_def fs)
  have a: "\<forall>a \<in> set (str_args ?fmt ?args). str_behind s (test_conv_buf e) (strs a) a"
    using n by (simp add: ascii_def takes_arg_def fs)
  obtain s' where s': "printf (test_conv_buf e) ?fmt ?args s = Some (of_nat (length ?fmt), s')"
      "printed (test_conv_buf e) (header_text fname name line_no) s s'"
    using printf_printed[OF _ _ a r] assms(1) by (auto simp: tests_ready_def)
  then show ?thesis using printf_frame[OF s'(1)] by (auto simp: TEST_HEADER_def)
qed

lemma test_paging_frame: "console_frame s s' \<Longrightarrow> paging_inv s' = paging_inv s"
  by (simp add: console_frame_def paging_inv_def directory_inv_def table_inv_def)

lemma translate_frame: "console_frame s s' \<Longrightarrow> translate s' a = translate s a"
  by (simp add: console_frame_def translate_def walk_def Let_def)

text \<open>A newline before the header.\<close>

lemma newline_ready:
  assumes "tests_ready e fname names s"
  shows "tests_ready e fname names (putc c s)" "console_frame s (putc c s)"
proof -
  have "printed (test_conv_buf e) [c] s (putc c s)" using assms printed_fold[of s "test_conv_buf e" "[c]"] by (simp add: tests_ready_def)
  then show "tests_ready e fname names (putc c s)"
    using assms str_behind_printed printed_ok test_paging_frame[OF console_frame_putc]
    unfolding tests_ready_def by blast
  show "console_frame s (putc c s)" by (rule console_frame_putc)
qed

lemma newline_header:
  fixes s :: "'a console_state_scheme"
  assumes "tests_ready e fname names s" "name \<in> names"
  shows "\<exists>s'. TEST_HEADER e name line_no (putc 10 s) = Some s' \<and> console_frame s s'"
  using header_printed[OF newline_ready(1)[OF assms(1), of 10] assms(2)] newline_ready(2)[OF assms(1), of 10]
  by (meson console_frame_trans)

definition ends :: "(u32, 's) test_run \<Rightarrow> u32 outcome \<Rightarrow> bool" where
  "ends run r \<longleftrightarrow> (\<exists>s. run = Some (r, s))"

text \<open>The first page is not mapped; the text page is.\<close>

lemma dereference_low:
  assumes "paging_inv s"
  shows "dereference 1 s = Raised 14" "\<exists>w. dereference 0xB8000 s = Result w"
proof -
  have "walk s 1 = None" using walk_low[OF assms, of 1] by simp
  then have "translate s (1 + of_nat 0) = None" by (simp add: translate_def)
  then show "dereference 1 s = Raised 14" unfolding dereference_def by (metis zero_less_numeral)
  have "translate s (0xB8000 + of_nat k) \<noteq> None" if "k < 4" for k
  proof -
    have "(0xB8000 + of_nat k :: u32) = of_nat (0xB8 * 4096 + k)" by simp
    then show ?thesis using walk_page[OF assms, of "0xB8" k] that by simp
  qed
  then show "\<exists>w. dereference 0xB8000 s = Result w" by (simp add: dereference_def)
qed

lemma dereference_test_ends:
  assumes "tests_ready e fname names s" "name \<in> names"
  shows "a = 1 \<Longrightarrow> ends (dereference_test e name ln a s) (Raised 14)"
    "a = 0xB8000 \<Longrightarrow> ends (dereference_test e name ln a s) (Result PASS)"
proof -
  obtain s1 where s1: "TEST_HEADER e name ln s = Some s1" "console_frame s s1" using header_printed[OF assms] by blast
  have "paging_inv s1" using assms(1) test_paging_frame[OF s1(2)] by (simp add: tests_ready_def)
  note d = dereference_low[OF this]
  show "a = 1 \<Longrightarrow> ends (dereference_test e name ln a s) (Raised 14)"
    using d(1) s1(1) by (simp add: dereference_test_def ends_def)
  show "a = 0xB8000 \<Longrightarrow> ends (dereference_test e name ln a s) (Result PASS)"
    using d(2) s1(1) by (auto simp: dereference_test_def ends_def)
qed

text \<open>No descriptor of the kernel's own is 0 or 1: \<open>open\<close> answers -1 or at least 2.\<close>

lemma open_fd_not_0: "fst (open_fd ops ino pos flgs s) \<noteq> 0"
proof (cases rule: first_index_cases[of "\<lambda>i. inode (cur_fd s i) = - 1" 2 8])
  case 1
  then show ?thesis by (simp add: open_fd_def get_free_fd_def)
next
  case (2 i)
  have "i < 8" using 2 by simp
  then have "unat (of_nat i :: u32) = i" by (intro unat_of_nat32) simp
  then have "(of_nat i :: u32) \<noteq> 0" using 2(2) by (metis unat_0 not_numeral_le_zero)
  then show ?thesis using 2 by (simp add: open_fd_def get_free_fd_def Let_def)
qed

section \<open>The outcomes\<close>

definition test_names :: "byte list set" where
  "test_names = {ascii ''idt_test'', ascii ''div0_test'', ascii ''page_fault_test'', ascii ''page_dereference_succeed_test'',
     ascii ''page_dereference_fail_test'', ascii ''test_rtc_freq_fail'', ascii ''test_rtc_freq_success'',
     ascii ''test_rtc_byte'', ascii ''test_rtc_open'', ascii ''test_fs_close''}"

text \<open>The gates \<open>initialize_idt\<close> leaves; the table was empty before.\<close>

definition gates_set :: "(stub \<Rightarrow> u32) \<Rightarrow> 'a boot_state_scheme \<Rightarrow> bool" where
  "gates_set addr_of s \<longleftrightarrow> (\<forall>x. addr_of x \<noteq> 0) \<and>
     (\<forall>v < 20. idt s v = (case service v of None \<Rightarrow> empty_gate | Some (e, _) \<Rightarrow> SET_IDT_INTR_ENTRY (addr_of e) KERNEL_CS 0))"

lemma idt_frame:
  fixes s s' :: "'a boot_state_scheme"
  shows "console_frame s s' \<Longrightarrow> idt s' = idt s"
  by (cases s; cases s') (simp add: console_frame_def)

lemma gate_offset_zero:
  assumes "offset_15_00 (SET_IDT_INTR_ENTRY h g p) = 0" "offset_31_16 (SET_IDT_INTR_ENTRY h g p) = 0"
  shows "h = 0"
proof -
  have "unat h mod 2 ^ 16 = 0" "unat h div 2 ^ 16 = 0"
    using assms handler_halves[of h] by (simp_all add: SET_IDT_INTR_ENTRY_def SET_IDT_ENTRY_def)
  then have "unat h = 0" by (metis add_0 div_mult_mod_eq mult_0)
  then show ?thesis by (simp add: unat_eq_zero)
qed

lemma idt_test_ends:
  fixes s :: "'a boot_state_scheme"
  assumes t: "tests_ready e fname test_names s" and g: "gates_set addr_of s"
  shows "ends (idt_test e s) (Result PASS)"
proof -
  have "ascii ''idt_test'' \<in> test_names" by (simp add: test_names_def)
  from header_printed[OF t this] obtain s1 where s1: "TEST_HEADER e (ascii ''idt_test'') 37 s = Some s1" "console_frame s s1"
    by blast
  have i: "idt s1 = idt s" by (rule idt_frame[OF s1(2)])
  have nz: "offset_31_16 (idt s v) \<noteq> 0" if "v < 10" "v \<noteq> 1" "offset_15_00 (idt s v) = 0" for v
  proof
    assume z: "offset_31_16 (idt s v) = 0"
    have "v \<in> {0, 2, 3, 4, 5, 6, 7, 8, 9}" using that(1,2) by auto
    then obtain x where "service v = Some (x, False, 0)" by (auto simp: service_def exception_vectors_def)
    moreover have "v < 20" using that by simp
    ultimately have "idt s v = SET_IDT_INTR_ENTRY (addr_of x) KERNEL_CS 0" using g by (fastforce simp: gates_set_def)
    then show False using z that(3) gate_offset_zero g by (metis gates_set_def)
  qed
  have "idt_test_loop is r s1 = Result r" if "set is \<subseteq> {..<10}" for "is" r
    using that by (induction "is") (use nz i in fastforce)+
  then have "idt_test_loop [0..<10] PASS s1 = Result PASS" by (metis atLeast0LessThan set_upt subset_refl)
  then show ?thesis using s1(1) by (simp add: idt_test_def ends_def)
qed

lemma assertion_vector: "gates_set addr_of s \<Longrightarrow> assertion_failure s = 11"
proof -
  assume g: "gates_set addr_of s"
  have "service 15 = None" by (simp add: service_def exception_vectors_def)
  then have "idt s 15 = empty_gate" using g by (simp add: gates_set_def)
  then show ?thesis by (simp add: assertion_failure_def empty_gate_def)
qed

lemma rtc_write_test_result:
  fixes s :: "'a kernel_state_scheme"
  assumes t: "tests_ready e fname names s" "name \<in> names" and l: "inj_on (xlate s) (region (local_at e) 4)" "local_at e \<noteq> 0"
  shows "\<exists>s'. rtc_write_test e name ln f n s =
    Some (if n \<noteq> 4 \<or> f AND (f - 1) \<noteq> 0 \<or> f < 2 \<or> f > 1024 then - 1 else n, s')"
proof -
  obtain s1 where s1: "TEST_HEADER e name ln (putc 10 s) = Some s1" "console_frame s s1"
    using newline_header[OF t] by blast
  have "inj_on (xlate s1) (region (local_at e) 4)" using l(1) console_frame_xlate[OF s1(2)] by simp
  note w = load32_store32_same[OF this, of f "phys s1"]
  show ?thesis using s1(1) l(2) w by (auto simp: rtc_write_test_def rtc_write_def Let_def)
qed

lemma directory_open_result:
  assumes "is_cstr f name" "length name < 2 ^ 31"
  shows "\<exists>r s'. directory_open (Some f) d s = Some (r, s') \<and> r \<noteq> 0 \<and> (s' = s \<or> (\<exists>k g. s' = upd_fd k g s))"
proof -
  obtain q where q: "read_dentry_by_name (xlate s) (phys s) (fs_img_start s) (Some f) d = Some q"
    using read_dentry_by_name_find[OF assms] by blast
  have "open_fd directory_jumptable i 0 0 s = (r, s') \<Longrightarrow> s' = s \<or> (\<exists>k g. s' = upd_fd k g s)" for i r s'
    by (auto simp: open_fd_def Let_def split: if_splits)
  then show ?thesis using q open_fd_not_0[of directory_jumptable _ 0 0 s]
    by (cases q; cases "open_fd directory_jumptable (inode_num (snd q)) 0 0 s")
      (auto simp: directory_open_def split: if_splits, metis fst_conv)
qed

lemma screen_upd_fd [simp]:
  "screen_ok (upd_fd k g s) = screen_ok s" "conv_ok (upd_fd k g s) cb = conv_ok s cb" "paging_inv (upd_fd k g s) = paging_inv s"
  by (simp_all add: screen_ok_def linear_page_def conv_ok_def paging_inv_def directory_inv_def table_inv_def upd_fd_def upd_pcb_def)

lemma idt_upd_fd [simp]: "idt (upd_fd k g s) = idt s"
  by (simp add: upd_fd_def upd_pcb_def)

lemma printed_ready:
  assumes "tests_ready e fname names s" "printed (test_conv_buf e) xs s s'" "console_frame s s'"
  shows "tests_ready e fname names s'"
  using assms str_behind_printed printed_ok test_paging_frame[OF assms(3)] unfolding tests_ready_def by blast

lemma test_fs_close_ends:
  fixes s :: "'a boot_state_scheme"
  assumes t: "tests_ready e fname test_names s" and g: "gates_set addr_of s"
  shows "ends (test_fs_close e s) (Raised 11)"
proof -
  have "ascii ''test_fs_close'' \<in> test_names" by (simp add: test_names_def)
  from header_printed[OF t this] obtain s1 where s1: "TEST_HEADER e (ascii ''test_fs_close'') 291 s = Some s1"
    "printed (test_conv_buf e) (header_text fname (ascii ''test_fs_close'') 291) s s1" "console_frame s s1" by blast
  note t1 = printed_ready[OF t s1(2,3)]
  have "is_cstr (lit (ascii ''.'')) (ascii ''.'')" by (rule lit_is_cstr) (simp_all add: ascii_def)
  then obtain r s2 where o: "directory_open (Some (lit (ascii ''.''))) (local_dentry e) s1 = Some (r, s2)" "r \<noteq> 0"
      "s2 = s1 \<or> (\<exists>k g. s2 = upd_fd k g s1)"
    using directory_open_result[of "lit (ascii ''.'')" "ascii ''.''" "local_dentry e" s1] by (auto simp: ascii_def)
  have ok: "screen_ok s2" "conv_ok s2 (test_conv_buf e)" "idt s2 = idt s1" using o(3) t1 by (auto simp: tests_ready_def)
  let ?fmt = "ascii ''cur_fd: %d'' @ [10]"
  have "\<exists>xs. render (\<lambda>_. []) ?fmt [r] = Some xs" "str_args ?fmt [r] = []" by (simp_all add: ascii_def takes_arg_def)
  then obtain n s3 where s3: "printf (test_conv_buf e) ?fmt [r] s2 = Some (n, s3)"
    using printf_printed[OF ok(1,2), of ?fmt "[r]" "\<lambda>_. []"] by auto
  have "idt s3 = idt s" using idt_frame[OF printf_frame[OF s3]] ok(3) idt_frame[OF s1(3)] by simp
  then have "assertion_failure s3 = 11" using assertion_vector[OF g] by (simp add: assertion_failure_def)
  then show ?thesis using s1(1) o(1,2) s3 by (simp add: test_fs_close_def report_fd_def ends_def)
qed


text \<open>A booted machine: the texts 64 bytes apart from \<open>0x410000\<close> on.\<close>

definition test_texts :: "byte list list" where
  "test_texts = map ascii [''idt_test'', ''div0_test'', ''page_fault_test'', ''page_dereference_succeed_test'',
     ''page_dereference_fail_test'', ''test_rtc_freq_fail'', ''test_rtc_freq_success'', ''test_rtc_byte'',
     ''test_rtc_open'', ''test_fs_close'', ''tests.c'']"

definition test_place :: "byte list \<Rightarrow> addr" where
  "test_place t = 0x410000 + of_nat (64 * length (takeWhile (\<lambda>x. x \<noteq> t) test_texts))"

definition booted :: boot_state where
  "booted = (keyboard_state.extend fresh_keyboard
     \<lparr>idt = (\<lambda>v. case service v of None \<Rightarrow> empty_gate | Some (x, _) \<Rightarrow> SET_IDT_INTR_ENTRY 0x420000 KERNEL_CS 0),
      idt_loaded = True, ldt_desc_ptr = zero_seg, tss_desc_ptr = zero_seg, ldtr = 0,
      task_register = 0, tss_ldt_selector = 0, tss_ss0 = 0\<rparr>)
     \<lparr>phys := (\<lambda>p. if 0x410000 \<le> unat p then text_byte test_texts (unat p - 0x410000) else 0)\<rparr>"

definition booted_env :: test_env where
  "booted_env = \<lparr>literal_at = test_place, test_conv_buf = 0x7F0000, file_at = test_place (ascii ''tests.c''),
     local_at = 0x7E0000, local_dentry = \<lparr>file_name = [], file_type = 0, inode_num = 0\<rparr>, local_stack = (\<lambda>_. 0)\<rparr>"

lemma booted_fields:
  "page_directory booted = page_directory fresh_kernel" "page_table booted = page_table fresh_kernel"
  "pt_addr booted = pt_addr fresh_kernel" "screen_x booted = 0" "screen_y booted = 0"
  "phys booted = (\<lambda>p. if 0x410000 \<le> unat p then text_byte test_texts (unat p - 0x410000) else 0)"
  "idt booted = (\<lambda>v. case service v of None \<Rightarrow> empty_gate | Some (x, _) \<Rightarrow> SET_IDT_INTR_ENTRY 0x420000 KERNEL_CS 0)"
  by (simp_all add: booted_def keyboard_state.defs fresh_keyboard_tables)

lemma booted_paging: "paging_inv booted"
  using fresh_kernel_paging(1) by (simp add: paging_inv_def directory_inv_def table_inv_def booted_fields)

lemma booted_text:
  assumes t: "t \<in> set test_texts"
  shows "str_behind booted 0x7F0000 t (test_place t)"
  unfolding str_behind_def
proof (intro allI impI)
  fix m
  assume m: "\<forall>p. unat p div 4096 \<noteq> 0xB8 \<and> p \<notin> xlate booted ` region 0x7F0000 64 \<longrightarrow> m p = phys booted p"
  define k where "k = length (takeWhile (\<lambda>x. x \<noteq> t) test_texts)"
  have k: "k < length test_texts" "test_texts ! k = t"
    using t nth_length_takeWhile[of "\<lambda>x. x \<noteq> t" test_texts] length_takeWhile_neq[OF t] by (auto simp: k_def)
  have n: "length test_texts = 11" by (simp add: test_texts_def)
  have len: "length t < 64" "0 \<notin> set t" using t by (auto simp: test_texts_def ascii_def)
  have a: "test_place t = 0x410000 + of_nat (64 * k)" by (simp add: test_place_def k_def)
  have u: "unat (test_place t) = 0x410000 + 64 * k"
    unfolding a using k(1) n by (subst unat_add_of_nat32) simp_all
  have l: "load8 (xlate booted) m (test_place t + of_nat i) = (if i < length t then t ! i else 0)"
    if i: "i < length t + 1" for i
  proof -
    have p: "unat (test_place t + of_nat i) = 0x410000 + (64 * k + i)"
      using u i len(1) k(1) n by (simp add: unat_add_of_nat32)
    have x: "xlate booted (test_place t + of_nat i) = test_place t + of_nat i"
      using p k(1) n i len(1) by (intro xlate_kernel[OF booted_paging]) simp_all
    have "test_place t + of_nat i \<notin> xlate booted ` region 0x7F0000 64"
    proof
      assume "test_place t + of_nat i \<in> xlate booted ` region 0x7F0000 64"
      then obtain j where j: "j < 64" "test_place t + of_nat i = xlate booted (0x7F0000 + of_nat j)" by (auto simp: region_def)
      have "unat (0x7F0000 + of_nat j :: u32) = 0x7F0000 + j" using j(1) by (simp add: unat_add_of_nat32)
      moreover from this have "xlate booted (0x7F0000 + of_nat j) = 0x7F0000 + of_nat j"
        using j(1) by (intro xlate_kernel[OF booted_paging]) simp_all
      ultimately have "0x410000 + (64 * k + i) = 0x7F0000 + j" using j(2) p by simp
      then show False using k(1) n i len(1) by simp
    qed
    moreover have "unat (test_place t + of_nat i) div 4096 \<noteq> 0xB8" using p by simp
    ultimately have "m (test_place t + of_nat i) = phys booted (test_place t + of_nat i)" using m by blast
    moreover have "(64 * k + i) div 64 = k" "(64 * k + i) mod 64 = i" using i len(1) by simp_all
    ultimately show ?thesis using p k by (simp add: load8_def x booted_fields text_byte_def)
  qed
  show "is_cstr (ptr (xlate booted) m (test_place t)) t"
    using l len by (auto simp: is_cstr_def ptr_def in_set_conv_nth)
qed

lemma booted_ready: "tests_ready booted_env (ascii ''tests.c'') test_names booted"
  unfolding tests_ready_def
proof (intro conjI ballI)
  show "screen_ok booted" using linear_video[OF booted_paging] by (simp add: screen_ok_def booted_fields)
  show "conv_ok booted (test_conv_buf booted_env)"
    unfolding booted_env_def test_env.simps by (rule conv_ok_kernel[OF booted_paging]) simp_all
  show "paging_inv booted" by (rule booted_paging)
  show "str_behind booted (test_conv_buf booted_env) (ascii ''tests.c'') (file_at booted_env)"
    unfolding booted_env_def test_env.simps by (rule booted_text) (simp add: test_texts_def)
  fix name
  assume "name \<in> test_names"
  then have "name \<in> set test_texts" by (auto simp: test_names_def test_texts_def)
  then show "str_behind booted (test_conv_buf booted_env) name (literal_at booted_env name)"
    unfolding booted_env_def test_env.simps by (rule booted_text)
qed

lemma booted_local: "inj_on (xlate booted) (region (local_at booted_env) 4)" "local_at booted_env \<noteq> 0"
proof -
  have "xlate booted a = a" if mem: "a \<in> region 0x7E0000 4" for a
  proof -
    obtain i where i: "i < 4" "a = 0x7E0000 + of_nat i" using mem unfolding region_def by blast
    then have "unat a = 0x7E0000 + i" by (simp add: unat_add_of_nat32)
    then show ?thesis using i(1) by (intro xlate_kernel[OF booted_paging]) simp_all
  qed
  then show "inj_on (xlate booted) (region (local_at booted_env) 4)" "local_at booted_env \<noteq> 0"
    by (simp_all add: booted_env_def inj_on_def)
qed


end
