(* ===== verification/Spec2Isabelle.thy ===== *)
theory Spec2Isabelle
  imports Test_Runs Fish_Runs Self_Tests
begin

text \<open>
  This development models the kernel of \<open>src/student-distrib\<close>, a small monolithic operating system for
  the i386 with six processes, three terminals, a read-only file system and ten system calls, together
  with the user programs of \<open>src/syscalls\<close> and the program \<open>src/fish\<close> that run on it.

  \<^bold>\<open>The program.\<close> \<open>entry\<close> (\<open>kernel.c\<close>) prints what the boot loader passed, sets up the descriptor tables,
  paging, the interrupt controllers, the clock and the keyboard, and starts the first shell. From then on
  the kernel runs only when it is entered: through the system call gate (\<open>interrupts/syscall.S\<close>, which
  checks the number and calls a handler of \<open>interrupts/syscall_handler.c\<close>), through a key
  (\<open>interrupts/keyboard.c\<close>), through a tick of the clock (\<open>interrupts/rtc.c\<close>, which also gives the processor
  to the next terminal) or through an exception. A process has a 4 MB window at 128 MB, a descriptor table
  in its control block, whose entries point to one of four jump tables (directory, file, clock, terminal),
  and the terminal it belongs to. What it prints goes to the page of its terminal, which is the video memory
  while that terminal is displayed.

  \<^bold>\<open>How the theories follow the code.\<close>
  \<^item> \<open>Prelude\<close>: the word types, byte memory with an address translation in front of it, accesses of one, two
    and four bytes, C strings, and the collection \<open>mem_simps\<close> of facts about loads and stores.
  \<^item> \<open>C_Library\<close>: the string, number and memory routines of \<open>lib.c\<close>; the inline assembly of \<open>memset\<close>, \<open>memcpy\<close>
    and \<open>memmove\<close> is translated phase by phase.
  \<^item> \<open>Machine\<close>: memory, the interrupt flag, and the bytes sent to ports in order (\<open>lib.h\<close>).
  \<^item> \<open>Paging\<close>: the directory and the table as words with their bit fields, \<open>paging.c\<close> and the walk of the
    processor, with the stale translations a missing flush would leave.
  \<^item> \<open>I8259\<close>: the two interrupt controllers (\<open>i8259.c\<close>).
  \<^item> \<open>Console\<close> and \<open>Printf\<close>: the screen, the three text pages, cursors and scrolling, and \<open>printf\<close> (\<open>lib.c\<close>).
  \<^item> \<open>File_System\<close>: the image of \<open>fs.c\<close> as memory: both directory lookups and \<open>read_data\<close>.
  \<^item> \<open>Kernel_State\<close>, \<open>Devices\<close>: control blocks and descriptors (\<open>interrupts/syscall_handler.h\<close>), and the
    operations behind the jump tables of files, directories and the clock (\<open>fs.c\<close>, \<open>interrupts/rtc.c\<close>).
  \<^item> \<open>Process\<close>: creation, start and switch of processes, \<open>execute\<close>, \<open>halt\<close>, \<open>vidmap\<close> and \<open>getargs\<close>.
  \<^item> \<open>RTC\<close>, \<open>Keyboard\<close>, \<open>Syscall\<close>: the two interrupt handlers, the scheduler, the terminals, and the dispatch
    of the system calls.
  \<^item> \<open>Display\<close>, \<open>Stacks\<close>, \<open>System\<close>: the invariants of the whole kernel and its step relation.
  \<^item> \<open>Descriptors\<close>, \<open>Boot\<close>: \<open>x86_desc.h\<close>, \<open>idt.c\<close>, \<open>exception_handlers.c\<close>, and \<open>entry\<close> with \<open>multiboot.h\<close>.
  \<^item> \<open>Self_Tests\<close>: the kernel's own tests (\<open>tests.c\<close>).
  \<^item> \<open>User_Library\<close>, \<open>User_Programs\<close>, \<open>User_Tests\<close>: the library, the programs and the error tests of
    \<open>src/syscalls\<close>. A program is a function of the state of the whole machine; every call it makes goes
    through the kernel's dispatcher.
  \<^item> \<open>Blink\<close>, \<open>Fish\<close>: the linked list of blinking characters (\<open>blink.S\<close>) and the program \<open>fish.c\<close>.
  \<^item> \<open>User_Runs\<close>, \<open>File_Runs\<close>, \<open>Test_Runs\<close>, \<open>Fish_Runs\<close>: what whole programs do on the kernel, and in
    \<open>User_Image\<close> the machine on which these results are applied.

  \<^bold>\<open>State.\<close> The state is one record, extended component by component in the order above: \<open>machine\<close>,
  \<open>paging_state\<close>, \<open>pic_state\<close>, \<open>console_state\<close>, \<open>kernel_state\<close>, \<open>rtc_state\<close>, \<open>keyboard_state\<close>,
  \<open>boot_state\<close>. A field is the global variable of the same name. An operation takes the smallest of these
  records, so that it applies to every extension and leaves what it cannot name. A function of the code that
  may not come back has an option as its result: None stands for a loop that never ends, an exception whose
  handler loops for ever, or a jump through a NULL pointer. A handler that leaves by another way than a return
  (the start of a process, the resumption of its parent) says so in its result type.

  \<^bold>\<open>Interfaces.\<close> \<open>char_output\<close> is what a routine that puts characters promises to one that prints strings; it
  is interpreted on the screen and on each terminal. \<open>output_invariant\<close> is a predicate that every character
  written by \<open>printf\<close> keeps; its interpretations give the frame of \<open>printf\<close>, the masks during boot and the
  invariant of the display. \<open>fd_driver\<close> is the contract of a driver's open and close over the descriptor
  table, interpreted on files, directories and the clock.

  \<^bold>\<open>What the lemmas show.\<close>
  \<^item> The kernel as a whole: every state reached from power-on keeps the invariant of display and
    descriptors, and the process table represents a stack of processes for each terminal, moved by each step
    as the abstract machine of \<open>Stacks\<close> allows, unless the last shell of a terminal cannot be restarted, after
    which no process is left; every terminal that has a process gets the processor again.
  \<^item> Isolation: windows of different processes do not overlap, user mode reaches its window and the text
    pages only, output reaches the terminal of the process that prints.
  \<^item> Each component: functional behaviour on every branch, errors included; refinement of the byte pages by
    an abstract terminal; round trips of execute and halt, open and close, \<open>itoa\<close> and \<open>atoi\<close>; bounds.
  \<^item> Programs: \<open>cat\<close>, \<open>ls\<close> and the loader of \<open>fish\<close> do on this kernel what their output is meant to be, and
    the error tests pass; the linked list of \<open>blink.S\<close> refines operations on a list.
  \<^item> Defects: the theorems about the line buffer, the slot at location 0, the text pages and the tests that
    cannot pass are statements of what the code does where this is not what it means to do.

  \<^bold>\<open>Loops and fuel.\<close> No model is bounded by fuel. Loops with a bound in the code are recursive functions with a
  measure; the others are \<open>partial_function (option)\<close>, and that they return is part of the statements about
  them. Waiting loops (\<open>rtc_read\<close>, \<open>terminal_read\<close>) take the list of what happens during the wait, a
  \<open>call_context\<close> collects these for one system call and a program takes a stream of call contexts; a wait
  that is not over at the end of its list has not returned. A reader of the
  clock returns after exactly the ticks of its period; a terminal with a process runs again within 24 ticks,
  8 for each of the three terminals.

  \<^bold>\<open>Parameters.\<close> Arguments of the definitions that use them: bytes read from ports; addresses chosen by the linker
  or the compiler (strings, local arrays, the conversion buffer); what uninitialised structures and the memory
  behind the key table hold; the program a user program executes; the saved registers of the interrupted
  program.

  \<^bold>\<open>Not modelled.\<close> Saving and restoring registers in the assembly stubs, loading the GDT and the jump to C in
  \<open>boot.S\<close>; the port macros of \<open>lib.h\<close> that nothing here calls; the debugging macros of \<open>debug.h\<close>, which expand
  to nothing; the signal test, which needs signals the kernel does not have (\<open>set_handler\<close> and \<open>sigreturn\<close> print
  and fail, as modelled); the replacement of the system calls for Linux hosts, which consists of calls of that
  system; make files and binary images. Between its system calls a user program runs uninterrupted; the
  interrupts it sees are those during its calls. The endless repetition of \<open>pingpong\<close> is given by its start and its
  round, and \<open>fish\<close> is followed up to the start of the blinking, whose tick is treated in \<open>Blink\<close>.
\<close>

end
